(* ===== verification/Prelude.thy ===== *)
theory Prelude
  imports Main "HOL-Library.Word"
begin

unbundle bit_operations_syntax

text \<open>
  Shared vocabulary of the development: bytes, Rust's \<open>Result\<close> as a sum with its
  sequencing operator, \<open>usize\<close> arithmetic with the overflow checks written out (a 64-bit
  target), slice access that fails out of range, and little-endian integers.
  The lemma collections \<open>result_simps\<close> (inversion of successful results) and
  \<open>usize_simps\<close> (checked arithmetic) are used throughout the component theories.
\<close>

named_theorems result_simps
named_theorems usize_simps

type_synonym byte = "8 word"
type_synonym bytes = "8 word list"

section \<open>Results\<close>

text \<open>\<open>rbind\<close> is the \<open>?\<close> operator: the first error is returned, nothing after it runs.\<close>

primrec rbind :: "'e + 'a \<Rightarrow> ('a \<Rightarrow> 'e + 'b) \<Rightarrow> 'e + 'b" where
  "rbind (Inl e) f = Inl e"
| "rbind (Inr a) f = f a"

primrec ok_or :: "'a option \<Rightarrow> 'e \<Rightarrow> 'e + 'a" where
  "ok_or None e = Inl e"
| "ok_or (Some a) e = Inr a"

primrec is_ok :: "'e + 'a \<Rightarrow> bool" where
  "is_ok (Inl e) = False"
| "is_ok (Inr a) = True"

text \<open>A \<open>for\<close> loop whose body may fail, threading a state.\<close>

primrec rfold :: "('a \<Rightarrow> 's \<Rightarrow> 'e + 's) \<Rightarrow> 'a list \<Rightarrow> 's \<Rightarrow> 'e + 's" where
  "rfold f [] s = Inr s"
| "rfold f (x # xs) s = rbind (f x s) (rfold f xs)"

primrec rmap :: "('a \<Rightarrow> 'e + 'b) \<Rightarrow> 'a list \<Rightarrow> 'e + 'b list" where
  "rmap f [] = Inr []"
| "rmap f (x # xs) = rbind (f x) (\<lambda>y. rbind (rmap f xs) (\<lambda>ys. Inr (y # ys)))"

lemma rbind_Inr_iff [result_simps]:
  "rbind m f = Inr b \<longleftrightarrow> (\<exists>a. m = Inr a \<and> f a = Inr b)"
  by (cases m) auto

lemma rbind_pair_iff:
  "rbind m (\<lambda>(x, p). f x p) = Inr b \<longleftrightarrow> (\<exists>x p. m = Inr (x, p) \<and> f x p = Inr b)"
  by (cases m) auto

lemma rbind_Inl_iff:
  "rbind m f = Inl e \<longleftrightarrow> m = Inl e \<or> (\<exists>a. m = Inr a \<and> f a = Inl e)"
  by (cases m) auto

lemma ok_or_Inr_iff [result_simps]: "ok_or x e = Inr a \<longleftrightarrow> x = Some a"
  by (cases x) auto

lemma if_Inl_Inr_iff [result_simps]:
  "((if c then Inl e else m) = Inr b) \<longleftrightarrow> \<not> c \<and> m = Inr b"
  by auto

lemma if_Inr_Inl_iff [result_simps]:
  "((if c then m else Inl e) = Inr b) \<longleftrightarrow> c \<and> m = Inr b"
  by auto

lemma is_ok_iff: "is_ok r \<longleftrightarrow> (\<exists>a. r = Inr a)"
  by (cases r) auto

lemma rbind_cong [fundef_cong]:
  "m = m' \<Longrightarrow> (\<And>a. m' = Inr a \<Longrightarrow> f a = f' a) \<Longrightarrow> rbind m f = rbind m' f'"
  by (cases m') auto

lemma rbind_assoc: "rbind (rbind m f) g = rbind m (\<lambda>a. rbind (f a) g)"
  by (cases m) auto

lemma rfold_append: "rfold f (xs @ ys) s = rbind (rfold f xs s) (rfold f ys)"
  by (induction xs arbitrary: s) (auto simp: rbind_assoc intro: rbind_cong)

lemma rfold_invariant:
  assumes "rfold f xs s = Inr t" and "I s"
    and "\<And>x u v. x \<in> set xs \<Longrightarrow> I u \<Longrightarrow> f x u = Inr v \<Longrightarrow> I v"
  shows "I t"
  using assms
proof (induction xs arbitrary: s)
  case Nil
  then show ?case by simp
next
  case (Cons x xs)
  from Cons.prems(1) obtain u where u: "f x s = Inr u" "rfold f xs u = Inr t"
    by (auto simp: result_simps)
  have "I u" using Cons.prems(2,3) u(1) by (metis list.set_intros(1))
  then show ?case using Cons.IH [OF u(2)] Cons.prems(3) by (meson list.set_intros(2))
qed

lemma rfold_Inl:
  "rfold f xs s = Inl e \<Longrightarrow> \<exists>x\<in>set xs. \<exists>u. f x u = Inl e"
  by (induction xs arbitrary: s) (auto simp: rbind_Inl_iff)

lemma rfold_unit_iff:
  "rfold (\<lambda>(x, y) _. if P x then Inl e else Inr ()) xs () = Inr () \<longleftrightarrow> (\<forall>(x, y)\<in>set xs. \<not> P x)"
  by (induction xs) (auto split: prod.splits)

section \<open>Machine arithmetic\<close>

text \<open>\<open>usize\<close> and \<open>u64\<close> values are natural numbers below \<open>2 ^ 64\<close>.\<close>

abbreviation usize_limit :: nat where
  "usize_limit \<equiv> 18446744073709551616"

definition checked_add :: "nat \<Rightarrow> nat \<Rightarrow> nat option" where
  "checked_add a b = (if a + b < usize_limit then Some (a + b) else None)"

definition checked_mul :: "nat \<Rightarrow> nat \<Rightarrow> nat option" where
  "checked_mul a b = (if a * b < usize_limit then Some (a * b) else None)"

definition checked_sub :: "nat \<Rightarrow> nat \<Rightarrow> nat option" where
  "checked_sub a b = (if b \<le> a then Some (a - b) else None)"

definition saturating_add :: "nat \<Rightarrow> nat \<Rightarrow> nat" where
  "saturating_add a b = min (a + b) (usize_limit - 1)"

definition saturating_mul :: "nat \<Rightarrow> nat \<Rightarrow> nat" where
  "saturating_mul a b = min (a * b) (usize_limit - 1)"

lemma checked_add_Some [usize_simps]:
  "checked_add a b = Some c \<longleftrightarrow> a + b < usize_limit \<and> c = a + b"
  by (auto simp: checked_add_def)

lemma checked_add_None [usize_simps]: "checked_add a b = None \<longleftrightarrow> usize_limit \<le> a + b"
  by (auto simp: checked_add_def)

lemma checked_mul_Some [usize_simps]:
  "checked_mul a b = Some c \<longleftrightarrow> a * b < usize_limit \<and> c = a * b"
  by (auto simp: checked_mul_def)

lemma checked_mul_None [usize_simps]: "checked_mul a b = None \<longleftrightarrow> usize_limit \<le> a * b"
  by (auto simp: checked_mul_def)

lemma checked_sub_Some [usize_simps]: "checked_sub a b = Some c \<longleftrightarrow> b \<le> a \<and> c = a - b"
  by (auto simp: checked_sub_def)

lemma checked_sub_None [usize_simps]: "checked_sub a b = None \<longleftrightarrow> a < b"
  by (auto simp: checked_sub_def)

section \<open>Slices\<close>

text \<open>\<open>bytes.get(i..j)\<close>: \<open>None\<close> unless \<open>i \<le> j \<le> len\<close>.\<close>

definition get_range :: "'a list \<Rightarrow> nat \<Rightarrow> nat \<Rightarrow> 'a list option" where
  "get_range xs i j = (if i \<le> j \<and> j \<le> length xs then Some (take (j - i) (drop i xs)) else None)"

text \<open>\<open>bytes.get(i..)\<close>.\<close>

definition get_from :: "'a list \<Rightarrow> nat \<Rightarrow> 'a list option" where
  "get_from xs i = (if i \<le> length xs then Some (drop i xs) else None)"

text \<open>\<open>bytes.get(i)\<close>.\<close>

definition get_at :: "'a list \<Rightarrow> nat \<Rightarrow> 'a option" where
  "get_at xs i = (if i < length xs then Some (xs ! i) else None)"

text \<open>\<open>memchr(0, tail)\<close>: the offset of the first NUL byte.\<close>

primrec memchr0 :: "bytes \<Rightarrow> nat option" where
  "memchr0 [] = None"
| "memchr0 (b # bs) = (if b = 0 then Some 0 else map_option Suc (memchr0 bs))"

lemma get_range_Some:
  "get_range xs i j = Some ys \<longleftrightarrow> i \<le> j \<and> j \<le> length xs \<and> ys = take (j - i) (drop i xs)"
  by (auto simp: get_range_def)

lemma get_range_append [simp]:
  "get_range (xs @ ys @ zs) (length xs) (length xs + length ys) = Some ys"
  by (simp add: get_range_def)

lemma get_from_Some: "get_from xs i = Some ys \<longleftrightarrow> i \<le> length xs \<and> ys = drop i xs"
  by (auto simp: get_from_def)

lemma get_at_Some: "get_at xs i = Some x \<longleftrightarrow> i < length xs \<and> x = xs ! i"
  by (auto simp: get_at_def)

lemma memchr0_Some:
  "memchr0 bs = Some k \<longleftrightarrow> k < length bs \<and> bs ! k = 0 \<and> 0 \<notin> set (take k bs)"
proof (induction bs arbitrary: k)
  case Nil
  then show ?case by simp
next
  case (Cons b bs)
  then show ?case by (cases k) auto
qed

lemma memchr0_None: "memchr0 bs = None \<longleftrightarrow> 0 \<notin> set bs"
  by (induction bs) auto

lemma memchr0_append_terminated [simp]:
  "0 \<notin> set s \<Longrightarrow> memchr0 (s @ 0 # rest) = Some (length s)"
  by (induction s) auto

section \<open>Little-endian integers\<close>

fun le_nat :: "bytes \<Rightarrow> nat" where
  "le_nat [] = 0"
| "le_nat (b # bs) = unat b + 256 * le_nat bs"

primrec le_bytes :: "nat \<Rightarrow> nat \<Rightarrow> bytes" where
  "le_bytes 0 n = []"
| "le_bytes (Suc w) n = of_nat (n mod 256) # le_bytes w (n div 256)"

lemma le_bytes_numeral [simp]:
  "le_bytes (numeral k) n = of_nat (n mod 256) # le_bytes (pred_numeral k) (n div 256)"
  using le_bytes.simps(2) [of "pred_numeral k" n] by (metis numeral_eq_Suc)

lemma length_le_bytes [simp]: "length (le_bytes w n) = w"
  by (induction w arbitrary: n) auto

lemma unat_byte_less [simp]: "unat (b :: byte) < 256"
  using unsigned_less [of b] by simp

lemma le_nat_less: "le_nat bs < 256 ^ length bs"
proof (induction bs)
  case Nil
  then show ?case by simp
next
  case (Cons b bs)
  have "unat b \<le> 255" using unat_byte_less [of b] by linarith
  moreover have "256 * le_nat bs + 256 \<le> 256 * 256 ^ length bs" using Cons by simp
  ultimately show ?case by (simp del: unat_byte_less)
qed

lemma unat_of_nat_byte [simp]: "unat (of_nat n :: byte) = n mod 256"
  by (simp add: unat_of_nat)

lemma le_nat_le_bytes: "le_nat (le_bytes w n) = n mod 256 ^ w"
proof (induction w arbitrary: n)
  case 0
  then show ?case by simp
next
  case (Suc w)
  have "n mod 256 + 256 * (n div 256 mod 256 ^ w) = n mod (256 * 256 ^ w)"
    by (metis mod_mult2_eq add.commute)
  with Suc show ?case by simp
qed

lemma le_nat_le_bytes_exact: "n < 256 ^ w \<Longrightarrow> le_nat (le_bytes w n) = n"
  by (simp add: le_nat_le_bytes)

lemma le_bytes_le_nat: "le_bytes (length bs) (le_nat bs) = bs"
proof (induction bs)
  case Nil
  then show ?case by simp
next
  case (Cons b bs)
  have "unat b < 256" by simp
  then have "(unat b + 256 * le_nat bs) mod 256 = unat b"
    and "(unat b + 256 * le_nat bs) div 256 = le_nat bs" by auto
  with Cons show ?case by (simp del: unat_byte_less)
qed

text \<open>\<open>i32::from_le_bytes\<close> and \<open>i64::from_le_bytes\<close> read as mathematical integers.\<close>

definition le_i32 :: "bytes \<Rightarrow> int" where
  "le_i32 bs = (let n = int (le_nat bs) in if n < 2147483648 then n else n - 4294967296)"

definition le_i64 :: "bytes \<Rightarrow> int" where
  "le_i64 bs = (let n = int (le_nat bs) in
     if n < 9223372036854775808 then n else n - 18446744073709551616)"

text \<open>\<open>usize::try_from\<close> of a signed count: negative counts are refused.\<close>

definition usize_of_int :: "int \<Rightarrow> nat option" where
  "usize_of_int i = (if 0 \<le> i \<and> i < int usize_limit then Some (nat i) else None)"

lemma usize_of_int_le_i32:
  "length bs = 4 \<Longrightarrow> usize_of_int (le_i32 bs) = Some n \<longleftrightarrow> le_nat bs = n \<and> n < 2147483648"
  using le_nat_less [of bs] by (auto simp: usize_of_int_def le_i32_def Let_def)

lemma usize_of_int_le_i64:
  "length bs = 8 \<Longrightarrow> usize_of_int (le_i64 bs) = Some n \<longleftrightarrow> le_nat bs = n \<and> n < 9223372036854775808"
  using le_nat_less [of bs] by (auto simp: usize_of_int_def le_i64_def Let_def)

text \<open>A statement about every byte, checked by evaluation at all 256 values.\<close>

lemma byte_cases_upto:
  fixes P :: "byte \<Rightarrow> bool"
  assumes "list_all (\<lambda>k. P (word_of_int k)) [0..255]"
  shows "P b"
proof -
  have "uint b \<in> set [0..255]"
    using uint_lt2p [of b] by simp
  then have "P (word_of_int (uint b))"
    using assms by (metis list_all_iff)
  then show ?thesis by simp
qed

section \<open>ASCII text\<close>

text \<open>Rust strings are byte sequences; \<open>ascii\<close> turns a literal into one.\<close>

definition ascii :: "string \<Rightarrow> bytes" where
  "ascii s = map of_char s"

end
