(* ===== verification/Errors.thy ===== *)
theory Errors
  imports Prelude
begin

text \<open>
  The error type of the core crate (\<open>crates/xqdb/src/errors.rs\<close>) and the stable error codes
  the Node binding derives from it (\<open>bindings/napi-xqdb/src/error.rs\<close>). The formatted
  diagnostic text of an error is not modelled; the numeric payloads and the text of a server
  error, which is data sent by the peer, are. \<open>Panicked\<close> is not a constructor of the source:
  it stands for a Rust panic (an index out of range), so that the absence of panics is a
  statement about results.
\<close>

datatype io_kind =
    Interrupted
  | UnexpectedEof
  | TimedOut
  | NotConnected
  | AddrNotAvailable
  | OtherIo

datatype xqdb_error =
    IOError io_kind
  | AuthErr
  | FailedToConnectErr
  | DeserializationErr
  | Err
  | NotConnectedErr
  | VersionErr
  | NotSupportedKTypeErr byte
  | NotSupportedMinusTimeErr byte
  | NotSupportedKOperatorErr byte
  | NotSupportedKNestedListErr byte
  | NotSupportedKListErr byte
  | NotSupportedKMixedListErr byte byte
  | NotSupportedArrowTypeErr
  | NotSupportedSeriesTypeErr
  | NotSupportedArrowNestedListTypeErr
  | NotSupportedPolarsNestedListTypeErr
  | NotSupportedBigEndianErr
  | NotAbleToSerializeErr
  | OverLengthErr
  | TooManyArgumentErr
  | ServerErr bytes
  | Panicked

type_synonym 'a xresult = "xqdb_error + 'a"

section \<open>Binding error codes\<close>

definition CODE_IO :: string where "CODE_IO = ''XQDB_IO''"
definition CODE_AUTH :: string where "CODE_AUTH = ''XQDB_AUTH''"
definition CODE_SERVER :: string where "CODE_SERVER = ''XQDB_SERVER''"
definition CODE_CONVERSION :: string where "CODE_CONVERSION = ''XQDB_CONVERSION''"
definition CODE_UNSUPPORTED :: string where "CODE_UNSUPPORTED = ''XQDB_UNSUPPORTED''"
definition CODE_ERROR :: string where "CODE_ERROR = ''XQDB_ERROR''"
definition CODE_INTERNAL :: string where "CODE_INTERNAL = ''XQDB_INTERNAL''"
definition CODE_BACKPRESSURE :: string where "CODE_BACKPRESSURE = ''XQDB_BACKPRESSURE''"

lemmas code_defs = CODE_IO_def CODE_AUTH_def CODE_SERVER_def CODE_CONVERSION_def
  CODE_UNSUPPORTED_def CODE_ERROR_def CODE_INTERNAL_def CODE_BACKPRESSURE_def

text \<open>
  \<open>impl From<XqdbError> for BindingError\<close>. A panic never reaches this conversion: the binding
  catches it and reports \<open>CODE_INTERNAL\<close> (\<open>complete_operation\<close>, \<open>compute\<close>).
\<close>

fun binding_code :: "xqdb_error \<Rightarrow> string" where
  "binding_code (IOError _) = CODE_IO"
| "binding_code FailedToConnectErr = CODE_IO"
| "binding_code NotConnectedErr = CODE_IO"
| "binding_code AuthErr = CODE_AUTH"
| "binding_code (ServerErr _) = CODE_SERVER"
| "binding_code DeserializationErr = CODE_CONVERSION"
| "binding_code NotAbleToSerializeErr = CODE_CONVERSION"
| "binding_code OverLengthErr = CODE_CONVERSION"
| "binding_code TooManyArgumentErr = CODE_CONVERSION"
| "binding_code VersionErr = CODE_UNSUPPORTED"
| "binding_code (NotSupportedKTypeErr _) = CODE_UNSUPPORTED"
| "binding_code (NotSupportedMinusTimeErr _) = CODE_UNSUPPORTED"
| "binding_code (NotSupportedKOperatorErr _) = CODE_UNSUPPORTED"
| "binding_code (NotSupportedKNestedListErr _) = CODE_UNSUPPORTED"
| "binding_code (NotSupportedKListErr _) = CODE_UNSUPPORTED"
| "binding_code (NotSupportedKMixedListErr _ _) = CODE_UNSUPPORTED"
| "binding_code NotSupportedArrowTypeErr = CODE_UNSUPPORTED"
| "binding_code NotSupportedSeriesTypeErr = CODE_UNSUPPORTED"
| "binding_code NotSupportedArrowNestedListTypeErr = CODE_UNSUPPORTED"
| "binding_code NotSupportedPolarsNestedListTypeErr = CODE_UNSUPPORTED"
| "binding_code NotSupportedBigEndianErr = CODE_UNSUPPORTED"
| "binding_code Err = CODE_ERROR"
| "binding_code Panicked = CODE_INTERNAL"

end
