(* ===== verification/Utf8.thy ===== *)
theory Utf8
  imports Errors
begin

text \<open>
  Text on the wire. Rust strings are valid UTF-8 byte sequences, q text is arbitrary bytes.
  This theory models what the sources use of the standard library's UTF-8 support
  (\<open>str::from_utf8\<close> and \<open>utf8_chunks\<close>) and the functions of \<open>serde6.rs\<close> and \<open>qvalue.rs\<close>
  built on it: \<open>decode_utf8\<close>, \<open>transcode_utf8_lossy\<close>, \<open>try_lossy_text\<close>,
  \<open>validate_nested_char\<close> and \<open>transcode_nested_char_lossy\<close>.
  The lemmas justify the two places where the decoder validates many strings at once: a
  symbol-list payload is validated before it is split at its NUL terminators, and a nested
  character list is validated as one buffer plus a check of its row boundaries.
\<close>

section \<open>UTF-8 in the standard library\<close>

definition is_cont :: "byte \<Rightarrow> bool" where
  "is_cont b \<longleftrightarrow> 0x80 \<le> b \<and> b \<le> 0xBF"

definition utf8_width :: "byte \<Rightarrow> nat" where
  "utf8_width b =
     (if b < 0x80 then 1
      else if 0xC2 \<le> b \<and> b \<le> 0xDF then 2
      else if 0xE0 \<le> b \<and> b \<le> 0xEF then 3
      else if 0xF0 \<le> b \<and> b \<le> 0xF4 then 4
      else 0)"

text \<open>The second byte of a well-formed sequence, given the first.\<close>

definition second_ok :: "byte \<Rightarrow> byte \<Rightarrow> bool" where
  "second_ok b0 b1 =
     (if b0 = 0xE0 then 0xA0 \<le> b1 \<and> b1 \<le> 0xBF
      else if b0 = 0xED then 0x80 \<le> b1 \<and> b1 \<le> 0x9F
      else if b0 = 0xF0 then 0x90 \<le> b1 \<and> b1 \<le> 0xBF
      else if b0 = 0xF4 then 0x80 \<le> b1 \<and> b1 \<le> 0x8F
      else is_cont b1)"

text \<open>
  The first code point of a non-empty sequence: \<open>(True, n)\<close> when the first \<open>n\<close> bytes are one
  well-formed code point, \<open>(False, n)\<close> when they are a maximal invalid subsequence.
\<close>

definition utf8_head :: "bytes \<Rightarrow> bool \<times> nat" where
  "utf8_head bs =
     (case bs of [] \<Rightarrow> (False, 1)
      | b0 # r0 \<Rightarrow>
        if utf8_width b0 = 1 then (True, 1)
        else if utf8_width b0 = 0 then (False, 1)
        else (case r0 of [] \<Rightarrow> (False, 1)
          | b1 # r1 \<Rightarrow>
            if \<not> second_ok b0 b1 then (False, 1)
            else if utf8_width b0 = 2 then (True, 2)
            else (case r1 of [] \<Rightarrow> (False, 2)
              | b2 # r2 \<Rightarrow>
                if \<not> is_cont b2 then (False, 2)
                else if utf8_width b0 = 3 then (True, 3)
                else (case r2 of [] \<Rightarrow> (False, 3)
                  | b3 # _ \<Rightarrow> if is_cont b3 then (True, 4) else (False, 3)))))"

lemma utf8_head_pos: "0 < snd (utf8_head bs)"
  by (auto simp: utf8_head_def split: list.splits)

lemma utf8_head_le: "bs \<noteq> [] \<Longrightarrow> snd (utf8_head bs) \<le> length bs"
  by (auto simp: utf8_head_def split: list.splits)

text \<open>\<open>str::from_utf8(bytes).is_ok()\<close>.\<close>

function utf8_valid :: "bytes \<Rightarrow> bool" where
  "utf8_valid bs =
     (if bs = [] then True
      else if fst (utf8_head bs) then utf8_valid (drop (snd (utf8_head bs)) bs) else False)"
  by pat_completeness auto
termination
  by (relation "measure length") (auto simp: utf8_head_pos)

declare utf8_valid.simps [simp del]

text \<open>The longest valid prefix and what follows it.\<close>

function utf8_span :: "bytes \<Rightarrow> bytes \<times> bytes" where
  "utf8_span bs =
     (if bs = [] \<or> \<not> fst (utf8_head bs) then ([], bs)
      else let n = snd (utf8_head bs); (v, r) = utf8_span (drop n bs) in (take n bs @ v, r))"
  by pat_completeness auto
termination
  by (relation "measure length") (auto simp: utf8_head_pos)

declare utf8_span.simps [simp del]

lemma utf8_span_append: "utf8_span bs = (v, r) \<Longrightarrow> bs = v @ r"
proof (induction bs arbitrary: v rule: utf8_span.induct)
  case (1 bs)
  show ?case
  proof (cases "bs = [] \<or> \<not> fst (utf8_head bs)")
    case True
    with "1.prems" show ?thesis by (simp add: utf8_span.simps [of bs])
  next
    case False
    obtain v' r' where rec: "utf8_span (drop (snd (utf8_head bs)) bs) = (v', r')" by fastforce
    with False "1.prems" have "v = take (snd (utf8_head bs)) bs @ v'" "r = r'"
      by (auto simp: utf8_span.simps [of bs] Let_def)
    moreover have "drop (snd (utf8_head bs)) bs = v' @ r'" using "1.IH" [OF False refl] rec \<open>r = r'\<close> by simp
    ultimately show ?thesis by (metis append.assoc append_take_drop_id)
  qed
qed

text \<open>\<open>bytes.utf8_chunks()\<close>: pairs of a valid run and the invalid subsequence that ends it.\<close>

function utf8_chunks :: "bytes \<Rightarrow> (bytes \<times> bytes) list" where
  "utf8_chunks bs =
     (if bs = [] then []
      else case utf8_span bs of
        (v, []) \<Rightarrow> [(v, [])]
      | (v, r) \<Rightarrow> (v, take (snd (utf8_head r)) r) # utf8_chunks (drop (snd (utf8_head r)) r))"
  by pat_completeness auto
termination
proof (relation "measure length")
  fix bs v :: bytes and r y ys
  assume "bs \<noteq> []" "(v, r) = utf8_span bs" "r = y # ys"
  then have "length r \<le> length bs" "r \<noteq> []" using utf8_span_append [of bs v r] by auto
  then show "(drop (snd (utf8_head (y # ys))) (y # ys), bs) \<in> measure length"
    using utf8_head_pos [of r] \<open>r = y # ys\<close> by auto
qed auto

declare utf8_chunks.simps [simp del]

section \<open>Decoding wire text\<close>

datatype symbol_encoding = Strict | Lossy

definition REPLACEMENT_CHARACTER :: bytes where
  "REPLACEMENT_CHARACTER = [0xEF, 0xBF, 0xBD]"

text \<open>
  \<open>transcode_utf8_lossy\<close> (and \<open>try_lossy_text\<close>): each valid run is copied and each invalid
  subsequence becomes U+FFFD. The reservation in front of the loop does not change the text.
\<close>

definition transcode_utf8_lossy :: "bytes \<Rightarrow> bytes" where
  "transcode_utf8_lossy bs =
     foldl (\<lambda>text (valid, invalid).
        text @ valid @ (if invalid = [] then [] else REPLACEMENT_CHARACTER)) [] (utf8_chunks bs)"

definition decode_utf8 :: "bytes \<Rightarrow> symbol_encoding \<Rightarrow> bytes xresult" where
  "decode_utf8 bs encoding =
     (if utf8_valid bs then Inr bs
      else (case encoding of
         Strict \<Rightarrow> Inl DeserializationErr
       | Lossy \<Rightarrow> Inr (transcode_utf8_lossy bs)))"

text \<open>Consecutive pairs of a slice, \<open>boundaries.windows(2)\<close>.\<close>

fun windows2 :: "'a list \<Rightarrow> ('a \<times> 'a) list" where
  "windows2 (a # b # xs) = (a, b) # windows2 (b # xs)"
| "windows2 _ = []"

definition validate_nested_char :: "bytes \<Rightarrow> nat list \<Rightarrow> unit xresult" where
  "validate_nested_char values boundaries =
     (if \<not> utf8_valid values then Inl DeserializationErr
      else rfold (\<lambda>(start, _) _.
             if start < length values \<and> values ! start AND 0b11000000 = 0b10000000
             then Inl DeserializationErr else Inr ()) (windows2 boundaries) ())"

text \<open>Offsets are \<open>i32\<close>; a transcoded buffer beyond \<open>i32::MAX\<close> is refused.\<close>

definition transcode_nested_char_lossy :: "bytes \<Rightarrow> nat list \<Rightarrow> (bytes \<times> nat list) xresult" where
  "transcode_nested_char_lossy values boundaries =
     rfold (\<lambda>(start, end) (transcoded, offsets).
        rbind (ok_or (get_range values start end) Panicked) (\<lambda>row.
        rbind (decode_utf8 row Lossy) (\<lambda>text.
        if length (transcoded @ text) < 2147483648
        then Inr (transcoded @ text, offsets @ [length (transcoded @ text)])
        else Inl DeserializationErr))) (windows2 boundaries) ([], [0])"

text \<open>The offsets of the rows of a nested list whose concatenation starts at \<open>k\<close>.\<close>

primrec row_offsets :: "nat \<Rightarrow> bytes list \<Rightarrow> nat list" where
  "row_offsets k [] = [k]"
| "row_offsets k (r # rs) = k # row_offsets (k + length r) rs"

text \<open>What one chunk contributes to the transcoded text.\<close>

definition chunk_text :: "bytes \<times> bytes \<Rightarrow> bytes" where
  "chunk_text = (\<lambda>(valid, invalid). valid @ (if invalid = [] then [] else REPLACEMENT_CHARACTER))"

section \<open>Well-formedness and concatenation\<close>

lemma and_cont_iff: "(b :: byte) AND 0b11000000 = 0b10000000 \<longleftrightarrow> is_cont b"
  by (rule byte_cases_upto [where P = "\<lambda>b. (b AND 0b11000000 = 0b10000000) = is_cont b"]) code_simp

lemma second_ok_cont: "second_ok b0 b1 \<Longrightarrow> is_cont b1"
  by (auto simp: second_ok_def is_cont_def word_le_nat_alt split: if_splits)

lemma head_append_noncont:
  assumes "a \<noteq> []" and "b = [] \<or> \<not> is_cont (hd b)"
  shows "utf8_head (a @ b) = utf8_head a"
  using assms by (cases b) (auto simp: utf8_head_def dest: second_ok_cont split: list.splits)

lemma head_append_valid:
  "a \<noteq> [] \<Longrightarrow> fst (utf8_head a) \<Longrightarrow> utf8_head (a @ b) = utf8_head a"
  by (auto simp: utf8_head_def split: list.splits if_splits)

lemma head_valid_noncont: "bs \<noteq> [] \<Longrightarrow> fst (utf8_head bs) \<Longrightarrow> \<not> is_cont (hd bs)"
  by (auto simp: utf8_head_def utf8_width_def is_cont_def word_le_nat_alt word_less_nat_alt split: list.splits if_splits)

lemma utf8_valid_Nil [simp]: "utf8_valid []"
  by (simp add: utf8_valid.simps)

lemma utf8_valid_append: "utf8_valid a \<Longrightarrow> utf8_valid (a @ b) = utf8_valid b"
proof (induction a rule: utf8_valid.induct)
  case (1 a)
  show ?case
  proof (cases "a = []")
    case True
    then show ?thesis by simp
  next
    case False
    with "1.prems" have v: "fst (utf8_head a)" "utf8_valid (drop (snd (utf8_head a)) a)"
      by (auto simp: utf8_valid.simps [of a] split: if_splits)
    have "utf8_valid (drop (snd (utf8_head a)) a @ b) = utf8_valid b"
      using "1.IH" [OF False v] .
    with False v show ?thesis
      by (simp add: utf8_valid.simps [of "a @ b"] head_append_valid utf8_head_le)
  qed
qed

lemma utf8_valid_split:
  assumes "b = [] \<or> \<not> is_cont (hd b)"
  shows "utf8_valid (a @ b) \<longleftrightarrow> utf8_valid a \<and> utf8_valid b"
proof (induction a rule: utf8_valid.induct)
  case (1 a)
  show ?case
  proof (cases "a = []")
    case True
    then show ?thesis by simp
  next
    case False
    then have h: "utf8_head (a @ b) = utf8_head a" using assms by (rule head_append_noncont)
    from False have d: "drop (snd (utf8_head a)) (a @ b) = drop (snd (utf8_head a)) a @ b"
      by (simp add: utf8_head_le)
    show ?thesis
      using False "1.IH" [OF False]
      by (simp add: utf8_valid.simps [of "a @ b"] utf8_valid.simps [of a] h d del: drop_append)
  qed
qed

lemma utf8_valid_hd: "utf8_valid bs \<Longrightarrow> bs \<noteq> [] \<Longrightarrow> \<not> is_cont (hd bs)"
  by (auto simp: utf8_valid.simps [of bs] head_valid_noncont split: if_splits)

lemma zero_not_cont [simp]: "\<not> is_cont 0"
  by (simp add: is_cont_def)

lemma utf8_valid_nul_split: "utf8_valid (a @ 0 # b) \<longleftrightarrow> utf8_valid a \<and> utf8_valid b"
proof -
  have "utf8_valid (0 # b) = utf8_valid b"
    by (simp add: utf8_valid.simps [of "0 # b"] utf8_head_def utf8_width_def)
  then show ?thesis using utf8_valid_split [of "0 # b" a] by simp
qed

lemma transcode_concat: "transcode_utf8_lossy bs = concat (map chunk_text (utf8_chunks bs))"
proof -
  have "foldl (\<lambda>text (valid, invalid).
      text @ valid @ (if invalid = [] then [] else REPLACEMENT_CHARACTER)) acc cs
    = acc @ concat (map chunk_text cs)" for acc cs
    by (induction cs arbitrary: acc) (auto simp: chunk_text_def)
  then show ?thesis by (simp add: transcode_utf8_lossy_def)
qed

lemma transcode_Nil [simp]: "transcode_utf8_lossy [] = []"
  by (simp add: transcode_concat utf8_chunks.simps)

lemma utf8_span_rest: "utf8_span bs = (v, r) \<Longrightarrow> r = [] \<or> \<not> fst (utf8_head r)"
proof (induction bs arbitrary: v rule: utf8_span.induct)
  case (1 bs)
  then show ?case
    by (cases "bs = [] \<or> \<not> fst (utf8_head bs)")
      (auto simp: utf8_span.simps [of bs] Let_def split: prod.splits)
qed

lemma transcode_span:
  assumes "utf8_span bs = (v, r)"
  shows "transcode_utf8_lossy bs =
    v @ (if r = [] then [] else REPLACEMENT_CHARACTER @ transcode_utf8_lossy (drop (snd (utf8_head r)) r))"
proof (cases "bs = []")
  case True
  with assms show ?thesis by (simp add: utf8_span.simps)
next
  case False
  then show ?thesis
    using assms utf8_head_pos [of r]
    by (cases r) (auto simp: transcode_concat utf8_chunks.simps [of bs] chunk_text_def)
qed

lemma transcode_step:
  assumes "bs \<noteq> []"
  shows "transcode_utf8_lossy bs =
    (if fst (utf8_head bs) then take (snd (utf8_head bs)) bs else REPLACEMENT_CHARACTER)
    @ transcode_utf8_lossy (drop (snd (utf8_head bs)) bs)"
proof (cases "fst (utf8_head bs)")
  case True
  obtain v r where d: "utf8_span (drop (snd (utf8_head bs)) bs) = (v, r)" by fastforce
  with True assms have "utf8_span bs = (take (snd (utf8_head bs)) bs @ v, r)"
    by (simp add: utf8_span.simps [of bs] Let_def)
  from transcode_span [OF this] transcode_span [OF d] True show ?thesis by simp
next
  case False
  with assms have "utf8_span bs = ([], bs)" by (simp add: utf8_span.simps [of bs])
  from transcode_span [OF this] False assms show ?thesis by simp
qed

lemma transcode_valid_id: "utf8_valid bs \<Longrightarrow> transcode_utf8_lossy bs = bs"
proof (induction bs rule: utf8_valid.induct)
  case (1 bs)
  show ?case
  proof (cases "bs = []")
    case False
    with "1.prems" have v: "fst (utf8_head bs)" "utf8_valid (drop (snd (utf8_head bs)) bs)"
      by (auto simp: utf8_valid.simps [of bs] split: if_splits)
    with "1.IH" [OF False v] False show ?thesis by (simp add: transcode_step [of bs])
  qed simp
qed

lemma replacement_valid: "utf8_valid REPLACEMENT_CHARACTER"
  by (simp add: REPLACEMENT_CHARACTER_def utf8_valid.simps utf8_head_def utf8_width_def
      second_ok_def is_cont_def)

lemma utf8_head_take: "bs \<noteq> [] \<Longrightarrow> fst (utf8_head bs) \<Longrightarrow>
   utf8_head (take (snd (utf8_head bs)) bs) = utf8_head bs"
  by (auto simp: utf8_head_def split: list.splits if_splits)

lemma transcode_is_valid: "utf8_valid (transcode_utf8_lossy bs)"
proof (induction "length bs" arbitrary: bs rule: less_induct)
  case less
  show ?case
  proof (cases "bs = []")
    case False
    let ?n = "snd (utf8_head bs)"
    have IH: "utf8_valid (transcode_utf8_lossy (drop ?n bs))"
      using False utf8_head_pos [of bs] by (intro less) simp
    have "fst (utf8_head bs) \<Longrightarrow> utf8_valid (take ?n bs)"
      using False utf8_head_take [OF False] utf8_head_pos [of bs]
      by (simp add: utf8_valid.simps [of "take ?n bs"])
    with IH False show ?thesis
      by (simp add: transcode_step [of bs] utf8_valid_append replacement_valid)
  qed simp
qed

lemma transcode_split:
  assumes "b = [] \<or> \<not> is_cont (hd b)"
  shows "transcode_utf8_lossy (a @ b) = transcode_utf8_lossy a @ transcode_utf8_lossy b"
proof (induction "length a" arbitrary: a rule: less_induct)
  case less
  show ?case
  proof (cases "a = []")
    case False
    let ?n = "snd (utf8_head a)"
    have h: "utf8_head (a @ b) = utf8_head a" using False assms by (rule head_append_noncont)
    have n: "0 < ?n" "?n \<le> length a" using False by (simp_all add: utf8_head_pos utf8_head_le)
    then have "transcode_utf8_lossy (drop ?n a @ b)
        = transcode_utf8_lossy (drop ?n a) @ transcode_utf8_lossy b"
      using False by (intro less) auto
    with False n h show ?thesis
      by (simp add: transcode_step [of "a @ b"] transcode_step [of a])
  qed simp
qed

lemma transcode_nul_split:
  "transcode_utf8_lossy (a @ 0 # b) = transcode_utf8_lossy a @ 0 # transcode_utf8_lossy b"
proof -
  have "transcode_utf8_lossy (0 # b) = 0 # transcode_utf8_lossy b"
    by (simp add: transcode_step [of "0 # b"] utf8_head_def utf8_width_def)
  then show ?thesis using transcode_split [of "0 # b" a] by simp
qed

lemma decode_nul_split:
  "decode_utf8 (a @ 0 # b) enc =
     rbind (decode_utf8 a enc) (\<lambda>s. rbind (decode_utf8 b enc) (\<lambda>t. Inr (s @ 0 # t)))"
  by (cases enc)
    (auto simp: decode_utf8_def utf8_valid_nul_split transcode_nul_split transcode_valid_id)

lemma decode_symbol_payload:
  "decode_utf8 (concat (map (\<lambda>s. s @ [0]) syms)) enc =
     rbind (rmap (\<lambda>s. decode_utf8 s enc) syms) (\<lambda>ts. Inr (concat (map (\<lambda>t. t @ [0]) ts)))"
proof (induction syms)
  case Nil
  then show ?case by (simp add: decode_utf8_def)
next
  case (Cons s syms)
  then show ?case
    by (simp add: decode_nul_split rbind_assoc)
qed

lemma decode_no_nul:
  assumes "decode_utf8 s enc = Inr t" and "0 \<notin> set s"
  shows "0 \<notin> set t"
proof -
  have "0 \<notin> set (transcode_utf8_lossy s)" using assms(2)
  proof (induction "length s" arbitrary: s rule: less_induct)
    case less
    show ?case
    proof (cases "s = []")
      case False
      have "0 \<notin> set (transcode_utf8_lossy (drop (snd (utf8_head s)) s))"
        using False utf8_head_pos [of s] less.prems
        by (intro less) (auto dest: in_set_dropD)
      with False less.prems show ?thesis
        by (auto simp: transcode_step [of s] REPLACEMENT_CHARACTER_def dest: in_set_takeD)
    qed simp
  qed
  then show ?thesis using assms by (auto simp: decode_utf8_def split: if_splits symbol_encoding.splits)
qed

lemma windows2_row_offsets [simp]:
  "windows2 (k # row_offsets m rs) = (k, m) # windows2 (row_offsets m rs)"
  by (cases rs) auto

lemma nested_rows_valid:
  assumes "utf8_valid (concat rows)"
    and "\<forall>(s, t) \<in> set (windows2 (row_offsets (length pre) rows)).
      s < length (pre @ concat rows) \<longrightarrow> \<not> is_cont ((pre @ concat rows) ! s)"
  shows "\<forall>r\<in>set rows. utf8_valid r"
  using assms
proof (induction rows arbitrary: pre)
  case (Cons r rows)
  let ?rest = "concat rows"
  have rest: "?rest = [] \<or> \<not> is_cont (hd ?rest)"
  proof (cases rows)
    case (Cons r' rows')
    show ?thesis
    proof (cases "?rest = []")
      case False
      with Cons.prems(2) Cons have "\<not> is_cont ((pre @ r @ ?rest) ! (length pre + length r))"
        by (auto simp del: append_assoc)
      with False show ?thesis by (simp add: nth_append hd_conv_nth)
    qed simp
  qed simp
  from Cons.prems(1) have v: "utf8_valid r" "utf8_valid ?rest"
    by (simp_all add: utf8_valid_split [OF rest])
  have "\<forall>r\<in>set rows. utf8_valid r"
    using Cons.IH [of "pre @ r"] v(2) Cons.prems(2)
    by auto
  with v(1) show ?case by simp
qed simp

lemma utf8_valid_concat: "\<forall>r\<in>set rows. utf8_valid r \<Longrightarrow> utf8_valid (concat rows)"
  by (induction rows) (auto simp: utf8_valid_append)

lemma nested_rows_starts:
  assumes "\<forall>r\<in>set rows. utf8_valid r" and "(s, t) \<in> set (windows2 (row_offsets (length pre) rows))"
    and "s < length (pre @ concat rows)"
  shows "\<not> is_cont ((pre @ concat rows) ! s)"
  using assms
proof (induction rows arbitrary: pre)
  case (Cons r rows)
  show ?case
  proof (cases "s = length pre \<and> t = length pre + length r")
    case True
    have "utf8_valid (concat (r # rows))" using Cons.prems(1) by (rule utf8_valid_concat)
    moreover have "concat (r # rows) \<noteq> []" using Cons.prems(3) True by auto
    ultimately have "\<not> is_cont (hd (concat (r # rows)))" by (rule utf8_valid_hd)
    with True \<open>concat (r # rows) \<noteq> []\<close> show ?thesis by (simp add: nth_append hd_conv_nth del: concat.simps)
  next
    case False
    with Cons.prems(2) have "(s, t) \<in> set (windows2 (row_offsets (length (pre @ r)) rows))"
      by auto
    with Cons.prems Cons.IH [of "pre @ r"] show ?thesis by simp
  qed
qed simp

lemma validate_nested_char_iff:
  "validate_nested_char (concat rows) (row_offsets 0 rows) = Inr () \<longleftrightarrow> (\<forall>r\<in>set rows. utf8_valid r)"
  (is "?V \<longleftrightarrow> ?R")
proof -
  define starts where "starts \<longleftrightarrow> (\<forall>(s, t) \<in> set (windows2 (row_offsets 0 rows)).
      s < length (concat rows) \<longrightarrow> \<not> is_cont (concat rows ! s))"
  have v: "?V \<longleftrightarrow> utf8_valid (concat rows) \<and> starts"
    unfolding validate_nested_char_def and_cont_iff starts_def
    by (simp add: rfold_unit_iff)
  have "utf8_valid (concat rows) \<Longrightarrow> starts \<Longrightarrow> ?R"
    using nested_rows_valid [of rows "[]"] by (simp add: starts_def)
  moreover have "?R \<Longrightarrow> starts"
    using nested_rows_starts [of rows _ _ "[]"] unfolding starts_def by fastforce
  moreover have "?R \<Longrightarrow> utf8_valid (concat rows)" by (rule utf8_valid_concat)
  ultimately show ?thesis unfolding v by iprover
qed

lemma decode_lossy: "decode_utf8 bs Lossy = Inr (transcode_utf8_lossy bs)"
  by (simp add: decode_utf8_def transcode_valid_id)

lemma transcode_nested_loop:
  assumes "length (done @ concat (map transcode_utf8_lossy rows)) < 2147483648"
  shows "rfold (\<lambda>(start, end) (transcoded, offsets).
        rbind (ok_or (get_range (pre @ concat rows) start end) Panicked) (\<lambda>row.
        rbind (decode_utf8 row Lossy) (\<lambda>text.
        if length (transcoded @ text) < 2147483648
        then Inr (transcoded @ text, offsets @ [length (transcoded @ text)])
        else Inl DeserializationErr))) (windows2 (row_offsets (length pre) rows)) (done, offs)
    = Inr (done @ concat (map transcode_utf8_lossy rows),
           offs @ tl (row_offsets (length done) (map transcode_utf8_lossy rows)))"
  using assms
proof (induction rows arbitrary: pre "done" offs)
  case (Cons r rows)
  have g: "get_range (pre @ r @ concat rows) (length pre) (length pre + length r) = Some r"
    by simp
  show ?case
    using Cons.prems Cons.IH [of "done @ transcode_utf8_lossy r" "pre @ r"
        "offs @ [length (done @ transcode_utf8_lossy r)]"] g
    by (cases rows) (simp_all add: decode_lossy)
qed simp

lemma transcode_nested_char_lossy_rows:
  assumes "length (concat (map transcode_utf8_lossy rows)) < 2147483648"
  shows "transcode_nested_char_lossy (concat rows) (row_offsets 0 rows) =
    Inr (concat (map transcode_utf8_lossy rows), row_offsets 0 (map transcode_utf8_lossy rows))"
  using transcode_nested_loop [of "[]" rows "[]" "[0]"] assms
  by (cases rows) (simp_all add: transcode_nested_char_lossy_def)

end
