(* ===== verification/QTypes.thy ===== *)
theory QTypes
  imports Utf8
begin

text \<open>
  The small value types of \<open>crates/xqdb/src/types.rs\<close>: the element widths of the wire types,
  the message kinds, the text encodings, the primitive operators with their wire codes, and
  lambdas with their context. Rust strings are byte sequences here, so \<open>str::trim\<close> is
  modelled on the UTF-8 encodings of the Unicode white-space characters.
\<close>

section \<open>Constants and enumerations\<close>

definition K_TYPE_SIZE :: "nat list" where
  "K_TYPE_SIZE = [0, 1, 16, 0, 1, 2, 4, 8, 4, 8, 1, 0, 8, 4, 4, 8, 8, 4, 4, 4]"

definition MAX_VALUE_DEPTH :: nat where
  "MAX_VALUE_DEPTH = 64"

datatype msg_type = Async | Sync | Response

fun msg_type_code :: "msg_type \<Rightarrow> byte" where
  "msg_type_code Async = 0"
| "msg_type_code Sync = 1"
| "msg_type_code Response = 2"

datatype value_mode = Native | Lossless

fun encoding_name :: "symbol_encoding \<Rightarrow> bytes" where
  "encoding_name Strict = ascii ''strict''"
| "encoding_name Lossy = ascii ''lossy''"

definition encoding_from_name :: "bytes \<Rightarrow> symbol_encoding option" where
  "encoding_from_name name =
     (if name = ascii ''strict'' then Some Strict
      else if name = ascii ''lossy'' then Some Lossy
      else None)"

section \<open>Primitive operators\<close>

definition Q_UNARY_PRIMITIVES :: "bytes list" where
  "Q_UNARY_PRIMITIVES = map ascii
    ['''', ''+:'', ''-:'', ''*:'', ''%:'', ''&:'', ''|:'', ''^:'', ''=:'', ''<:'', ''>:'', ''$:'',
     '',:'', ''#:'', ''_:'', ''~:'', ''!:'', ''?:'', ''@:'', ''.:'', ''0::'', ''1::'', ''2::'',
     ''avg'', ''last'', ''sum'', ''prd'', ''min'', ''max'', ''exit'', ''getenv'', ''abs'',
     ''sqrt'', ''log'', ''exp'', ''sin'', ''asin'', ''cos'', ''acos'', ''tan'', ''atan'',
     ''enlist'']"

definition Q_BINARY_PRIMITIVES :: "bytes list" where
  "Q_BINARY_PRIMITIVES = map ascii
    ['':'', ''+'', ''-'', ''*'', ''%'', ''&'', ''|'', ''^'', ''='', ''<'', ''>'', ''$'', '','',
     ''#'', ''_'', ''~'', ''!'', ''?'', ''@'', ''.'', ''0:'', ''1:'', ''2:'', ''in'', ''within'',
     ''like'', ''bin'', ''ss'', ''insert'', ''wsum'', ''wavg'', ''div'', ''xexp'', ''setenv'']"

definition Q_TERNARY_PRIMITIVES :: "bytes list" where
  "Q_TERNARY_PRIMITIVES = [[0x27], [0x2F], [0x5C]]"

record qoperator =
  op_name :: bytes
  op_k_type :: byte
  op_opcode :: byte

text \<open>\<open>primitives.iter().position(|primitive| *primitive == name)\<close>.\<close>

primrec index_of :: "'a \<Rightarrow> 'a list \<Rightarrow> nat option" where
  "index_of x [] = None"
| "index_of x (y # ys) = (if y = x then Some 0 else map_option Suc (index_of x ys))"

text \<open>The loop of \<open>QOperator::new\<close> over the three primitive tables.\<close>

fun find_operator :: "bytes \<Rightarrow> (byte \<times> bytes list) list \<Rightarrow> qoperator xresult" where
  "find_operator name [] = Inl NotAbleToSerializeErr"
| "find_operator name ((k_type, primitives) # tables) =
     (case index_of name primitives of
        Some opcode \<Rightarrow>
          if name \<noteq> [] then
            Inr \<lparr>op_name = primitives ! opcode, op_k_type = k_type, op_opcode = of_nat opcode\<rparr>
          else find_operator name tables
      | None \<Rightarrow> find_operator name tables)"

definition qoperator_new :: "bytes \<Rightarrow> qoperator xresult" where
  "qoperator_new name =
     (if 0 \<in> set name then Inl NotAbleToSerializeErr
      else find_operator name
        [(101, Q_UNARY_PRIMITIVES), (102, Q_BINARY_PRIMITIVES), (103, Q_TERNARY_PRIMITIVES)])"

definition qoperator_from_wire :: "byte \<Rightarrow> byte \<Rightarrow> qoperator option" where
  "qoperator_from_wire k_type opcode =
     (let primitives =
        (if k_type = 101 then Some Q_UNARY_PRIMITIVES
         else if k_type = 102 then Some Q_BINARY_PRIMITIVES
         else if k_type = 103 then Some Q_TERNARY_PRIMITIVES
         else None)
      in Option.bind primitives (\<lambda>table.
         Option.bind (get_at table (unat opcode)) (\<lambda>name.
         if name = [] then None
         else Some \<lparr>op_name = name, op_k_type = k_type, op_opcode = opcode\<rparr>)))"

definition wire_value :: "qoperator \<Rightarrow> byte \<times> byte" where
  "wire_value op = (op_k_type op, op_opcode op)"

section \<open>Lambdas\<close>

record qlambda =
  source :: bytes
  lcontext :: bytes

text \<open>The UTF-8 encodings of the characters with the \<open>White_Space\<close> property.\<close>

definition white_space :: "bytes list" where
  "white_space =
     [[0x09], [0x0A], [0x0B], [0x0C], [0x0D], [0x20], [0xC2, 0x85], [0xC2, 0xA0],
      [0xE1, 0x9A, 0x80]]
     @ map (\<lambda>b. [0xE2, 0x80, b])
         [0x80, 0x81, 0x82, 0x83, 0x84, 0x85, 0x86, 0x87, 0x88, 0x89, 0x8A, 0xA8, 0xA9, 0xAF]
     @ [[0xE2, 0x81, 0x9F], [0xE3, 0x80, 0x80]]"

definition starts_with :: "bytes \<Rightarrow> bytes \<Rightarrow> bool" where
  "starts_with p s \<longleftrightarrow> take (length p) s = p"

definition ends_with :: "bytes \<Rightarrow> bytes \<Rightarrow> bool" where
  "ends_with p s \<longleftrightarrow> length p \<le> length s \<and> drop (length s - length p) s = p"

function trim_start :: "bytes \<Rightarrow> bytes" where
  "trim_start s =
     (case find (\<lambda>w. w \<noteq> [] \<and> starts_with w s) white_space of
        Some w \<Rightarrow> trim_start (drop (length w) s)
      | None \<Rightarrow> s)"
  by pat_completeness auto
termination
proof (relation "measure length")
  fix s w
  assume "find (\<lambda>w. w \<noteq> [] \<and> starts_with w s) white_space = Some w"
  then have "w \<noteq> []" "take (length w) s = w" by (auto simp: find_Some_iff starts_with_def)
  then have "s \<noteq> []" "0 < length w" by auto
  then show "(drop (length w) s, s) \<in> measure length" by simp
qed simp

function trim_end :: "bytes \<Rightarrow> bytes" where
  "trim_end s =
     (case find (\<lambda>w. w \<noteq> [] \<and> ends_with w s) white_space of
        Some w \<Rightarrow> trim_end (take (length s - length w) s)
      | None \<Rightarrow> s)"
  by pat_completeness auto
termination
proof (relation "measure length")
  fix s w
  assume "find (\<lambda>w. w \<noteq> [] \<and> ends_with w s) white_space = Some w"
  then have "w \<noteq> []" "length w \<le> length s" by (auto simp: find_Some_iff ends_with_def)
  then show "(take (length s - length w) s, s) \<in> measure length"
    by (cases s; cases w) auto
qed simp

declare trim_start.simps [simp del] trim_end.simps [simp del]

definition trim :: "bytes \<Rightarrow> bytes" where
  "trim s = trim_end (trim_start s)"

definition qlambda_with_context :: "bytes \<Rightarrow> bytes \<Rightarrow> qlambda xresult" where
  "qlambda_with_context src ctx =
     (if 0 \<in> set src then Inl NotAbleToSerializeErr
      else if 0 \<in> set ctx then Inl NotAbleToSerializeErr
      else if ctx \<noteq> [] \<and> starts_with (ascii ''.'') ctx then Inl NotAbleToSerializeErr
      else
        let trimmed = trim src;
            lambda_source =
              (if starts_with (ascii ''k)'') trimmed then drop 2 trimmed else trimmed)
        in if \<not> starts_with [0x7B] lambda_source \<or> \<not> ends_with [0x7D] lambda_source
           then Inl NotAbleToSerializeErr
           else Inr \<lparr>source = src, lcontext = ctx\<rparr>)"

definition qlambda_new :: "bytes \<Rightarrow> qlambda xresult" where
  "qlambda_new src = qlambda_with_context src []"

section \<open>Size checks of the serializer\<close>

definition checked_q_count :: "nat \<Rightarrow> nat xresult" where
  "checked_q_count n = (if n < 2147483648 then Inr n else Inl OverLengthErr)"

definition validate_q_symbol :: "bytes \<Rightarrow> unit xresult" where
  "validate_q_symbol value = (if 0 \<in> set value then Inl NotAbleToSerializeErr else Inr ())"

section \<open>Operators and their wire codes\<close>

lemma index_of_Some: "index_of x xs = Some i \<Longrightarrow> i < length xs \<and> xs ! i = x"
  by (induction xs arbitrary: i) (auto split: if_splits)

lemma encoding_name_round_trip: "encoding_from_name (encoding_name e) = Some e"
  by (cases e) (simp_all add: encoding_from_name_def ascii_def)

lemma primitive_lengths:
  "length Q_UNARY_PRIMITIVES = 42" "length Q_BINARY_PRIMITIVES = 34" "length Q_TERNARY_PRIMITIVES = 3"
  by (simp_all add: Q_UNARY_PRIMITIVES_def Q_BINARY_PRIMITIVES_def Q_TERNARY_PRIMITIVES_def)

lemma unat_of_nat_index: "i < 256 \<Longrightarrow> unat (of_nat i :: byte) = i"
  by simp

lemma find_operator_Inr:
  "find_operator name tables = Inr op \<Longrightarrow>
     \<exists>k prims i. (k, prims) \<in> set tables \<and> index_of name prims = Some i \<and> name \<noteq> [] \<and>
       op = \<lparr>op_name = name, op_k_type = k, op_opcode = of_nat i\<rparr>"
proof (induction name tables rule: find_operator.induct)
  case (2 name k prims tables)
  show ?case
  proof (cases "index_of name prims = None \<or> name = []")
    case True
    then have "find_operator name tables = Inr op" using "2.prems" by (auto split: option.splits)
    with True show ?thesis using "2.IH" by (cases "index_of name prims") auto
  next
    case False
    then obtain i where "index_of name prims = Some i" "name \<noteq> []" by auto
    with "2.prems" show ?thesis by (auto dest: index_of_Some)
  qed
qed simp

lemma operator_new_from_wire:
  assumes "qoperator_new name = Inr op"
  shows "op_name op = name \<and> qoperator_from_wire (op_k_type op) (op_opcode op) = Some op"
proof -
  obtain k prims i where *: "(k, prims) \<in> set [(101, Q_UNARY_PRIMITIVES), (102, Q_BINARY_PRIMITIVES), (103, Q_TERNARY_PRIMITIVES)]"
    "index_of name prims = Some i" "name \<noteq> []" "op = \<lparr>op_name = name, op_k_type = k, op_opcode = of_nat i\<rparr>"
    using assms find_operator_Inr unfolding qoperator_new_def by (metis Inl_Inr_False)
  from index_of_Some [OF *(2)] have i: "i < length prims" "prims ! i = name" by auto
  with *(1) have "i < 256" by (auto simp: primitive_lengths)
  then show ?thesis using * i
    by (auto simp: qoperator_from_wire_def get_at_def unat_of_nat_index)
qed

lemma index_of_nth: "distinct xs \<Longrightarrow> i < length xs \<Longrightarrow> index_of (xs ! i) xs = Some i"
proof (induction xs arbitrary: i)
  case (Cons x xs)
  then show ?case by (cases i) auto
qed simp

lemma index_of_None: "index_of x xs = None \<longleftrightarrow> x \<notin> set xs"
  by (induction xs) auto

lemma distinct_primitives:
  "distinct Q_UNARY_PRIMITIVES" "distinct Q_BINARY_PRIMITIVES" "distinct Q_TERNARY_PRIMITIVES"
  by (simp_all add: Q_UNARY_PRIMITIVES_def Q_BINARY_PRIMITIVES_def Q_TERNARY_PRIMITIVES_def ascii_def)

lemma disjoint_primitives:
  "set Q_UNARY_PRIMITIVES \<inter> set Q_BINARY_PRIMITIVES = {}"
  "set Q_UNARY_PRIMITIVES \<inter> set Q_TERNARY_PRIMITIVES = {}"
  "set Q_BINARY_PRIMITIVES \<inter> set Q_TERNARY_PRIMITIVES = {}"
  by (simp_all add: Q_UNARY_PRIMITIVES_def Q_BINARY_PRIMITIVES_def Q_TERNARY_PRIMITIVES_def ascii_def)

lemma primitives_no_nul:
  "list_all (\<lambda>s. 0 \<notin> set s) (Q_UNARY_PRIMITIVES @ Q_BINARY_PRIMITIVES @ Q_TERNARY_PRIMITIVES)"
  by (simp add: Q_UNARY_PRIMITIVES_def Q_BINARY_PRIMITIVES_def Q_TERNARY_PRIMITIVES_def ascii_def)

lemma operator_from_wire_new:
  assumes "qoperator_from_wire k opc = Some op"
  shows "qoperator_new (op_name op) = Inr op \<and> wire_value op = (k, opc)"
proof -
  from assms obtain table where t: "(k, table) \<in> {(101, Q_UNARY_PRIMITIVES), (102, Q_BINARY_PRIMITIVES), (103, Q_TERNARY_PRIMITIVES)}"
    and i: "unat opc < length table" "table ! unat opc \<noteq> []"
    and op: "op = \<lparr>op_name = table ! unat opc, op_k_type = k, op_opcode = opc\<rparr>"
    by (auto simp: qoperator_from_wire_def get_at_def Let_def bind_eq_Some_conv split: if_splits)
  have n: "table ! unat opc \<in> set table" using i(1) by simp
  have "0 \<notin> set (table ! unat opc)"
    using primitives_no_nul n t by (auto simp: list_all_iff)
  moreover have "index_of (table ! unat opc) table = Some (unat opc)"
    using t i(1) distinct_primitives by (auto intro: index_of_nth)
  moreover have "k \<noteq> 101 \<Longrightarrow> index_of (table ! unat opc) Q_UNARY_PRIMITIVES = None"
    using t n disjoint_primitives unfolding index_of_None by blast
  moreover have "k = 103 \<Longrightarrow> index_of (table ! unat opc) Q_BINARY_PRIMITIVES = None"
    using t n disjoint_primitives unfolding index_of_None by auto
  ultimately show ?thesis using t i(2)
    by (auto simp: op wire_value_def qoperator_new_def)
qed

end
