(* ===== verification/QValue.thy ===== *)
theory QValue
  imports QTypes
begin

text \<open>
  The lossless value type of \<open>crates/xqdb/src/qvalue.rs\<close>: the structural parser that validates
  one complete q IPC value body, the metadata it derives, and the constructors for atoms,
  general lists and dictionaries. The parser state is the position in the body and the deepest
  nesting level seen; the body itself is a parameter. Every parsing method of the source is one
  definition; the methods that call \<open>parse_value\<close> take it as an argument, and \<open>parse_value\<close>
  ties the knot by recursion on the nesting depth, which \<open>note_depth\<close> bounds by 64.
\<close>

section \<open>Data\<close>

datatype shape =
    Atom
  | Sequence "byte option"
  | Dictionary bool
  | Table
  | Function

record parsed =
  p_type_code :: int
  p_len :: nat
  p_shape :: shape

record metadata =
  md_type_code :: int
  md_len :: nat
  md_is_table :: bool
  md_max_depth :: nat

record qvalue =
  qv_bytes :: bytes
  qv_type_code :: int
  qv_len :: nat
  qv_max_depth :: nat
  qv_is_table :: bool

record parser =
  position :: nat
  max_depth :: nat

type_synonym 'a parse = "parser \<Rightarrow> ('a \<times> parser) xresult"

section \<open>Reading the body\<close>

definition p_take :: "bytes \<Rightarrow> nat \<Rightarrow> bytes parse" where
  "p_take bs len p =
     rbind (ok_or (checked_add (position p) len) DeserializationErr) (\<lambda>end.
     rbind (ok_or (get_range bs (position p) end) DeserializationErr) (\<lambda>value.
     Inr (value, p\<lparr>position := end\<rparr>)))"

definition take_byte :: "bytes \<Rightarrow> byte parse" where
  "take_byte bs p = rbind (p_take bs 1 p) (\<lambda>(value, p). Inr (value ! 0, p))"

definition take_until_nul :: "bytes \<Rightarrow> bytes parse" where
  "take_until_nul bs p =
     rbind (ok_or (get_from bs (position p)) DeserializationErr) (\<lambda>tail.
     rbind (ok_or (memchr0 tail) DeserializationErr) (\<lambda>len.
     rbind (ok_or (checked_add (position p) len) DeserializationErr) (\<lambda>end.
     rbind (ok_or (checked_add end 1) DeserializationErr) (\<lambda>next.
     Inr (take len tail, p\<lparr>position := next\<rparr>)))))"

definition take_count :: "bytes \<Rightarrow> nat parse" where
  "take_count bs p =
     rbind (p_take bs 4 p) (\<lambda>(raw, p).
     rbind (ok_or (usize_of_int (le_i32 raw)) DeserializationErr) (\<lambda>n. Inr (n, p)))"

definition take_typed_list_count :: "bytes \<Rightarrow> nat parse" where
  "take_typed_list_count bs p =
     rbind (take_byte bs p) (\<lambda>(raw_attribute, p).
     if raw_attribute AND 0x7F > 4 then Inl DeserializationErr
     else if raw_attribute AND 0x80 = 0 then take_count bs p
     else rbind (p_take bs 8 p) (\<lambda>(raw, p).
          rbind (ok_or (usize_of_int (le_i64 raw)) DeserializationErr) (\<lambda>n. Inr (n, p))))"

definition take_attribute :: "bytes \<Rightarrow> byte parse" where
  "take_attribute bs p =
     rbind (take_byte bs p) (\<lambda>(attribute, p).
     if attribute > 4 then Inl DeserializationErr else Inr (attribute, p))"

definition note_depth :: "nat \<Rightarrow> unit parse" where
  "note_depth depth p =
     (if depth > MAX_VALUE_DEPTH then Inl DeserializationErr
      else Inr ((), p\<lparr>max_depth := max (max_depth p) depth\<rparr>))"

definition validate_boolean_bytes :: "bytes \<Rightarrow> unit xresult" where
  "validate_boolean_bytes bs =
     (case find (\<lambda>b. b > 1) bs of Some _ \<Rightarrow> Inl DeserializationErr | None \<Rightarrow> Inr ())"

definition ensure_matching_counts :: "nat \<Rightarrow> nat \<Rightarrow> unit xresult" where
  "ensure_matching_counts left right = (if left = right then Inr () else Inl DeserializationErr)"

definition sequence_len :: "parsed \<Rightarrow> nat option" where
  "sequence_len v = (case p_shape v of Sequence _ \<Rightarrow> Some (p_len v) | _ \<Rightarrow> None)"

section \<open>Values without children\<close>

definition parse_atom :: "bytes \<Rightarrow> byte \<Rightarrow> parsed parse" where
  "parse_atom bs wire_type p =
     (let kind = 0 - wire_type in
      if kind = 3 \<or> \<not> (1 \<le> kind \<and> kind \<le> 19) then Inl DeserializationErr
      else rbind
        (if kind = 11 then rbind (take_until_nul bs p) (\<lambda>(_, p). Inr p)
         else rbind (p_take bs (K_TYPE_SIZE ! unat kind) p) (\<lambda>(payload, p).
              if kind = 1 then rbind (validate_boolean_bytes payload) (\<lambda>_. Inr p) else Inr p))
        (\<lambda>p. Inr (\<lparr>p_type_code = - int (unat kind), p_len = 1, p_shape = Atom\<rparr>, p)))"

text \<open>\<open>for _ in 0..count { self.take_until_nul(...)?; }\<close>\<close>

primrec take_symbols :: "bytes \<Rightarrow> nat \<Rightarrow> unit parse" where
  "take_symbols bs 0 p = Inr ((), p)"
| "take_symbols bs (Suc n) p = rbind (take_until_nul bs p) (\<lambda>(_, p). take_symbols bs n p)"

definition parse_typed_list :: "bytes \<Rightarrow> byte \<Rightarrow> parsed parse" where
  "parse_typed_list bs element_type p =
     (if element_type = 3 then Inl DeserializationErr
      else rbind (take_typed_list_count bs p) (\<lambda>(count, p).
        rbind
          (if element_type = 11 then rbind (take_symbols bs count p) (\<lambda>(_, p). Inr p)
           else
             rbind (ok_or (checked_mul count (K_TYPE_SIZE ! unat element_type)) DeserializationErr)
               (\<lambda>payload_length.
             rbind (p_take bs payload_length p) (\<lambda>(payload, p).
             if element_type = 1 then rbind (validate_boolean_bytes payload) (\<lambda>_. Inr p)
             else Inr p)))
          (\<lambda>p. Inr (\<lparr>p_type_code = int (unat element_type), p_len = count,
                      p_shape = Sequence (Some element_type)\<rparr>, p))))"

definition parse_lambda :: "bytes \<Rightarrow> nat \<Rightarrow> parsed parse" where
  "parse_lambda bs depth p =
     rbind (take_until_nul bs p) (\<lambda>(_, p).
     rbind (note_depth (depth + 1) p) (\<lambda>(_, p).
     rbind (take_byte bs p) (\<lambda>(source_type, p).
     if source_type \<noteq> 10 then Inl DeserializationErr
     else rbind (take_byte bs p) (\<lambda>(attribute, p).
     if attribute \<noteq> 0 then Inl DeserializationErr
     else rbind (take_count bs p) (\<lambda>(source_length, p).
     rbind (p_take bs source_length p) (\<lambda>(_, p).
     Inr (\<lparr>p_type_code = 100, p_len = 1, p_shape = Function\<rparr>, p)))))))"

definition parse_primitive :: "bytes \<Rightarrow> byte \<Rightarrow> parsed parse" where
  "parse_primitive bs wire_type p =
     rbind (take_byte bs p) (\<lambda>(opcode, p).
     if \<not> (wire_type = 101 \<and> (opcode = 0 \<or> opcode = 255))
        \<and> qoperator_from_wire wire_type opcode = None
     then Inl DeserializationErr
     else Inr (\<lparr>p_type_code = int (unat wire_type), p_len = 1, p_shape = Function\<rparr>, p))"

section \<open>Values with children\<close>

text \<open>\<open>for _ in 0..count { self.parse_value(depth)?; }\<close>\<close>

primrec parse_values :: "(nat \<Rightarrow> parsed parse) \<Rightarrow> nat \<Rightarrow> nat \<Rightarrow> unit parse" where
  "parse_values rec depth 0 p = Inr ((), p)"
| "parse_values rec depth (Suc n) p =
     rbind (rec depth p) (\<lambda>(_, p). parse_values rec depth n p)"

definition parse_general_list :: "(nat \<Rightarrow> parsed parse) \<Rightarrow> bytes \<Rightarrow> nat \<Rightarrow> parsed parse" where
  "parse_general_list rec bs depth p =
     rbind (take_attribute bs p) (\<lambda>(_, p).
     rbind (take_count bs p) (\<lambda>(count, p).
     if count > (length bs - position p) div 2 then Inl DeserializationErr
     else rbind (parse_values rec (depth + 1) count p) (\<lambda>(_, p).
     Inr (\<lparr>p_type_code = 0, p_len = count, p_shape = Sequence None\<rparr>, p))))"

definition dictionary_shape :: "parsed \<Rightarrow> parsed \<Rightarrow> (nat \<times> bool) xresult" where
  "dictionary_shape keys values =
     (if p_shape keys = Table \<and> p_shape values = Table then
        rbind (ensure_matching_counts (p_len keys) (p_len values)) (\<lambda>_. Inr (p_len keys, True))
      else if p_shape keys = Table \<or> p_shape values = Table then Inl DeserializationErr
      else
        rbind (ok_or (sequence_len keys) DeserializationErr) (\<lambda>key_count.
        rbind (ok_or (sequence_len values) DeserializationErr) (\<lambda>value_count.
        rbind (ensure_matching_counts key_count value_count) (\<lambda>_. Inr (key_count, False)))))"

definition parse_dictionary :: "(nat \<Rightarrow> parsed parse) \<Rightarrow> byte \<Rightarrow> nat \<Rightarrow> parsed parse" where
  "parse_dictionary rec wire_type depth p =
     rbind (rec (depth + 1) p) (\<lambda>(keys, p).
     rbind (rec (depth + 1) p) (\<lambda>(values, p).
     rbind (dictionary_shape keys values) (\<lambda>(len, keyed_table).
     Inr (\<lparr>p_type_code = int (unat wire_type), p_len = len,
            p_shape = Dictionary keyed_table\<rparr>, p))))"

text \<open>The column loop of \<open>parse_table\<close> with its \<open>row_count\<close>.\<close>

primrec parse_columns ::
  "(nat \<Rightarrow> parsed parse) \<Rightarrow> nat \<Rightarrow> nat \<Rightarrow> nat option \<Rightarrow> (nat option) parse" where
  "parse_columns rec depth 0 row_count p = Inr (row_count, p)"
| "parse_columns rec depth (Suc n) row_count p =
     rbind (rec depth p) (\<lambda>(column, p).
     rbind (ok_or (sequence_len column) DeserializationErr) (\<lambda>column_len.
     case row_count of
       Some expected \<Rightarrow>
         rbind (ensure_matching_counts expected column_len)
           (\<lambda>_. parse_columns rec depth n row_count p)
     | None \<Rightarrow> parse_columns rec depth n (Some column_len) p))"

definition parse_table :: "(nat \<Rightarrow> parsed parse) \<Rightarrow> bytes \<Rightarrow> nat \<Rightarrow> parsed parse" where
  "parse_table rec bs depth p =
     rbind (take_attribute bs p) (\<lambda>(_, p).
     rbind (note_depth (depth + 1) p) (\<lambda>(_, p).
     rbind (take_byte bs p) (\<lambda>(dictionary_type, p).
     if dictionary_type \<noteq> 99 then Inl DeserializationErr
     else rbind (rec (depth + 2) p) (\<lambda>(names, p).
     if p_shape names \<noteq> Sequence (Some 11) then Inl DeserializationErr
     else rbind (note_depth (depth + 2) p) (\<lambda>(_, p).
     rbind (take_byte bs p) (\<lambda>(columns_type, p).
     if columns_type \<noteq> 0 then Inl DeserializationErr
     else rbind (take_attribute bs p) (\<lambda>(_, p).
     rbind (take_count bs p) (\<lambda>(column_count, p).
     rbind (ensure_matching_counts (p_len names) column_count) (\<lambda>_.
     if column_count > (length bs - position p) div 6 then Inl DeserializationErr
     else rbind (parse_columns rec (depth + 3) column_count None p) (\<lambda>(row_count, p).
     Inr (\<lparr>p_type_code = 98,
            p_len = (case row_count of Some n \<Rightarrow> n | None \<Rightarrow> 0),
            p_shape = Table\<rparr>, p)))))))))))"

definition parse_counted_function ::
  "(nat \<Rightarrow> parsed parse) \<Rightarrow> bytes \<Rightarrow> byte \<Rightarrow> nat \<Rightarrow> parsed parse" where
  "parse_counted_function rec bs wire_type depth p =
     rbind (take_count bs p) (\<lambda>(count, p).
     if count > (length bs - position p) div 2 then Inl DeserializationErr
     else rbind (parse_values rec (depth + 1) count p) (\<lambda>(_, p).
     Inr (\<lparr>p_type_code = int (unat wire_type), p_len = 1, p_shape = Function\<rparr>, p)))"

definition parse_derived_function ::
  "(nat \<Rightarrow> parsed parse) \<Rightarrow> byte \<Rightarrow> nat \<Rightarrow> parsed parse" where
  "parse_derived_function rec wire_type depth p =
     rbind (rec (depth + 1) p) (\<lambda>(_, p).
     Inr (\<lparr>p_type_code = int (unat wire_type), p_len = 1, p_shape = Function\<rparr>, p))"

section \<open>The dispatch on the wire type\<close>

definition parse_wire_type ::
  "(nat \<Rightarrow> parsed parse) \<Rightarrow> bytes \<Rightarrow> nat \<Rightarrow> byte \<Rightarrow> parsed parse" where
  "parse_wire_type rec bs depth wire_type p =
     (if 237 \<le> wire_type then parse_atom bs wire_type p
      else if wire_type = 0 then parse_general_list rec bs depth p
      else if wire_type \<le> 19 then parse_typed_list bs wire_type p
      else if wire_type = 98 then parse_table rec bs depth p
      else if wire_type = 99 \<or> wire_type = 127 then parse_dictionary rec wire_type depth p
      else if wire_type = 100 then parse_lambda bs depth p
      else if 101 \<le> wire_type \<and> wire_type \<le> 103 then parse_primitive bs wire_type p
      else if 104 \<le> wire_type \<and> wire_type \<le> 105 then
        parse_counted_function rec bs wire_type depth p
      else if 106 \<le> wire_type \<and> wire_type \<le> 111 then
        parse_derived_function rec wire_type depth p
      else if 112 \<le> wire_type \<and> wire_type \<le> 126 then Inl DeserializationErr
      else if wire_type = 128 then
        rbind (take_until_nul bs p) (\<lambda>(message, p).
        Inl (ServerErr (transcode_utf8_lossy message)))
      else Inl DeserializationErr)"

definition parse_value_body :: "(nat \<Rightarrow> parsed parse) \<Rightarrow> bytes \<Rightarrow> nat \<Rightarrow> parsed parse" where
  "parse_value_body rec bs depth p =
     rbind (note_depth depth p) (\<lambda>(_, p).
     rbind (take_byte bs p) (\<lambda>(wire_type, p).
     parse_wire_type rec bs depth wire_type p))"

text \<open>
  The recursion is on the nesting depth: a call at depth \<open>d\<close> only calls at deeper levels, and
  a call beyond 64 fails in \<open>note_depth\<close> before it can call again, so \<open>66 - d\<close> units of fuel are
  always enough (\<open>parse_value_unfold\<close> below shows that the fuel never decides a result).
\<close>

primrec parse_value_fuel :: "nat \<Rightarrow> bytes \<Rightarrow> nat \<Rightarrow> parsed parse" where
  "parse_value_fuel 0 bs depth p = Inl DeserializationErr"
| "parse_value_fuel (Suc fuel) bs depth p =
     parse_value_body (parse_value_fuel fuel bs) bs depth p"

definition parse_value :: "bytes \<Rightarrow> nat \<Rightarrow> parsed parse" where
  "parse_value bs depth = parse_value_fuel (66 - depth) bs depth"

section \<open>Validation and construction\<close>

definition validate :: "bytes \<Rightarrow> metadata xresult" where
  "validate bs =
     rbind (parse_value bs 0 \<lparr>position = 0, max_depth = 0\<rparr>) (\<lambda>(v, p).
     if position p \<noteq> length bs then Inl DeserializationErr
     else Inr \<lparr>md_type_code = p_type_code v, md_len = p_len v,
               md_is_table = (p_shape v = Table \<or> p_shape v = Dictionary True),
               md_max_depth = max_depth p\<rparr>)"

definition from_validated :: "bytes \<Rightarrow> metadata \<Rightarrow> qvalue" where
  "from_validated bs md =
     \<lparr>qv_bytes = bs, qv_type_code = md_type_code md, qv_len = md_len md,
      qv_max_depth = md_max_depth md, qv_is_table = md_is_table md\<rparr>"

text \<open>\<open>from_bytes\<close> copies its input and \<open>from_owned_bytes\<close> adopts it; the value is the same.\<close>

definition from_bytes :: "bytes \<Rightarrow> qvalue xresult" where
  "from_bytes bs = rbind (validate bs) (\<lambda>md. Inr (from_validated bs md))"

definition from_owned_bytes :: "bytes \<Rightarrow> qvalue xresult" where
  "from_owned_bytes bs = rbind (validate bs) (\<lambda>md. Inr (from_validated bs md))"

definition is_sequence_type :: "int \<Rightarrow> bool" where
  "is_sequence_type t \<longleftrightarrow> 0 \<le> t \<and> t \<le> 19 \<and> t \<noteq> 3"

definition qvalue_atom :: "byte \<Rightarrow> bytes \<Rightarrow> qvalue xresult" where
  "qvalue_atom kind payload =
     (if \<not> (1 \<le> kind \<and> kind \<le> 19) \<or> kind = 3 then Inl NotAbleToSerializeErr
      else rbind
        (if kind = 11 then
           (if payload = [] \<or> last payload \<noteq> 0 \<or> 0 \<in> set (take (length payload - 1) payload)
            then Inl NotAbleToSerializeErr else Inr ())
         else if length payload \<noteq> K_TYPE_SIZE ! unat kind then Inl NotAbleToSerializeErr
         else if kind = 1 \<and> payload ! 0 > 1 then Inl NotAbleToSerializeErr
         else Inr ())
        (\<lambda>_. rbind (ok_or (checked_add (length payload) 1) OverLengthErr) (\<lambda>_.
        from_owned_bytes ((0 - kind) # payload))))"

definition qvalue_list :: "qvalue list \<Rightarrow> qvalue xresult" where
  "qvalue_list values =
     rbind (checked_q_count (length values)) (\<lambda>count.
     if list_ex (\<lambda>v. qv_max_depth v \<ge> MAX_VALUE_DEPTH) values then Inl NotAbleToSerializeErr
     else rbind (rfold (\<lambda>v len. ok_or (checked_add len (length (qv_bytes v))) OverLengthErr)
                  values 6) (\<lambda>_.
     from_owned_bytes ([0, 0] @ le_bytes 4 count @ concat (map qv_bytes values))))"

definition qvalue_dictionary :: "qvalue \<Rightarrow> qvalue \<Rightarrow> qvalue xresult" where
  "qvalue_dictionary keys values =
     (let keyed_table = (qv_type_code keys = 98 \<and> qv_type_code values = 98) in
      if (qv_type_code keys = 98 \<or> qv_type_code values = 98) \<and> \<not> keyed_table
      then Inl NotAbleToSerializeErr
      else if \<not> keyed_table \<and>
              (\<not> is_sequence_type (qv_type_code keys) \<or> \<not> is_sequence_type (qv_type_code values))
      then Inl NotAbleToSerializeErr
      else if qv_len keys \<noteq> qv_len values then Inl NotAbleToSerializeErr
      else if qv_max_depth keys \<ge> MAX_VALUE_DEPTH \<or> qv_max_depth values \<ge> MAX_VALUE_DEPTH
      then Inl NotAbleToSerializeErr
      else rbind (ok_or (Option.bind (checked_add 1 (length (qv_bytes keys)))
                   (\<lambda>len. checked_add len (length (qv_bytes values)))) OverLengthErr) (\<lambda>_.
        from_owned_bytes (99 # qv_bytes keys @ qv_bytes values)))"

end
