(* ===== verification/QValueSpec.thy ===== *)
theory QValueSpec
  imports QValue
begin

text \<open>
  The specification of the lossless value format and the proof that the parser of \<open>qvalue.rs\<close>
  implements it. A value body is the encoding of a syntax tree (\<open>qtree\<close>); \<open>wf_tree\<close> are the
  structural rules of the format, \<open>height\<close> the nesting depth and \<open>parsed_of\<close> what the parser has
  to report. The main lemma, \<open>parse_value_iff\<close>, says that the parser succeeds at a position
  exactly when an encoding of a well-formed tree of admissible height starts there, and that it
  then stops at its end with the tree's metadata.
\<close>

section \<open>Syntax trees and their encoding\<close>

datatype qtree =
    TAtom byte bytes
  | TSymbol bytes
  | TVector byte byte nat bytes
  | TSymbols byte "bytes list"
  | TList byte "qtree list"
  | TTable byte byte "bytes list" byte "qtree list"
  | TDict byte qtree qtree
  | TLambda bytes bytes
  | TPrimitive byte byte
  | TCounted byte "qtree list"
  | TDerived byte qtree

definition join0 :: "bytes list \<Rightarrow> bytes" where
  "join0 ss = concat (map (\<lambda>s. s @ [0]) ss)"

text \<open>A typed-list count: four bytes, or eight when the attribute has its high bit set.\<close>

definition enc_count :: "byte \<Rightarrow> nat \<Rightarrow> bytes" where
  "enc_count raw n = raw # le_bytes (if raw AND 0x80 = 0 then 4 else 8) n"

definition count_ok :: "byte \<Rightarrow> nat \<Rightarrow> bool" where
  "count_ok raw n \<longleftrightarrow> raw AND 0x7F \<le> 4 \<and>
     n < (if raw AND 0x80 = 0 then 2147483648 else 9223372036854775808)"

primrec encode :: "qtree \<Rightarrow> bytes" where
  "encode (TAtom kind payload) = (0 - kind) # payload"
| "encode (TSymbol s) = 245 # s @ [0]"
| "encode (TVector t raw n payload) = t # enc_count raw n @ payload"
| "encode (TSymbols raw ss) = 11 # enc_count raw (length ss) @ join0 ss"
| "encode (TList a cs) = 0 # a # le_bytes 4 (length cs) @ concat (map encode cs)"
| "encode (TTable a raw ns a' cs) =
     98 # a # 99 # (11 # enc_count raw (length ns) @ join0 ns)
     @ 0 # a' # le_bytes 4 (length cs) @ concat (map encode cs)"
| "encode (TDict w k v) = w # encode k @ encode v"
| "encode (TLambda ctx src) = 100 # ctx @ [0] @ 10 # 0 # le_bytes 4 (length src) @ src"
| "encode (TPrimitive w opcode) = [w, opcode]"
| "encode (TCounted w cs) = w # le_bytes 4 (length cs) @ concat (map encode cs)"
| "encode (TDerived w t) = w # encode t"

text \<open>What the parser reports: the signed type code, q's count and the shape.\<close>

primrec parsed_of :: "qtree \<Rightarrow> parsed" where
  "parsed_of (TAtom kind payload) = \<lparr>p_type_code = - int (unat kind), p_len = 1, p_shape = Atom\<rparr>"
| "parsed_of (TSymbol s) = \<lparr>p_type_code = - 11, p_len = 1, p_shape = Atom\<rparr>"
| "parsed_of (TVector t raw n payload) =
     \<lparr>p_type_code = int (unat t), p_len = n, p_shape = Sequence (Some t)\<rparr>"
| "parsed_of (TSymbols raw ss) =
     \<lparr>p_type_code = 11, p_len = length ss, p_shape = Sequence (Some 11)\<rparr>"
| "parsed_of (TList a cs) = \<lparr>p_type_code = 0, p_len = length cs, p_shape = Sequence None\<rparr>"
| "parsed_of (TTable a raw ns a' cs) =
     \<lparr>p_type_code = 98,
      p_len = (case map parsed_of cs of [] \<Rightarrow> 0 | c # _ \<Rightarrow> p_len c), p_shape = Table\<rparr>"
| "parsed_of (TDict w k v) =
     \<lparr>p_type_code = int (unat w), p_len = p_len (parsed_of k),
      p_shape = Dictionary (p_shape (parsed_of k) = Table)\<rparr>"
| "parsed_of (TLambda ctx src) = \<lparr>p_type_code = 100, p_len = 1, p_shape = Function\<rparr>"
| "parsed_of (TPrimitive w opcode) =
     \<lparr>p_type_code = int (unat w), p_len = 1, p_shape = Function\<rparr>"
| "parsed_of (TCounted w cs) = \<lparr>p_type_code = int (unat w), p_len = 1, p_shape = Function\<rparr>"
| "parsed_of (TDerived w t) = \<lparr>p_type_code = int (unat w), p_len = 1, p_shape = Function\<rparr>"

primrec height :: "qtree \<Rightarrow> nat" where
  "height (TAtom kind payload) = 0"
| "height (TSymbol s) = 0"
| "height (TVector t raw n payload) = 0"
| "height (TSymbols raw ss) = 0"
| "height (TList a cs) = foldr (\<lambda>c. max (1 + c)) (map height cs) 0"
| "height (TTable a raw ns a' cs) = foldr (\<lambda>c. max (3 + c)) (map height cs) 2"
| "height (TDict w k v) = 1 + max (height k) (height v)"
| "height (TLambda ctx src) = 1"
| "height (TPrimitive w opcode) = 0"
| "height (TCounted w cs) = foldr (\<lambda>c. max (1 + c)) (map height cs) 0"
| "height (TDerived w t) = 1 + height t"

definition is_seq :: "parsed \<Rightarrow> bool" where
  "is_seq v \<longleftrightarrow> (\<exists>e. p_shape v = Sequence e)"

text \<open>The structural rules of the format.\<close>

primrec wf_tree :: "qtree \<Rightarrow> bool" where
  "wf_tree (TAtom kind payload) \<longleftrightarrow>
     1 \<le> kind \<and> kind \<le> 19 \<and> kind \<noteq> 3 \<and> kind \<noteq> 11
     \<and> length payload = K_TYPE_SIZE ! unat kind \<and> (kind = 1 \<longrightarrow> (\<forall>b\<in>set payload. b \<le> 1))"
| "wf_tree (TSymbol s) \<longleftrightarrow> 0 \<notin> set s"
| "wf_tree (TVector t raw n payload) \<longleftrightarrow>
     1 \<le> t \<and> t \<le> 19 \<and> t \<noteq> 3 \<and> t \<noteq> 11 \<and> count_ok raw n
     \<and> length payload = n * K_TYPE_SIZE ! unat t \<and> (t = 1 \<longrightarrow> (\<forall>b\<in>set payload. b \<le> 1))"
| "wf_tree (TSymbols raw ss) \<longleftrightarrow> count_ok raw (length ss) \<and> (\<forall>s\<in>set ss. 0 \<notin> set s)"
| "wf_tree (TList a cs) \<longleftrightarrow> a \<le> 4 \<and> length cs < 2147483648 \<and> list_all wf_tree cs"
| "wf_tree (TTable a raw ns a' cs) \<longleftrightarrow>
     a \<le> 4 \<and> count_ok raw (length ns) \<and> (\<forall>s\<in>set ns. 0 \<notin> set s)
     \<and> a' \<le> 4 \<and> length cs = length ns \<and> length cs < 2147483648 \<and> list_all wf_tree cs
     \<and> list_all is_seq (map parsed_of cs)
     \<and> list_all (\<lambda>v. p_len v = p_len (hd (map parsed_of cs))) (map parsed_of cs)"
| "wf_tree (TDict w k v) \<longleftrightarrow>
     (w = 99 \<or> w = 127) \<and> wf_tree k \<and> wf_tree v \<and> p_len (parsed_of k) = p_len (parsed_of v)
     \<and> (p_shape (parsed_of k) = Table \<and> p_shape (parsed_of v) = Table
        \<or> is_seq (parsed_of k) \<and> is_seq (parsed_of v))"
| "wf_tree (TLambda ctx src) \<longleftrightarrow> 0 \<notin> set ctx \<and> length src < 2147483648"
| "wf_tree (TPrimitive w opcode) \<longleftrightarrow>
     101 \<le> w \<and> w \<le> 103
     \<and> (w = 101 \<and> (opcode = 0 \<or> opcode = 255) \<or> qoperator_from_wire w opcode \<noteq> None)"
| "wf_tree (TCounted w cs) \<longleftrightarrow>
     (w = 104 \<or> w = 105) \<and> length cs < 2147483648 \<and> list_all wf_tree cs"
| "wf_tree (TDerived w t) \<longleftrightarrow> 106 \<le> w \<and> w \<le> 111 \<and> wf_tree t"

text \<open>The metadata of a complete body.\<close>

definition meta_of :: "qtree \<Rightarrow> metadata" where
  "meta_of t = \<lparr>md_type_code = p_type_code (parsed_of t), md_len = p_len (parsed_of t),
     md_is_table = (p_shape (parsed_of t) = Table \<or> p_shape (parsed_of t) = Dictionary True),
     md_max_depth = height t\<rparr>"

text \<open>The bytes \<open>v\<close> stand in \<open>bs\<close> at offset \<open>i\<close>.\<close>

definition seg :: "bytes \<Rightarrow> nat \<Rightarrow> bytes \<Rightarrow> bool" where
  "seg bs i v \<longleftrightarrow> i + length v \<le> length bs \<and> take (length v) (drop i bs) = v"

text \<open>A tree of admissible height encoded at the parser's position, and the state after it.\<close>

definition tree_at :: "bytes \<Rightarrow> nat \<Rightarrow> parser \<Rightarrow> qtree \<Rightarrow> parser \<Rightarrow> bool" where
  "tree_at bs d p t p' \<longleftrightarrow> wf_tree t \<and> d + height t \<le> MAX_VALUE_DEPTH
     \<and> seg bs (position p) (encode t)
     \<and> p' = \<lparr>position = position p + length (encode t),
              max_depth = max (max_depth p) (d + height t)\<rparr>"

section \<open>Segments\<close>

lemma seg_Nil [simp]: "seg bs i [] \<longleftrightarrow> i \<le> length bs"
  by (simp add: seg_def)

lemma seg_append: "seg bs i (u @ v) \<longleftrightarrow> seg bs i u \<and> seg bs (i + length u) v"
proof
  assume a: "seg bs i (u @ v)"
  then have t: "take (length u + length v) (drop i bs) = u @ v" and l: "i + length u + length v \<le> length bs"
    by (auto simp: seg_def)
  have "take (length u) (drop i bs) = u"
    using arg_cong [OF t, of "take (length u)"] by simp
  moreover have "take (length v) (drop (i + length u) bs) = v"
    using arg_cong [OF t, of "drop (length u)"] by (simp add: drop_take add.commute)
  ultimately show "seg bs i u \<and> seg bs (i + length u) v" using l by (simp add: seg_def)
next
  assume "seg bs i u \<and> seg bs (i + length u) v"
  then show "seg bs i (u @ v)" by (auto simp: seg_def take_add add.commute)
qed

lemma seg_Cons: "seg bs i (b # v) \<longleftrightarrow> seg bs i [b] \<and> seg bs (Suc i) v"
  using seg_append [of bs i "[b]" v] by simp

lemma seg_whole: "seg bs 0 v \<Longrightarrow> length v = length bs \<Longrightarrow> v = bs"
  by (simp add: seg_def)

lemma seg_refl [simp]: "seg bs 0 bs"
  by (simp add: seg_def)

lemma seg_le: "seg bs i v \<Longrightarrow> i + length v \<le> length bs"
  by (simp add: seg_def)

lemma seg_unique: "seg bs i u \<Longrightarrow> seg bs i v \<Longrightarrow> length u = length v \<Longrightarrow> u = v"
  by (metis seg_def)


lemma seg_take_drop: "i + n \<le> length bs \<Longrightarrow> seg bs i (take n (drop i bs))"
  by (simp add: seg_def)

lemma seg_single: "seg bs i [b] \<longleftrightarrow> i < length bs \<and> bs ! i = b"
  by (auto simp: seg_def take_Suc_conv_app_nth hd_drop_conv_nth take_Suc)

section \<open>What the primitive readers accept\<close>

named_theorems reader_iffs

lemma p_take_iff [reader_iffs]:
  assumes "length bs < usize_limit"
  shows "p_take bs n p = Inr (v, p') \<longleftrightarrow>
    length v = n \<and> seg bs (position p) v \<and> p' = p\<lparr>position := position p + n\<rparr>"
  using assms by (auto simp: p_take_def result_simps usize_simps get_range_Some seg_def)

lemma take_byte_iff [reader_iffs]:
  assumes "length bs < usize_limit"
  shows "take_byte bs p = Inr (b, p') \<longleftrightarrow>
    seg bs (position p) [b] \<and> p' = p\<lparr>position := Suc (position p)\<rparr>"
proof -
  have "take_byte bs p = Inr (b, p') \<longleftrightarrow> (\<exists>v. p_take bs 1 p = Inr (v, p') \<and> b = v ! 0)"
    by (auto simp: take_byte_def result_simps)
  also have "\<dots> \<longleftrightarrow> (\<exists>v. length v = 1 \<and> seg bs (position p) v \<and> b = v ! 0
      \<and> p' = p\<lparr>position := position p + 1\<rparr>)"
    by (auto simp only: p_take_iff [OF assms])
  also have "\<dots> \<longleftrightarrow> seg bs (position p) [b] \<and> p' = p\<lparr>position := Suc (position p)\<rparr>"
    by (auto simp: length_Suc_conv)
  finally show ?thesis .
qed

lemma take_until_nul_iff [reader_iffs]:
  assumes len: "length bs < usize_limit"
  shows "take_until_nul bs p = Inr (s, p') \<longleftrightarrow>
    0 \<notin> set s \<and> seg bs (position p) (s @ [0])
    \<and> p' = p\<lparr>position := position p + length s + 1\<rparr>" (is "?L \<longleftrightarrow> ?R")
proof
  assume ?L
  then obtain k where k: "position p \<le> length bs" "memchr0 (drop (position p) bs) = Some k"
    "s = take k (drop (position p) bs)" "p' = p\<lparr>position := position p + k + 1\<rparr>"
    by (auto simp: take_until_nul_def result_simps usize_simps get_from_Some)
  from k(2) have z: "position p + k < length bs" "bs ! (position p + k) = 0" "0 \<notin> set s"
    by (auto simp: memchr0_Some k(3))
  moreover have "length s = k" using z k(3) by simp
  ultimately show ?R using k by (auto simp: seg_append seg_single seg_take_drop)
next
  assume r: ?R
  then have b: "position p + length s < length bs" "bs ! (position p + length s) = 0"
    "take (length s) (drop (position p) bs) = s"
    by (auto simp: seg_append seg_single) (simp add: seg_def)
  then have "memchr0 (drop (position p) bs) = Some (length s)"
    using r by (simp add: memchr0_Some)
  then show ?L using r b len
    by (auto simp: take_until_nul_def result_simps usize_simps get_from_Some)
qed

lemma take_count_iff [reader_iffs]:
  assumes "length bs < usize_limit"
  shows "take_count bs p = Inr (n, p') \<longleftrightarrow>
    n < 2147483648 \<and> seg bs (position p) (le_bytes 4 n)
    \<and> p' = p\<lparr>position := position p + 4\<rparr>" (is "?L \<longleftrightarrow> ?R")
proof
  assume ?L
  then show ?R
    using le_bytes_le_nat
    by (auto simp: take_count_def result_simps p_take_iff [OF assms] usize_of_int_le_i32
        simp del: le_bytes_numeral) metis
next
  assume ?R
  then show ?L
    by (auto simp: take_count_def result_simps p_take_iff [OF assms] usize_of_int_le_i32
        le_nat_le_bytes simp del: le_bytes_numeral intro!: exI [of _ "le_bytes 4 n"])
qed

lemma take_long_count_iff:
  assumes "length bs < usize_limit"
  shows "rbind (p_take bs 8 p) (\<lambda>(raw, p).
      rbind (ok_or (usize_of_int (le_i64 raw)) DeserializationErr) (\<lambda>n. Inr (n, p))) = Inr (n, p') \<longleftrightarrow>
    n < 9223372036854775808 \<and> seg bs (position p) (le_bytes 8 n)
    \<and> p' = p\<lparr>position := position p + 8\<rparr>" (is "?L \<longleftrightarrow> ?R")
proof
  assume ?L
  then show ?R
    using le_bytes_le_nat
    by (auto simp: result_simps p_take_iff [OF assms] usize_of_int_le_i64
        simp del: le_bytes_numeral) metis
next
  assume ?R
  then show ?L
    by (auto simp: result_simps p_take_iff [OF assms] usize_of_int_le_i64
        le_nat_le_bytes simp del: le_bytes_numeral intro!: exI [of _ "le_bytes 8 n"])
qed

lemma take_typed_list_count_iff [reader_iffs]:
  assumes "length bs < usize_limit"
  shows "take_typed_list_count bs p = Inr (n, p') \<longleftrightarrow>
    (\<exists>raw. count_ok raw n \<and> seg bs (position p) (enc_count raw n)
      \<and> p' = p\<lparr>position := position p + length (enc_count raw n)\<rparr>)"
proof -
  have eq: "take_typed_list_count bs p = Inr (n, p') \<longleftrightarrow>
    (\<exists>raw. seg bs (position p) [raw] \<and> raw AND 0x7F \<le> 4 \<and>
       (if raw AND 0x80 = 0 then take_count bs (p\<lparr>position := Suc (position p)\<rparr>)
        else rbind (p_take bs 8 (p\<lparr>position := Suc (position p)\<rparr>)) (\<lambda>(raw, p).
          rbind (ok_or (usize_of_int (le_i64 raw)) DeserializationErr) (\<lambda>n. Inr (n, p)))) = Inr (n, p'))"
    by (auto simp only: take_typed_list_count_def rbind_pair_iff if_Inl_Inr_iff take_byte_iff [OF assms]
        not_less)
  show ?thesis
    unfolding eq if_distrib [of "\<lambda>r. r = Inr (n, p')"] take_count_iff [OF assms] take_long_count_iff [OF assms]
      enc_count_def count_ok_def seg_Cons [of _ _ _ "le_bytes _ _"]
    by (rule ex_cong1) (auto simp del: le_bytes_numeral)
qed

lemma take_attribute_iff [reader_iffs]:
  assumes "length bs < usize_limit"
  shows "take_attribute bs p = Inr (a, p') \<longleftrightarrow>
    a \<le> 4 \<and> seg bs (position p) [a] \<and> p' = p\<lparr>position := Suc (position p)\<rparr>"
  by (auto simp: take_attribute_def result_simps take_byte_iff [OF assms] not_less)

lemma note_depth_iff [reader_iffs]:
  "note_depth d p = Inr (u, p') \<longleftrightarrow>
    d \<le> MAX_VALUE_DEPTH \<and> p' = p\<lparr>max_depth := max (max_depth p) d\<rparr>"
  by (auto simp: note_depth_def)

lemma validate_boolean_bytes_iff [reader_iffs]:
  "validate_boolean_bytes v = Inr u \<longleftrightarrow> (\<forall>b\<in>set v. b \<le> 1)"
  by (auto simp: validate_boolean_bytes_def find_None_iff not_less split: option.splits)
    (metis find_None_iff not_less option.distinct(1))+

lemma ensure_matching_counts_iff [reader_iffs]:
  "ensure_matching_counts l r = Inr u \<longleftrightarrow> l = r"
  by (auto simp: ensure_matching_counts_def)

lemma join0_Cons [simp]: "join0 (s # ss) = s @ 0 # join0 ss"
  by (simp add: join0_def)

lemma join0_Nil [simp]: "join0 [] = []"
  by (simp add: join0_def)

lemma take_symbols_iff [reader_iffs]:
  assumes "length bs < usize_limit"
  shows "position p \<le> length bs \<Longrightarrow> take_symbols bs n p = Inr (u, p') \<longleftrightarrow>
    (\<exists>ss. length ss = n \<and> (\<forall>s\<in>set ss. 0 \<notin> set s) \<and> seg bs (position p) (join0 ss)
      \<and> p' = p\<lparr>position := position p + length (join0 ss)\<rparr>)"
proof (induction n arbitrary: p)
  case 0
  then show ?case by auto
next
  case (Suc n)
  have step: "take_symbols bs (Suc n) p = Inr (u, p') \<longleftrightarrow>
    (\<exists>s. 0 \<notin> set s \<and> seg bs (position p) (s @ [0])
       \<and> take_symbols bs n (p\<lparr>position := position p + length s + 1\<rparr>) = Inr (u, p'))"
    by (auto simp: result_simps take_until_nul_iff [OF assms])
  have split: "seg bs i (s @ 0 # r) \<longleftrightarrow> seg bs i (s @ [0]) \<and> seg bs (i + length s + 1) r" for i s r
    using seg_append [of bs i "s @ [0]" r] by simp
  show ?case
    unfolding step
  proof (intro iffI; elim exE conjE)
    fix s assume s: "0 \<notin> set s" "seg bs (position p) (s @ [0])"
      and r: "take_symbols bs n (p\<lparr>position := position p + length s + 1\<rparr>) = Inr (u, p')"
    from s(2) have "position p + length s + 1 \<le> length bs" by (auto dest: seg_le)
    with r Suc.IH [of "p\<lparr>position := position p + length s + 1\<rparr>"] obtain ss
      where "length ss = n" "\<forall>s\<in>set ss. 0 \<notin> set s" "seg bs (position p + length s + 1) (join0 ss)"
        "p' = p\<lparr>position := position p + length s + 1 + length (join0 ss)\<rparr>" by auto
    with s show "\<exists>ss. length ss = Suc n \<and> (\<forall>s\<in>set ss. 0 \<notin> set s) \<and> seg bs (position p) (join0 ss)
      \<and> p' = p\<lparr>position := position p + length (join0 ss)\<rparr>"
      by (intro exI [of _ "s # ss"]) (auto simp: split [of _ _ "join0 _"])
  next
    fix ss assume l: "length ss = Suc n" and "\<forall>s\<in>set ss. 0 \<notin> set s" "seg bs (position p) (join0 ss)"
      "p' = p\<lparr>position := position p + length (join0 ss)\<rparr>"
    moreover from l obtain s ss' where ss: "ss = s # ss'" by (cases ss) auto
    ultimately have h: "0 \<notin> set s" "seg bs (position p) (s @ [0])" "length ss' = n"
      "\<forall>s\<in>set ss'. 0 \<notin> set s" "seg bs (Suc (position p + length s)) (join0 ss')"
      "p' = p\<lparr>position := Suc (position p + (length s + length (join0 ss')))\<rparr>"
      by (auto simp: split [of _ _ "join0 _"])
    then have "take_symbols bs n (p\<lparr>position := position p + length s + 1\<rparr>) = Inr (u, p')"
      by (subst Suc.IH) (auto dest: seg_le intro!: exI [of _ ss'])
    with h show "\<exists>s. 0 \<notin> set s \<and> seg bs (position p) (s @ [0])
       \<and> take_symbols bs n (p\<lparr>position := position p + length s + 1\<rparr>) = Inr (u, p')"
      by blast
  qed
qed

section \<open>Wire types and tree constructors\<close>

definition wire_class :: "byte \<Rightarrow> nat" where
  "wire_class w =
     (if 237 \<le> w then 0 else if w = 0 then 1 else if w \<le> 19 then 2 else if w = 98 then 3
      else if w = 99 \<or> w = 127 then 4 else if w = 100 then 5
      else if 101 \<le> w \<and> w \<le> 103 then 6 else if 104 \<le> w \<and> w \<le> 105 then 7
      else if 106 \<le> w \<and> w \<le> 111 then 8 else 9)"

primrec tree_class :: "qtree \<Rightarrow> nat" where
  "tree_class (TAtom kind payload) = 0"
| "tree_class (TSymbol s) = 0"
| "tree_class (TVector t raw n payload) = 2"
| "tree_class (TSymbols raw ss) = 2"
| "tree_class (TList a cs) = 1"
| "tree_class (TTable a raw ns a' cs) = 3"
| "tree_class (TDict w k v) = 4"
| "tree_class (TLambda ctx src) = 5"
| "tree_class (TPrimitive w opcode) = 6"
| "tree_class (TCounted w cs) = 7"
| "tree_class (TDerived w t) = 8"

lemma wire_class_atom: "1 \<le> k \<and> k \<le> 19 \<longrightarrow> wire_class (0 - k) = 0"
  by (rule byte_cases_upto [of "\<lambda>k. 1 \<le> k \<and> k \<le> 19 \<longrightarrow> wire_class (0 - k) = 0"]) code_simp

lemma wire_class_vector: "1 \<le> k \<and> k \<le> 19 \<longrightarrow> wire_class k = 2"
  by (rule byte_cases_upto [of "\<lambda>k. 1 \<le> k \<and> k \<le> 19 \<longrightarrow> wire_class k = 2"]) code_simp

lemma wire_class_primitive: "101 \<le> k \<and> k \<le> 103 \<longrightarrow> wire_class k = 6"
  by (rule byte_cases_upto [of "\<lambda>k. 101 \<le> k \<and> k \<le> 103 \<longrightarrow> wire_class k = 6"]) code_simp

lemma wire_class_derived: "106 \<le> k \<and> k \<le> 111 \<longrightarrow> wire_class k = 8"
  by (rule byte_cases_upto [of "\<lambda>k. 106 \<le> k \<and> k \<le> 111 \<longrightarrow> wire_class k = 8"]) code_simp

lemma wire_class_consts:
  "wire_class 245 = 0" "wire_class 0 = 1" "wire_class 11 = 2" "wire_class 98 = 3" "wire_class 99 = 4"
  "wire_class 127 = 4" "wire_class 100 = 5" "wire_class 104 = 7" "wire_class 105 = 7"
  by (simp_all add: wire_class_def)

lemma wire_class_encode: "wf_tree t \<Longrightarrow> wire_class (hd (encode t)) = tree_class t"
proof (cases t)
  case (TAtom k v)
  assume "wf_tree t"
  then show ?thesis using wire_class_atom [of k] TAtom by simp
next
  case (TVector k raw n v)
  assume "wf_tree t"
  then show ?thesis using wire_class_vector [of k] TVector by simp
next
  case (TPrimitive w v)
  assume "wf_tree t"
  then show ?thesis using wire_class_primitive [of w] TPrimitive by simp
next
  case (TDerived w u)
  assume "wf_tree t"
  then show ?thesis using wire_class_derived [of w] TDerived by simp
qed (auto simp: wire_class_consts)

lemma tree_class_not_9: "tree_class t \<noteq> 9"
  by (cases t) auto

lemma tree_class_iffs:
  "tree_class t = 0 \<longleftrightarrow> (\<exists>k v. t = TAtom k v) \<or> (\<exists>s. t = TSymbol s)"
  "tree_class t = 1 \<longleftrightarrow> (\<exists>a cs. t = TList a cs)"
  "tree_class t = 2 \<longleftrightarrow> (\<exists>k raw n v. t = TVector k raw n v) \<or> (\<exists>raw ss. t = TSymbols raw ss)"
  "tree_class t = 3 \<longleftrightarrow> (\<exists>a raw ns a' cs. t = TTable a raw ns a' cs)"
  "tree_class t = 4 \<longleftrightarrow> (\<exists>w k v. t = TDict w k v)"
  "tree_class t = 5 \<longleftrightarrow> (\<exists>ctx src. t = TLambda ctx src)"
  "tree_class t = 6 \<longleftrightarrow> (\<exists>w opc. t = TPrimitive w opc)"
  "tree_class t = 7 \<longleftrightarrow> (\<exists>w cs. t = TCounted w cs)"
  "tree_class t = 8 \<longleftrightarrow> (\<exists>w u. t = TDerived w u)"
  by (cases t; auto)+

lemma tree_class_ex:
  "(\<exists>t. tree_class t = 1 \<and> P t) \<longleftrightarrow> (\<exists>a cs. P (TList a cs))"
  "(\<exists>t. tree_class t = 3 \<and> P t) \<longleftrightarrow> (\<exists>a raw ns a' cs. P (TTable a raw ns a' cs))"
  "(\<exists>t. tree_class t = 4 \<and> P t) \<longleftrightarrow> (\<exists>w k v. P (TDict w k v))"
  "(\<exists>t. tree_class t = 5 \<and> P t) \<longleftrightarrow> (\<exists>ctx src. P (TLambda ctx src))"
  "(\<exists>t. tree_class t = 6 \<and> P t) \<longleftrightarrow> (\<exists>w opc. P (TPrimitive w opc))"
  "(\<exists>t. tree_class t = 7 \<and> P t) \<longleftrightarrow> (\<exists>w cs. P (TCounted w cs))"
  "(\<exists>t. tree_class t = 8 \<and> P t) \<longleftrightarrow> (\<exists>w u. P (TDerived w u))"
  unfolding tree_class_iffs by blast+

text \<open>The bytes of a tree after its type byte, as the dispatched methods see them.\<close>

definition rest_at :: "bytes \<Rightarrow> nat \<Rightarrow> parser \<Rightarrow> byte \<Rightarrow> qtree \<Rightarrow> parser \<Rightarrow> bool" where
  "rest_at bs d p w t p' \<longleftrightarrow> wf_tree t \<and> hd (encode t) = w \<and> d + height t \<le> MAX_VALUE_DEPTH
     \<and> seg bs (position p) (tl (encode t))
     \<and> p' = \<lparr>position = position p + length (tl (encode t)),
              max_depth = max (max_depth p) (d + height t)\<rparr>"

lemma rest_at_class: "rest_at bs d p w t p' \<Longrightarrow> tree_class t = wire_class w"
  by (auto simp: rest_at_def wire_class_encode)

lemma encode_Cons: "encode t = hd (encode t) # tl (encode t)"
  by (cases t) auto

lemma tree_at_iff_rest:
  "tree_at bs d p t p' \<longleftrightarrow> (\<exists>w. d \<le> MAX_VALUE_DEPTH \<and> seg bs (position p) [w]
     \<and> rest_at bs d \<lparr>position = Suc (position p), max_depth = max (max_depth p) d\<rparr> w t p')"
proof -
  obtain w r where e: "encode t = w # r" using encode_Cons by blast
  then show ?thesis
    unfolding tree_at_def rest_at_def e seg_Cons [of _ _ _ r] by auto
qed

lemma parser_eta: "p\<lparr>position := i\<rparr> = \<lparr>position = i, max_depth = max_depth p\<rparr>"
  by (cases p) simp

section \<open>Values without children\<close>

lemma atom_kind: "237 \<le> w \<longrightarrow> 1 \<le> - w \<and> - w \<le> 19" for w :: byte
  by (rule byte_cases_upto [of "\<lambda>w. 237 \<le> w \<longrightarrow> 1 \<le> - w \<and> - w \<le> 19"]) code_simp

lemma minus_byte_eq_11: "- w = 11 \<longleftrightarrow> w = 245" for w :: byte
  using minus_equation_iff [of w 11] by auto

lemma parse_atom_iff:
  assumes len: "length bs < usize_limit" and d: "d \<le> max_depth p" "d \<le> MAX_VALUE_DEPTH"
    and w: "237 \<le> w"
  shows "parse_atom bs w p = Inr (v, p') \<longleftrightarrow>
    (\<exists>t. tree_class t = 0 \<and> rest_at bs d p w t p' \<and> v = parsed_of t)" (is "?L \<longleftrightarrow> ?R")
proof
  have kind: "1 \<le> - w" "- w \<le> 19" using w atom_kind [of w] by auto
  assume ?L
  then consider s where "- w = 11" "0 \<notin> set s" "seg bs (position p) (s @ [0])"
      "p' = p\<lparr>position := position p + length s + 1\<rparr>"
      "v = \<lparr>p_type_code = - int (unat (- w)), p_len = 1, p_shape = Atom\<rparr>"
    | u where "- w \<noteq> 11" "- w \<noteq> 3" "length u = K_TYPE_SIZE ! unat (- w)"
      "seg bs (position p) u" "- w = 1 \<longrightarrow> (\<forall>b\<in>set u. b \<le> 1)"
      "p' = p\<lparr>position := position p + length u\<rparr>"
      "v = \<lparr>p_type_code = - int (unat (- w)), p_len = 1, p_shape = Atom\<rparr>"
    by (auto simp: parse_atom_def Let_def result_simps reader_iffs len split: if_splits)
  then show ?R
  proof cases
    case 1
    then show ?thesis using d
      by (intro exI [of _ "TSymbol s"]) (auto simp: rest_at_def minus_byte_eq_11 parser_eta)
  next
    case 2
    then show ?thesis using d kind
      by (intro exI [of _ "TAtom (- w) u"]) (auto simp: rest_at_def parser_eta)
  qed
next
  assume ?R
  then show ?L using d
    by (auto simp: tree_class_iffs rest_at_def parse_atom_def Let_def result_simps reader_iffs len parser_eta)
qed

lemma parse_typed_list_iff:
  assumes len: "length bs < usize_limit" and d: "d \<le> max_depth p" "d \<le> MAX_VALUE_DEPTH"
    and w: "w \<noteq> 0" "w \<le> 19"
  shows "parse_typed_list bs w p = Inr (v, p') \<longleftrightarrow>
    (\<exists>t. tree_class t = 2 \<and> rest_at bs d p w t p' \<and> v = parsed_of t)" (is "?L \<longleftrightarrow> ?R")
proof
  have w1: "1 \<le> w" using w(1) by (metis inc_le word_gt_0 add_0)
  assume ?L
  then have eq: "w \<noteq> 3 \<and> (\<exists>n p1. take_typed_list_count bs p = Inr (n, p1)
      \<and> v = \<lparr>p_type_code = int (unat w), p_len = n, p_shape = Sequence (Some w)\<rparr>
      \<and> (if w = 11 then take_symbols bs n p1 = Inr ((), p')
      else \<exists>u. p_take bs (n * K_TYPE_SIZE ! unat w) p1 = Inr (u, p') \<and> (w = 1 \<longrightarrow> (\<forall>b\<in>set u. b \<le> 1))))"
    by (cases "w = 11"; cases "w = 1"; auto simp only: parse_typed_list_def rbind_pair_iff
      if_Inl_Inr_iff rbind_Inr_iff ok_or_Inr_iff usize_simps validate_boolean_bytes_iff
      if_True if_False simp_thms sum.inject prod.inject; blast)
  then obtain n p1 where "w \<noteq> 3" and c: "take_typed_list_count bs p = Inr (n, p1)"
    and v: "v = \<lparr>p_type_code = int (unat w), p_len = n, p_shape = Sequence (Some w)\<rparr>"
    and r: "(if w = 11 then take_symbols bs n p1 = Inr ((), p')
      else \<exists>u. p_take bs (n * K_TYPE_SIZE ! unat w) p1 = Inr (u, p') \<and> (w = 1 \<longrightarrow> (\<forall>b\<in>set u. b \<le> 1)))"
    by blast
  from c obtain raw where raw: "count_ok raw n" "seg bs (position p) (enc_count raw n)"
    "p1 = p\<lparr>position := position p + length (enc_count raw n)\<rparr>"
    by (auto simp: take_typed_list_count_iff [OF len])
  show ?R
  proof (cases "w = 11")
    case True
    with r raw obtain ss where "length ss = n" "\<forall>s\<in>set ss. 0 \<notin> set s"
      "seg bs (position p1) (join0 ss)" "p' = p1\<lparr>position := position p1 + length (join0 ss)\<rparr>"
      by (subst (asm) take_symbols_iff [OF len]) (auto dest: seg_le)
    then show ?thesis using d raw v True
      by (intro exI [of _ "TSymbols raw ss"]) (auto simp: rest_at_def seg_append parser_eta)
  next
    case False
    with r obtain u where "length u = n * K_TYPE_SIZE ! unat w" "seg bs (position p1) u"
      "p' = p1\<lparr>position := position p1 + length u\<rparr>" "w = 1 \<longrightarrow> (\<forall>b\<in>set u. b \<le> 1)"
      by (auto simp: p_take_iff [OF len])
    then show ?thesis using d raw v False w1 w \<open>w \<noteq> 3\<close>
      by (intro exI [of _ "TVector w raw n u"]) (auto simp: rest_at_def seg_append parser_eta)
  qed
next
  assume ?R
  then obtain t where t: "tree_class t = 2" "rest_at bs d p w t p'" "v = parsed_of t" by blast
  from t(1) consider k raw n u where "t = TVector k raw n u" | raw ss where "t = TSymbols raw ss"
    by (auto simp: tree_class_iffs)
  then show ?L
  proof cases
    case 1
    with t d have h: "w = k" "k \<noteq> 3" "k \<noteq> 11" "count_ok raw n" "seg bs (position p) (enc_count raw n)"
      "seg bs (position p + length (enc_count raw n)) u" "length u = n * K_TYPE_SIZE ! unat k"
      "k = 1 \<longrightarrow> (\<forall>b\<in>set u. b \<le> 1)"
      "p' = p\<lparr>position := position p + length (enc_count raw n) + length u\<rparr>"
      by (auto simp: rest_at_def seg_append parser_eta)
    have "n * K_TYPE_SIZE ! unat k < usize_limit" using seg_le [OF h(6)] h(7) len by linarith
    moreover have "take_typed_list_count bs p = Inr (n, p\<lparr>position := position p + length (enc_count raw n)\<rparr>)"
      using h by (auto simp: take_typed_list_count_iff [OF len])
    moreover have "p_take bs (n * K_TYPE_SIZE ! unat k) (p\<lparr>position := position p + length (enc_count raw n)\<rparr>)
        = Inr (u, p')"
      using h by (simp add: p_take_iff [OF len])
    moreover have "k = 1 \<Longrightarrow> validate_boolean_bytes u = Inr ()"
      using h(8) by (simp add: validate_boolean_bytes_iff)
    ultimately show ?thesis using h(1,2,3) 1 t(3)
      by (simp add: parse_typed_list_def checked_mul_def del: unat_1)
  next
    case 2
    with t d have h: "w = 11" "count_ok raw (length ss)" "seg bs (position p) (enc_count raw (length ss))"
      "\<forall>s\<in>set ss. 0 \<notin> set s" "seg bs (position p + length (enc_count raw (length ss))) (join0 ss)"
      "p' = p\<lparr>position := position p + length (enc_count raw (length ss)) + length (join0 ss)\<rparr>"
      by (auto simp: rest_at_def seg_append parser_eta)
    have c: "take_typed_list_count bs p
        = Inr (length ss, p\<lparr>position := position p + length (enc_count raw (length ss))\<rparr>)"
      using h by (auto simp: take_typed_list_count_iff [OF len])
    have s: "take_symbols bs (length ss) (p\<lparr>position := position p + length (enc_count raw (length ss))\<rparr>)
        = Inr ((), p')"
      using h seg_le [OF h(3)] by (subst take_symbols_iff [OF len]) auto
    show ?thesis using h(1) 2 t(3) by (simp add: parse_typed_list_def c s)
  qed
qed

lemma parse_lambda_iff:
  assumes len: "length bs < usize_limit" and d: "d \<le> max_depth p" "d \<le> MAX_VALUE_DEPTH"
  shows "parse_lambda bs d p = Inr (v, p') \<longleftrightarrow>
    (\<exists>t. tree_class t = 5 \<and> rest_at bs d p 100 t p' \<and> v = parsed_of t)" (is "?L \<longleftrightarrow> ?R")
proof -
  have sg: "seg bs i (ctx @ 0 # 10 # 0 # le_bytes 4 (length src) @ src) \<longleftrightarrow>
    seg bs i (ctx @ [0]) \<and> seg bs (Suc (i + length ctx)) [10] \<and> seg bs (Suc (Suc (i + length ctx))) [0]
    \<and> seg bs (Suc (Suc (Suc (i + length ctx)))) (le_bytes 4 (length src))
    \<and> seg bs (Suc (Suc (Suc (i + length ctx))) + 4) src" for i ctx src
    using seg_append [of bs i "ctx @ [0]" "10 # 0 # le_bytes 4 (length src) @ src"]
      seg_Cons [of _ _ "10" "0 # le_bytes 4 (length src) @ src"]
      seg_Cons [of _ _ "0" "le_bytes 4 (length src) @ src"]
      seg_append [of _ _ "le_bytes 4 (length src)" "src"]
    by (simp del: le_bytes_numeral)
  show ?thesis
    unfolding tree_class_ex
  proof
    assume ?L
    then obtain ctx src where h: "0 \<notin> set ctx" "length src < 2147483648" "d + 1 \<le> MAX_VALUE_DEPTH"
      "seg bs (position p) (ctx @ 0 # 10 # 0 # le_bytes 4 (length src) @ src)"
      "v = \<lparr>p_type_code = 100, p_len = 1, p_shape = Function\<rparr>"
      "p' = \<lparr>position = position p + length ctx + 7 + length src,
             max_depth = max (max_depth p) (d + 1)\<rparr>"
      unfolding sg
      by (auto simp: parse_lambda_def rbind_pair_iff if_Inl_Inr_iff reader_iffs len parser_eta
          algebra_simps simp del: le_bytes_numeral)
    then show "\<exists>ctx src. rest_at bs d p 100 (TLambda ctx src) p' \<and> v = parsed_of (TLambda ctx src)"
      by (intro exI [of _ ctx] exI [of _ src]) (auto simp: rest_at_def simp del: le_bytes_numeral)
  next
    assume "\<exists>ctx src. rest_at bs d p 100 (TLambda ctx src) p' \<and> v = parsed_of (TLambda ctx src)"
    then obtain ctx src where h: "rest_at bs d p 100 (TLambda ctx src) p'" "v = parsed_of (TLambda ctx src)"
      by blast
    define q where "q = p\<lparr>position := position p + length ctx + 1\<rparr>"
    define q' where "q' = \<lparr>position = position q + 6, max_depth = max (max_depth p) (d + 1)\<rparr>"
    have "take_until_nul bs p = Inr (ctx, q)"
      and "take_byte bs (q\<lparr>max_depth := max (max_depth q) (d + 1)\<rparr>)
        = Inr (10, q\<lparr>position := Suc (position q), max_depth := max (max_depth q) (d + 1)\<rparr>)"
      and "take_byte bs (q\<lparr>position := Suc (position q), max_depth := max (max_depth q) (d + 1)\<rparr>)
        = Inr (0, q\<lparr>position := Suc (Suc (position q)), max_depth := max (max_depth q) (d + 1)\<rparr>)"
      and "take_count bs (q\<lparr>position := Suc (Suc (position q)), max_depth := max (max_depth q) (d + 1)\<rparr>)
        = Inr (length src, q')"
      and "p_take bs (length src) q' = Inr (src, p')"
      using h(1) by (auto simp: reader_iffs len rest_at_def sg q_def q'_def simp del: le_bytes_numeral)
    then show ?L using h
      by (simp add: parse_lambda_def note_depth_def rest_at_def not_less)
  qed
qed

lemma parse_primitive_iff:
  assumes len: "length bs < usize_limit" and d: "d \<le> max_depth p" "d \<le> MAX_VALUE_DEPTH"
    and w: "101 \<le> w" "w \<le> 103"
  shows "parse_primitive bs w p = Inr (v, p') \<longleftrightarrow>
    (\<exists>t. tree_class t = 6 \<and> rest_at bs d p w t p' \<and> v = parsed_of t)"
  using w d unfolding tree_class_ex
  by (auto simp: parse_primitive_def rbind_pair_iff if_Inl_Inr_iff take_byte_iff [OF len]
      rest_at_def parser_eta)

end
