(* ===== verification/QValueCorrect.thy ===== *)
theory QValueCorrect
  imports QValueSpec
begin

text \<open>
  The parser of \<open>qvalue.rs\<close> implements the format of \<open>QValueSpec\<close>: the locale \<open>value_reader\<close> states
  the contract of the recursive \<open>parse_value\<close> call, the methods with children are verified once
  against it, and \<open>parse_value_iff\<close> closes the recursion. The constructors \<open>QValue::atom\<close>,
  \<open>QValue::list\<close> and \<open>QValue::dictionary\<close> are then exact on the same trees.
\<close>

section \<open>Sequences of encodings\<close>

lemma ex_length_Suc: "(\<exists>cs. length cs = Suc n \<and> P cs) \<longleftrightarrow> (\<exists>c cs. length cs = n \<and> P (c # cs))"
  by (metis length_Cons length_Suc_conv)

definition trees_at :: "bytes \<Rightarrow> nat \<Rightarrow> parser \<Rightarrow> qtree list \<Rightarrow> parser \<Rightarrow> bool" where
  "trees_at bs d p cs p' \<longleftrightarrow> list_all wf_tree cs \<and> (\<forall>c\<in>set cs. d + height c \<le> MAX_VALUE_DEPTH)
     \<and> seg bs (position p) (concat (map encode cs))
     \<and> p' = \<lparr>position = position p + length (concat (map encode cs)),
              max_depth = foldr (\<lambda>c. max (d + height c)) cs (max_depth p)\<rparr>"

lemma foldr_max_base: "foldr (\<lambda>c. max (f c)) cs (max m (x :: nat)) = max x (foldr (\<lambda>c. max (f c)) cs m)"
  by (induction cs) auto

lemma foldr_max_plus:
  "foldr (\<lambda>c. max (d + k + h c)) cs (max m (d + b)) = max m (d + foldr (\<lambda>c. max (k + c)) (map h cs) (b :: nat))"
  by (induction cs) auto

lemma foldr_max_le:
  "foldr (\<lambda>c. max (k + c)) (map h cs) b \<le> (m :: nat) \<longleftrightarrow> b \<le> m \<and> (\<forall>c\<in>set cs. k + h c \<le> m)"
  by (induction cs) auto

lemma trees_at_Nil: "trees_at bs d p [] p' \<longleftrightarrow> position p \<le> length bs \<and> p' = p"
  by (cases p) (auto simp: trees_at_def)

lemma trees_at_Cons:
  "trees_at bs d p (c # cs) p' \<longleftrightarrow> (\<exists>q. tree_at bs d p c q \<and> trees_at bs d q cs p')"
  by (auto simp: trees_at_def tree_at_def seg_append foldr_max_base add.assoc)

lemma trees_at_le: "trees_at bs d p cs p' \<Longrightarrow> position p' \<le> length bs \<and> position p \<le> length bs"
  by (auto simp: trees_at_def dest!: seg_le)

lemma tree_at_le: "tree_at bs d p c p' \<Longrightarrow> position p' \<le> length bs"
  by (auto simp: tree_at_def dest!: seg_le)

lemma counted_types: "104 \<le> w \<and> w \<le> 105 \<longrightarrow> w = 104 \<or> w = 105" for w :: byte
  by (rule byte_cases_upto [of "\<lambda>w. 104 \<le> w \<and> w \<le> 105 \<longrightarrow> w = 104 \<or> w = 105"]) code_simp

lemma type_size_pos: "1 \<le> k \<and> k \<le> 19 \<and> k \<noteq> 3 \<and> k \<noteq> 11 \<longrightarrow> 0 < K_TYPE_SIZE ! unat k" for k :: byte
  by (rule byte_cases_upto [of "\<lambda>k. 1 \<le> k \<and> k \<le> 19 \<and> k \<noteq> 3 \<and> k \<noteq> 11 \<longrightarrow> 0 < K_TYPE_SIZE ! unat k"]) code_simp

lemma length_encode_ge_2: "wf_tree t \<Longrightarrow> 2 \<le> length (encode t)"
proof (induction t)
  case (TAtom k v)
  then have "1 \<le> K_TYPE_SIZE ! unat k"
    using type_size_pos [of k] by simp
  then show ?case using TAtom by simp
qed (auto simp: enc_count_def)

lemma length_encode_seq: "wf_tree t \<Longrightarrow> is_seq (parsed_of t) \<Longrightarrow> 6 \<le> length (encode t)"
  by (cases t) (auto simp: is_seq_def enc_count_def)

lemma length_concat_ge: "(\<And>x. x \<in> set xs \<Longrightarrow> k \<le> length (f x)) \<Longrightarrow> k * length xs \<le> length (concat (map f xs))"
  by (induction xs) (auto simp: algebra_simps add_mono)

lemma trees_at_height:
  "trees_at bs (d + k) p cs p' \<longleftrightarrow> list_all wf_tree cs \<and> (\<forall>c\<in>set cs. d + (k + height c) \<le> MAX_VALUE_DEPTH)
     \<and> seg bs (position p) (concat (map encode cs))
     \<and> p' = \<lparr>position = position p + length (concat (map encode cs)),
              max_depth = foldr (\<lambda>c. max (d + k + height c)) cs (max_depth p)\<rparr>"
  by (simp add: trees_at_def add.assoc)

lemma height_bound:
  "d + b \<le> m \<Longrightarrow> d + foldr (\<lambda>c. max (k + c)) (map h cs) b \<le> (m :: nat) \<longleftrightarrow> (\<forall>c\<in>set cs. d + (k + h c) \<le> m)"
  using foldr_max_le [of k h cs b "m - d"] by (auto simp: le_diff_conv2)

lemma depth_after:
  "d + b \<le> m \<Longrightarrow> foldr (\<lambda>c. max (d + k + h c)) cs m = max m (d + foldr (\<lambda>c. max (k + c)) (map h cs) (b :: nat))"
  using foldr_max_plus [of d k h cs m b] by (simp add: max_absorb1)

lemma rest_at_TList:
  assumes "d \<le> max_depth p" "d \<le> MAX_VALUE_DEPTH"
  shows "rest_at bs d p w (TList a cs) p' \<longleftrightarrow> w = 0 \<and> a \<le> 4 \<and> length cs < 2147483648
    \<and> seg bs (position p) [a] \<and> seg bs (Suc (position p)) (le_bytes 4 (length cs))
    \<and> trees_at bs (d + 1) (p\<lparr>position := position p + 5\<rparr>) cs p'"
  unfolding trees_at_height rest_at_def
  using assms height_bound [of d 0 _ 1 height cs] depth_after [of d 0 "max_depth p" 1 height cs]
  by (auto simp: seg_append seg_Cons [of _ _ _ "le_bytes _ _ @ _"] ac_simps simp del: le_bytes_numeral)

lemma rest_at_TCounted:
  assumes "d \<le> max_depth p" "d \<le> MAX_VALUE_DEPTH"
  shows "rest_at bs d p w (TCounted w' cs) p' \<longleftrightarrow> w = w' \<and> (w = 104 \<or> w = 105) \<and> length cs < 2147483648
    \<and> seg bs (position p) (le_bytes 4 (length cs))
    \<and> trees_at bs (d + 1) (p\<lparr>position := position p + 4\<rparr>) cs p'"
  unfolding trees_at_height rest_at_def
  using assms height_bound [of d 0 _ 1 height cs] depth_after [of d 0 "max_depth p" 1 height cs]
  by (auto simp: seg_append simp del: le_bytes_numeral)

lemma rest_at_TDict:
  assumes "d \<le> max_depth p"
  shows "rest_at bs d p w (TDict w' k u) p' \<longleftrightarrow> w = w' \<and> (w = 99 \<or> w = 127)
    \<and> (\<exists>q. tree_at bs (d + 1) p k q \<and> tree_at bs (d + 1) q u p')
    \<and> p_len (parsed_of k) = p_len (parsed_of u)
    \<and> (p_shape (parsed_of k) = Table \<and> p_shape (parsed_of u) = Table
        \<or> is_seq (parsed_of k) \<and> is_seq (parsed_of u))"
  using assms by (auto simp: rest_at_def tree_at_def seg_append max_def)

lemma rest_at_TDerived:
  assumes "d \<le> max_depth p"
  shows "rest_at bs d p w (TDerived w' u) p' \<longleftrightarrow> w = w' \<and> 106 \<le> w \<and> w \<le> 111
    \<and> tree_at bs (d + 1) p u p'"
  using assms by (auto simp: rest_at_def tree_at_def)

lemma seg_table:
  "seg bs i (a # 99 # ns @ 0 # a' # le_bytes 4 m @ r) \<longleftrightarrow>
    seg bs i [a] \<and> seg bs (i + 1) [99] \<and> seg bs (i + 2) ns
    \<and> seg bs (i + 2 + length ns) [0] \<and> seg bs (i + 2 + length ns + 1) [a']
    \<and> seg bs (i + 2 + length ns + 2) (le_bytes 4 m) \<and> seg bs (i + 2 + length ns + 6) r"
proof -
  let ?j = "i + 2 + length ns"
  have "seg bs (?j + 2) (le_bytes 4 m @ r) \<longleftrightarrow> seg bs (?j + 2) (le_bytes 4 m) \<and> seg bs (?j + 6) r"
    using seg_append [of bs "?j + 2" "le_bytes 4 m" r] by (simp add: add.assoc del: le_bytes_numeral)
  moreover have "seg bs (i + 2) (ns @ 0 # a' # le_bytes 4 m @ r) \<longleftrightarrow> seg bs (i + 2) ns
    \<and> seg bs ?j [0] \<and> seg bs (?j + 1) [a'] \<and> seg bs (?j + 2) (le_bytes 4 m @ r)"
    using seg_append [of bs "i + 2" ns "0 # a' # le_bytes 4 m @ r"]
      seg_Cons [of bs ?j 0 "a' # le_bytes 4 m @ r"] seg_Cons [of bs "?j + 1" a' "le_bytes 4 m @ r"]
    by (simp del: le_bytes_numeral)
  ultimately show ?thesis
    using seg_Cons [of bs i a "99 # ns @ 0 # a' # le_bytes 4 m @ r"]
      seg_Cons [of bs "i + 1" 99 "ns @ 0 # a' # le_bytes 4 m @ r"]
    by (simp del: le_bytes_numeral)
qed

lemma rest_at_TTable:
  assumes "d \<le> max_depth p"
  shows "rest_at bs d p w (TTable a raw ns a' cs) p' \<longleftrightarrow> w = 98 \<and> a \<le> 4 \<and> d + 2 \<le> MAX_VALUE_DEPTH
    \<and> seg bs (position p) [a] \<and> seg bs (position p + 1) [99]
    \<and> (\<exists>q. tree_at bs (d + 2) \<lparr>position = position p + 2, max_depth = max (max_depth p) (d + 1)\<rparr> (TSymbols raw ns) q
      \<and> seg bs (position q) [0] \<and> a' \<le> 4 \<and> seg bs (position q + 1) [a']
      \<and> length cs = length ns \<and> length cs < 2147483648
      \<and> seg bs (position q + 2) (le_bytes 4 (length cs))
      \<and> trees_at bs (d + 3) (q\<lparr>position := position q + 6\<rparr>) cs p'
      \<and> list_all is_seq (map parsed_of cs)
      \<and> list_all (\<lambda>v. p_len v = p_len (hd (map parsed_of cs))) (map parsed_of cs))"
proof -
  let ?e = "11 # enc_count raw (length ns) @ join0 ns"
  have hb: "d + 2 \<le> MAX_VALUE_DEPTH \<Longrightarrow>
      d + height (TTable a raw ns a' cs) \<le> MAX_VALUE_DEPTH \<longleftrightarrow> (\<forall>c\<in>set cs. d + (3 + height c) \<le> MAX_VALUE_DEPTH)"
    using height_bound [of d 2 MAX_VALUE_DEPTH 3 height cs] by simp
  have h2: "d + height (TTable a raw ns a' cs) \<le> MAX_VALUE_DEPTH \<Longrightarrow> d + 2 \<le> MAX_VALUE_DEPTH"
    by (induction cs) auto
  have da: "foldr (\<lambda>c. max (d + 3 + height c)) cs (max (max (max_depth p) (d + 1)) (d + 2))
      = max (max_depth p) (d + height (TTable a raw ns a' cs))"
    using foldr_max_plus [of d 3 height cs "max_depth p" 2] by (simp add: max.assoc)
  have sg: "seg bs (position p) (tl (encode (TTable a raw ns a' cs))) \<longleftrightarrow>
    seg bs (position p) [a] \<and> seg bs (position p + 1) [99] \<and> seg bs (position p + 2) ?e
    \<and> seg bs (position p + 2 + length ?e) [0] \<and> seg bs (position p + 2 + length ?e + 1) [a']
    \<and> seg bs (position p + 2 + length ?e + 2) (le_bytes 4 (length cs))
    \<and> seg bs (position p + 2 + length ?e + 6) (concat (map encode cs))"
    using seg_table [of bs "position p" a ?e a' "length cs" "concat (map encode cs)"]
    by (simp only: encode.simps list.sel append_Cons append_assoc)
  have len: "length (tl (encode (TTable a raw ns a' cs))) = 2 + length ?e + 6 + length (concat (map encode cs))"
    by simp
  show ?thesis
    unfolding trees_at_height rest_at_def tree_at_def sg len
    using hb h2 da
    by (auto simp del: le_bytes_numeral height.simps(6) simp: add.assoc)
qed

section \<open>Values with children\<close>

text \<open>
  The contract of the recursive call, and the methods that rely on it. \<open>rec\<close> accepts exactly the
  encodings of trees, at every depth below the caller's.
\<close>

locale value_reader =
  fixes bs :: bytes and rec :: "nat \<Rightarrow> parsed parse" and d :: nat
  assumes reads: "\<And>d' p v p'. length bs < usize_limit \<Longrightarrow> d < d' \<Longrightarrow>
      rec d' p = Inr (v, p') \<longleftrightarrow> (\<exists>t. tree_at bs d' p t p' \<and> v = parsed_of t)"
begin

lemma parse_values_iff:
  assumes len: "length bs < usize_limit"
  shows "d < d' \<Longrightarrow> position p \<le> length bs \<Longrightarrow> parse_values rec d' n p = Inr (u, p') \<longleftrightarrow>
    (\<exists>cs. length cs = n \<and> trees_at bs d' p cs p')"
proof (induction n arbitrary: p)
  case 0
  then show ?case by (auto simp: trees_at_Nil)
next
  case (Suc n)
  have IH: "tree_at bs d' p t q \<Longrightarrow> parse_values rec d' n q = Inr (u, p') \<longleftrightarrow>
    (\<exists>cs. length cs = n \<and> trees_at bs d' q cs p')" for t q
    using Suc tree_at_le by blast
  have "parse_values rec d' (Suc n) p = Inr (u, p') \<longleftrightarrow>
    (\<exists>t q. tree_at bs d' p t q \<and> parse_values rec d' n q = Inr (u, p'))"
    using Suc.prems by (auto simp: rbind_pair_iff reads [OF len])
  also have "\<dots> \<longleftrightarrow> (\<exists>t q cs. tree_at bs d' p t q \<and> length cs = n \<and> trees_at bs d' q cs p')"
    using IH by blast
  also have "\<dots> \<longleftrightarrow> (\<exists>cs. length cs = Suc n \<and> trees_at bs d' p cs p')"
    unfolding ex_length_Suc trees_at_Cons by blast
  finally show ?case .
qed

lemma sequence_len_Some: "sequence_len v = Some k \<longleftrightarrow> is_seq v \<and> k = p_len v"
  by (auto simp: sequence_len_def is_seq_def split: shape.splits)

lemma parse_columns_iff:
  assumes len: "length bs < usize_limit"
  shows "d < d' \<Longrightarrow> position p \<le> length bs \<Longrightarrow> parse_columns rec d' n rc p = Inr (rc', p') \<longleftrightarrow>
    (\<exists>cs. length cs = n \<and> trees_at bs d' p cs p' \<and> list_all is_seq (map parsed_of cs)
      \<and> list_all (\<lambda>v. p_len v = (case rc of Some e \<Rightarrow> e | None \<Rightarrow> p_len (hd (map parsed_of cs))))
          (map parsed_of cs)
      \<and> rc' = (case rc of Some e \<Rightarrow> rc | None \<Rightarrow>
          (if cs = [] then None else Some (p_len (hd (map parsed_of cs))))))"
proof (induction n arbitrary: p rc)
  case 0
  then show ?case by (auto simp: trees_at_Nil split: option.splits)
next
  case (Suc n)
  let ?first = "\<lambda>t. is_seq (parsed_of t)
      \<and> (case rc of Some e \<Rightarrow> e = p_len (parsed_of t) | None \<Rightarrow> True)"
  have "parse_columns rec d' (Suc n) rc p = Inr (rc', p') \<longleftrightarrow>
    (\<exists>t q. tree_at bs d' p t q \<and> ?first t
      \<and> parse_columns rec d' n (Some (p_len (parsed_of t))) q = Inr (rc', p'))"
    using Suc.prems
    by (cases rc) (auto simp: rbind_pair_iff reads [OF len] rbind_Inr_iff ok_or_Inr_iff sequence_len_Some reader_iffs)
  also have "\<dots> \<longleftrightarrow> (\<exists>t q cs. tree_at bs d' p t q \<and> ?first t
      \<and> length cs = n \<and> trees_at bs d' q cs p' \<and> list_all is_seq (map parsed_of cs)
      \<and> list_all (\<lambda>v. p_len v = p_len (parsed_of t)) (map parsed_of cs)
      \<and> rc' = Some (p_len (parsed_of t)))"
    using Suc tree_at_le by (intro ex_cong1 conj_cong refl) (fastforce simp: Suc.IH)+
  finally show ?case
    unfolding ex_length_Suc trees_at_Cons by (cases rc) (auto 0 4)
qed

lemma guard_ok:
  assumes "trees_at bs d' q cs p'" "\<And>c. c \<in> set cs \<Longrightarrow> k \<le> length (encode c)" "0 < k"
  shows "\<not> (length bs - position q) div k < length cs"
proof -
  have "k * length cs \<le> length (concat (map encode cs))" using assms(2) by (rule length_concat_ge)
  also have "\<dots> \<le> length bs - position q" using assms(1) by (auto simp: trees_at_def dest!: seg_le)
  finally show ?thesis using assms(3) by (simp add: not_less less_eq_div_iff_mult_less_eq mult.commute)
qed

lemma children_guard:
  "trees_at bs d' q cs p' \<Longrightarrow> \<not> (length bs - position q) div 2 < length cs"
  using length_encode_ge_2 by (intro guard_ok) (auto simp: trees_at_def list_all_iff)

lemma columns_guard:
  "trees_at bs d' q cs p' \<Longrightarrow> list_all is_seq (map parsed_of cs) \<Longrightarrow>
   \<not> (length bs - position q) div 6 < length cs"
  using length_encode_seq by (intro guard_ok) (auto simp: trees_at_def list_all_iff)

lemma children_iff:
  assumes len: "length bs < usize_limit"
  shows "position q \<le> length bs \<Longrightarrow>
   (\<not> (length bs - position q) div 2 < n \<and> (\<exists>u. parse_values rec (d + 1) n q = Inr (u, p')))
     \<longleftrightarrow> (\<exists>cs. length cs = n \<and> trees_at bs (d + 1) q cs p')"
  using parse_values_iff [OF len, of "d + 1" q n _ p'] children_guard [of "d + 1" q _ p'] by auto

lemma parse_general_list_iff:
  assumes len: "length bs < usize_limit" and depth: "d \<le> MAX_VALUE_DEPTH" and md: "d \<le> max_depth p"
  shows "parse_general_list rec bs d p = Inr (v, p') \<longleftrightarrow>
    (\<exists>t. tree_class t = 1 \<and> rest_at bs d p 0 t p' \<and> v = parsed_of t)"
proof -
  let ?q = "p\<lparr>position := position p + 5\<rparr>"
  have "parse_general_list rec bs d p = Inr (v, p') \<longleftrightarrow>
    (\<exists>a. a \<le> 4 \<and> seg bs (position p) [a] \<and> (\<exists>n. n < 2147483648
      \<and> seg bs (Suc (position p)) (le_bytes 4 n)
      \<and> (\<not> (length bs - position ?q) div 2 < n \<and> (\<exists>u. parse_values rec (d + 1) n ?q = Inr (u, p')))
      \<and> v = \<lparr>p_type_code = 0, p_len = n, p_shape = Sequence None\<rparr>))"
    by (simp add: parse_general_list_def rbind_pair_iff if_Inl_Inr_iff reader_iffs len parser_eta
        del: le_bytes_numeral) (simp only: conj_ac add.commute eq_commute [of _ v])
  also have "\<dots> \<longleftrightarrow> (\<exists>a. a \<le> 4 \<and> seg bs (position p) [a] \<and> (\<exists>n. n < 2147483648
      \<and> seg bs (Suc (position p)) (le_bytes 4 n)
      \<and> (\<exists>cs. length cs = n \<and> trees_at bs (d + 1) ?q cs p')
      \<and> v = \<lparr>p_type_code = 0, p_len = n, p_shape = Sequence None\<rparr>))"
    by (intro ex_cong1 conj_cong refl children_iff [OF len]) (auto dest: seg_le simp del: le_bytes_numeral)
  also have "\<dots> \<longleftrightarrow> (\<exists>a cs. rest_at bs d p 0 (TList a cs) p' \<and> v = parsed_of (TList a cs))"
    unfolding rest_at_TList [OF md depth] parsed_of.simps by blast
  finally show ?thesis unfolding tree_class_ex .
qed

lemma parse_counted_function_iff:
  assumes len: "length bs < usize_limit" and depth: "d \<le> MAX_VALUE_DEPTH" and md: "d \<le> max_depth p" and w: "w = 104 \<or> w = 105"
  shows "parse_counted_function rec bs w d p = Inr (v, p') \<longleftrightarrow>
    (\<exists>t. tree_class t = 7 \<and> rest_at bs d p w t p' \<and> v = parsed_of t)"
proof -
  let ?q = "p\<lparr>position := position p + 4\<rparr>"
  have "parse_counted_function rec bs w d p = Inr (v, p') \<longleftrightarrow>
    (\<exists>n. n < 2147483648 \<and> seg bs (position p) (le_bytes 4 n)
      \<and> (\<not> (length bs - position ?q) div 2 < n \<and> (\<exists>u. parse_values rec (d + 1) n ?q = Inr (u, p')))
      \<and> v = \<lparr>p_type_code = int (unat w), p_len = 1, p_shape = Function\<rparr>)"
    by (simp add: parse_counted_function_def rbind_pair_iff if_Inl_Inr_iff reader_iffs len parser_eta
        del: le_bytes_numeral) (simp only: conj_ac add.commute eq_commute [of _ v])
  also have "\<dots> \<longleftrightarrow> (\<exists>n. n < 2147483648 \<and> seg bs (position p) (le_bytes 4 n)
      \<and> (\<exists>cs. length cs = n \<and> trees_at bs (d + 1) ?q cs p')
      \<and> v = \<lparr>p_type_code = int (unat w), p_len = 1, p_shape = Function\<rparr>)"
    by (intro ex_cong1 conj_cong refl children_iff [OF len]) (auto dest: seg_le simp del: le_bytes_numeral)
  also have "\<dots> \<longleftrightarrow> (\<exists>w' cs. rest_at bs d p w (TCounted w' cs) p' \<and> v = parsed_of (TCounted w' cs))"
    unfolding rest_at_TCounted [OF md depth] parsed_of.simps using w by blast
  finally show ?thesis unfolding tree_class_ex .
qed

lemma parse_derived_function_iff:
  assumes len: "length bs < usize_limit" and md: "d \<le> max_depth p" and w: "106 \<le> w" "w \<le> 111"
  shows "parse_derived_function rec w d p = Inr (v, p') \<longleftrightarrow>
    (\<exists>t. tree_class t = 8 \<and> rest_at bs d p w t p' \<and> v = parsed_of t)"
  unfolding tree_class_ex rest_at_TDerived [OF md] using w
  by (auto simp: parse_derived_function_def rbind_pair_iff reads [OF len])

lemma dictionary_shape_iff:
  "dictionary_shape k u = Inr (n, keyed) \<longleftrightarrow> p_len k = p_len u \<and> n = p_len k \<and> keyed = (p_shape k = Table)
    \<and> (p_shape k = Table \<and> p_shape u = Table \<or> is_seq k \<and> is_seq u)"
  by (auto simp: dictionary_shape_def rbind_Inr_iff ok_or_Inr_iff sequence_len_Some reader_iffs is_seq_def)

lemma parse_dictionary_iff:
  assumes len: "length bs < usize_limit" and md: "d \<le> max_depth p" and w: "w = 99 \<or> w = 127"
  shows "parse_dictionary rec w d p = Inr (v, p') \<longleftrightarrow>
    (\<exists>t. tree_class t = 4 \<and> rest_at bs d p w t p' \<and> v = parsed_of t)"
proof -
  have "parse_dictionary rec w d p = Inr (v, p') \<longleftrightarrow>
    (\<exists>k q u n b. tree_at bs (d + 1) p k q \<and> tree_at bs (d + 1) q u p'
      \<and> dictionary_shape (parsed_of k) (parsed_of u) = Inr (n, b)
      \<and> v = \<lparr>p_type_code = int (unat w), p_len = n, p_shape = Dictionary b\<rparr>)"
    by (simp add: parse_dictionary_def rbind_pair_iff reads [OF len]) blast
  also have "\<dots> \<longleftrightarrow> (\<exists>w' k u. rest_at bs d p w (TDict w' k u) p' \<and> v = parsed_of (TDict w' k u))"
    unfolding rest_at_TDict [OF md] dictionary_shape_iff parsed_of.simps using w by blast
  finally show ?thesis unfolding tree_class_ex .
qed

lemma columns_iff:
  assumes len: "length bs < usize_limit"
  shows "position q \<le> length bs \<Longrightarrow>
   (\<not> (length bs - position q) div 6 < n \<and> parse_columns rec (d + 3) n None q = Inr (rc, p'))
     \<longleftrightarrow> (\<exists>cs. length cs = n \<and> trees_at bs (d + 3) q cs p' \<and> list_all is_seq (map parsed_of cs)
      \<and> list_all (\<lambda>v. p_len v = p_len (hd (map parsed_of cs))) (map parsed_of cs)
      \<and> rc = (if cs = [] then None else Some (p_len (hd (map parsed_of cs)))))"
  using parse_columns_iff [OF len, of "d + 3" q n None rc p'] columns_guard [of "d + 3" q _ p'] by auto

lemma symbol_shape:
  "tree_at bs d' q t q' \<Longrightarrow> p_shape (parsed_of t) = Sequence (Some 11) \<longleftrightarrow> (\<exists>raw ns. t = TSymbols raw ns)"
  by (cases t) (auto simp: tree_at_def)

lemma depth_noted: "tree_at bs d' q t q' \<Longrightarrow> q'\<lparr>max_depth := max (max_depth q') d'\<rparr> = q'"
  by (cases q') (auto simp: tree_at_def)

lemma parse_table_eq:
  assumes len: "length bs < usize_limit"
  shows "parse_table rec bs d p = Inr (v, p') \<longleftrightarrow>
    (\<exists>a. a \<le> 4 \<and> seg bs (position p) [a] \<and> d + 1 \<le> MAX_VALUE_DEPTH \<and> seg bs (position p + 1) [99]
    \<and> (\<exists>t q. tree_at bs (d + 2) \<lparr>position = position p + 2, max_depth = max (max_depth p) (d + 1)\<rparr> t q
      \<and> p_shape (parsed_of t) = Sequence (Some 11) \<and> d + 2 \<le> MAX_VALUE_DEPTH \<and> seg bs (position q) [0]
      \<and> (\<exists>a'. a' \<le> 4 \<and> seg bs (position q + 1) [a'] \<and> (\<exists>n. n < 2147483648
        \<and> seg bs (position q + 2) (le_bytes 4 n) \<and> p_len (parsed_of t) = n
        \<and> (\<exists>rc. (\<not> (length bs - position (q\<lparr>position := position q + 6\<rparr>)) div 6 < n
              \<and> parse_columns rec (d + 3) n None (q\<lparr>position := position q + 6\<rparr>) = Inr (rc, p'))
            \<and> v = \<lparr>p_type_code = 98, p_len = (case rc of Some n \<Rightarrow> n | None \<Rightarrow> 0), p_shape = Table\<rparr>)))))"
  (is "?L \<longleftrightarrow> ?R")
proof
  assume ?L
  then obtain a p1 u p2 dt p3 names q u' q2 ct q3 a' q4 n q5 u'' rc p9 where r:
    "take_attribute bs p = Inr (a, p1)" "note_depth (d + 1) p1 = Inr (u, p2)"
    "take_byte bs p2 = Inr (dt, p3)" "dt = 99" "rec (d + 2) p3 = Inr (names, q)"
    "p_shape names = Sequence (Some 11)" "note_depth (d + 2) q = Inr (u', q2)"
    "take_byte bs q2 = Inr (ct, q3)" "ct = 0" "take_attribute bs q3 = Inr (a', q4)"
    "take_count bs q4 = Inr (n, q5)" "ensure_matching_counts (p_len names) n = Inr u''"
    "\<not> (length bs - position q5) div 6 < n"
    "parse_columns rec (d + 3) n None q5 = Inr (rc, p9)"
    "Inr (\<lparr>p_type_code = 98, p_len = (case rc of Some n \<Rightarrow> n | None \<Rightarrow> 0), p_shape = Table\<rparr>, p9)
       = (Inr (v, p') :: xqdb_error + parsed \<times> parser)"
    unfolding parse_table_def rbind_pair_iff rbind_Inr_iff [of "ensure_matching_counts _ _"] if_Inl_Inr_iff not_not
    by (elim exE conjE) (rule that; assumption)
  have h: "a \<le> 4" "seg bs (position p) [a]" "d + 1 \<le> MAX_VALUE_DEPTH"
    "seg bs (position p + 1) [99]"
    "rec (d + 2) \<lparr>position = position p + 2, max_depth = max (max_depth p) (d + 1)\<rparr> = Inr (names, q)"
    "p_shape names = Sequence (Some 11)" "d + 2 \<le> MAX_VALUE_DEPTH" "seg bs (position q) [0]"
    "a' \<le> 4" "seg bs (position q + 1) [a']" "n < 2147483648" "seg bs (position q + 2) (le_bytes 4 n)"
    "p_len names = n" "\<not> (length bs - (position q + 6)) div 6 < n"
    "parse_columns rec (d + 3) n None (q\<lparr>max_depth := max (max_depth q) (d + 2), position := position q + 6\<rparr>) = Inr (rc, p')"
    "v = \<lparr>p_type_code = 98, p_len = (case rc of Some n \<Rightarrow> n | None \<Rightarrow> 0), p_shape = Table\<rparr>"
    using r by (auto simp: reader_iffs len parser_eta ac_simps simp del: le_bytes_numeral)
  then obtain t where t: "names = parsed_of t"
    "tree_at bs (d + 2) \<lparr>position = position p + 2, max_depth = max (max_depth p) (d + 1)\<rparr> t q"
    by (auto simp: reads [OF len])
  have q: "q\<lparr>max_depth := max (max_depth q) (d + 2), position := position q + 6\<rparr> = q\<lparr>position := position q + 6\<rparr>"
    using depth_noted [OF t(2)] by simp
  show ?R
    using h [unfolded q t(1)] t(2) by (intro exI conjI; (assumption | simp))
next
  assume ?R
  then obtain a t q a' n rc where h: "a \<le> 4" "seg bs (position p) [a]" "d + 1 \<le> MAX_VALUE_DEPTH"
    "seg bs (position p + 1) [99]"
    "tree_at bs (d + 2) \<lparr>position = position p + 2, max_depth = max (max_depth p) (d + 1)\<rparr> t q"
    "p_shape (parsed_of t) = Sequence (Some 11)" "d + 2 \<le> MAX_VALUE_DEPTH" "seg bs (position q) [0]"
    "a' \<le> 4" "seg bs (position q + 1) [a']" "n < 2147483648" "seg bs (position q + 2) (le_bytes 4 n)"
    "p_len (parsed_of t) = n" "\<not> (length bs - (position q + 6)) div 6 < n"
    "parse_columns rec (d + 3) n None (q\<lparr>position := position q + 6\<rparr>) = Inr (rc, p')"
    "v = \<lparr>p_type_code = 98, p_len = (case rc of Some n \<Rightarrow> n | None \<Rightarrow> 0), p_shape = Table\<rparr>"
    by auto
  have "take_attribute bs p = Inr (a, p\<lparr>position := position p + 1\<rparr>)"
    and "note_depth (d + 1) (p\<lparr>position := position p + 1\<rparr>)
      = Inr ((), \<lparr>position = position p + 1, max_depth = max (max_depth p) (d + 1)\<rparr>)"
    and "take_byte bs \<lparr>position = position p + 1, max_depth = max (max_depth p) (d + 1)\<rparr>
      = Inr (99, \<lparr>position = position p + 2, max_depth = max (max_depth p) (d + 1)\<rparr>)"
    using h(1-4) by (auto simp: reader_iffs len parser_eta)
  moreover have "rec (d + 2) \<lparr>position = position p + 2, max_depth = max (max_depth p) (d + 1)\<rparr>
      = Inr (parsed_of t, q)"
    using h(5) by (auto simp: reads [OF len])
  moreover have "note_depth (d + 2) q = Inr ((), q)"
    using depth_noted [OF h(5)] h(7) by (simp add: note_depth_iff)
  moreover have "take_byte bs q = Inr (0, q\<lparr>position := position q + 1\<rparr>)"
    and "take_attribute bs (q\<lparr>position := position q + 1\<rparr>) = Inr (a', q\<lparr>position := position q + 2\<rparr>)"
    and "take_count bs (q\<lparr>position := position q + 2\<rparr>) = Inr (n, q\<lparr>position := position q + 6\<rparr>)"
    using h(8-12) by (auto simp: reader_iffs len simp del: le_bytes_numeral)
  moreover have "ensure_matching_counts (p_len (parsed_of t)) n = Inr ()"
    using h(13) by (simp add: ensure_matching_counts_iff)
  ultimately show ?L
    using h(6,14,15,16) by (simp add: parse_table_def)
qed

lemma parse_table_iff:
  assumes len: "length bs < usize_limit" and md: "d \<le> max_depth p"
  shows "parse_table rec bs d p = Inr (v, p') \<longleftrightarrow>
    (\<exists>t. tree_class t = 3 \<and> rest_at bs d p 98 t p' \<and> v = parsed_of t)" (is "?L \<longleftrightarrow> ?R")
proof
  assume ?L
  then obtain a t q a' n rc where h: "a \<le> 4" "seg bs (position p) [a]"
    "seg bs (position p + 1) [99]"
    "tree_at bs (d + 2) \<lparr>position = position p + 2, max_depth = max (max_depth p) (d + 1)\<rparr> t q"
    "p_shape (parsed_of t) = Sequence (Some 11)" "d + 2 \<le> MAX_VALUE_DEPTH" "seg bs (position q) [0]"
    "a' \<le> 4" "seg bs (position q + 1) [a']" "n < 2147483648" "seg bs (position q + 2) (le_bytes 4 n)"
    "p_len (parsed_of t) = n"
    and c: "\<not> (length bs - position (q\<lparr>position := position q + 6\<rparr>)) div 6 < n
      \<and> parse_columns rec (d + 3) n None (q\<lparr>position := position q + 6\<rparr>) = Inr (rc, p')"
    and v: "v = \<lparr>p_type_code = 98, p_len = (case rc of Some n \<Rightarrow> n | None \<Rightarrow> 0), p_shape = Table\<rparr>"
    unfolding parse_table_eq [OF len] by blast
  obtain raw ns where t: "t = TSymbols raw ns" using symbol_shape h(4,5) by blast
  have "position (q\<lparr>position := position q + 6\<rparr>) \<le> length bs" using seg_le [OF h(11)] by simp
  from c [unfolded columns_iff [OF len this]] obtain cs where cs: "length cs = n"
    "trees_at bs (d + 3) (q\<lparr>position := position q + 6\<rparr>) cs p'" "list_all is_seq (map parsed_of cs)"
    "list_all (\<lambda>v. p_len v = p_len (hd (map parsed_of cs))) (map parsed_of cs)"
    "rc = (if cs = [] then None else Some (p_len (hd (map parsed_of cs))))"
    by blast
  have "rest_at bs d p 98 (TTable a raw ns a' cs) p'"
    unfolding rest_at_TTable [OF md] using h cs t by auto
  moreover have "v = parsed_of (TTable a raw ns a' cs)" using v cs(5) by (cases cs) auto
  ultimately show ?R unfolding tree_class_ex by blast
next
  assume ?R
  then obtain a raw ns a' cs where r: "rest_at bs d p 98 (TTable a raw ns a' cs) p'"
    and v: "v = parsed_of (TTable a raw ns a' cs)" unfolding tree_class_ex by blast
  then obtain q where h: "a \<le> 4" "d + 2 \<le> MAX_VALUE_DEPTH" "seg bs (position p) [a]" "seg bs (position p + 1) [99]"
    "tree_at bs (d + 2) \<lparr>position = position p + 2, max_depth = max (max_depth p) (d + 1)\<rparr> (TSymbols raw ns) q"
    "seg bs (position q) [0]" "a' \<le> 4" "seg bs (position q + 1) [a']" "length cs = length ns"
    "length cs < 2147483648" "seg bs (position q + 2) (le_bytes 4 (length cs))"
    and cs: "trees_at bs (d + 3) (q\<lparr>position := position q + 6\<rparr>) cs p'" "list_all is_seq (map parsed_of cs)"
    "list_all (\<lambda>v. p_len v = p_len (hd (map parsed_of cs))) (map parsed_of cs)"
    unfolding rest_at_TTable [OF md] by blast
  let ?rc = "if cs = [] then None else Some (p_len (hd (map parsed_of cs)))"
  have "position (q\<lparr>position := position q + 6\<rparr>) \<le> length bs" using seg_le [OF h(11)] by simp
  from columns_iff [OF len this, of "length cs" ?rc p'] cs
  have "\<not> (length bs - position (q\<lparr>position := position q + 6\<rparr>)) div 6 < length cs
      \<and> parse_columns rec (d + 3) (length cs) None (q\<lparr>position := position q + 6\<rparr>) = Inr (?rc, p')" by blast
  moreover have "v = \<lparr>p_type_code = 98, p_len = (case ?rc of Some n \<Rightarrow> n | None \<Rightarrow> 0), p_shape = Table\<rparr>"
    using v by (cases cs) auto
  moreover have "p_len (parsed_of (TSymbols raw ns)) = length cs"
    "p_shape (parsed_of (TSymbols raw ns)) = Sequence (Some 11)" using h(9) by simp_all
  ultimately show ?L unfolding parse_table_eq [OF len] using h(1-8,10,11) by fastforce
qed

lemma parse_wire_type_iff:
  assumes len: "length bs < usize_limit" and depth: "d \<le> MAX_VALUE_DEPTH" and md: "d \<le> max_depth p"
  shows "parse_wire_type rec bs d w p = Inr (v, p') \<longleftrightarrow> (\<exists>t. rest_at bs d p w t p' \<and> v = parsed_of t)"
proof -
  have cls: "(\<exists>t. rest_at bs d p w t p' \<and> v = parsed_of t) \<longleftrightarrow>
      (\<exists>t. tree_class t = wire_class w \<and> rest_at bs d p w t p' \<and> v = parsed_of t)"
    using rest_at_class by blast
  have two: "104 \<le> w \<and> w \<le> 105 \<Longrightarrow> w = 104 \<or> w = 105"
    using counted_types [of w] by blast
  show ?thesis
    unfolding cls using two
    by (auto simp: parse_wire_type_def wire_class_def tree_class_not_9 rbind_pair_iff
        parse_atom_iff [OF len md depth] parse_typed_list_iff [OF len md depth]
        parse_lambda_iff [OF len md depth] parse_primitive_iff [OF len md depth]
        parse_general_list_iff [OF len depth md] parse_counted_function_iff [OF len depth md]
        parse_derived_function_iff [OF len md] parse_dictionary_iff [OF len md] parse_table_iff [OF len md])
qed

lemma parse_value_body_iff:
  assumes len: "length bs < usize_limit" and depth: "d \<le> MAX_VALUE_DEPTH"
  shows "parse_value_body rec bs d p = Inr (v, p') \<longleftrightarrow> (\<exists>t. tree_at bs d p t p' \<and> v = parsed_of t)"
proof -
  let ?q = "\<lparr>position = Suc (position p), max_depth = max (max_depth p) d\<rparr>"
  have "parse_value_body rec bs d p = Inr (v, p') \<longleftrightarrow>
    (\<exists>w. seg bs (position p) [w] \<and> parse_wire_type rec bs d w ?q = Inr (v, p'))"
    using depth by (auto simp: parse_value_body_def rbind_pair_iff reader_iffs len parser_eta)
  also have "\<dots> \<longleftrightarrow> (\<exists>w. seg bs (position p) [w] \<and> (\<exists>t. rest_at bs d ?q w t p' \<and> v = parsed_of t))"
    using parse_wire_type_iff [OF len depth, of ?q] by simp
  also have "\<dots> \<longleftrightarrow> (\<exists>t. tree_at bs d p t p' \<and> v = parsed_of t)"
    unfolding tree_at_iff_rest using depth by blast
  finally show ?thesis .
qed

end

section \<open>The parser implements the specification\<close>

lemma parse_value_fuel_iff:
  assumes len: "length bs < usize_limit"
  shows "65 - d < fuel \<Longrightarrow> parse_value_fuel fuel bs d p = Inr (v, p') \<longleftrightarrow>
    (\<exists>t. tree_at bs d p t p' \<and> v = parsed_of t)"
proof (induction fuel arbitrary: d p v p')
  case 0
  then show ?case by simp
next
  case (Suc fuel)
  show ?case
  proof (cases "d \<le> MAX_VALUE_DEPTH")
    case True
    have "value_reader bs (parse_value_fuel fuel bs) d"
      using True Suc by unfold_locales (auto simp: MAX_VALUE_DEPTH_def)
    then show ?thesis
      using value_reader.parse_value_body_iff [OF _ len True] by simp
  next
    case False
    then show ?thesis by (auto simp: parse_value_body_def note_depth_def tree_at_def)
  qed
qed

lemma parse_value_iff:
  assumes "length bs < usize_limit"
  shows "parse_value bs d p = Inr (v, p') \<longleftrightarrow> (\<exists>t. tree_at bs d p t p' \<and> v = parsed_of t)"
proof (cases "d \<le> 65")
  case True
  then show ?thesis using parse_value_fuel_iff [OF assms, of d "66 - d"] by (simp add: parse_value_def)
next
  case False
  then show ?thesis by (auto simp: parse_value_def tree_at_def MAX_VALUE_DEPTH_def)
qed

interpretation value_parser: value_reader bs "parse_value bs" d for bs d
  by unfold_locales (rule parse_value_iff)

section \<open>The fuel never decides\<close>

lemma parse_values_cong: "(\<And>p. rec d p = rec' d p) \<Longrightarrow> parse_values rec d n p = parse_values rec' d n p"
  by (induction n arbitrary: p) (auto intro!: rbind_cong split: prod.splits)

lemma parse_columns_cong: "(\<And>p. rec d p = rec' d p) \<Longrightarrow> parse_columns rec d n rc p = parse_columns rec' d n rc p"
  by (induction n arbitrary: p rc) (auto intro!: rbind_cong split: prod.splits option.splits)

lemma parse_value_body_cong:
  assumes "\<And>d' p. d < d' \<Longrightarrow> rec d' p = rec' d' p"
  shows "parse_value_body rec bs d p = parse_value_body rec' bs d p"
proof -
  have r: "rec (d + 1) = rec' (d + 1)" "rec (d + 2) = rec' (d + 2)" "rec (Suc d) = rec' (Suc d)"
    using assms by auto
  have v: "parse_values rec (d + 1) = parse_values rec' (d + 1)" 
    using assms by (intro ext parse_values_cong) auto
  have c: "parse_columns rec (d + 3) = parse_columns rec' (d + 3)" 
    using assms by (intro ext parse_columns_cong) auto
  have "parse_wire_type rec bs d w = parse_wire_type rec' bs d w" for w
    unfolding parse_wire_type_def parse_general_list_def parse_table_def parse_dictionary_def
      parse_counted_function_def parse_derived_function_def v c r ..
  then show ?thesis by (simp add: parse_value_body_def)
qed

lemma parse_value_fuel_enough:
  "65 - d < f \<Longrightarrow> 65 - d < f' \<Longrightarrow> parse_value_fuel f bs d p = parse_value_fuel f' bs d p"
proof (induction f arbitrary: f' d p)
  case 0
  then show ?case by simp
next
  case (Suc f)
  then obtain g where f': "f' = Suc g" by (cases f') auto
  show ?case
  proof (cases "d \<le> 64")
    case True
    then show ?thesis using Suc f' by (auto intro!: parse_value_body_cong)
  next
    case False
    then show ?thesis by (simp add: f' parse_value_body_def note_depth_def MAX_VALUE_DEPTH_def)
  qed
qed

lemma parse_value_fuel_deep: "d > 64 \<Longrightarrow> parse_value_fuel f bs d p = Inl DeserializationErr"
  by (cases f) (simp_all add: parse_value_body_def note_depth_def MAX_VALUE_DEPTH_def)

lemma parse_value_unfold: "parse_value bs d p = parse_value_body (parse_value bs) bs d p"
proof (cases "d \<le> 64")
  case True
  then have "66 - d = Suc (65 - d)" by simp
  then have "parse_value bs d p = parse_value_body (parse_value_fuel (65 - d) bs) bs d p"
    unfolding parse_value_def by simp
  also have "\<dots> = parse_value_body (parse_value bs) bs d p"
  proof (rule parse_value_body_cong)
    fix d' p assume "d < d'"
    then show "parse_value_fuel (65 - d) bs d' p = parse_value bs d' p"
      using True by (cases "d' \<le> 64") (auto simp: parse_value_def parse_value_fuel_deep intro: parse_value_fuel_enough)
  qed
  finally show ?thesis .
next
  case False
  then show ?thesis
    by (simp add: parse_value_def parse_value_fuel_deep parse_value_body_def note_depth_def MAX_VALUE_DEPTH_def)
qed

section \<open>Complete bodies\<close>

definition value_of :: "qtree \<Rightarrow> qvalue" where
  "value_of t = from_validated (encode t) (meta_of t)"

definition admissible :: "qtree \<Rightarrow> bool" where
  "admissible t \<longleftrightarrow> wf_tree t \<and> height t \<le> MAX_VALUE_DEPTH \<and> length (encode t) < usize_limit"

lemma validate_iff:
  assumes len: "length bs < usize_limit"
  shows "validate bs = Inr md \<longleftrightarrow>
    (\<exists>t. wf_tree t \<and> height t \<le> MAX_VALUE_DEPTH \<and> encode t = bs \<and> md = meta_of t)"
proof -
  have "validate bs = Inr md \<longleftrightarrow> (\<exists>t p. tree_at bs 0 \<lparr>position = 0, max_depth = 0\<rparr> t p
      \<and> position p = length bs \<and> md = \<lparr>md_type_code = p_type_code (parsed_of t), md_len = p_len (parsed_of t),
               md_is_table = (p_shape (parsed_of t) = Table \<or> p_shape (parsed_of t) = Dictionary True),
               md_max_depth = max_depth p\<rparr>)"
    by (auto simp: validate_def rbind_pair_iff if_Inl_Inr_iff parse_value_iff [OF len])
  also have "\<dots> \<longleftrightarrow> (\<exists>t. wf_tree t \<and> height t \<le> MAX_VALUE_DEPTH \<and> encode t = bs \<and> md = meta_of t)"
    by (auto simp: tree_at_def meta_of_def dest: seg_whole)
  finally show ?thesis .
qed

lemma validate_encode: "admissible t \<Longrightarrow> validate (encode t) = Inr (meta_of t)"
  using validate_iff [of "encode t" "meta_of t"] by (auto simp: admissible_def)

lemma from_bytes_iff:
  assumes "length bs < usize_limit"
  shows "from_bytes bs = Inr q \<longleftrightarrow> (\<exists>t. admissible t \<and> encode t = bs \<and> q = value_of t)"
  using assms by (auto simp: from_bytes_def rbind_Inr_iff validate_iff value_of_def admissible_def)

lemma from_owned_encode: "admissible t \<Longrightarrow> from_owned_bytes (encode t) = Inr (value_of t)"
  by (simp add: from_owned_bytes_def validate_encode value_of_def)

lemma from_owned_iff:
  assumes "length bs < usize_limit"
  shows "from_owned_bytes bs = Inr q \<longleftrightarrow> (\<exists>t. admissible t \<and> encode t = bs \<and> q = value_of t)"
  using assms by (auto simp: from_owned_bytes_def rbind_Inr_iff validate_iff value_of_def admissible_def)

lemma encode_prefix_free:
  assumes t: "admissible t" and u: "admissible u" and eq: "encode t @ r = encode u @ r'"
    and len: "length (encode t @ r) < usize_limit"
  shows "encode t = encode u \<and> meta_of t = meta_of u"
proof -
  let ?p = "\<lparr>position = 0, max_depth = 0\<rparr>"
  have "seg (encode t @ r) 0 (encode t)" "seg (encode t @ r) 0 (encode u)"
    by (simp add: seg_def) (simp add: seg_def eq)
  then have "parse_value (encode t @ r) 0 ?p = Inr (parsed_of t, \<lparr>position = length (encode t), max_depth = height t\<rparr>)"
    "parse_value (encode t @ r) 0 ?p = Inr (parsed_of u, \<lparr>position = length (encode u), max_depth = height u\<rparr>)"
    using t u by (auto simp: parse_value_iff [OF len] tree_at_def admissible_def)
  then have "length (encode t) = length (encode u)" "parsed_of t = parsed_of u" "height t = height u" by auto
  then show ?thesis using eq by (simp add: meta_of_def)
qed

subsection \<open>Constructors\<close>

lemma value_of_simps [simp]:
  "qv_bytes (value_of t) = encode t" "qv_max_depth (value_of t) = height t"
  "qv_type_code (value_of t) = p_type_code (parsed_of t)" "qv_len (value_of t) = p_len (parsed_of t)"
  by (simp_all add: value_of_def from_validated_def meta_of_def)

lemma qvalue_list_ok:
  assumes adm: "\<And>t. t \<in> set ts \<Longrightarrow> admissible t"
    and n: "length ts < 2147483648" and h: "\<And>t. t \<in> set ts \<Longrightarrow> height t < MAX_VALUE_DEPTH"
    and sz: "6 + (\<Sum>t\<leftarrow>ts. length (encode t)) < usize_limit"
  shows "qvalue_list (map value_of ts) = Inr (value_of (TList 0 ts))"
proof -
  have fold: "m + (\<Sum>t\<leftarrow>ts. length (encode t)) < usize_limit \<Longrightarrow>
    rfold (\<lambda>v len. ok_or (checked_add len (length (qv_bytes v))) OverLengthErr) (map value_of ts) m
    = Inr (m + (\<Sum>t\<leftarrow>ts. length (encode t)))" for m ts
    by (induction ts arbitrary: m) (auto simp: checked_add_def)
  have "height (TList 0 ts) \<le> MAX_VALUE_DEPTH"
    using height_bound [of 0 0 MAX_VALUE_DEPTH 1 height ts] h by (auto simp: Suc_le_eq)
  then have "admissible (TList 0 ts)"
    using adm n sz by (auto simp: admissible_def list_all_iff length_concat comp_def)
  moreover have "list_ex (\<lambda>v. MAX_VALUE_DEPTH \<le> qv_max_depth v) (map value_of ts) = False"
    using h by (auto simp: list_ex_iff not_le)
  moreover have "encode (TList 0 ts) = [0, 0] @ le_bytes 4 (length ts) @ concat (map qv_bytes (map value_of ts))"
    by (simp add: comp_def)
  ultimately show ?thesis
    using from_owned_encode [of "TList 0 ts"] fold [OF sz] n
    by (simp add: qvalue_list_def checked_q_count_def del: le_bytes_numeral encode.simps)
qed


lemma qvalue_list_exact:
  assumes adm: "list_all admissible ts"
    and sz: "6 + (\<Sum>t\<leftarrow>ts. length (encode t)) < usize_limit"
  shows "qvalue_list (map value_of ts) =
    (if 2147483648 \<le> length ts then Inl OverLengthErr
     else if list_ex (\<lambda>t. height t = MAX_VALUE_DEPTH) ts then Inl NotAbleToSerializeErr
     else Inr (value_of (TList 0 ts)))"
proof -
  have "list_ex (\<lambda>v. MAX_VALUE_DEPTH \<le> qv_max_depth v) (map value_of ts)
      = list_ex (\<lambda>t. height t = MAX_VALUE_DEPTH) ts"
    using adm by (auto simp: list_ex_iff list_all_iff admissible_def intro: le_antisym bexI [rotated])
  moreover have "height t < MAX_VALUE_DEPTH"
    if "t \<in> set ts" "\<not> list_ex (\<lambda>t. height t = MAX_VALUE_DEPTH) ts" for t
    using that adm by (fastforce simp: list_ex_iff list_all_iff admissible_def)
  ultimately show ?thesis
  proof (cases "2147483648 \<le> length ts \<or> list_ex (\<lambda>t. height t = MAX_VALUE_DEPTH) ts")
    case True
    then show ?thesis using \<open>list_ex _ (map value_of ts) = _\<close>
      by (auto simp: qvalue_list_def checked_q_count_def)
  next
    case False
    then show ?thesis
      using qvalue_list_ok [of ts] adm sz \<open>\<And>t. _ \<Longrightarrow> _ \<Longrightarrow> height t < _\<close> by (auto simp: list_all_iff)
  qed
qed

lemma type_code_table: "wf_tree t \<Longrightarrow> p_type_code (parsed_of t) = 98 \<longleftrightarrow> p_shape (parsed_of t) = Table"
proof (cases t)
  case (TVector k raw n v)
  assume "wf_tree t"
  then have "uint k \<le> 19" using TVector by (simp add: word_le_def)
  then show ?thesis using TVector by simp
next
  case (TPrimitive w v)
  assume "wf_tree t"
  then have "101 \<le> uint w" using TPrimitive by (simp add: word_le_def)
  then show ?thesis using TPrimitive by simp
next
  case (TDerived w v)
  assume "wf_tree t"
  then have "106 \<le> uint w" using TDerived by (simp add: word_le_def)
  then show ?thesis using TDerived by simp
next
  case (TAtom w v)
  have "0 \<le> uint w" by simp
  then have "- uint w \<noteq> 98" by linarith
  then show ?thesis using TAtom by simp
qed auto

lemma type_code_sequence: "wf_tree t \<Longrightarrow> is_sequence_type (p_type_code (parsed_of t)) \<longleftrightarrow> is_seq (parsed_of t)"
proof (cases t)
  case (TAtom k v)
  assume "wf_tree t"
  then have "1 \<le> uint k" using TAtom by (simp add: word_le_def)
  then show ?thesis using TAtom by (simp add: is_sequence_type_def is_seq_def)
next
  case (TVector k raw n v)
  assume "wf_tree t"
  then have "uint k \<le> 19" "uint k \<noteq> 3"
    using TVector word_uint_eqI [of k 3] by (auto simp: word_le_def)
  then show ?thesis using TVector by (simp add: is_sequence_type_def is_seq_def)
next
  case (TPrimitive w v)
  assume "wf_tree t"
  then have "101 \<le> uint w" using TPrimitive by (simp add: word_le_def)
  then show ?thesis using TPrimitive by (simp add: is_sequence_type_def is_seq_def)
next
  case (TDerived w v)
  assume "wf_tree t"
  then have "106 \<le> uint w" using TDerived by (simp add: word_le_def)
  then show ?thesis using TDerived by (simp add: is_sequence_type_def is_seq_def)
qed (auto simp: is_sequence_type_def is_seq_def)

lemma qvalue_dictionary_exact:
  assumes adm: "admissible k" "admissible u" and sz: "1 + length (encode k) + length (encode u) < usize_limit"
  shows "qvalue_dictionary (value_of k) (value_of u) =
    (if wf_tree (TDict 99 k u) \<and> height (TDict 99 k u) \<le> MAX_VALUE_DEPTH
     then Inr (value_of (TDict 99 k u)) else Inl NotAbleToSerializeErr)"
proof -
  have tk: "p_type_code (parsed_of k) = 98 \<longleftrightarrow> p_shape (parsed_of k) = Table"
    "is_sequence_type (p_type_code (parsed_of k)) \<longleftrightarrow> is_seq (parsed_of k)"
    "p_type_code (parsed_of u) = 98 \<longleftrightarrow> p_shape (parsed_of u) = Table"
    "is_sequence_type (p_type_code (parsed_of u)) \<longleftrightarrow> is_seq (parsed_of u)"
    using adm type_code_table type_code_sequence by (auto simp: admissible_def)
  have ex: "p_shape (parsed_of t) = Table \<Longrightarrow> \<not> is_seq (parsed_of t)" for t by (simp add: is_seq_def)
  show ?thesis
  proof (cases "wf_tree (TDict 99 k u) \<and> height (TDict 99 k u) \<le> MAX_VALUE_DEPTH")
    case True
    then have "admissible (TDict 99 k u)" using sz by (simp add: admissible_def)
    then show ?thesis using True from_owned_encode [of "TDict 99 k u"] sz ex
      by (auto simp: qvalue_dictionary_def tk checked_add_def Let_def)
  next
    case False
    then show ?thesis using adm
      by (auto simp: qvalue_dictionary_def tk Let_def admissible_def not_le max_def split: if_splits)
  qed
qed

lemma qvalue_atom_exact:
  assumes "length payload + 1 < usize_limit"
  shows "qvalue_atom kind payload =
    (if kind = 11 then
       (if \<exists>s. payload = s @ [0] \<and> 0 \<notin> set s then Inr (value_of (TSymbol (butlast payload)))
        else Inl NotAbleToSerializeErr)
     else if wf_tree (TAtom kind payload) then Inr (value_of (TAtom kind payload))
     else Inl NotAbleToSerializeErr)"
proof (cases "kind = 11")
  case True
  have *: "(payload = [] \<or> last payload \<noteq> 0 \<or> 0 \<in> set (take (length payload - 1) payload))
      \<longleftrightarrow> \<not> (\<exists>s. payload = s @ [0] \<and> 0 \<notin> set s)"
    by (metis append_butlast_last_id append_is_Nil_conv butlast_conv_take butlast_snoc last_snoc not_Cons_self2)
  have "admissible (TSymbol s)" if "payload = s @ [0]" "0 \<notin> set s" for s
    using that assms by (auto simp: admissible_def)
  then have "from_owned_bytes (245 # s @ [0]) = Inr (value_of (TSymbol s))" if "payload = s @ [0]" "0 \<notin> set s" for s
    using that from_owned_encode [of "TSymbol s"] by auto
  moreover have "(0 - 11 :: byte) = 245" by simp
  ultimately show ?thesis using True assms * by (auto simp: qvalue_atom_def checked_add_def simp del: diff_0)
next
  case False
  have adm: "wf_tree (TAtom kind payload) \<Longrightarrow> admissible (TAtom kind payload)"
    using assms by (simp add: admissible_def)
  have wf: "wf_tree (TAtom kind payload) \<longleftrightarrow> (1 \<le> kind \<and> kind \<le> 19) \<and> kind \<noteq> 3
     \<and> length payload = K_TYPE_SIZE ! unat kind \<and> \<not> (kind = 1 \<and> payload ! 0 > 1)"
    using False by (auto simp: K_TYPE_SIZE_def length_Suc_conv)
  show ?thesis
    using False from_owned_encode [OF adm] assms unfolding wf
    by (auto simp: qvalue_atom_def checked_add_def)
qed

lemma parse_value_fuel_numeral [simp]:
  "parse_value_fuel (numeral k) bs d p = parse_value_body (parse_value_fuel (pred_numeral k) bs) bs d p"
  by (simp add: numeral_eq_Suc)

lemma validate_server_error:
  assumes "0 \<notin> set message" "length message + length rest + 2 < usize_limit"
  shows "validate (128 # message @ 0 # rest) = Inl (ServerErr (transcode_utf8_lossy message))"
proof -
  let ?bs = "128 # message @ 0 # rest" and ?p = "\<lparr>position = 1, max_depth = 0\<rparr>"
  have len: "length ?bs < usize_limit" using assms(2) by simp
  have "take_byte ?bs \<lparr>position = 0, max_depth = 0\<rparr> = Inr (128, ?p)"
    using len by (simp add: take_byte_iff seg_def)
  moreover have "take_until_nul ?bs ?p = Inr (message, ?p\<lparr>position := 1 + length message + 1\<rparr>)"
    using assms(1) by (simp add: take_until_nul_iff [OF len] seg_def)
  ultimately show ?thesis
    by (simp add: validate_def parse_value_def parse_value_body_def note_depth_def parse_wire_type_def)
qed

section \<open>Properties\<close>

text \<open>
  C1: validation accepts exactly the encodings of well-formed value trees that nest at most 64
  levels deep, and the metadata it derives (type code, count, table flag, depth) is the tree's.
\<close>
theorem validate_accepts_exactly_the_format:
  assumes "length bs < usize_limit"
  shows "validate bs = Inr md \<longleftrightarrow>
    (\<exists>t. wf_tree t \<and> height t \<le> MAX_VALUE_DEPTH \<and> encode t = bs \<and> md = meta_of t)"
  by (rule validate_iff [OF assms])

theorem validate_accepts_exactly_the_format_witness:
  "validate [245, 97, 0] = Inr \<lparr>md_type_code = - 11, md_len = 1, md_is_table = False, md_max_depth = 0\<rparr>"
proof -
  have "wf_tree (TSymbol [97])" "height (TSymbol [97]) \<le> MAX_VALUE_DEPTH" "encode (TSymbol [97]) = [245, 97, 0]"
    "meta_of (TSymbol [97]) = \<lparr>md_type_code = - 11, md_len = 1, md_is_table = False, md_max_depth = 0\<rparr>"
    by (simp_all add: meta_of_def)
  then show ?thesis
    using validate_accepts_exactly_the_format [of "[245, 97, 0]"] by fastforce
qed


text \<open>
  The format is self-delimiting: when two admissible values are encoded at the start of the same
  bytes, they are the same bytes and carry the same metadata, so concatenated bodies split in one
  way only.
\<close>
theorem encodings_are_prefix_free:
  assumes "admissible t" "admissible u" "encode t @ r = encode u @ r'" "length (encode t @ r) < usize_limit"
  shows "encode t = encode u \<and> meta_of t = meta_of u \<and> r = r'"
  using encode_prefix_free [OF assms] assms(3) by auto

theorem encodings_are_prefix_free_witness:
  "encode (TAtom 4 [7]) = encode (TAtom 4 [7]) \<and> meta_of (TAtom 4 [7]) = meta_of (TAtom 4 [7])
    \<and> [1 :: byte] = [1]"
  by (rule encodings_are_prefix_free) (simp_all add: admissible_def K_TYPE_SIZE_def)

text \<open>
  \<open>QValue::atom\<close> succeeds exactly on the payloads of well-formed atoms (the fixed width of the
  type, 0 or 1 for booleans, one terminating NUL for symbols), builds exactly that atom, and
  refuses every other type and payload with the serialization error.
\<close>
theorem atom_constructor_exact:
  assumes "length payload + 1 < usize_limit"
  shows "qvalue_atom kind payload =
    (if kind = 11 then
       (if \<exists>s. payload = s @ [0] \<and> 0 \<notin> set s then Inr (value_of (TSymbol (butlast payload)))
        else Inl NotAbleToSerializeErr)
     else if wf_tree (TAtom kind payload) then Inr (value_of (TAtom kind payload))
     else Inl NotAbleToSerializeErr)"
  by (rule qvalue_atom_exact [OF assms])

theorem atom_constructor_exact_witness:
  "qvalue_atom 1 [1] = Inr (value_of (TAtom 1 [1])) \<and> qvalue_atom 1 [2] = Inl NotAbleToSerializeErr"
  using atom_constructor_exact [of "[1]" 1] atom_constructor_exact [of "[2]" 1]
  by (simp add: K_TYPE_SIZE_def word_le_def)

text \<open>
  \<open>QValue::list\<close> of valid values is the general list of exactly these values: it fails only for
  more than \<open>i32::MAX\<close> items or for an item already at the depth limit, and otherwise returns the
  general-list value with the items' bytes unchanged.
\<close>
theorem list_constructor_exact:
  assumes "list_all admissible ts" "6 + (\<Sum>t\<leftarrow>ts. length (encode t)) < usize_limit"
  shows "qvalue_list (map value_of ts) =
    (if 2147483648 \<le> length ts then Inl OverLengthErr
     else if list_ex (\<lambda>t. height t = MAX_VALUE_DEPTH) ts then Inl NotAbleToSerializeErr
     else Inr (value_of (TList 0 ts)))"
  by (rule qvalue_list_exact [OF assms])

theorem list_constructor_exact_witness:
  "qvalue_list (map value_of [TAtom 4 [7], TSymbol []]) = Inr (value_of (TList 0 [TAtom 4 [7], TSymbol []]))"
  by (subst list_constructor_exact) (simp_all add: admissible_def K_TYPE_SIZE_def MAX_VALUE_DEPTH_def)

text \<open>
  \<open>QValue::dictionary\<close> of two valid values succeeds exactly when the resulting dictionary is
  well formed (equal counts, both tables or both sequences, depth within the limit), with the
  children's bytes unchanged, and otherwise returns the serialization error.
\<close>
theorem dictionary_constructor_exact:
  assumes "admissible k" "admissible u" "1 + length (encode k) + length (encode u) < usize_limit"
  shows "qvalue_dictionary (value_of k) (value_of u) =
    (if wf_tree (TDict 99 k u) \<and> height (TDict 99 k u) \<le> MAX_VALUE_DEPTH
     then Inr (value_of (TDict 99 k u)) else Inl NotAbleToSerializeErr)"
  by (rule qvalue_dictionary_exact [OF assms])

theorem dictionary_constructor_exact_witness:
  "qvalue_dictionary (value_of (TSymbols 0 [[97]])) (value_of (TVector 4 0 1 [7]))
     = Inr (value_of (TDict 99 (TSymbols 0 [[97]]) (TVector 4 0 1 [7])))"
  by (subst dictionary_constructor_exact)
    (simp_all add: admissible_def K_TYPE_SIZE_def MAX_VALUE_DEPTH_def count_ok_def enc_count_def is_seq_def)

text \<open>
  A body that starts with the error type 128 is never a value: validation reports the q server's
  message, transcoded to UTF-8, whatever follows its terminator.
\<close>
theorem server_error_reported:
  assumes "0 \<notin> set message" "length message + length rest + 2 < usize_limit"
  shows "validate (128 # message @ 0 # rest) = Inl (ServerErr (transcode_utf8_lossy message))"
  by (rule validate_server_error [OF assms])

theorem server_error_reported_witness:
  "validate (128 # [116, 121, 112, 101] @ 0 # []) = Inl (ServerErr (transcode_utf8_lossy [116, 121, 112, 101]))"
  by (rule server_error_reported) simp_all

end
