(* ===== verification/Compression.thy ===== *)
theory Compression
  imports Errors
begin

text \<open>
  The q IPC compression of \<open>crates/xqdb/src/serde6.rs\<close>: the decompressor with its validated
  back references (\<open>decompress\<close>) and the compressor (\<open>compress\<close>). The loops are step functions on
  the records of their local variables. Indexing out of range and subtraction below zero, which
  panic in the source, give \<open>Inl Panicked\<close>; the theorems show that this never happens.
  Allocation is taken to succeed.
\<close>

section \<open>Indexed access that panics\<close>

definition index_at :: "'a list \<Rightarrow> nat \<Rightarrow> 'a xresult" where
  "index_at xs i = ok_or (get_at xs i) Panicked"

definition set_at :: "'a list \<Rightarrow> nat \<Rightarrow> 'a \<Rightarrow> 'a list xresult" where
  "set_at xs i v = (if i < length xs then Inr (xs[i := v]) else Inl Panicked)"

text \<open>\<open>slice[at..at + src.len()].copy_from_slice(src)\<close>\<close>

definition copy_from_slice :: "'a list \<Rightarrow> nat \<Rightarrow> 'a list \<Rightarrow> 'a list xresult" where
  "copy_from_slice xs at src =
     (if at + length src \<le> length xs
      then Inr (take at xs @ src @ drop (at + length src) xs) else Inl Panicked)"

text \<open>\<open>slice.copy_within(s..e, d)\<close>\<close>

definition copy_within :: "'a list \<Rightarrow> nat \<Rightarrow> nat \<Rightarrow> nat \<Rightarrow> 'a list xresult" where
  "copy_within xs s e d =
     (if s \<le> e \<and> e \<le> length xs \<and> d + (e - s) \<le> length xs
      then Inr (take d xs @ take (e - s) (drop s xs) @ drop (d + (e - s)) xs) else Inl Panicked)"

section \<open>Decompression\<close>

definition INVALID_OFFSET :: nat where
  "INVALID_OFFSET = usize_limit - 1"

record dstate =
  compressed_position :: nat
  output_position :: nat
  hash_position :: nat
  d_flags :: byte
  d_mask :: byte
  dictionary :: "byte \<Rightarrow> nat"
  de_vec :: bytes

definition take_compressed_byte :: "bytes \<Rightarrow> dstate \<Rightarrow> (byte \<times> dstate) xresult" where
  "take_compressed_byte vec s =
     rbind (ok_or (get_at vec (compressed_position s)) DeserializationErr) (\<lambda>value.
     rbind (ok_or (checked_add (compressed_position s) 1) DeserializationErr) (\<lambda>position.
     Inr (value, s\<lparr>compressed_position := position\<rparr>)))"

text \<open>\<open>for index in 0..run_length { de_vec[output + index] = de_vec[source + index] }\<close>\<close>

definition copy_forward :: "bytes \<Rightarrow> nat \<Rightarrow> nat \<Rightarrow> nat \<Rightarrow> bytes xresult" where
  "copy_forward v source output run_length =
     rfold (\<lambda>index v. rbind (index_at v (source + index)) (\<lambda>b. set_at v (output + index) b))
       [0..<run_length] v"

definition decode_backreference :: "bytes \<Rightarrow> dstate \<Rightarrow> dstate xresult" where
  "decode_backreference vec s =
     rbind (take_compressed_byte vec s) (\<lambda>(hash, s).
     rbind (take_compressed_byte vec s) (\<lambda>(extra, s).
     let extra_length = unat extra; source = dictionary s hash in
     if source = INVALID_OFFSET then Inl DeserializationErr
     else rbind (ok_or (checked_add source 2) DeserializationErr) (\<lambda>source_pair_end.
     if source_pair_end > output_position s then Inl DeserializationErr
     else let run_length = extra_length + 2 in
     rbind (ok_or (checked_add (output_position s) run_length) DeserializationErr) (\<lambda>output_end.
     if output_end > length (de_vec s) then Inl DeserializationErr
     else rbind (ok_or (checked_add source run_length) DeserializationErr) (\<lambda>source_end.
     if source_end > length (de_vec s) then Inl DeserializationErr
     else rbind (if source_end \<le> output_position s
                 then copy_within (de_vec s) source source_end (output_position s)
                 else copy_forward (de_vec s) source (output_position s) run_length) (\<lambda>v.
     Inr (s\<lparr>de_vec := v, output_position := output_end\<rparr>)))))))"

definition decode_literal :: "bytes \<Rightarrow> dstate \<Rightarrow> dstate xresult" where
  "decode_literal vec s =
     rbind (take_compressed_byte vec s) (\<lambda>(b, s).
     rbind (set_at (de_vec s) (output_position s) b) (\<lambda>v.
     Inr (s\<lparr>de_vec := v, output_position := output_position s + 1\<rparr>)))"

text \<open>\<open>for position in hash_position..hash_end { ... }\<close>\<close>

definition hash_pairs :: "bytes \<Rightarrow> nat \<Rightarrow> nat \<Rightarrow> (byte \<Rightarrow> nat) \<Rightarrow> (byte \<Rightarrow> nat) xresult" where
  "hash_pairs v from hash_end dict =
     rfold (\<lambda>position dict.
       rbind (ok_or (checked_add position 1) DeserializationErr) (\<lambda>next.
       rbind (ok_or (get_range v position (next + 1)) DeserializationErr) (\<lambda>pair.
       Inr (dict(pair ! 0 XOR pair ! 1 := position)))))
       [from..<hash_end] dict"

definition load_flags :: "bytes \<Rightarrow> dstate \<Rightarrow> dstate xresult" where
  "load_flags vec s =
     (if d_mask s = 0
      then rbind (take_compressed_byte vec s) (\<lambda>(f, s). Inr (s\<lparr>d_flags := f, d_mask := 1\<rparr>))
      else Inr s)"

definition update_dictionary :: "bool \<Rightarrow> nat \<Rightarrow> dstate \<Rightarrow> dstate xresult" where
  "update_dictionary is_backreference previous_output_position s =
     rbind (if is_backreference
            then ok_or (checked_add previous_output_position 1) DeserializationErr
            else Inr (output_position s - 1)) (\<lambda>hash_end.
     rbind (hash_pairs (de_vec s) (hash_position s) hash_end (dictionary s)) (\<lambda>dict.
     Inr (s\<lparr>dictionary := dict,
            hash_position := (if is_backreference then output_position s else output_position s - 1),
            d_mask := push_bit 1 (d_mask s)\<rparr>)))"

text \<open>One iteration of the \<open>while\<close> loop.\<close>

definition decompress_step :: "bytes \<Rightarrow> dstate \<Rightarrow> dstate xresult" where
  "decompress_step vec s =
     rbind (load_flags vec s) (\<lambda>s.
     let is_backreference = (d_flags s AND d_mask s \<noteq> 0);
         previous_output_position = output_position s in
     rbind (if is_backreference then decode_backreference vec s else decode_literal vec s) (\<lambda>s.
     update_dictionary is_backreference previous_output_position s))"

lemma take_compressed_byte_frame:
  "take_compressed_byte vec s = Inr (b, t) \<Longrightarrow>
   de_vec t = de_vec s \<and> output_position t = output_position s \<and> compressed_position t = compressed_position s + 1
   \<and> dictionary t = dictionary s \<and> hash_position t = hash_position s \<and> d_mask t = d_mask s \<and> d_flags t = d_flags s"
  by (auto simp: take_compressed_byte_def result_simps usize_simps)

lemma copy_forward_length: "copy_forward v s d n = Inr w \<Longrightarrow> length w = length v"
  unfolding copy_forward_def
  by (erule rfold_invariant [where I = "\<lambda>w. length w = length v"])
    (auto simp: result_simps set_at_def)

lemma decode_backreference_progress:
  assumes "decode_backreference vec s = Inr t"
  shows "length (de_vec t) = length (de_vec s) \<and> output_position s < output_position t"
proof -
  from assms obtain h s1 e s2 b c v where t: "take_compressed_byte vec s = Inr (h, s1)"
    "take_compressed_byte vec s1 = Inr (e, s2)"
    "checked_add (output_position s2) (unat e + 2) = Some b"
    "(if c \<le> output_position s2
      then copy_within (de_vec s2) (dictionary s2 h) c (output_position s2)
      else copy_forward (de_vec s2) (dictionary s2 h) (output_position s2) (unat e + 2)) = Inr v"
    "Inr (s2\<lparr>de_vec := v, output_position := b\<rparr>) = (Inr t :: xqdb_error + dstate)"
    unfolding decode_backreference_def Let_def rbind_pair_iff rbind_Inr_iff [of "ok_or _ _"]
      rbind_Inr_iff [of "if _ then copy_within _ _ _ _ else _"] if_Inl_Inr_iff ok_or_Inr_iff
    by (elim exE conjE) (rule that; assumption)
  have "length v = length (de_vec s2)"
    using t(4) copy_forward_length by (auto simp: copy_within_def split: if_splits)
  moreover have "t = s2\<lparr>de_vec := v, output_position := output_position s2 + (unat e + 2)\<rparr>"
    using t(3,5) by (simp add: checked_add_Some)
  ultimately show ?thesis
    using take_compressed_byte_frame [OF t(1)] take_compressed_byte_frame [OF t(2)] by simp
qed

lemma decode_literal_progress:
  "decode_literal vec s = Inr t \<Longrightarrow>
   length (de_vec t) = length (de_vec s) \<and> output_position s < output_position t"
  by (auto simp: decode_literal_def rbind_pair_iff rbind_Inr_iff set_at_def
      dest!: take_compressed_byte_frame split: if_splits)

lemma decompress_step_progress:
  assumes "decompress_step vec s = Inr t"
  shows "length (de_vec t) = length (de_vec s) \<and> output_position s < output_position t"
proof -
  from assms obtain s1 s2 where s1: "load_flags vec s = Inr s1"
    and s2: "(if d_flags s1 AND d_mask s1 \<noteq> 0 then decode_backreference vec s1 else decode_literal vec s1) = Inr s2"
    and t: "update_dictionary (d_flags s1 AND d_mask s1 \<noteq> 0) (output_position s1) s2 = Inr t"
    unfolding decompress_step_def rbind_Inr_iff Let_def by blast
  have "length (de_vec s2) = length (de_vec s1)" "output_position s1 < output_position s2"
    using s2 decode_backreference_progress [of vec s1 s2] decode_literal_progress [of vec s1 s2]
    by (auto split: if_splits)
  moreover have "de_vec s1 = de_vec s" "output_position s1 = output_position s"
    using s1 by (auto simp: load_flags_def rbind_pair_iff dest!: take_compressed_byte_frame split: if_splits)
  moreover have "de_vec t = de_vec s2" "output_position t = output_position s2"
    using t by (auto simp: update_dictionary_def rbind_Inr_iff)
  ultimately show ?thesis by simp
qed

function decompress_loop :: "bytes \<Rightarrow> dstate \<Rightarrow> dstate xresult" where
  "decompress_loop vec s =
     (if output_position s < length (de_vec s)
      then rbind (decompress_step vec s) (decompress_loop vec) else Inr s)"
  by pat_completeness auto
termination
  by (relation "measure (\<lambda>(vec, s). length (de_vec s) - output_position s)")
    (auto dest!: decompress_step_progress)

declare decompress_loop.simps [simp del]

definition decompressed_total_length :: "bytes \<Rightarrow> nat \<Rightarrow> nat xresult" where
  "decompressed_total_length vec start_pos =
     (if start_pos = 4 then rbind (ok_or (get_range vec 0 4) DeserializationErr) (\<lambda>p. Inr (le_nat p))
      else if start_pos = 8 then rbind (ok_or (get_range vec 0 8) DeserializationErr) (\<lambda>p. Inr (le_nat p))
      else Inl DeserializationErr)"

text \<open>The result is the filled destination buffer; callers drop it on an error.\<close>

definition decompress :: "bytes \<Rightarrow> bytes \<Rightarrow> nat \<Rightarrow> bytes xresult" where
  "decompress vec de start_pos =
     rbind (decompressed_total_length vec start_pos) (\<lambda>total.
     rbind (ok_or (checked_sub total 8) DeserializationErr) (\<lambda>expected_body_length.
     if expected_body_length \<noteq> length de then Inl DeserializationErr
     else rbind (decompress_loop vec
       \<lparr>compressed_position = start_pos, output_position = 0, hash_position = 0, d_flags = 0,
        d_mask = 0, dictionary = (\<lambda>_. INVALID_OFFSET), de_vec = de\<rparr>) (\<lambda>s.
     if compressed_position s \<noteq> length vec then Inl DeserializationErr else Inr (de_vec s))))"

section \<open>Compression\<close>

record cstate =
  c_vec :: bytes
  c_pos :: nat
  n_pos :: nat
  o_pos :: nat
  x_table :: "byte \<Rightarrow> nat"
  px :: byte
  c_n :: byte
  p_pos :: nat
  c_i :: byte

definition write_decompressed_length_prefix :: "bytes \<Rightarrow> nat \<Rightarrow> (bytes \<times> nat) xresult" where
  "write_decompressed_length_prefix header decompressed_length =
     (if decompressed_length > 4294967295
      then rbind (set_at header 2 2) (\<lambda>header.
           rbind (copy_from_slice header 8 (le_bytes 8 decompressed_length)) (\<lambda>header.
           Inr (header, 16)))
      else rbind (set_at header 2 1) (\<lambda>header.
           rbind (copy_from_slice header 8 (le_bytes 4 decompressed_length)) (\<lambda>header.
           Inr (header, 12))))"

text \<open>\<open>while o_pos < max_index && vec[x_pos] == vec[o_pos] { o_pos += 1; x_pos += 1; }\<close>\<close>

function extend_match :: "bytes \<Rightarrow> nat \<Rightarrow> nat \<Rightarrow> nat \<Rightarrow> nat xresult" where
  "extend_match vec max_index o_p x_p =
     (if o_p < max_index
      then rbind (index_at vec x_p) (\<lambda>a. rbind (index_at vec o_p) (\<lambda>b.
           if a = b then extend_match vec max_index (o_p + 1) (x_p + 1) else Inr o_p))
      else Inr o_p)"
  by pat_completeness auto
termination
  by (relation "measure (\<lambda>(vec, max_index, o_p, x_p). max_index - o_p)") auto

declare extend_match.simps [simp del]

text \<open>The start of a group of eight: \<open>None\<close> is the early \<open>return Ok(vec)\<close>.\<close>

definition start_group :: "cstate \<Rightarrow> (cstate option) xresult" where
  "start_group s =
     (if c_i s = 0
      then rbind (ok_or (checked_sub (length (c_vec s)) 17) Panicked) (\<lambda>limit.
           if c_pos s > limit then Inr None
           else rbind (set_at (c_vec s) (n_pos s) (c_n s)) (\<lambda>v.
             Inr (Some (s\<lparr>c_i := 1, c_vec := v, n_pos := c_pos s, c_pos := c_pos s + 1, c_n := 0\<rparr>))))
      else Inr (Some s))"

text \<open>The decision at the current position: \<open>skip\<close>, \<open>cx\<close> and \<open>x_pos\<close>.\<close>

definition find_match :: "bytes \<Rightarrow> cstate \<Rightarrow> (bool \<times> byte \<times> nat) xresult" where
  "find_match vec s =
     (if length vec - o_pos s < 3 then Inr (True, 0, 0)
      else rbind (index_at vec (o_pos s)) (\<lambda>a.
           rbind (index_at vec (o_pos s + 1)) (\<lambda>b.
           let cx = a XOR b; x_p = x_table s cx in
           if x_p = 0 then Inr (True, cx, x_p)
           else rbind (index_at vec x_p) (\<lambda>c. Inr (a \<noteq> c, cx, x_p)))))"

definition emit_literal :: "bytes \<Rightarrow> byte \<Rightarrow> cstate \<Rightarrow> cstate xresult" where
  "emit_literal vec cx s =
     rbind (index_at vec (o_pos s)) (\<lambda>b.
     rbind (set_at (c_vec s) (c_pos s) b) (\<lambda>v.
     Inr (s\<lparr>px := cx, p_pos := o_pos s, c_vec := v, c_pos := c_pos s + 1, o_pos := o_pos s + 1\<rparr>)))"

definition emit_reference :: "bytes \<Rightarrow> byte \<Rightarrow> nat \<Rightarrow> cstate \<Rightarrow> cstate xresult" where
  "emit_reference vec cx x_p s =
     (let start = o_pos s + 2 in
      rbind (extend_match vec (min (start + 255) (length vec)) start (x_p + 2)) (\<lambda>o'.
      rbind (set_at (c_vec s) (c_pos s) cx) (\<lambda>v.
      rbind (set_at v (c_pos s + 1) (of_nat (o' - start))) (\<lambda>v.
      Inr (s\<lparr>x_table := (x_table s)(cx := o_pos s), c_n := c_n s OR c_i s, o_pos := o',
             c_vec := v, c_pos := c_pos s + 2\<rparr>)))))"

definition compress_step :: "bytes \<Rightarrow> cstate \<Rightarrow> (cstate option) xresult" where
  "compress_step vec s =
     rbind (start_group s) (\<lambda>r. case r of None \<Rightarrow> Inr None | Some s \<Rightarrow>
     rbind (find_match vec s) (\<lambda>(skip, cx, x_p).
     let s = (if p_pos s > 0 then s\<lparr>x_table := (x_table s)(px s := p_pos s), p_pos := 0\<rparr> else s) in
     rbind (if skip then emit_literal vec cx s else emit_reference vec cx x_p s) (\<lambda>s.
     Inr (Some (s\<lparr>c_i := push_bit 1 (c_i s)\<rparr>)))))"

lemma extend_match_ge: "extend_match vec m a b = Inr c \<Longrightarrow> a \<le> c"
  by (induction vec m a b rule: extend_match.induct)
    (subst (asm) extend_match.simps, auto simp: result_simps split: if_splits)

lemma emit_progress:
  "emit_literal vec cx s = Inr t \<Longrightarrow> o_pos s < o_pos t"
  "emit_reference vec cx x_p s = Inr t \<Longrightarrow> o_pos s < o_pos t"
  by (auto simp: emit_literal_def emit_reference_def rbind_Inr_iff Let_def dest!: extend_match_ge)

lemma compress_step_Some:
  "compress_step vec s = Inr (Some t) \<longleftrightarrow> (\<exists>s1 skip cx x_p s2 s3. start_group s = Inr (Some s1)
     \<and> find_match vec s1 = Inr (skip, cx, x_p)
     \<and> s2 = (if p_pos s1 > 0 then s1\<lparr>x_table := (x_table s1)(px s1 := p_pos s1), p_pos := 0\<rparr> else s1)
     \<and> (if skip then emit_literal vec cx s2 else emit_reference vec cx x_p s2) = Inr s3
     \<and> t = s3\<lparr>c_i := push_bit 1 (c_i s3)\<rparr>)"
proof -
  have case_opt: "(case r of None \<Rightarrow> Inr None | Some s \<Rightarrow> g s) = Inr (Some t) \<longleftrightarrow> (\<exists>s1. r = Some s1 \<and> g s1 = Inr (Some t))"
    for r :: "cstate option" and g :: "cstate \<Rightarrow> (cstate option) xresult" by (cases r) auto
  have trip: "rbind m (\<lambda>(a, b, c). g a b c) = Inr (Some t) \<longleftrightarrow> (\<exists>a b c. m = Inr (a, b, c) \<and> g a b c = Inr (Some t))"
    for m :: "(bool \<times> byte \<times> nat) xresult" and g :: "bool \<Rightarrow> byte \<Rightarrow> nat \<Rightarrow> (cstate option) xresult"
    by (cases m) auto
  show ?thesis
    unfolding compress_step_def Let_def rbind_Inr_iff [of "start_group s"] case_opt trip
      rbind_Inr_iff [of "if _ then emit_literal _ _ _ else _"] sum.inject option.inject
    by (simp only: ex_simps simp_thms) blast
qed

lemma compress_step_progress:
  assumes "compress_step vec s = Inr (Some t)" shows "o_pos s < o_pos t"
proof -
  from assms obtain s1 skip cx x_p s2 s3 where h: "start_group s = Inr (Some s1)"
    "s2 = (if p_pos s1 > 0 then s1\<lparr>x_table := (x_table s1)(px s1 := p_pos s1), p_pos := 0\<rparr> else s1)"
    "(if skip then emit_literal vec cx s2 else emit_reference vec cx x_p s2) = Inr s3"
    "t = s3\<lparr>c_i := push_bit 1 (c_i s3)\<rparr>"
    unfolding compress_step_Some by blast
  have "o_pos s1 = o_pos s"
    using h(1) by (auto simp: start_group_def rbind_Inr_iff split: if_splits)
  then show ?thesis using emit_progress(1) [of vec cx s2 s3] emit_progress(2) [of vec cx x_p s2 s3] h
    by (auto split: if_splits)
qed

function compress_loop :: "bytes \<Rightarrow> cstate \<Rightarrow> (cstate option) xresult" where
  "compress_loop vec s =
     (if o_pos s < length vec
      then rbind (compress_step vec s) (\<lambda>r.
           case r of None \<Rightarrow> Inr None | Some t \<Rightarrow> compress_loop vec t)
      else Inr (Some s))"
  by pat_completeness auto
termination
  by (relation "measure (\<lambda>(vec, s). length vec - o_pos s)") (auto dest!: compress_step_progress)

declare compress_loop.simps [simp del]

definition finish_compression :: "bytes \<Rightarrow> cstate \<Rightarrow> bytes xresult" where
  "finish_compression vec s =
     rbind (set_at (c_vec s) (n_pos s) (c_n s)) (\<lambda>v.
     rbind (index_at vec 0) (\<lambda>b0. rbind (set_at v 0 b0) (\<lambda>v.
     rbind (index_at vec 1) (\<lambda>b1. rbind (set_at v 1 b1) (\<lambda>v.
     rbind (copy_from_slice v 4 (le_bytes 4 (c_pos s))) (\<lambda>v.
     rbind (set_at v 3 (of_nat (c_pos s div 4294967296))) (\<lambda>v.
     Inr (take (c_pos s) v @ replicate (c_pos s - length v) 0))))))))"

definition compress :: "bytes \<Rightarrow> bytes xresult" where
  "compress vec =
     (if length vec < 2000 then Inr vec
      else rbind (write_decompressed_length_prefix (replicate (length vec div 2) 0) (length vec)) (\<lambda>(v, start).
        rbind (compress_loop vec
          \<lparr>c_vec = v, c_pos = start, n_pos = start, o_pos = 8, x_table = (\<lambda>_. 0), px = 0, c_n = 0,
           p_pos = 0, c_i = 0\<rparr>) (\<lambda>r.
        case r of None \<Rightarrow> Inr vec | Some s \<Rightarrow> finish_compression vec s)))"

end
