(* ===== verification/CompressionCorrect.thy ===== *)
theory CompressionCorrect
  imports Compression
begin

text \<open>
  Correctness of the IPC compression: the byte stream is read as a sequence of tokens, \<open>covers\<close> says
  what a token sequence means for a body, the decompressor reproduces every covered body, and the
  compressor emits tokens that cover its input. Together they give the round trip. The expansion
  and size bounds that the framing layer relies on are proved on the decompressor alone.
\<close>

section \<open>Tokens and their byte stream\<close>

text \<open>
  A compressed stream is a sequence of tokens: literals, and references to the dictionary with the
  number of bytes beyond the first two. Tokens come in groups of eight behind a flag byte.
\<close>

datatype token = Lit byte | Ref byte byte

primrec tok_bytes :: "token \<Rightarrow> bytes" where
  "tok_bytes (Lit b) = [b]"
| "tok_bytes (Ref h e) = [h, e]"

primrec is_ref :: "token \<Rightarrow> bool" where
  "is_ref (Lit b) = False"
| "is_ref (Ref h e) = True"

inductive stream :: "byte \<Rightarrow> byte \<Rightarrow> token list \<Rightarrow> bytes \<Rightarrow> bool" where
  stream_Nil: "stream m f [] []"
| stream_group: "stream 1 f (t # ts) B \<Longrightarrow> stream 0 f' (t # ts) (f # B)"
| stream_token: "m \<noteq> 0 \<Longrightarrow> (f AND m \<noteq> 0) = is_ref t \<Longrightarrow> stream (push_bit 1 m) f ts B
    \<Longrightarrow> stream m f (t # ts) (tok_bytes t @ B)"

inductive_cases stream_NilE: "stream m f [] B"
inductive_cases stream_ConsE: "stream m f (t # ts) B"

text \<open>What the tokens mean for the body \<open>w\<close>, from output offset \<open>i\<close> on.\<close>

definition hashes :: "bytes \<Rightarrow> nat \<Rightarrow> nat \<Rightarrow> (byte \<Rightarrow> nat) \<Rightarrow> byte \<Rightarrow> nat" where
  "hashes w from until dict = foldl (\<lambda>d p. d(w ! p XOR w ! Suc p := p)) dict [from..<until]"

inductive covers :: "bytes \<Rightarrow> nat \<Rightarrow> (byte \<Rightarrow> nat) \<Rightarrow> nat \<Rightarrow> token list \<Rightarrow> bool" for w where
  covers_Nil: "covers w (length w) dict hp []"
| covers_Lit: "i < length w \<Longrightarrow> covers w (i + 1) (hashes w hp i dict) i ts
    \<Longrightarrow> covers w i dict hp (Lit (w ! i) # ts)"
| covers_Ref: "dict h + 2 \<le> i \<Longrightarrow> i + (unat e + 2) \<le> length w
    \<Longrightarrow> (\<And>k. k < unat e + 2 \<Longrightarrow> w ! (dict h + k) = w ! (i + k))
    \<Longrightarrow> covers w (i + (unat e + 2)) (hashes w hp (i + 1) dict) (i + (unat e + 2)) ts
    \<Longrightarrow> covers w i dict hp (Ref h e # ts)"

section \<open>The decoder follows the tokens\<close>

lemma take_eq_nth: "take n v = take n w \<Longrightarrow> i < n \<Longrightarrow> v ! i = w ! i"
  by (metis nth_take)

lemma take_Suc_update:
  assumes "take n v = take n w" "n < length v" "length v = length w" "b = w ! n"
  shows "take (Suc n) (v[n := b]) = take (Suc n) w"
  using assms by (simp add: take_Suc_conv_app_nth)

lemma copy_forward_ok:
  assumes "take i v = take i w" "length v = length w" "src < i" "i + n \<le> length w"
    and "\<And>k. k < n \<Longrightarrow> w ! (src + k) = w ! (i + k)"
  shows "\<exists>v'. copy_forward v src i n = Inr v' \<and> length v' = length w \<and> take (i + n) v' = take (i + n) w"
  using assms(4,5)
proof (induction n)
  case 0
  then show ?case using assms(1,2) by (simp add: copy_forward_def)
next
  case (Suc n)
  then obtain v' where v': "copy_forward v src i n = Inr v'" "length v' = length w"
    "take (i + n) v' = take (i + n) w" by auto
  have "v' ! (src + n) = w ! (i + n)"
    using take_eq_nth [OF v'(3), of "src + n"] Suc.prems(2) [of n] assms(3) by simp
  then have "take (i + Suc n) (v'[i + n := v' ! (src + n)]) = take (i + Suc n) w"
    using take_Suc_update [OF v'(3)] v'(2) Suc.prems(1) by simp
  moreover have "copy_forward v src i (Suc n) = Inr (v'[i + n := v' ! (src + n)])"
    using v' Suc.prems(1) assms(3)
    by (simp add: copy_forward_def rfold_append index_at_def get_at_def set_at_def)
  ultimately show ?case using v'(2) by simp
qed

lemma copy_within_ok:
  assumes "take i v = take i w" "length v = length w" "src + n \<le> i" "i + n \<le> length w"
    and eq: "\<And>k. k < n \<Longrightarrow> w ! (src + k) = w ! (i + k)"
  shows "\<exists>v'. copy_within v src (src + n) i = Inr v' \<and> length v' = length w \<and> take (i + n) v' = take (i + n) w"
proof -
  let ?v = "take i v @ take n (drop src v) @ drop (i + n) v"
  have "take n (drop src v) = take n (drop i w)"
    using assms take_eq_nth [OF assms(1)] by (intro nth_equalityI) auto
  then have "take (i + n) ?v = take (i + n) w"
    using assms by (simp add: take_add)
  then show ?thesis using assms by (simp add: copy_within_def)
qed

lemma hash_pairs_ok:
  assumes "take n v = take n w" "length v = length w" "n \<le> length w" "until + 1 \<le> n" "length w < usize_limit"
  shows "hash_pairs v from until dict = Inr (hashes w from until dict)"
  using assms(4)
proof (induction until)
  case 0
  then show ?case by (simp add: hash_pairs_def hashes_def)
next
  case (Suc k)
  have "v ! k = w ! k" "v ! Suc k = w ! Suc k"
    using take_eq_nth [OF assms(1)] Suc.prems by auto
  moreover have "take 2 (drop k v) = [v ! k, v ! Suc k]"
    using Suc.prems assms by (simp add: take_Suc_conv_app_nth numeral_2_eq_2 hd_drop_conv_nth)
  ultimately show ?case
    using Suc assms
    by (cases "from \<le> k") (simp_all add: hash_pairs_def hashes_def rfold_append checked_add_def get_range_def numeral_2_eq_2 fun_upd_def)
qed

text \<open>A decoder state that has produced the first \<open>i\<close> bytes of \<open>w\<close> and has \<open>B\<close> left to read.\<close>

definition at_token :: "bytes \<Rightarrow> bytes \<Rightarrow> dstate \<Rightarrow> nat \<Rightarrow> (byte \<Rightarrow> nat) \<Rightarrow> nat \<Rightarrow> bytes \<Rightarrow> bool" where
  "at_token vec w s i dict hp B \<longleftrightarrow>
     output_position s = i \<and> hash_position s = hp \<and> dictionary s = dict
     \<and> length (de_vec s) = length w \<and> take i (de_vec s) = take i w
     \<and> compressed_position s + length B = length vec \<and> drop (compressed_position s) vec = B"

lemma take_compressed_byte_ok:
  assumes "at_token vec w s i dict hp (b # B)" "length vec < usize_limit"
  shows "take_compressed_byte vec s = Inr (b, s\<lparr>compressed_position := compressed_position s + 1\<rparr>)
    \<and> at_token vec w (s\<lparr>compressed_position := compressed_position s + 1\<rparr>) i dict hp B"
proof -
  have "compressed_position s < length vec" "vec ! compressed_position s = b"
    "drop (Suc (compressed_position s)) vec = B"
    using assms(1) by (auto simp: at_token_def) (metis hd_drop_conv_nth less_add_Suc1 list.sel(1), metis drop_Suc list.sel(3) tl_drop)
  then show ?thesis using assms
    by (auto simp: take_compressed_byte_def get_at_def checked_add_def at_token_def)
qed

lemma load_flags_ok:
  assumes "at_token vec w s i dict hp B" "stream (d_mask s) (d_flags s) (t # ts) B" "length vec < usize_limit"
  shows "\<exists>s1 B'. load_flags vec s = Inr s1 \<and> at_token vec w s1 i dict hp (tok_bytes t @ B')
    \<and> d_mask s1 \<noteq> 0 \<and> (d_flags s1 AND d_mask s1 \<noteq> 0) = is_ref t
    \<and> stream (push_bit 1 (d_mask s1)) (d_flags s1) ts B'"
  using assms(2)
proof (cases rule: stream.cases)
  case (stream_group f B0)
  then have a: "at_token vec w s i dict hp (f # B0)" using assms(1) by simp
  let ?s = "s\<lparr>compressed_position := compressed_position s + 1, d_flags := f, d_mask := 1\<rparr>"
  from stream_group(3) obtain B' where "B0 = tok_bytes t @ B'" "(f AND 1 \<noteq> 0) = is_ref t"
    "stream (push_bit 1 1) f ts B'"
    by (auto elim: stream_ConsE)
  then show ?thesis
    using take_compressed_byte_ok [OF a assms(3)] stream_group(1)
    by (intro exI [of _ ?s] exI [of _ B']) (auto simp: load_flags_def at_token_def)
next
  case (stream_token B0)
  then show ?thesis using assms(1) by (auto simp: load_flags_def)
qed

lemma decode_literal_ok:
  assumes "at_token vec w s i dict hp (w ! i # B)" "i < length w" "length vec < usize_limit"
  shows "\<exists>s'. decode_literal vec s = Inr s' \<and> at_token vec w s' (i + 1) dict hp B
    \<and> d_mask s' = d_mask s \<and> d_flags s' = d_flags s"
proof -
  let ?v = "(de_vec s)[i := w ! i]"
  let ?s = "s\<lparr>compressed_position := compressed_position s + 1\<rparr>"
  have "take_compressed_byte vec s = Inr (w ! i, ?s)" "at_token vec w ?s i dict hp B"
    using take_compressed_byte_ok [OF assms(1,3)] by auto
  moreover have "take (Suc i) ?v = take (Suc i) w" 
    using assms by (intro take_Suc_update) (auto simp: at_token_def)
  ultimately show ?thesis using assms(2)
    by (auto simp: decode_literal_def set_at_def at_token_def)
qed

lemma decode_backreference_ok:
  assumes at: "at_token vec w s i dict hp (h # e # B)" and len: "length vec < usize_limit" "length w < usize_limit"
    and src: "dict h + 2 \<le> i" and fits: "i + (unat e + 2) \<le> length w"
    and eq: "\<And>k. k < unat e + 2 \<Longrightarrow> w ! (dict h + k) = w ! (i + k)"
  shows "\<exists>s'. decode_backreference vec s = Inr s' \<and> at_token vec w s' (i + (unat e + 2)) dict hp B
    \<and> d_mask s' = d_mask s \<and> d_flags s' = d_flags s"
proof -
  let ?n = "unat e + 2" and ?s1 = "s\<lparr>compressed_position := compressed_position s + 1\<rparr>"
    and ?s = "s\<lparr>compressed_position := compressed_position s + 2\<rparr>"
  have t1: "take_compressed_byte vec s = Inr (h, ?s1)" "at_token vec w ?s1 i dict hp (e # B)"
    using take_compressed_byte_ok [OF at len(1)] by auto
  have t2: "take_compressed_byte vec ?s1 = Inr (e, ?s)" "at_token vec w ?s i dict hp B"
    using take_compressed_byte_ok [OF t1(2) len(1)] by auto
  have st: "take i (de_vec s) = take i w" "length (de_vec s) = length w" "output_position s = i" "dictionary s = dict"
    using at by (auto simp: at_token_def)
  obtain v where v: "(if dict h + ?n \<le> i then copy_within (de_vec s) (dict h) (dict h + ?n) i
      else copy_forward (de_vec s) (dict h) i ?n) = Inr v" "length v = length w" "take (i + ?n) v = take (i + ?n) w"
  proof (cases "dict h + ?n \<le> i")
    case True
    then show ?thesis using copy_within_ok [OF st(1,2) True fits eq] that by auto
  next
    case False
    have "dict h < i" using src by simp
    then show ?thesis using copy_forward_ok [OF st(1,2) _ fits eq] False that by auto
  qed
  have ch: "dict h \<noteq> INVALID_OFFSET" "checked_add (dict h) 2 = Some (dict h + 2)"
    "checked_add i ?n = Some (i + ?n)" "checked_add (dict h) ?n = Some (dict h + ?n)"
    "\<not> i < dict h + 2" "\<not> length w < i + ?n" "\<not> length w < dict h + ?n"
    using src fits len(2) by (auto simp: INVALID_OFFSET_def checked_add_def)
  have "decode_backreference vec s = Inr (?s\<lparr>de_vec := v, output_position := i + ?n\<rparr>)"
    unfolding decode_backreference_def t1(1) rbind.simps prod.case t2(1) Let_def
    using v(1) ch st by (cases "dict h + ?n \<le> i") (simp_all del: add_2_eq_Suc')
  moreover have "at_token vec w (?s\<lparr>de_vec := v, output_position := i + ?n\<rparr>) (i + ?n) dict hp B"
    using t2(2) v by (simp add: at_token_def)
  ultimately show ?thesis by auto
qed

lemma update_dictionary_ok:
  assumes at: "at_token vec w s j dict hp B" and len: "length w < usize_limit" and j: "i < j" "j \<le> length w"
    and r: "r \<longrightarrow> i + 2 \<le> j" "\<not> r \<longrightarrow> j = i + 1"
  shows "\<exists>s'. update_dictionary r i s = Inr s'
    \<and> at_token vec w s' j (hashes w hp (if r then i + 1 else i) dict) (if r then j else i) B
    \<and> d_mask s' = push_bit 1 (d_mask s) \<and> d_flags s' = d_flags s"
proof -
  have "hash_pairs (de_vec s) hp (if r then i + 1 else i) dict = Inr (hashes w hp (if r then i + 1 else i) dict)"
    using at len j r by (intro hash_pairs_ok [of j]) (auto simp: at_token_def)
  then show ?thesis using at len j r
    by (cases r) (auto simp: update_dictionary_def checked_add_def at_token_def)
qed

lemma decompress_loop_follows:
  assumes "covers w i dict hp ts" "length vec < usize_limit" "length w < usize_limit"
    and "at_token vec w s i dict hp B" "stream (d_mask s) (d_flags s) ts B"
  shows "\<exists>t. decompress_loop vec s = Inr t \<and> de_vec t = w \<and> compressed_position t = length vec"
  using assms
proof (induction arbitrary: s B rule: covers.induct)
  case (covers_Nil dict hp)
  then show ?case
    by (auto simp: decompress_loop.simps [of vec s] at_token_def elim!: stream_NilE)
next
  case (covers_Lit i hp dict ts)
  obtain s1 B' where s1: "load_flags vec s = Inr s1" "at_token vec w s1 i dict hp (w ! i # B')"
    "d_mask s1 \<noteq> 0" "d_flags s1 AND d_mask s1 = 0" "stream (push_bit 1 (d_mask s1)) (d_flags s1) ts B'"
    using load_flags_ok [OF covers_Lit.prems(3,4,1)] by auto
  obtain s2 where s2: "decode_literal vec s1 = Inr s2" "at_token vec w s2 (i + 1) dict hp B'"
    "d_mask s2 = d_mask s1" "d_flags s2 = d_flags s1"
    using decode_literal_ok [OF s1(2) covers_Lit.hyps(1) covers_Lit.prems(1)] by blast
  obtain s3 where s3: "update_dictionary False i s2 = Inr s3" "at_token vec w s3 (i + 1) (hashes w hp i dict) i B'"
    "d_mask s3 = push_bit 1 (d_mask s2)" "d_flags s3 = d_flags s2"
    using update_dictionary_ok [OF s2(2) covers_Lit.prems(2), of i False] covers_Lit.hyps(1) by auto
  have "decompress_step vec s = Inr s3"
    using s1 s2 s3 by (auto simp: decompress_step_def Let_def at_token_def)
  moreover have "output_position s < length (de_vec s)"
    using covers_Lit.prems(3) covers_Lit.hyps(1) by (simp add: at_token_def)
  ultimately have "decompress_loop vec s = decompress_loop vec s3"
    by (simp add: decompress_loop.simps [of vec s])
  then show ?case
    using covers_Lit.IH [OF covers_Lit.prems(1,2) s3(2)] s1(5) s2(3,4) s3(3,4) by simp
next
  case (covers_Ref dict h i e hp ts)
  obtain s1 B' where s1: "load_flags vec s = Inr s1" "at_token vec w s1 i dict hp (h # e # B')"
    "d_mask s1 \<noteq> 0" "d_flags s1 AND d_mask s1 \<noteq> 0" "stream (push_bit 1 (d_mask s1)) (d_flags s1) ts B'"
    using load_flags_ok [OF covers_Ref.prems(3,4,1)] by auto
  obtain s2 where s2: "decode_backreference vec s1 = Inr s2" "at_token vec w s2 (i + (unat e + 2)) dict hp B'"
    "d_mask s2 = d_mask s1" "d_flags s2 = d_flags s1"
    using decode_backreference_ok [OF s1(2) covers_Ref.prems(1,2) covers_Ref.hyps(1-3)] by blast
  obtain s3 where s3: "update_dictionary True i s2 = Inr s3"
    "at_token vec w s3 (i + (unat e + 2)) (hashes w hp (i + 1) dict) (i + (unat e + 2)) B'"
    "d_mask s3 = push_bit 1 (d_mask s2)" "d_flags s3 = d_flags s2"
    using update_dictionary_ok [OF s2(2) covers_Ref.prems(2), of i True] covers_Ref.hyps(2) by auto
  have "decompress_step vec s = Inr s3"
    using s1 s2 s3 by (auto simp: decompress_step_def Let_def at_token_def)
  moreover have "output_position s < length (de_vec s)"
    using covers_Ref.prems(3) covers_Ref.hyps(2) by (simp add: at_token_def)
  ultimately have "decompress_loop vec s = decompress_loop vec s3"
    by (simp add: decompress_loop.simps [of vec s])
  then show ?case
    using covers_Ref.IH [OF covers_Ref.prems(1,2) s3(2)] s1(5) s2(3,4) s3(3,4) by simp
qed

section \<open>The compressor covers its input\<close>

lemma extend_match_ok:
  "a \<le> m \<Longrightarrow> m \<le> length vec \<Longrightarrow> b < a \<Longrightarrow>
   \<exists>c. extend_match vec m a b = Inr c \<and> a \<le> c \<and> c \<le> m \<and> (\<forall>k<c - a. vec ! (b + k) = vec ! (a + k))"
proof (induction vec m a b rule: extend_match.induct)
  case (1 vec m a b)
  show ?case
  proof (cases "a < m \<and> vec ! b = vec ! a")
    case True
    then obtain c where c: "extend_match vec m (a + 1) (b + 1) = Inr c" "a + 1 \<le> c" "c \<le> m"
      "\<forall>k<c - (a + 1). vec ! (b + 1 + k) = vec ! (a + 1 + k)"
      using 1 by (auto simp: index_at_def get_at_def)
    have "vec ! (b + k) = vec ! (a + k)" if "k < c - a" for k
      using that True c(4) by (cases k) auto
    then show ?thesis
      using c True 1 by (auto simp: extend_match.simps [of vec m a b] index_at_def get_at_def)
  next
    case False
    then show ?thesis
      using 1 by (auto simp: extend_match.simps [of vec m a b] index_at_def get_at_def)
  qed
qed

text \<open>
  The compressor's table agrees with the dictionary the decoder will have at the same place. The
  last two bytes are always literals, so the agreement is only needed while three bytes are left.
\<close>

definition tables_agree :: "bytes \<Rightarrow> (byte \<Rightarrow> nat) \<Rightarrow> (byte \<Rightarrow> nat) \<Rightarrow> nat \<Rightarrow> bool" where
  "tables_agree vec x dict bound \<longleftrightarrow> (\<forall>h. (x h = 0 \<and> dict h = INVALID_OFFSET)
     \<or> (8 \<le> x h \<and> x h + 2 \<le> bound \<and> vec ! x h XOR vec ! Suc (x h) = h \<and> dict h = x h - 8))"

lemma tables_agree_mono: "tables_agree vec x dict b \<Longrightarrow> b \<le> b' \<Longrightarrow> tables_agree vec x dict b'"
  unfolding tables_agree_def by (meson le_trans)

lemma tables_agree_upd:
  assumes "tables_agree vec x dict b" "8 \<le> q" "q + 2 \<le> b'" "b \<le> b'"
  shows "tables_agree vec (x(vec ! q XOR vec ! Suc q := q)) (dict(vec ! q XOR vec ! Suc q := q - 8)) b'"
  using tables_agree_mono [OF assms(1,4)] assms(2,3) by (auto simp: tables_agree_def)

definition cinv :: "bytes \<Rightarrow> cstate \<Rightarrow> (byte \<Rightarrow> nat) \<Rightarrow> nat \<Rightarrow> bool" where
  "cinv vec s dict hp \<longleftrightarrow> 8 \<le> o_pos s \<and> o_pos s \<le> length vec
     \<and> hp = (if p_pos s > 0 then p_pos s - 8 else o_pos s - 8)
     \<and> (p_pos s > 0 \<longrightarrow> p_pos s + 1 = o_pos s \<and> 8 \<le> p_pos s)
     \<and> (o_pos s + 3 \<le> length vec \<longrightarrow>
          (p_pos s > 0 \<longrightarrow> px s = vec ! p_pos s XOR vec ! Suc (p_pos s)) \<and> tables_agree vec (x_table s) dict (o_pos s))"

definition flush :: "cstate \<Rightarrow> cstate" where
  "flush s = (if p_pos s > 0 then s\<lparr>x_table := (x_table s)(px s := p_pos s), p_pos := 0\<rparr> else s)"

text \<open>The effect of a token on the output buffer.\<close>

definition wrote :: "cstate \<Rightarrow> token \<Rightarrow> cstate \<Rightarrow> bool" where
  "wrote s tok t \<longleftrightarrow> c_pos t = c_pos s + length (tok_bytes tok) \<and> n_pos t = n_pos s \<and> c_i t = c_i s
     \<and> c_n t = c_n s OR (if is_ref tok then c_i s else 0)
     \<and> c_vec t = take (c_pos s) (c_vec s) @ tok_bytes tok @ drop (c_pos t) (c_vec s)"

lemma hashes_step: "hashes w i (Suc i) d = d(w ! i XOR w ! Suc i := i)"
  by (simp add: hashes_def)

lemma hashes_two: "hashes w i (Suc (Suc i)) d = d(w ! i XOR w ! Suc i := i, w ! Suc i XOR w ! Suc (Suc i) := Suc i)"
  by (simp add: hashes_def upt_rec)

lemma hashes_none: "hashes w i i d = d"
  by (simp add: hashes_def)

lemma flush_agree:
  assumes "cinv vec s dict hp" "o_pos s + 3 \<le> length vec"
  shows "tables_agree vec (x_table (flush s)) (hashes (drop 8 vec) hp (o_pos s - 8) dict) (o_pos s + 1)"
proof (cases "p_pos s > 0")
  case True
  then have p: "p_pos s + 1 = o_pos s" "8 \<le> p_pos s" "hp = p_pos s - 8" "px s = vec ! p_pos s XOR vec ! Suc (p_pos s)"
    "tables_agree vec (x_table s) dict (o_pos s)"
    using assms by (auto simp: cinv_def)
  then have "o_pos s - 8 = Suc hp" "drop 8 vec ! hp = vec ! p_pos s" "drop 8 vec ! Suc hp = vec ! Suc (p_pos s)"
    using assms(2) by (auto simp: nth_drop)
  then have "hashes (drop 8 vec) hp (o_pos s - 8) dict = dict(px s := p_pos s - 8)"
    using p by (simp add: hashes_step)
  then show ?thesis using tables_agree_upd [OF p(5,2), of "o_pos s + 1"] p True by (simp add: flush_def)
next
  case False
  then show ?thesis using assms by (auto simp: cinv_def flush_def hashes_none intro: tables_agree_mono)
qed

lemma emit_literal_ok:
  assumes inv: "cinv vec s dict hp" and o: "o_pos s < length vec" and room: "c_pos s < length (c_vec s)"
    and cx: "o_pos s + 3 \<le> length vec \<longrightarrow> cx = vec ! o_pos s XOR vec ! Suc (o_pos s)"
  defines "w \<equiv> drop 8 vec" and "i \<equiv> o_pos s - 8"
  shows "\<exists>t. emit_literal vec cx (flush s) = Inr t \<and> wrote s (Lit (w ! i)) t
    \<and> cinv vec t (hashes w hp i dict) i
    \<and> (\<forall>ts. covers w (o_pos t - 8) (hashes w hp i dict) i ts \<longrightarrow> covers w i dict hp (Lit (w ! i) # ts))
    \<and> o_pos s < o_pos t"
proof -
  have f: "o_pos (flush s) = o_pos s" "c_vec (flush s) = c_vec s" "c_pos (flush s) = c_pos s"
    "n_pos (flush s) = n_pos s" "c_i (flush s) = c_i s" "c_n (flush s) = c_n s"
    by (auto simp: flush_def)
  have wi: "w ! i = vec ! o_pos s" "i < length w" "o_pos s + 1 - 8 = i + 1"
    using inv o by (auto simp: w_def i_def cinv_def nth_drop)
  define t where "t = (flush s)\<lparr>px := cx, p_pos := o_pos s, c_vec := (c_vec s)[c_pos s := vec ! o_pos s],
      c_pos := c_pos s + 1, o_pos := o_pos s + 1\<rparr>"
  have "emit_literal vec cx (flush s) = Inr t"
    using o room by (simp add: emit_literal_def index_at_def get_at_def set_at_def f t_def)
  moreover have "wrote s (Lit (w ! i)) t"
    using room by (simp add: wrote_def t_def f wi upd_conv_take_nth_drop)
  moreover have "cinv vec t (hashes w hp i dict) i"
  proof -
    have "tables_agree vec (x_table t) (hashes w hp i dict) (o_pos t)" if "o_pos s + 4 \<le> length vec"
      using flush_agree [OF inv] that by (simp add: t_def w_def i_def)
    then show ?thesis using inv o cx by (auto simp: cinv_def t_def i_def)
  qed
  moreover have "covers w i dict hp (Lit (w ! i) # ts)"
    if "covers w (o_pos t - 8) (hashes w hp i dict) i ts" for ts
    using that wi by (intro covers_Lit) (auto simp: t_def)
  moreover have "o_pos s < o_pos t" by (simp add: t_def)
  ultimately show ?thesis by blast
qed

lemma xor_cancel:
  fixes a b c :: byte
  assumes "a XOR b = a XOR c" shows "b = c"
proof -
  have "a XOR (a XOR b) = a XOR (a XOR c)" using assms by simp
  then show ?thesis unfolding xor.assoc [symmetric] by simp
qed

lemma emit_reference_ok:
  assumes inv: "cinv vec s dict hp" and o: "o_pos s + 3 \<le> length vec" and room: "c_pos s + 1 < length (c_vec s)"
    and cx: "cx = vec ! o_pos s XOR vec ! Suc (o_pos s)" and x: "x_table s cx = x" "x \<noteq> 0" "vec ! o_pos s = vec ! x"
  defines "w \<equiv> drop 8 vec" and "i \<equiv> o_pos s - 8"
  shows "\<exists>t e. emit_reference vec cx x (flush s) = Inr t \<and> wrote s (Ref cx e) t
    \<and> cinv vec t (hashes w hp (i + 1) dict) (o_pos t - 8)
    \<and> (\<forall>ts. covers w (o_pos t - 8) (hashes w hp (i + 1) dict) (o_pos t - 8) ts \<longrightarrow> covers w i dict hp (Ref cx e # ts))
    \<and> o_pos s < o_pos t"
proof -
  let ?st = "o_pos s + 2"
  have f: "o_pos (flush s) = o_pos s" "c_vec (flush s) = c_vec s" "c_pos (flush s) = c_pos s"
    "n_pos (flush s) = n_pos s" "c_i (flush s) = c_i s" "c_n (flush s) = c_n s" "p_pos (flush s) = 0"
    by (auto simp: flush_def)
  have ta: "tables_agree vec (x_table s) dict (o_pos s)" using inv o by (simp add: cinv_def)
  then have src: "8 \<le> x" "x + 2 \<le> o_pos s" "vec ! x XOR vec ! Suc x = cx" "dict cx = x - 8"
    using x unfolding tables_agree_def by (metis gr_implies_not_zero less_le)+
  have o8: "8 \<le> o_pos s" using inv by (simp add: cinv_def)
  obtain o' where o': "extend_match vec (min (?st + 255) (length vec)) ?st (x + 2) = Inr o'" "?st \<le> o'"
    "o' \<le> ?st + 255" "o' \<le> length vec" "\<forall>k<o' - ?st. vec ! (x + 2 + k) = vec ! (?st + k)"
    using extend_match_ok [of ?st "min (?st + 255) (length vec)" vec "x + 2"] src o by auto
  define e where "e = (of_nat (o' - ?st) :: byte)"
  have ue: "unat e = o' - ?st" using o'(3) by (simp add: e_def)
  have i': "i + (unat e + 2) = o' - 8" using o'(2) o8 by (simp add: i_def ue)
  define t where "t = (flush s)\<lparr>x_table := (x_table (flush s))(cx := o_pos s), c_n := c_n s OR c_i s, o_pos := o',
      c_vec := (c_vec s)[c_pos s := cx, Suc (c_pos s) := e], c_pos := c_pos s + 2\<rparr>"
  have "emit_reference vec cx x (flush s) = Inr t"
    using o' room by (simp add: emit_reference_def Let_def set_at_def f t_def e_def)
  moreover have "wrote s (Ref cx e) t"
  proof -
    have "(c_vec s)[c_pos s := cx, Suc (c_pos s) := e] = take (c_pos s) (c_vec s) @ [cx, e] @ drop (c_pos s + 2) (c_vec s)"
      using room by (simp add: upd_conv_take_nth_drop [of "Suc _"] take_Suc_conv_app_nth)
    then show ?thesis by (simp add: wrote_def t_def f)
  qed
  moreover have "cinv vec t (hashes w hp (i + 1) dict) (o_pos t - 8)"
  proof -
    have "hashes w hp (i + 1) dict = (hashes w hp i dict)(w ! i XOR w ! Suc i := i)"
      using inv by (auto simp: hashes_def cinv_def i_def)
    also have "w ! i XOR w ! Suc i = cx" using o o8 by (simp add: w_def i_def cx nth_drop)
    finally have "tables_agree vec (x_table t) (hashes w hp (i + 1) dict) o'"
      using tables_agree_upd [OF flush_agree [OF inv o] o8, of o'] o'(2) by (simp add: t_def cx w_def i_def fun_upd_def)
    then show ?thesis using o' o8 by (simp add: cinv_def t_def f)
  qed
  moreover have "covers w i dict hp (Ref cx e # ts)"
    if "covers w (o_pos t - 8) (hashes w hp (i + 1) dict) (o_pos t - 8) ts" for ts
  proof (rule covers_Ref)
    show "dict cx + 2 \<le> i" using src o8 by (simp add: i_def)
    show "i + (unat e + 2) \<le> length w" using i' o'(4) by (simp add: w_def)
    show "covers w (i + (unat e + 2)) (hashes w hp (i + 1) dict) (i + (unat e + 2)) ts"
      unfolding i' using that by (simp add: t_def)
    have snd: "vec ! Suc x = vec ! Suc (o_pos s)"
      using src(3) cx x(3) xor_cancel [of "vec ! x" "vec ! Suc x" "vec ! Suc (o_pos s)"] by simp
    fix k assume k: "k < unat e + 2"
    have "vec ! (x + k) = vec ! (o_pos s + k)"
    proof (cases "k < 2")
      case True
      then show ?thesis using snd x(3) by (cases k) auto
    next
      case False
      then have "x + 2 + (k - 2) = x + k" "?st + (k - 2) = o_pos s + k" "k - 2 < o' - ?st"
        using k ue by auto
      then show ?thesis using o'(5) by metis
    qed
    moreover have "o_pos s + k < length vec" using k ue o'(2,4) by simp
    ultimately show "w ! (dict cx + k) = w ! (i + k)"
      using src o8 by (simp add: w_def i_def nth_drop)
  qed
  moreover have "o_pos s < o_pos t" using o'(2) by (simp add: t_def)
  ultimately show ?thesis by blast
qed


section \<open>The output buffer\<close>

text \<open>Bit \<open>k\<close> of the flag byte belongs to token \<open>k\<close> of the group; \<open>c_i\<close> is \<open>2 ^ k\<close>, and 0 after eight.\<close>

definition binv :: "cstate \<Rightarrow> nat \<Rightarrow> bool" where
  "binv s k \<longleftrightarrow> k \<le> 8 \<and> c_i s = push_bit k 1 \<and> 17 \<le> length (c_vec s) \<and> n_pos s < length (c_vec s)
     \<and> n_pos s \<le> c_pos s \<and> c_pos s \<le> length (c_vec s)
     \<and> (k < 8 \<longrightarrow> n_pos s < c_pos s \<and> c_pos s \<le> n_pos s + 1 + 2 * k \<and> n_pos s + 17 \<le> length (c_vec s))
     \<and> (\<forall>j\<ge>k. \<not> bit (c_n s) j)"

lemma mask_zero_iff: "k \<le> 8 \<Longrightarrow> (push_bit k 1 :: byte) = 0 \<longleftrightarrow> k = 8"
proof (cases "k = 8")
  case False
  assume "k \<le> 8"
  with False have "bit (push_bit k 1 :: byte) k" by (simp add: bit_simps)
  then show ?thesis using False by (metis bit_0_eq bot_apply bot_bool_def)
qed simp

text \<open>
  How the finished buffer \<open>F\<close> of length \<open>e\<close> continues a state: everything before \<open>c_pos\<close> is final
  except the current flag byte, whose bits below \<open>k\<close> are, and the rest is the stream of \<open>ts\<close>.
\<close>

definition continues :: "cstate \<Rightarrow> nat \<Rightarrow> bytes \<Rightarrow> token list \<Rightarrow> bool" where
  "continues s k F ts \<longleftrightarrow> c_pos s \<le> length F
     \<and> (\<forall>j<c_pos s. j \<noteq> n_pos s \<longrightarrow> F ! j = c_vec s ! j)
     \<and> (n_pos s < c_pos s \<longrightarrow> (\<forall>j<k. bit (F ! n_pos s) j = bit (c_n s) j))
     \<and> (\<forall>f. (k < 8 \<longrightarrow> f = F ! n_pos s) \<longrightarrow> stream (push_bit k 1) f ts (drop (c_pos s) F))"

lemma wrote_nth:
  assumes "wrote s tok t" "c_pos t \<le> length (c_vec s)"
  shows "length (c_vec t) = length (c_vec s)"
    and "j < c_pos s \<Longrightarrow> c_vec t ! j = c_vec s ! j"
    and "j < length (tok_bytes tok) \<Longrightarrow> c_vec t ! (c_pos s + j) = tok_bytes tok ! j"
  using assms by (auto simp: wrote_def nth_append)

lemma tok_bytes_length: "1 \<le> length (tok_bytes tok)" "length (tok_bytes tok) \<le> 2"
  by (cases tok; simp)+

lemma bit_flag: "k < 8 \<Longrightarrow> bit (c_n s OR (if r then push_bit k 1 else 0) :: byte) j \<longleftrightarrow> bit (c_n s) j \<or> (r \<and> j = k)"
  by (auto simp: bit_simps)

lemma wrote_binv:
  assumes w: "wrote s tok t" and b: "binv s k" and k: "k < 8"
  shows "binv (t\<lparr>c_i := push_bit 1 (c_i t)\<rparr>) (Suc k)"
proof -
  have "push_bit 1 (push_bit k 1 :: byte) = push_bit (Suc k) 1" by (simp add: push_bit_push_bit)
  moreover have "c_pos t \<le> length (c_vec s)"
    using w b k tok_bytes_length(2) [of tok] by (auto simp: wrote_def binv_def)
  moreover have "\<not> bit (c_n t) j" if "Suc k \<le> j" for j
    using w b that k bit_flag [OF k, of s "is_ref tok" j] by (auto simp: wrote_def binv_def)
  ultimately show ?thesis
    using w b k tok_bytes_length [of tok] wrote_nth(1) [OF w] by (auto simp: wrote_def binv_def)
qed

lemma continues_token:
  assumes w: "wrote s tok t" and b: "binv s k" and k: "k < 8"
    and c: "continues (t\<lparr>c_i := push_bit 1 (c_i t)\<rparr>) (Suc k) F ts"
  shows "continues s k F (tok # ts)"
proof -
  let ?f = "F ! n_pos s"
  have n: "n_pos s < c_pos s" "n_pos t = n_pos s" "c_pos t = c_pos s + length (tok_bytes tok)" "c_pos t \<le> length (c_vec s)"
    using w b k tok_bytes_length(2) [of tok] by (auto simp: wrote_def binv_def)
  have len: "c_pos t \<le> length F" using c by (simp add: continues_def)
  have bits: "bit ?f j = (bit (c_n s) j \<or> (is_ref tok \<and> j = k))" if "j < Suc k" for j
    using c n that w b k bit_flag [OF k, of s "is_ref tok" j] by (auto simp: continues_def wrote_def binv_def)
  have same: "F ! j = c_vec s ! j" if "j < c_pos s" "j \<noteq> n_pos s" for j
    using c n that wrote_nth(2) [OF w n(4) that(1)] by (auto simp: continues_def)
  have tk: "F ! (c_pos s + j) = tok_bytes tok ! j" if "j < length (tok_bytes tok)" for j
    using c n that wrote_nth(3) [OF w n(4) that] by (auto simp: continues_def)
  have "drop (c_pos s) F = tok_bytes tok @ drop (c_pos t) F"
  proof -
    have "take (length (tok_bytes tok)) (drop (c_pos s) F) = tok_bytes tok"
      using len n(3) tk by (intro nth_equalityI) auto
    then show ?thesis
      by (metis append_take_drop_id drop_drop n(3) add.commute)
  qed
  moreover have "(?f AND push_bit k 1 \<noteq> 0) = is_ref tok"
  proof -
    have "?f AND push_bit k 1 \<noteq> 0 \<longleftrightarrow> bit ?f k"
      by (simp add: bit_iff_and_push_bit_not_eq_0)
    then show ?thesis using bits [of k] b by (auto simp: binv_def)
  qed
  moreover have "stream (push_bit (Suc k) 1) ?f ts (drop (c_pos t) F)"
    using c n by (auto simp: continues_def)
  ultimately have "stream (push_bit k 1) ?f (tok # ts) (drop (c_pos s) F)"
    using stream_token [of "push_bit k 1" ?f tok ts] k mask_zero_iff [of k] by (simp add: push_bit_push_bit mult.commute)
  then show ?thesis
    using len n same bits k by (auto simp: continues_def)
qed

lemma start_group_cases:
  assumes b: "binv s k"
  shows "start_group s = Inr None \<or> (\<exists>s1 k1. start_group s = Inr (Some s1) \<and> binv s1 k1 \<and> k1 < 8
    \<and> o_pos s1 = o_pos s \<and> x_table s1 = x_table s \<and> px s1 = px s \<and> p_pos s1 = p_pos s
    \<and> length (c_vec s1) = length (c_vec s) \<and> n_pos s \<le> n_pos s1
    \<and> (\<forall>F ts. ts \<noteq> [] \<longrightarrow> continues s1 k1 F ts \<longrightarrow> continues s k F ts))"
proof (cases "k = 8")
  case False
  then have "c_i s \<noteq> 0" "k < 8" using b mask_zero_iff [of k] by (auto simp: binv_def)
  then show ?thesis using b by (auto simp: start_group_def)
next
  case True
  then have i: "c_i s = 0" using b mask_zero_iff [of 8] by (simp add: binv_def)
  show ?thesis
  proof (cases "c_pos s + 17 \<le> length (c_vec s)")
    case False
    then show ?thesis using i b by (auto simp: start_group_def checked_sub_def binv_def)
  next
    case fits: True
    define s1 where "s1 = s\<lparr>c_i := 1, c_vec := (c_vec s)[n_pos s := c_n s], n_pos := c_pos s, c_pos := c_pos s + 1, c_n := 0\<rparr>"
    have "start_group s = Inr (Some s1)"
      using i b fits by (auto simp: start_group_def checked_sub_def binv_def set_at_def s1_def)
    moreover have "binv s1 0" using b fits by (auto simp: binv_def s1_def)
    moreover have "continues s k F ts" if ts: "ts \<noteq> []" and c: "continues s1 0 F ts" for F ts
    proof -
      obtain tok ts' where e: "ts = tok # ts'" using ts by (cases ts) auto
      have len: "Suc (c_pos s) \<le> length F" using c by (simp add: continues_def s1_def)
      have "stream 1 (F ! c_pos s) ts (drop (Suc (c_pos s)) F)" using c by (simp add: continues_def s1_def)
      then have "stream 0 f ts (drop (c_pos s) F)" for f
        using stream_group [of "F ! c_pos s" tok ts'] len e by (simp add: Cons_nth_drop_Suc [symmetric])
      moreover have "F ! j = c_vec s ! j" if "j < c_pos s" "j \<noteq> n_pos s" for j
        using c that by (auto simp: continues_def s1_def)
      moreover have "F ! n_pos s = c_n s" if "n_pos s < c_pos s"
        using c that b by (auto simp: continues_def s1_def binv_def)
      moreover have z: "push_bit k 1 = (0 :: byte)" using True mask_zero_iff [of k] by blast
      ultimately show ?thesis using len unfolding continues_def z by auto
    qed
    ultimately show ?thesis using b by (intro disjI2 exI [of _ s1] exI [of _ 0]) (auto simp: s1_def binv_def)
  qed
qed


lemma find_match_ok:
  assumes "cinv vec s dict hp" "o_pos s < length vec"
  shows "\<exists>skip cx x. find_match vec s = Inr (skip, cx, x)
    \<and> (o_pos s + 3 \<le> length vec \<longrightarrow> cx = vec ! o_pos s XOR vec ! Suc (o_pos s))
    \<and> (\<not> skip \<longrightarrow> o_pos s + 3 \<le> length vec \<and> x_table s cx = x \<and> x \<noteq> 0 \<and> vec ! o_pos s = vec ! x)"
proof (cases "o_pos s + 3 \<le> length vec")
  case False
  then show ?thesis by (auto simp: find_match_def)
next
  case True
  let ?cx = "vec ! o_pos s XOR vec ! Suc (o_pos s)"
  have "tables_agree vec (x_table s) dict (o_pos s)" using assms True by (simp add: cinv_def)
  then have "x_table s ?cx + 2 \<le> o_pos s \<or> x_table s ?cx = 0" unfolding tables_agree_def by (elim allE [of _ ?cx]) auto
  then have "x_table s ?cx < length vec" using assms(2) by auto
  then have "find_match vec s = Inr (x_table s ?cx = 0 \<or> vec ! o_pos s \<noteq> vec ! x_table s ?cx, ?cx, x_table s ?cx)"
  proof -
    have "\<not> length vec - o_pos s < 3" "o_pos s < length vec" "Suc (o_pos s) < length vec" using True by auto
    then show ?thesis
      using \<open>x_table s ?cx < length vec\<close>
      by (cases "x_table s ?cx = 0") (simp_all add: find_match_def index_at_def get_at_def Let_def)
  qed
  then show ?thesis using True by blast
qed

lemma compress_step_ok:
  assumes inv: "cinv vec s dict hp" and b: "binv s k" and o: "o_pos s < length vec"
  defines "w \<equiv> drop 8 vec"
  shows "compress_step vec s = Inr None \<or> (\<exists>t tok dict' hp' k'. compress_step vec s = Inr (Some t)
    \<and> cinv vec t dict' hp' \<and> binv t k' \<and> length (c_vec t) = length (c_vec s)
    \<and> (\<forall>ts. covers w (o_pos t - 8) dict' hp' ts \<longrightarrow> covers w (o_pos s - 8) dict hp (tok # ts))
    \<and> (\<forall>F ts. continues t k' F ts \<longrightarrow> continues s k F (tok # ts)))"
proof (cases "start_group s = Inr None")
  case True
  then show ?thesis by (simp add: compress_step_def)
next
  case False
  then obtain s1 k1 where s1: "start_group s = Inr (Some s1)" "binv s1 k1" "k1 < 8"
    "o_pos s1 = o_pos s" "x_table s1 = x_table s" "px s1 = px s" "p_pos s1 = p_pos s"
    "length (c_vec s1) = length (c_vec s)"
    and lift: "\<And>F ts. ts \<noteq> [] \<Longrightarrow> continues s1 k1 F ts \<Longrightarrow> continues s k F ts"
    using start_group_cases [OF b] by blast
  have inv1: "cinv vec s1 dict hp" using inv s1 by (simp add: cinv_def tables_agree_def)
  have o1: "o_pos s1 < length vec" using o s1 by simp
  have room: "c_pos s1 + 1 < length (c_vec s1)" using s1(2,3) by (auto simp: binv_def)
  obtain skip cx x where fm: "find_match vec s1 = Inr (skip, cx, x)"
    "o_pos s1 + 3 \<le> length vec \<longrightarrow> cx = vec ! o_pos s1 XOR vec ! Suc (o_pos s1)"
    "\<not> skip \<longrightarrow> o_pos s1 + 3 \<le> length vec \<and> x_table s1 cx = x \<and> x \<noteq> 0 \<and> vec ! o_pos s1 = vec ! x"
    using find_match_ok [OF inv1 o1] by blast
  have "\<exists>t tok dict' hp'. (if skip then emit_literal vec cx (flush s1) else emit_reference vec cx x (flush s1)) = Inr t
    \<and> wrote s1 tok t \<and> cinv vec t dict' hp'
    \<and> (\<forall>ts. covers w (o_pos t - 8) dict' hp' ts \<longrightarrow> covers w (o_pos s1 - 8) dict hp (tok # ts))"
  proof (cases skip)
    case True
    then show ?thesis
      using emit_literal_ok [OF inv1 o1 _ fm(2)] room unfolding w_def by auto
  next
    case False
    then show ?thesis
      using emit_reference_ok [OF inv1 _ room, of cx x] fm(2,3) unfolding w_def by auto
  qed
  then obtain t tok dict' hp' where t: "(if skip then emit_literal vec cx (flush s1) else emit_reference vec cx x (flush s1)) = Inr t"
    "wrote s1 tok t" "cinv vec t dict' hp'"
    "\<forall>ts. covers w (o_pos t - 8) dict' hp' ts \<longrightarrow> covers w (o_pos s1 - 8) dict hp (tok # ts)" by blast
  let ?t = "t\<lparr>c_i := push_bit 1 (c_i t)\<rparr>"
  have "compress_step vec s = Inr (Some ?t)"
    unfolding compress_step_Some using s1(1) fm(1) t(1) by (auto simp: flush_def)
  moreover have "cinv vec ?t dict' hp'" using t(3) by (simp add: cinv_def)
  moreover have "binv ?t (Suc k1)" by (rule wrote_binv [OF t(2) s1(2,3)])
  moreover have "length (c_vec ?t) = length (c_vec s)"
    using wrote_nth(1) [OF t(2)] t(2) room s1(8) tok_bytes_length(2) [of tok] by (simp add: wrote_def)
  moreover have "continues s k F (tok # ts)" if "continues ?t (Suc k1) F ts" for F ts
    using lift continues_token [OF t(2) s1(2,3) that] by blast
  ultimately show ?thesis using t(4) s1(4) by (intro disjI2) force
qed

text \<open>The loop never panics; if it does not give up, its output covers the rest of the input.\<close>

lemma compress_loop_ok:
  "cinv vec s dict hp \<Longrightarrow> binv s k \<Longrightarrow> compress_loop vec s = Inr None
    \<or> (\<exists>e ts. compress_loop vec s = Inr (Some e) \<and> length (c_vec e) = length (c_vec s)
      \<and> n_pos e < length (c_vec e) \<and> c_pos s \<le> c_pos e \<and> c_pos e \<le> length (c_vec e)
      \<and> covers (drop 8 vec) (o_pos s - 8) dict hp ts
      \<and> continues s k (take (c_pos e) ((c_vec e)[n_pos e := c_n e])) ts)"
proof (induction vec s arbitrary: dict hp k rule: compress_loop.induct)
  case (1 vec s)
  show ?case
  proof (cases "o_pos s < length vec")
    case False
    then have o: "o_pos s = length vec" using 1 by (simp add: cinv_def)
    have "covers (drop 8 vec) (length vec - 8) dict hp []" using covers_Nil [of "drop 8 vec"] by simp
    moreover have "continues s k (take (c_pos s) ((c_vec s)[n_pos s := c_n s])) []"
      using 1(3) by (auto simp: continues_def binv_def intro: stream_Nil)
    ultimately show ?thesis using False o 1(3)
      by (auto simp: compress_loop.simps [of vec s] binv_def)
  next
    case True
    show ?thesis
    proof (cases "compress_step vec s = Inr None")
      case None: True
      then show ?thesis using True by (simp add: compress_loop.simps [of vec s])
    next
      case Some: False
      from compress_step_ok [OF 1(2,3) True] Some obtain t tok dict' hp' k' where
        t: "compress_step vec s = Inr (Some t)" "cinv vec t dict' hp'" "binv t k'" "length (c_vec t) = length (c_vec s)"
        "\<forall>ts. covers (drop 8 vec) (o_pos t - 8) dict' hp' ts \<longrightarrow> covers (drop 8 vec) (o_pos s - 8) dict hp (tok # ts)"
        "\<forall>F ts. continues t k' F ts \<longrightarrow> continues s k F (tok # ts)" by blast
      have run: "compress_loop vec s = compress_loop vec t"
        using True t(1) by (simp add: compress_loop.simps [of vec s])
      from 1(1) [OF True t(1) refl t(2,3)] show ?thesis
      proof (elim disjE exE conjE, goal_cases)
        case (2 e ts)
        then have "continues s k (take (c_pos e) ((c_vec e)[n_pos e := c_n e])) (tok # ts)" using t(6) by blast
        moreover from this have "c_pos s \<le> c_pos e" by (simp add: continues_def)
        ultimately show ?thesis using 2 run t(4,5)
          by (intro disjI2 exI [of _ e] exI [of _ "tok # ts"]) auto
      qed (use run in auto)
    qed
  qed
qed


section \<open>The round trip\<close>

lemma split_header:
  assumes "8 \<le> length v" obtains a b c d e f g h r where "v = a # b # c # d # e # f # g # h # r"
  using assms by (auto simp: numeral_eq_Suc Suc_le_length_iff)

lemma finish_compression_ok:
  assumes "n_pos s < length (c_vec s)" "8 \<le> c_pos s" "c_pos s \<le> length (c_vec s)" "2 \<le> length vec"
  defines "F \<equiv> take (c_pos s) ((c_vec s)[n_pos s := c_n s])"
  shows "finish_compression vec s = Inr ([vec ! 0, vec ! 1, F ! 2, of_nat (c_pos s div 4294967296)]
    @ le_bytes 4 (c_pos s) @ drop 8 F)"
proof -
  let ?v = "(c_vec s)[n_pos s := c_n s]"
  obtain a b c d e f g h r where v: "?v = a # b # c # d # e # f # g # h # r"
    by (rule split_header [of ?v]) (use assms in auto)
  have "length vec > 0" "length vec > 1" using assms(4) by auto
  moreover obtain m where m: "c_pos s = 8 + m" using assms(2) le_Suc_ex by blast
  moreover have "length ?v = length (c_vec s)" by simp
  then have "m \<le> length r" using v m assms(3) by simp
  moreover have "take (8 + m) (u0 # u1 # u2 # u3 # le_bytes 4 n @ r) = u0 # u1 # u2 # u3 # le_bytes 4 n @ take m r"
    for u0 u1 u2 u3 n
    using take_append [of "8 + m" "[u0, u1, u2, u3] @ le_bytes 4 n" r] by (simp del: le_bytes_numeral)
  moreover have "drop 8 (take (8 + m) (a # b # c # d # e # f # g # h # r)) = take m r"
    using take_append [of "8 + m" "[a, b, c, d, e, f, g, h]" r] by simp
  ultimately show ?thesis using assms(1) m v
    by (simp add: finish_compression_def set_at_def index_at_def get_at_def copy_from_slice_def F_def
        numeral_3_eq_3 del: le_bytes_numeral)
qed

lemma write_prefix_ok:
  fixes n :: nat
  assumes "16 \<le> length v"
  defines "p \<equiv> if n > 4294967295 then 8 else (4 :: nat)"
  shows "\<exists>v'. write_decompressed_length_prefix v n = Inr (v', 8 + p) \<and> length v' = length v
    \<and> v' ! 2 = (if n > 4294967295 then 2 else 1) \<and> take p (drop 8 v') = le_bytes p n"
  using assms(1)
  by (auto simp: write_decompressed_length_prefix_def set_at_def copy_from_slice_def p_def nth_append
      simp del: le_bytes_numeral)

lemma take_drop_eqI:
  assumes "\<And>j. a \<le> j \<Longrightarrow> j < a + n \<Longrightarrow> xs ! j = ys ! j" "a + n \<le> length xs" "a + n \<le> length ys"
  shows "take n (drop a xs) = take n (drop a ys)"
  using assms by (intro nth_equalityI) auto

lemma compress_large:
  assumes len: "2000 \<le> length vec" "length vec < usize_limit"
  defines "p \<equiv> if length vec > 4294967295 then 8 else (4 :: nat)"
  shows "compress vec = Inr vec \<or> (\<exists>c. compress vec = Inr c \<and> 8 + p \<le> length c \<and> length c \<le> length vec div 2
    \<and> take 8 c = [vec ! 0, vec ! 1, (if length vec > 4294967295 then 2 else 1), of_nat (length c div 4294967296)]
        @ le_bytes 4 (length c)
    \<and> take p (drop 8 c) = le_bytes p (length vec)
    \<and> (\<forall>de. length de = length vec - 8 \<longrightarrow> decompress (drop 8 c) de p = Inr (drop 8 vec)))"
proof -
  let ?w = "drop 8 vec"
  have half: "16 \<le> length (replicate (length vec div 2) (0 :: byte))" using len by simp
  obtain v where v: "write_decompressed_length_prefix (replicate (length vec div 2) 0) (length vec) = Inr (v, 8 + p)"
    "length v = length vec div 2" "v ! 2 = (if length vec > 4294967295 then 2 else 1)"
    "take p (drop 8 v) = le_bytes p (length vec)"
    using write_prefix_ok [OF half, of "length vec"] unfolding p_def by auto
  define s where "s = \<lparr>c_vec = v, c_pos = 8 + p, n_pos = 8 + p, o_pos = 8, x_table = (\<lambda>_. 0), px = 0, c_n = 0,
           p_pos = 0, c_i = 0\<rparr>"
  have p8: "p \<le> 8" by (simp add: p_def)
  have cinv: "cinv vec s (\<lambda>_. INVALID_OFFSET) 0"
    using len by (simp add: cinv_def tables_agree_def s_def)
  have zero: "(push_bit 8 1 :: byte) = 0" using mask_zero_iff [of 8] by blast
  have binv: "binv s 8" unfolding binv_def zero using v(2) len p8 by (auto simp: s_def)
  have run: "compress vec = rbind (compress_loop vec s) (\<lambda>r.
        case r of None \<Rightarrow> Inr vec | Some s \<Rightarrow> finish_compression vec s)"
    using len v(1) by (simp add: compress_def s_def)
  from compress_loop_ok [OF cinv binv] show ?thesis
  proof (elim disjE exE conjE, goal_cases)
    case 1
    then show ?thesis using run by simp
  next
    case (2 e ts)
    define F where "F = take (c_pos e) ((c_vec e)[n_pos e := c_n e])"
    have lF: "length F = c_pos e" using 2 by (simp add: F_def)
    have ce: "8 + p \<le> c_pos e" "c_pos e \<le> length vec div 2" using 2 v(2) by (simp_all add: s_def)
    have cont: "continues s 8 F ts" using 2 by (simp add: F_def)
    have hd: "F ! j = v ! j" if "j < 8 + p" for j
      using cont that by (auto simp: continues_def s_def)
    have st: "stream 0 0 ts (drop (8 + p) F)"
      using cont unfolding continues_def zero by (auto simp: s_def)
    let ?c = "[vec ! 0, vec ! 1, F ! 2, of_nat (c_pos e div 4294967296)] @ le_bytes 4 (c_pos e) @ drop 8 F"
    have fin: "finish_compression vec e = Inr ?c"
      using finish_compression_ok [of e vec] 2 ce len by (simp add: F_def)
    have d8: "drop 8 ?c = drop 8 F" by (simp del: le_bytes_numeral)
    have lc: "length ?c = c_pos e" using lF ce by (simp del: le_bytes_numeral)
    have pre: "take p (drop 8 ?c) = le_bytes p (length vec)"
      unfolding d8 v(4) [symmetric] using hd lF ce v(2) by (intro take_drop_eqI) auto
    have dec: "decompress (drop 8 ?c) de p = Inr ?w" if "length de = length vec - 8" for de
    proof -
      let ?d = "\<lparr>compressed_position = p, output_position = 0, hash_position = 0, d_flags = 0,
        d_mask = 0, dictionary = (\<lambda>_. INVALID_OFFSET), de_vec = de\<rparr>"
      have "at_token (drop 8 F) ?w ?d 0 (\<lambda>_. INVALID_OFFSET) 0 (drop (8 + p) F)"
        using that lF ce by (simp add: at_token_def add.commute)
      moreover have "length (drop 8 F) < usize_limit" "length ?w < usize_limit" using lF ce len by auto
      ultimately obtain t where t: "decompress_loop (drop 8 F) ?d = Inr t" "de_vec t = ?w" "compressed_position t = length (drop 8 F)"
        using decompress_loop_follows [of ?w 0 "\<lambda>_. INVALID_OFFSET" 0 ts "drop 8 F" ?d "drop (8 + p) F"]
          st 2 \<open>length (drop 8 F) < usize_limit\<close> \<open>length ?w < usize_limit\<close> by (auto simp: s_def)
      have "get_range (drop 8 F) 0 p = Some (le_bytes p (length vec))"
        using pre lF ce by (simp add: get_range_def d8 del: le_bytes_numeral)
      then have "decompressed_total_length (drop 8 F) p = Inr (length vec)"
        using len(2) by (auto simp: decompressed_total_length_def p_def le_nat_le_bytes simp del: le_bytes_numeral)
      then show ?thesis using t len that unfolding d8
        by (simp add: decompress_def checked_sub_def)
    qed
    have "compress vec = Inr ?c" using run fin 2 by simp
    moreover have "take 8 ?c = [vec ! 0, vec ! 1, (if length vec > 4294967295 then 2 else 1), of_nat (length ?c div 4294967296)]
        @ le_bytes 4 (length ?c)"
      unfolding lc using hd [of 2] v(3) by (simp del: le_bytes_numeral)
    ultimately show ?thesis using lc ce pre dec by (intro disjI2 exI [of _ ?c]) auto
  qed
qed

lemma compress_total: "length vec < usize_limit \<Longrightarrow> \<exists>bs. compress vec = Inr bs"
  using compress_large [of vec] by (cases "length vec < 2000") (auto simp: compress_def)


section \<open>Expansion and size bounds\<close>

lemma decode_token_counts:
  "decode_literal vec s = Inr t \<Longrightarrow> output_position t = output_position s + 1
     \<and> compressed_position t = compressed_position s + 1 \<and> d_mask t = d_mask s
     \<and> output_position t \<le> length (de_vec t)"
  "decode_backreference vec s = Inr t \<Longrightarrow> (\<exists>d. 2 \<le> d \<and> d \<le> 257 \<and> output_position t = output_position s + d)
     \<and> compressed_position t = compressed_position s + 2 \<and> d_mask t = d_mask s
     \<and> output_position t \<le> length (de_vec t)"
proof -
  show "decode_literal vec s = Inr t \<Longrightarrow> output_position t = output_position s + 1
     \<and> compressed_position t = compressed_position s + 1 \<and> d_mask t = d_mask s
     \<and> output_position t \<le> length (de_vec t)"
    by (auto simp: decode_literal_def rbind_pair_iff rbind_Inr_iff set_at_def dest!: take_compressed_byte_frame split: if_splits)
  assume a: "decode_backreference vec s = Inr t"
  then obtain h s1 e s2 b c v where t: "take_compressed_byte vec s = Inr (h, s1)"
    "take_compressed_byte vec s1 = Inr (e, s2)"
    "checked_add (output_position s2) (unat e + 2) = Some b" "\<not> length (de_vec s2) < b"
    "(if c \<le> output_position s2
      then copy_within (de_vec s2) (dictionary s2 h) c (output_position s2)
      else copy_forward (de_vec s2) (dictionary s2 h) (output_position s2) (unat e + 2)) = Inr v"
    "Inr (s2\<lparr>de_vec := v, output_position := b\<rparr>) = (Inr t :: xqdb_error + dstate)"
    unfolding decode_backreference_def Let_def rbind_pair_iff rbind_Inr_iff [of "ok_or _ _"]
      rbind_Inr_iff [of "if _ then copy_within _ _ _ _ else _"] if_Inl_Inr_iff ok_or_Inr_iff
    by (elim exE conjE) (rule that; assumption)
  have t': "t = s2\<lparr>de_vec := v, output_position := output_position s2 + (unat e + 2)\<rparr>"
    using t(3,6) by (simp add: checked_add_Some)
  have "unat e + 2 \<le> 257" using unat_byte_less [of e] by linarith
  moreover have "length (de_vec t) = length (de_vec s)" using decode_backreference_progress [OF a] by simp
  ultimately show "(\<exists>d. 2 \<le> d \<and> d \<le> 257 \<and> output_position t = output_position s + d)
     \<and> compressed_position t = compressed_position s + 2 \<and> d_mask t = d_mask s
     \<and> output_position t \<le> length (de_vec t)"
    using take_compressed_byte_frame [OF t(1)] take_compressed_byte_frame [OF t(2)] t(3,4) t'
    by (auto simp: checked_add_Some intro!: exI [of _ "unat e + 2"])
qed

lemma decompress_step_counts:
  assumes "decompress_step vec s = Inr t" "k \<le> 8" "d_mask s = push_bit k 1"
  shows "\<exists>din dout. (din = 1 \<and> dout = 1 \<or> din = 2 \<and> 2 \<le> dout \<and> dout \<le> 257)
    \<and> output_position t = output_position s + dout
    \<and> compressed_position t = compressed_position s + din + (if k = 8 then 1 else 0)
    \<and> d_mask t = push_bit (if k = 8 then 1 else Suc k) 1 \<and> output_position t \<le> length (de_vec t)"
proof -
  from assms obtain s1 s2 where s1: "load_flags vec s = Inr s1"
    and s2: "(if d_flags s1 AND d_mask s1 \<noteq> 0 then decode_backreference vec s1 else decode_literal vec s1) = Inr s2"
    and t: "update_dictionary (d_flags s1 AND d_mask s1 \<noteq> 0) (output_position s1) s2 = Inr t"
    unfolding decompress_step_def rbind_Inr_iff Let_def by blast
  have l: "output_position s1 = output_position s \<and> compressed_position s1 = compressed_position s + (if k = 8 then 1 else 0)
    \<and> d_mask s1 = push_bit (if k = 8 then 0 else k) 1"
    using s1 mask_zero_iff [OF assms(2)] assms(3)
    by (auto simp: load_flags_def rbind_pair_iff dest!: take_compressed_byte_frame split: if_splits)
  have u: "output_position t = output_position s2" "compressed_position t = compressed_position s2"
    "d_mask t = push_bit 1 (d_mask s2)" "de_vec t = de_vec s2"
    using t by (auto simp: update_dictionary_def rbind_Inr_iff)
  have m: "push_bit 1 (push_bit (if k = 8 then 0 else k) 1 :: byte) = push_bit (if k = 8 then 1 else Suc k) 1"
    by (simp add: push_bit_push_bit)
  show ?thesis
  proof (cases "d_flags s1 AND d_mask s1 \<noteq> 0")
    case True
    then show ?thesis using s2 decode_token_counts(2) [of vec s1 s2] l u m by force
  next
    case False
    then show ?thesis using s2 decode_token_counts(1) [of vec s1 s2] l u m
      by (intro exI [of _ 1]) auto
  qed
qed

lemma ratio_arith:
  fixes r r' c c' k din dout :: nat
  assumes "k \<le> 8" "din = 1 \<and> dout = 1 \<or> din = 2 \<and> 2 \<le> dout \<and> dout \<le> 257"
    and "r = r' + dout" "c = c' + din + (if k = 8 then 1 else 0)"
    and "r' \<le> 121 * c' + 15 * (8 - (if k = 8 then 1 else Suc k))"
  shows "r \<le> 121 * c + 15 * (8 - k)"
  using assms by (cases "k = 8") auto

lemma size_arith:
  fixes r r' c c' k din dout :: nat
  assumes "k \<le> 8" "din = 1 \<and> dout = 1 \<or> din = 2 \<and> 2 \<le> dout \<and> dout \<le> 257"
    and "r = r' + dout" "c = c' + din + (if k = 8 then 1 else 0)"
    and "c' \<le> r' + (r' - (8 - (if k = 8 then 1 else Suc k)) + 7) div 8"
  shows "c \<le> r + (r - (8 - k) + 7) div 8"
proof (cases "k = 8")
  case True
  have "(r' - 7 + 7) div 8 + 1 \<le> (r + 7) div 8" 
  proof (cases "r' \<le> 7")
    case True
    then have "1 \<le> (r + 7) div 8" using assms(2,3) by auto
    then show ?thesis using True by simp
  next
    case False
    have "(r' + 8) div 8 \<le> (r + 7) div 8" using assms(2,3) by (intro div_le_mono) auto
    then show ?thesis using False by simp
  qed
  then show ?thesis using True assms by auto
next
  case False
  have "(r' - (7 - k) + 7) div 8 \<le> (r - (8 - k) + 7) div 8"
    using assms(1,2,3) False by (intro div_le_mono) auto
  then show ?thesis using False assms by auto
qed

lemma decompress_loop_counts:
  assumes "decompress_loop vec s = Inr t" "k \<le> 8" "d_mask s = push_bit k 1" "output_position s \<le> length (de_vec s)"
  shows "output_position t = length (de_vec s) \<and> length (de_vec t) = length (de_vec s)
    \<and> compressed_position s \<le> compressed_position t
    \<and> length (de_vec s) - output_position s \<le> 121 * (compressed_position t - compressed_position s) + 15 * (8 - k)
    \<and> compressed_position t - compressed_position s \<le> (length (de_vec s) - output_position s)
        + (length (de_vec s) - output_position s - (8 - k) + 7) div 8"
  using assms
proof (induction vec s arbitrary: k rule: decompress_loop.induct)
  case (1 vec s)
  show ?case
  proof (cases "output_position s < length (de_vec s)")
    case False
    then show ?thesis using 1(2,5) by (auto simp: decompress_loop.simps [of vec s])
  next
    case True
    then obtain u where u: "decompress_step vec s = Inr u" "decompress_loop vec u = Inr t"
      using 1(2) by (auto simp: decompress_loop.simps [of vec s] rbind_Inr_iff)
    obtain din dout where d: "din = 1 \<and> dout = 1 \<or> din = 2 \<and> 2 \<le> dout \<and> dout \<le> 257"
      "output_position u = output_position s + dout"
      "compressed_position u = compressed_position s + din + (if k = 8 then 1 else 0)"
      "d_mask u = push_bit (if k = 8 then 1 else Suc k) 1" "output_position u \<le> length (de_vec u)"
      using decompress_step_counts [OF u(1) 1(3,4)] by blast
    have lu: "length (de_vec u) = length (de_vec s)" using decompress_step_progress [OF u(1)] by simp
    have IH: "output_position t = length (de_vec u) \<and> length (de_vec t) = length (de_vec u)
      \<and> compressed_position u \<le> compressed_position t
      \<and> length (de_vec u) - output_position u \<le> 121 * (compressed_position t - compressed_position u) + 15 * (8 - (if k = 8 then 1 else Suc k))
      \<and> compressed_position t - compressed_position u \<le> (length (de_vec u) - output_position u)
        + (length (de_vec u) - output_position u - (8 - (if k = 8 then 1 else Suc k)) + 7) div 8"
      using 1(1) [OF True u(1) u(2) _ d(4,5)] 1(3) by (auto split: if_splits)
    let ?r = "length (de_vec s) - output_position s" and ?r' = "length (de_vec u) - output_position u"
    let ?c = "compressed_position t - compressed_position s" and ?c' = "compressed_position t - compressed_position u"
    have "?r = ?r' + dout" "?c = ?c' + din + (if k = 8 then 1 else 0)"
      using d(2,3,5) lu IH by auto
    then show ?thesis
      using ratio_arith [OF 1(3) d(1), of ?r ?r' ?c ?c'] size_arith [OF 1(3) d(1), of ?r ?r' ?c ?c'] IH lu d(3) by simp
  qed
qed


text \<open>The two bounds the framing layer enforces before it allocates.\<close>

lemma decompress_bounds:
  assumes "decompress vec de p = Inr out"
  shows "length out = length de \<and> p \<le> length vec \<and> length out \<le> 121 * (length vec - p)
    \<and> length vec - p \<le> length out + (length out + 7) div 8"
proof -
  let ?d = "\<lparr>compressed_position = p, output_position = 0, hash_position = 0, d_flags = 0,
        d_mask = 0, dictionary = (\<lambda>_. INVALID_OFFSET), de_vec = de\<rparr>"
  from assms obtain t where t: "decompress_loop vec ?d = Inr t" "compressed_position t = length vec" "out = de_vec t"
    by (auto simp: decompress_def rbind_Inr_iff if_Inl_Inr_iff)
  have "d_mask ?d = push_bit 8 1" using mask_zero_iff [of 8] by simp
  from decompress_loop_counts [OF t(1) _ this] t(2,3) show ?thesis by auto
qed


section \<open>Hostile input\<close>

lemma take_compressed_byte_error: "take_compressed_byte vec s = Inl e \<Longrightarrow> e = DeserializationErr"
  by (auto simp: take_compressed_byte_def rbind_Inl_iff get_at_def checked_add_def split: if_splits)

lemma hash_pairs_error: "hash_pairs v a b d = Inl e \<Longrightarrow> e = DeserializationErr"
  unfolding hash_pairs_def
  by (drule rfold_Inl) (auto simp: rbind_Inl_iff get_range_def checked_add_def split: if_splits)

lemma copy_forward_total:
  assumes "s + n \<le> length v" "d + n \<le> length v"
  shows "\<exists>w. copy_forward v s d n = Inr w"
  using assms
proof (induction n)
  case 0
  then show ?case by (simp add: copy_forward_def)
next
  case (Suc n)
  then obtain w where "copy_forward v s d n = Inr w" by auto
  moreover from this have "length w = length v" by (rule copy_forward_length)
  ultimately show ?case using Suc.prems
    by (simp add: copy_forward_def rfold_append index_at_def get_at_def set_at_def)
qed

lemma decode_backreference_error: "decode_backreference vec s = Inl e \<Longrightarrow> e = DeserializationErr"
proof (rule ccontr)
  assume a: "decode_backreference vec s = Inl e" "e \<noteq> DeserializationErr"
  have pair: "rbind m (\<lambda>(x, p). f x p) = Inl e \<longleftrightarrow> m = Inl e \<or> (\<exists>x p. m = Inr (x, p) \<and> f x p = Inl e)"
    for m :: "('u \<times> 'v) xresult" and f :: "'u \<Rightarrow> 'v \<Rightarrow> 'w xresult" by (cases m) auto
  have okor: "rbind (ok_or m DeserializationErr) f = Inl e \<longleftrightarrow> (\<exists>x. m = Some x \<and> f x = Inl e)"
    for m :: "'u option" and f :: "'u \<Rightarrow> 'v xresult" using a(2) by (cases m) auto
  have iff: "(if c then Inl DeserializationErr else m) = Inl e \<longleftrightarrow> \<not> c \<and> m = Inl e" for c and m :: "'u xresult"
    using a(2) by auto
  from a obtain h b c and e' :: byte and s2 :: dstate where t:
    "checked_add (output_position s2) (unat e' + 2) = Some b" "\<not> length (de_vec s2) < b"
    "checked_add (dictionary s2 h) (unat e' + 2) = Some c" "\<not> length (de_vec s2) < c"
    "rbind (if c \<le> output_position s2
      then copy_within (de_vec s2) (dictionary s2 h) c (output_position s2)
      else copy_forward (de_vec s2) (dictionary s2 h) (output_position s2) (unat e' + 2))
      (\<lambda>v. Inr (s2\<lparr>de_vec := v, output_position := b\<rparr>)) = Inl e"
    unfolding decode_backreference_def Let_def pair okor iff
    by (elim disjE exE conjE) (blast dest: take_compressed_byte_error)+
  then show False
    using copy_forward_total [of "dictionary s2 h" "unat e' + 2" "de_vec s2" "output_position s2"]
    by (auto simp: rbind_Inl_iff checked_add_Some copy_within_def split: if_splits)
qed

lemma decode_literal_error:
  "decode_literal vec s = Inl e \<Longrightarrow> output_position s < length (de_vec s) \<Longrightarrow> e = DeserializationErr"
  by (auto simp: decode_literal_def rbind_Inl_iff set_at_def
      dest: take_compressed_byte_error take_compressed_byte_frame split: if_splits)

lemma decompress_step_error:
  assumes "decompress_step vec s = Inl e" "output_position s < length (de_vec s)"
  shows "e = DeserializationErr"
proof (cases "load_flags vec s")
  case (Inl e')
  then show ?thesis using assms
    by (auto simp: decompress_step_def load_flags_def rbind_Inl_iff dest: take_compressed_byte_error split: if_splits)
next
  case (Inr s1)
  then have s1: "de_vec s1 = de_vec s" "output_position s1 = output_position s"
    by (auto simp: load_flags_def rbind_pair_iff dest!: take_compressed_byte_frame split: if_splits)
  have "update_dictionary r i s2 = Inl e \<Longrightarrow> e = DeserializationErr" for r i s2
    by (auto simp: update_dictionary_def rbind_Inl_iff checked_add_def dest: hash_pairs_error split: if_splits)
  then show ?thesis using assms Inr s1 decode_literal_error [of vec s1 e] decode_backreference_error [of vec s1 e]
    by (auto simp: decompress_step_def Let_def rbind_Inl_iff split: if_splits)
qed

lemma decompress_loop_error: "decompress_loop vec s = Inl e \<Longrightarrow> e = DeserializationErr"
proof (induction vec s rule: decompress_loop.induct)
  case (1 vec s)
  then show ?case
    by (subst (asm) decompress_loop.simps)
      (auto simp: rbind_Inl_iff dest: decompress_step_error split: if_splits)
qed

lemma decompress_error: "decompress vec de p = Inl e \<Longrightarrow> e = DeserializationErr"
  by (auto simp: decompress_def decompressed_total_length_def rbind_Inl_iff checked_sub_def get_range_def
      dest: decompress_loop_error split: if_splits)

section \<open>Properties\<close>

text \<open>
  C2: the round trip of the compressor: on every message shorter than the address space \<open>compress\<close>
  returns without a panic, either the message itself, or a frame at most half as long that keeps the
  first two header bytes, carries its own length and the original length in the header fields of
  its compression mode, and decompresses to exactly the original body.
\<close>
theorem compress_decompress_round_trip:
  assumes "length vec < usize_limit"
  defines "p \<equiv> if length vec > 4294967295 then 8 else (4 :: nat)"
  shows "compress vec = Inr vec \<or> (\<exists>c. compress vec = Inr c \<and> 8 + p \<le> length c \<and> length c \<le> length vec div 2
    \<and> take 8 c = [vec ! 0, vec ! 1, (if length vec > 4294967295 then 2 else 1), of_nat (length c div 4294967296)]
        @ le_bytes 4 (length c)
    \<and> take p (drop 8 c) = le_bytes p (length vec)
    \<and> (\<forall>de. length de = length vec - 8 \<longrightarrow> decompress (drop 8 c) de p = Inr (drop 8 vec)))"
proof (cases "length vec < 2000")
  case True
  then show ?thesis by (simp add: compress_def)
next
  case False
  then show ?thesis using compress_large [of vec] assms(1) unfolding p_def by simp
qed

theorem compress_decompress_round_trip_witness:
  "let vec = replicate 2400 (7 :: byte) in
   compress vec = Inr vec \<or> (\<exists>c. compress vec = Inr c \<and> 12 \<le> length c \<and> length c \<le> 1200
    \<and> take 8 c = [7, 7, 1, of_nat (length c div 4294967296)] @ le_bytes 4 (length c)
    \<and> take 4 (drop 8 c) = le_bytes 4 2400
    \<and> (\<forall>de. length de = 2392 \<longrightarrow> decompress (drop 8 c) de 4 = Inr (replicate 2392 7)))"
  using compress_decompress_round_trip [of "replicate 2400 7"]
  by (simp add: Let_def del: le_bytes_numeral)

text \<open>
  C37: a payload that decompresses cannot expand by more than a factor of 121, and cannot be longer
  than its output plus one flag byte per eight output bytes. These are the bounds by which the
  framing layer refuses a declared length before it allocates.
\<close>
theorem decompress_size_bounds:
  assumes "decompress vec de p = Inr out"
  shows "length out = length de \<and> length out \<le> 121 * (length vec - p)
    \<and> length vec - p \<le> length out + (length out + 7) div 8"
  using decompress_bounds [OF assms] by blast

theorem decompress_size_bounds_witness:
  "decompress [10, 0, 0, 0, 0, 65, 66] [0, 0] 4 = Inr [65, 66]
   \<and> length [65 :: byte, 66] \<le> 121 * (7 - 4) \<and> 7 - 4 \<le> length [65 :: byte, 66] + (2 + 7) div 8"
proof -
  have "decompress [10, 0, 0, 0, 0, 65, 66] [0, 0] 4 = Inr [65, 66]"
    by (simp add: decompress_def decompressed_total_length_def get_range_def checked_sub_def decompress_loop.simps
        decompress_step_def load_flags_def take_compressed_byte_def get_at_def checked_add_def Let_def
        decode_literal_def set_at_def update_dictionary_def hash_pairs_def)
  from decompress_size_bounds [OF this] this show ?thesis by simp
qed

text \<open>
  C38: decompression of arbitrary, even hostile, bytes never panics: back references to unset or
  not yet written dictionary entries, runs past the end of the output, truncated and trailing
  bytes all end in the deserialization error.
\<close>
theorem decompress_never_panics:
  "(\<exists>out. decompress vec de p = Inr out) \<or> decompress vec de p = Inl DeserializationErr"
  using decompress_error by (cases "decompress vec de p") auto


end
