(* ===== verification/Frame.thy ===== *)
theory Frame
  imports QTypes CompressionCorrect
begin

text \<open>
  The framing layer of \<open>crates/xqdb/src/connector.rs\<close>: the eight-byte q IPC header with its 40-bit
  length, the bounds that are enforced before a body is allocated, and the step from a received
  body to the bytes of a value (\<open>prepare_ipc_body\<close>). Lengths are \<open>u64\<close>/\<open>usize\<close> values, read as
  natural numbers below \<open>2 ^ 64\<close>; allocation is taken to succeed.
\<close>

section \<open>Constants and lengths\<close>

definition IPC_HEADER_LENGTH :: nat where "IPC_HEADER_LENGTH = 8"
definition MIN_SERIALIZED_VALUE_LENGTH :: nat where "MIN_SERIALIZED_VALUE_LENGTH = 2"
definition MAX_IPC_LENGTH_FIELD :: nat where "MAX_IPC_LENGTH_FIELD = 1099511627775"
definition MAX_IPC_DECOMPRESSION_RATIO :: nat where "MAX_IPC_DECOMPRESSION_RATIO = 121"

lemmas frame_consts = IPC_HEADER_LENGTH_def MIN_SERIALIZED_VALUE_LENGTH_def
  MAX_IPC_LENGTH_FIELD_def MAX_IPC_DECOMPRESSION_RATIO_def

text \<open>The high byte at index 3 and the little-endian \<open>u32\<close> at index 4..8.\<close>

definition ipc_length_header :: "nat \<Rightarrow> (byte \<times> nat) xresult" where
  "ipc_length_header total_length =
     (if total_length > MAX_IPC_LENGTH_FIELD then Inl Err
      else Inr (of_nat (total_length div 4294967296), total_length mod 4294967296))"

definition checked_outgoing_message_length :: "nat \<Rightarrow> (nat \<times> byte \<times> nat) xresult" where
  "checked_outgoing_message_length body_length =
     rbind (ok_or (checked_add body_length IPC_HEADER_LENGTH) Err) (\<lambda>total_length.
     rbind (ipc_length_header total_length) (\<lambda>(high_byte, low_length).
     Inr (total_length, high_byte, low_length)))"

definition checked_body_length :: "nat \<Rightarrow> nat xresult" where
  "checked_body_length total_length =
     (if total_length \<ge> usize_limit then Inl Err
      else rbind (ok_or (checked_sub total_length IPC_HEADER_LENGTH) Err) (\<lambda>body_length.
        if body_length < MIN_SERIALIZED_VALUE_LENGTH then Inl Err else Inr body_length))"

definition checked_decompressed_body_length :: "nat \<Rightarrow> nat \<Rightarrow> nat xresult" where
  "checked_decompressed_body_length declared_total_length compressed_payload_length =
     rbind (checked_body_length declared_total_length) (\<lambda>body_length.
     let maximum_body_length = saturating_mul compressed_payload_length MAX_IPC_DECOMPRESSION_RATIO in
     if body_length > maximum_body_length then Inl DeserializationErr else Inr body_length)"

definition compressed_message_length :: "bytes \<Rightarrow> byte \<Rightarrow> (nat \<times> nat) xresult" where
  "compressed_message_length body mode =
     (if mode = 1 then rbind (ok_or (get_range body 0 4) Err) (\<lambda>prefix. Inr (le_nat prefix, 4))
      else if mode = 2 then rbind (ok_or (get_range body 0 8) Err) (\<lambda>prefix. Inr (le_nat prefix, 8))
      else Inl Err)"

section \<open>The header\<close>

record parsed_ipc_header =
  message_kind :: byte
  compression_mode :: byte
  total_length :: nat

definition message_type :: "byte \<Rightarrow> msg_type xresult" where
  "message_type kind =
     (if kind = 0 then Inr Async else if kind = 1 then Inr Sync else if kind = 2 then Inr Response
      else Inl DeserializationErr)"

definition parse_ipc_header :: "bytes \<Rightarrow> parsed_ipc_header xresult" where
  "parse_ipc_header header =
     (if length header \<noteq> IPC_HEADER_LENGTH then Inl DeserializationErr
      else rbind
        (if header ! 0 = 1 then Inr () else if header ! 0 = 0 then Inl NotSupportedBigEndianErr
         else Inl DeserializationErr) (\<lambda>_.
      rbind (message_type (header ! 1)) (\<lambda>_.
      if header ! 2 > 2 then Inl DeserializationErr
      else
        let low_length = le_nat (take 4 (drop 4 header));
            high_length = unat (header ! 3) * 4294967296 in
        rbind (ok_or (checked_add high_length low_length) DeserializationErr) (\<lambda>total_len.
        rbind (checked_body_length total_len) (\<lambda>_.
        Inr \<lparr>message_kind = header ! 1, compression_mode = header ! 2, total_length = total_len\<rparr>)))))"

definition enforce_message_bound :: "nat \<Rightarrow> nat option \<Rightarrow> unit xresult" where
  "enforce_message_bound total_len maximum =
     (case maximum of
        Some m \<Rightarrow> if total_len > m then Inl Err else Inr ()
      | None \<Rightarrow> Inr ())"

definition enforce_compressed_physical_bound :: "nat \<Rightarrow> nat \<Rightarrow> nat \<Rightarrow> unit xresult" where
  "enforce_compressed_physical_bound physical_total_length logical_total_length prefix_length =
     rbind (checked_body_length logical_total_length) (\<lambda>decoded_body_length.
     rbind (ok_or (checked_add decoded_body_length 7) DeserializationErr) (\<lambda>f.
     let flag_bytes = f div 8 in
     rbind (ok_or (Option.bind (checked_add IPC_HEADER_LENGTH prefix_length) (\<lambda>l.
                   Option.bind (checked_add l decoded_body_length) (\<lambda>l.
                   checked_add l flag_bytes))) DeserializationErr) (\<lambda>maximum_total_length.
     if physical_total_length > maximum_total_length then Inl DeserializationErr else Inr ())))"

section \<open>From a framed body to value bytes\<close>

definition decompress_ipc_body :: "parsed_ipc_header \<Rightarrow> bytes \<Rightarrow> nat option \<Rightarrow> bytes xresult" where
  "decompress_ipc_body header body max_message_bytes =
     rbind (compressed_message_length body (compression_mode header)) (\<lambda>(decompressed_length, prefix_length).
     rbind (enforce_message_bound decompressed_length max_message_bytes) (\<lambda>_.
     rbind (enforce_compressed_physical_bound (total_length header) decompressed_length prefix_length) (\<lambda>_.
     rbind (checked_decompressed_body_length decompressed_length (length body - prefix_length)) (\<lambda>n.
     decompress body (replicate n 0) prefix_length))))"

definition prepare_ipc_body ::
  "parsed_ipc_header \<Rightarrow> bytes \<Rightarrow> nat option \<Rightarrow> (msg_type \<times> bytes) xresult" where
  "prepare_ipc_body header body max_message_bytes =
     rbind (checked_body_length (total_length header)) (\<lambda>expected_body_length.
     if length body \<noteq> expected_body_length then Inl DeserializationErr
     else rbind
       (if compression_mode header = 0
        then rbind (enforce_message_bound (total_length header) max_message_bytes) (\<lambda>_. Inr body)
        else decompress_ipc_body header body max_message_bytes) (\<lambda>body.
     rbind (message_type (message_kind header)) (\<lambda>kind. Inr (kind, body))))"

text \<open>The framing part of \<open>deserialize_ipc_frame\<close>: everything before the value is decoded.\<close>

definition split_ipc_frame :: "bytes \<Rightarrow> (msg_type \<times> bytes) xresult" where
  "split_ipc_frame frame =
     rbind (ok_or (get_range frame 0 IPC_HEADER_LENGTH) DeserializationErr) (\<lambda>header_bytes.
     rbind (parse_ipc_header header_bytes) (\<lambda>header.
     if total_length header \<ge> usize_limit then Inl DeserializationErr
     else if length frame \<noteq> total_length header then Inl DeserializationErr
     else prepare_ipc_body header (drop IPC_HEADER_LENGTH frame) None))"

section \<open>The header round trip\<close>

text \<open>The header bytes as \<open>send\<close> writes them.\<close>

definition ipc_header :: "msg_type \<Rightarrow> byte \<times> nat \<Rightarrow> bytes" where
  "ipc_header kind hl = [1, msg_type_code kind, 0, fst hl] @ le_bytes 4 (snd hl)"

lemma ipc_length_header_Inr:
  "ipc_length_header n = Inr hl \<longleftrightarrow> n < 1099511627776 \<and> hl = (of_nat (n div 4294967296), n mod 4294967296)"
  by (auto simp: ipc_length_header_def frame_consts)

lemma checked_body_length_Inr:
  "checked_body_length n = Inr b \<longleftrightarrow> n < usize_limit \<and> n = b + 8 \<and> 2 \<le> b"
  by (auto simp: checked_body_length_def frame_consts result_simps usize_simps split: if_splits)

lemma message_type_code [simp]: "message_type (msg_type_code kind) = Inr kind"
  by (cases kind) (simp_all add: message_type_def)

lemma message_type_Inr: "message_type b = Inr kind \<longleftrightarrow> b = msg_type_code kind"
  by (cases kind) (auto simp: message_type_def split: if_splits)

lemma length_of_header_parts:
  assumes "n < 1099511627776"
  shows "unat (of_nat (n div 4294967296) :: byte) * 4294967296 + n mod 4294967296 = n"
proof -
  have "n div 4294967296 < 256" using assms by (simp add: less_mult_imp_div_less)
  then show ?thesis by simp
qed

lemma header_length_less: "unat (bs ! 3) * 4294967296 + le_nat (take 4 (drop 4 bs)) < 1099511627776"
proof -
  have "unat (bs ! 3) \<le> 255" using unat_byte_less [of "bs ! 3"] by linarith
  moreover have "le_nat (take 4 (drop 4 bs)) < 4294967296"
  proof -
    have "le_nat (take 4 (drop 4 bs)) < 256 ^ length (take 4 (drop 4 bs))" by (rule le_nat_less)
    also have "\<dots> \<le> (256 :: nat) ^ 4" by (intro power_increasing) auto
    finally show ?thesis by simp
  qed
  ultimately show ?thesis by linarith
qed

lemma parse_ipc_header_Inr:
  "parse_ipc_header bs = Inr h \<longleftrightarrow> length bs = 8 \<and> bs ! 0 = 1 \<and> bs ! 2 \<le> 2
     \<and> (\<exists>kind. bs ! 1 = msg_type_code kind)
     \<and> 10 \<le> unat (bs ! 3) * 4294967296 + le_nat (take 4 (drop 4 bs))
     \<and> h = \<lparr>message_kind = bs ! 1, compression_mode = bs ! 2,
            total_length = unat (bs ! 3) * 4294967296 + le_nat (take 4 (drop 4 bs))\<rparr>"
proof -
  let ?n = "unat (bs ! 3) * 4294967296 + le_nat (take 4 (drop 4 bs))"
  note header_length_less [of bs]
  then have "checked_add (unat (bs ! 3) * 4294967296) (le_nat (take 4 (drop 4 bs))) = Some ?n"
    "(\<exists>b. checked_body_length ?n = Inr b) \<longleftrightarrow> 10 \<le> ?n"
    by (auto simp: checked_add_def checked_body_length_Inr intro: exI [of _ "?n - 8"])
  then show ?thesis
    by (auto simp: parse_ipc_header_def IPC_HEADER_LENGTH_def Let_def rbind_Inr_iff message_type_Inr
        if_Inl_Inr_iff if_Inr_Inl_iff not_less split: if_splits)
qed

text \<open>A complete uncompressed frame, and its first two and last length bytes.\<close>

definition ipc_frame :: "msg_type \<Rightarrow> bytes \<Rightarrow> bytes" where
  "ipc_frame kind body =
     [1, msg_type_code kind, 0, of_nat ((length body + 8) div 4294967296)]
     @ le_bytes 4 (length body + 8) @ body"

lemma le_bytes_4_mod: "le_bytes 4 (n mod 4294967296) = le_bytes 4 n"
proof -
  have "le_nat (le_bytes 4 (n mod 4294967296)) = le_nat (le_bytes 4 n)"
    by (simp add: le_nat_le_bytes del: le_bytes_numeral)
  then show ?thesis by (metis le_bytes_le_nat length_le_bytes)
qed

lemma parse_length_header:
  assumes "n < 1099511627776" "10 \<le> n" "m \<le> 2"
  shows "parse_ipc_header ([1, msg_type_code kind, m, of_nat (n div 4294967296)] @ le_bytes 4 n)
    = Inr \<lparr>message_kind = msg_type_code kind, compression_mode = m, total_length = n\<rparr>"
proof -
  have "le_nat (le_bytes 4 n) = n mod 4294967296" by (simp add: le_nat_le_bytes del: le_bytes_numeral)
  then show ?thesis
    using assms length_of_header_parts [OF assms(1)]
    by (subst parse_ipc_header_Inr) (auto simp del: le_bytes_numeral unat_of_nat_byte)
qed

lemma split_plain_frame:
  assumes "2 \<le> length body" "length body + 8 < 1099511627776"
  shows "split_ipc_frame (ipc_frame kind body) = Inr (kind, body)"
proof -
  let ?h = "[1, msg_type_code kind, 0, of_nat ((length body + 8) div 4294967296)] @ le_bytes 4 (length body + 8)"
  have "get_range (ipc_frame kind body) 0 8 = Some ?h" "drop 8 (ipc_frame kind body) = body"
    "length (ipc_frame kind body) = length body + 8"
    by (simp_all add: ipc_frame_def get_range_def del: le_bytes_numeral)
  moreover have "checked_body_length (length body + 8) = Inr (length body)"
    using assms by (simp add: checked_body_length_Inr)
  moreover have "parse_ipc_header ?h = Inr \<lparr>message_kind = msg_type_code kind, compression_mode = 0,
      total_length = length body + 8\<rparr>"
    using assms by (intro parse_length_header) auto
  ultimately show ?thesis
    using assms by (simp add: split_ipc_frame_def IPC_HEADER_LENGTH_def prepare_ipc_body_def
        enforce_message_bound_def del: le_bytes_numeral append_Cons append.simps)
qed

section \<open>The compression contract\<close>

text \<open>
  What the framing layer needs from the compression: the two size bounds of a successful
  decompression. Both admission checks then accept every body that can be decompressed.
\<close>

locale body_codec =
  fixes unpack :: "bytes \<Rightarrow> bytes \<Rightarrow> nat \<Rightarrow> bytes xresult"
  assumes unpack_length: "unpack vec de p = Inr out \<Longrightarrow> length out = length de \<and> p \<le> length vec"
    and unpack_ratio: "unpack vec de p = Inr out \<Longrightarrow> length out \<le> 121 * (length vec - p)"
    and unpack_size: "unpack vec de p = Inr out \<Longrightarrow> length vec - p \<le> length out + (length out + 7) div 8"
begin

lemma physical_bound_accepts:
  assumes "unpack vec de p = Inr out" "2 \<le> length out" "2 * length out + 32 < usize_limit" "p \<le> 8"
  shows "enforce_compressed_physical_bound (length vec + 8) (length out + 8) p = Inr ()"
proof -
  have "length vec \<le> p + length out + (length out + 7) div 8"
    using unpack_size [OF assms(1)] unpack_length [OF assms(1)] by linarith
  moreover have "checked_body_length (length out + 8) = Inr (length out)"
    using assms by (simp add: checked_body_length_Inr)
  moreover have "(length out + 7) div 8 \<le> length out + 7" by simp
  ultimately show ?thesis
    using assms(3,4)
    by (simp add: enforce_compressed_physical_bound_def checked_add_def IPC_HEADER_LENGTH_def Let_def)
qed

lemma ratio_accepts:
  assumes "unpack vec de p = Inr out" "2 \<le> length out" "length out + 8 < usize_limit"
  shows "checked_decompressed_body_length (length out + 8) (length vec - p) = Inr (length out)"
  using unpack_ratio [OF assms(1)] assms(2,3)
  by (auto simp: checked_decompressed_body_length_def rbind_Inr_iff checked_body_length_Inr
      saturating_mul_def MAX_IPC_DECOMPRESSION_RATIO_def mult.commute)

end

interpretation ipc_codec: body_codec decompress
  by unfold_locales (auto dest: decompress_bounds)

lemma decompress_ipc_body_accepts:
  assumes "compressed_message_length body (compression_mode h) = Inr (n, p)" "p \<le> 8"
    and "decompress body (replicate (n - 8) 0) p = Inr out" "10 \<le> n" "2 * n + 32 < usize_limit"
    and "total_length h = length body + 8" "\<forall>m. limit = Some m \<longrightarrow> n \<le> m"
  shows "decompress_ipc_body h body limit = Inr out"
proof -
  have out: "length out = n - 8" using ipc_codec.unpack_length [OF assms(3)] by simp
  then have "enforce_compressed_physical_bound (total_length h) n p = Inr ()"
    using ipc_codec.physical_bound_accepts [OF assms(3) _ _ assms(2)] assms(4,5,6) by simp
  moreover have "checked_decompressed_body_length n (length body - p) = Inr (n - 8)"
    using ipc_codec.ratio_accepts [OF assms(3)] assms(4,5) out by simp
  moreover have "enforce_message_bound n limit = Inr ()"
    using assms(7) by (auto simp: enforce_message_bound_def split: option.splits)
  ultimately show ?thesis using assms(1,3) by (simp add: decompress_ipc_body_def)
qed

lemma split_compressed_frame:
  assumes body: "2 \<le> length body" "length body + 8 < 1099511627776"
    and c: "compress (ipc_frame kind body) = Inr c"
  shows "split_ipc_frame c = Inr (kind, body)"
proof (cases "c = ipc_frame kind body")
  case True
  then show ?thesis using split_plain_frame [OF body] by simp
next
  case False
  let ?vec = "ipc_frame kind body"
  have lv: "length ?vec = length body + 8" "?vec ! 0 = 1" "?vec ! 1 = msg_type_code kind" "drop 8 ?vec = body"
    by (simp_all add: ipc_frame_def del: le_bytes_numeral)
  define p where "p = (if length ?vec > 4294967295 then 8 else (4 :: nat))"
  define m where "m = (if length ?vec > 4294967295 then 2 else (1 :: byte))"
  have big: "2000 \<le> length ?vec"
    using c False by (auto simp: compress_def split: if_splits)
  have h: "8 + p \<le> length c" "length c \<le> length ?vec div 2"
    "take 8 c = [1, msg_type_code kind, m, of_nat (length c div 4294967296)] @ le_bytes 4 (length c)"
    "take p (drop 8 c) = le_bytes p (length ?vec)"
    "\<forall>de. length de = length ?vec - 8 \<longrightarrow> decompress (drop 8 c) de p = Inr body"
    using compress_large [OF big] c False lv body unfolding p_def m_def by auto
  have pm: "p \<le> 8" "m \<noteq> 0" "m \<le> 2" "4 \<le> p" by (auto simp: p_def m_def word_le_def)
  have n: "length c < 1099511627776" "10 \<le> length c" using h(1,2) lv body pm(4) by auto
  have hdr: "parse_ipc_header (take 8 c) = Inr \<lparr>message_kind = msg_type_code kind, compression_mode = m, total_length = length c\<rparr>"
    unfolding h(3) by (rule parse_length_header [OF n pm(3)])
  have "compressed_message_length (drop 8 c) m = Inr (length ?vec, p)"
    using h(1,4) lv body
    by (cases "4294967295 < length ?vec")
      (auto simp: compressed_message_length_def get_range_def p_def m_def le_nat_le_bytes simp del: le_bytes_numeral)
  then have "decompress_ipc_body \<lparr>message_kind = msg_type_code kind, compression_mode = m, total_length = length c\<rparr> (drop 8 c) None = Inr body"
    using h(1,5) lv body by (intro decompress_ipc_body_accepts [OF _ pm(1)]) auto
  moreover have "checked_body_length (length c) = Inr (length c - 8)"
    using n by (simp add: checked_body_length_Inr)
  moreover have "get_range c 0 8 = Some (take 8 c)" using n by (simp add: get_range_def)
  ultimately show ?thesis
    using hdr n pm by (simp add: split_ipc_frame_def IPC_HEADER_LENGTH_def prepare_ipc_body_def)
qed

section \<open>Bounds on accepted bodies\<close>

lemma compressed_message_length_Inr:
  "compressed_message_length body m = Inr (n, p) \<Longrightarrow> p \<le> length body \<and> p \<le> 8"
  by (auto simp: compressed_message_length_def get_range_def split: if_splits)

lemma prepare_ipc_body_bounds:
  assumes "prepare_ipc_body h body limit = Inr (kind, out)"
  shows "(\<forall>m. limit = Some m \<longrightarrow> length out + 8 \<le> m) \<and> length out \<le> 121 * length body
    \<and> length body + 8 = total_length h \<and> message_kind h = msg_type_code kind"
proof -
  from assms have b: "length body + 8 = total_length h" "message_kind h = msg_type_code kind"
    and r: "(if compression_mode h = 0
        then rbind (enforce_message_bound (total_length h) limit) (\<lambda>_. Inr body)
        else decompress_ipc_body h body limit) = Inr out"
    by (auto simp: prepare_ipc_body_def rbind_Inr_iff if_Inl_Inr_iff checked_body_length_Inr message_type_Inr)
  have lim: "enforce_message_bound n limit = Inr () \<longleftrightarrow> (\<forall>m. limit = Some m \<longrightarrow> n \<le> m)" for n
    by (auto simp: enforce_message_bound_def not_less split: option.splits if_splits)
  show ?thesis
  proof (cases "compression_mode h = 0")
    case True
    then show ?thesis using r b lim by (auto simp: rbind_Inr_iff)
  next
    case False
    then obtain n p where p: "enforce_message_bound n limit = Inr ()" "decompress body (replicate (n - 8) 0) p = Inr out"
      "10 \<le> n"
      using r by (auto simp: decompress_ipc_body_def rbind_Inr_iff rbind_pair_iff checked_decompressed_body_length_def
          checked_body_length_Inr Let_def if_Inl_Inr_iff)
    have "length out = n - 8" "length out \<le> 121 * (length body - p)"
      using decompress_bounds [OF p(2)] by auto
    moreover have "121 * (length body - p) \<le> 121 * length body" by simp
    ultimately show ?thesis using p lim b by auto
  qed
qed

lemma split_ipc_frame_errors:
  "split_ipc_frame f = Inl e \<Longrightarrow> e \<in> {Err, DeserializationErr, NotSupportedBigEndianErr}"
proof -
  have cb: "checked_body_length n = Inl e \<Longrightarrow> e = Err" for n
    by (auto simp: checked_body_length_def rbind_Inl_iff checked_sub_def split: if_splits)
  have cm: "compressed_message_length b m = Inl e \<Longrightarrow> e = Err" for b m
    by (auto simp: compressed_message_length_def rbind_Inl_iff get_range_def split: if_splits)
  have ep: "enforce_compressed_physical_bound a b c = Inl e \<Longrightarrow> e \<in> {Err, DeserializationErr}" for a b c
    by (auto simp: enforce_compressed_physical_bound_def rbind_Inl_iff checked_add_def Let_def dest: cb split: if_splits)
  have cd: "checked_decompressed_body_length a b = Inl e \<Longrightarrow> e \<in> {Err, DeserializationErr}" for a b
    by (auto simp: checked_decompressed_body_length_def rbind_Inl_iff Let_def dest: cb split: if_splits)
  have mt: "message_type k = Inl e \<Longrightarrow> e = DeserializationErr" for k
    by (auto simp: message_type_def split: if_splits)
  have em: "enforce_message_bound a b = Inl e \<Longrightarrow> e = Err" for a b
    by (auto simp: enforce_message_bound_def split: option.splits if_splits)
  have db: "decompress_ipc_body h b l = Inl e \<Longrightarrow> e \<in> {Err, DeserializationErr}" for h b l
    by (auto simp: decompress_ipc_body_def rbind_Inl_iff dest: cm em ep cd decompress_error)
  have pb: "prepare_ipc_body h b l = Inl e \<Longrightarrow> e \<in> {Err, DeserializationErr}" for h b l
    by (auto simp: prepare_ipc_body_def rbind_Inl_iff dest: cb db em mt split: if_splits)
  have ph: "parse_ipc_header b = Inl e \<Longrightarrow> e \<in> {Err, DeserializationErr, NotSupportedBigEndianErr}" for b
    by (auto simp: parse_ipc_header_def rbind_Inl_iff checked_add_def Let_def dest: cb mt split: if_splits)
  show "split_ipc_frame f = Inl e \<Longrightarrow> e \<in> {Err, DeserializationErr, NotSupportedBigEndianErr}"
    using pb ph by (auto simp: split_ipc_frame_def rbind_Inl_iff get_range_def split: if_splits)
qed

section \<open>Properties\<close>

text \<open>
  C3: framing round trip: a body of at least two bytes that fits the 40-bit length field, framed
  with the header the client writes and then passed through \<open>compress\<close>, is split by the receiver
  into the same message type and the same body, whether the compressor kept the frame or not; all
  the length, limit and expansion checks on the way accept it.
\<close>
theorem frame_round_trip:
  assumes "2 \<le> length body" "length body + 8 < 1099511627776"
  shows "split_ipc_frame (ipc_frame kind body) = Inr (kind, body)
    \<and> (\<exists>c. compress (ipc_frame kind body) = Inr c \<and> split_ipc_frame c = Inr (kind, body))"
proof -
  have len: "length (ipc_frame kind body) = length body + 8" by (simp add: ipc_frame_def del: le_bytes_numeral)
  obtain c where "compress (ipc_frame kind body) = Inr c"
    using compress_large [of "ipc_frame kind body"] assms len
    by (cases "length body + 8 < 2000") (auto simp: compress_def)
  then show ?thesis using split_plain_frame [OF assms] split_compressed_frame [OF assms] by blast
qed

theorem frame_round_trip_witness:
  "split_ipc_frame (ipc_frame Sync [101, 0]) = Inr (Sync, [101, 0])
    \<and> (\<exists>c. compress (ipc_frame Sync [101, 0]) = Inr c \<and> split_ipc_frame c = Inr (Sync, [101, 0]))"
  by (rule frame_round_trip) simp_all

text \<open>
  A header is accepted exactly when it has eight bytes, the little-endian marker, one of the three
  message types, a compression mode up to 2 and a declared length of at least ten bytes, and the
  parsed fields are the header's.
\<close>
theorem header_accepted_exactly:
  "parse_ipc_header bs = Inr h \<longleftrightarrow> length bs = 8 \<and> bs ! 0 = 1 \<and> bs ! 2 \<le> 2
     \<and> (\<exists>kind. bs ! 1 = msg_type_code kind)
     \<and> 10 \<le> unat (bs ! 3) * 4294967296 + le_nat (take 4 (drop 4 bs))
     \<and> h = \<lparr>message_kind = bs ! 1, compression_mode = bs ! 2,
            total_length = unat (bs ! 3) * 4294967296 + le_nat (take 4 (drop 4 bs))\<rparr>"
  by (rule parse_ipc_header_Inr)

text \<open>
  C39: no accepted frame exceeds the configured maximum: the uncompressed body with its header is
  within the limit and within 121 times the received body, whatever lengths the frame declares.
\<close>
theorem accepted_body_within_limits:
  assumes "prepare_ipc_body h body (Some limit) = Inr (kind, out)"
  shows "length out + 8 \<le> limit \<and> length out \<le> 121 * length body \<and> length body + 8 = total_length h"
  using prepare_ipc_body_bounds [OF assms] by simp

theorem accepted_body_within_limits_witness:
  "prepare_ipc_body \<lparr>message_kind = 2, compression_mode = 0, total_length = 10\<rparr> [101, 0] (Some 10) = Inr (Response, [101, 0])
   \<and> length [101 :: byte, 0] + 8 \<le> 10"
proof -
  have "prepare_ipc_body \<lparr>message_kind = 2, compression_mode = 0, total_length = 10\<rparr> [101, 0] (Some 10) = Inr (Response, [101, 0])"
    by (simp add: prepare_ipc_body_def checked_body_length_def checked_sub_def frame_consts
        enforce_message_bound_def message_type_def)
  from accepted_body_within_limits [OF this] this show ?thesis by blast
qed

text \<open>
  The two admission checks on a compressed body refuse nothing that can be decompressed: if the
  decompressor accepts the body at its declared length, so does the whole path with its checks.
\<close>
theorem admission_checks_are_complete:
  assumes "compressed_message_length body (compression_mode h) = Inr (n, p)"
    and "decompress body (replicate (n - 8) 0) p = Inr out" "10 \<le> n" "2 * n + 32 < usize_limit"
    and "total_length h = length body + 8"
  shows "decompress_ipc_body h body None = Inr out"
  using decompress_ipc_body_accepts [OF assms(1) _ assms(2-5)] compressed_message_length_Inr [OF assms(1)] by simp

theorem admission_checks_are_complete_witness:
  "decompress_ipc_body \<lparr>message_kind = 2, compression_mode = 1, total_length = 15\<rparr> [10, 0, 0, 0, 0, 65, 66] None
    = Inr [65, 66]"
proof (rule admission_checks_are_complete)
  show "compressed_message_length [10, 0, 0, 0, 0, 65, 66]
      (compression_mode \<lparr>message_kind = 2, compression_mode = 1, total_length = 15\<rparr>) = Inr (10, 4)"
    by (simp add: compressed_message_length_def get_range_def)
  have "replicate (10 - 8) (0 :: byte) = [0, 0]" by (simp add: numeral_2_eq_2)
  then show "decompress [10, 0, 0, 0, 0, 65, 66] (replicate (10 - 8) 0) 4 = Inr [65, 66]"
    by (simp add: decompress_def decompressed_total_length_def get_range_def checked_sub_def decompress_loop.simps
        decompress_step_def load_flags_def take_compressed_byte_def get_at_def checked_add_def Let_def
        decode_literal_def set_at_def update_dictionary_def hash_pairs_def)
qed simp_all

text \<open>
  Splitting an arbitrary frame never panics: it gives a message type and a body, or one of the
  three protocol errors.
\<close>
theorem split_frame_never_panics:
  "(\<exists>kind body. split_ipc_frame f = Inr (kind, body))
   \<or> (\<exists>e\<in>{Err, DeserializationErr, NotSupportedBigEndianErr}. split_ipc_frame f = Inl e)"
  using split_ipc_frame_errors [of f] by (cases "split_ipc_frame f") auto

end
