(* ===== verification/Abort.thy ===== *)
theory Abort
  imports Errors
begin

text \<open>
  The abort handle of \<open>crates/xqdb/src/connector.rs\<close>: a handle shared between the thread that runs a
  connector operation and the threads that may abort it. Every method locks the state for its whole
  effect, so an execution is an interleaving of the methods as atomic steps. Sockets are numbered;
  the shutdown calls are recorded in the order they are made, and the operating system's answer to a
  shutdown is a parameter (\<open>None\<close> is success).
\<close>

type_synonym socket = nat

record abort_operation =
  op_id :: "64 word"
  op_stream :: "socket option"

record abort_state =
  active_operation :: "abort_operation option"
  next_operation_id :: "64 word"

record abort_world =
  handle :: abort_state
  shut :: "socket list"

definition default_abort_state :: abort_state where
  "default_abort_state = \<lparr>active_operation = None, next_operation_id = 0\<rparr>"

definition begin_operation :: "abort_world \<Rightarrow> 64 word \<times> abort_world" where
  "begin_operation w =
     (let st = handle w; i = next_operation_id st in
      (i, w\<lparr>handle := \<lparr>active_operation = Some \<lparr>op_id = i, op_stream = None\<rparr>,
                       next_operation_id = i + 1\<rparr>\<rparr>))"

definition attach_stream :: "64 word \<Rightarrow> socket \<Rightarrow> abort_world \<Rightarrow> bool \<times> abort_world" where
  "attach_stream i stream w =
     (case active_operation (handle w) of
        Some operation \<Rightarrow>
          if op_id operation = i
          then (True, w\<lparr>handle := (handle w)\<lparr>active_operation := Some (operation\<lparr>op_stream := Some stream\<rparr>)\<rparr>\<rparr>)
          else (False, w\<lparr>shut := shut w @ [stream]\<rparr>)
      | None \<Rightarrow> (False, w\<lparr>shut := shut w @ [stream]\<rparr>))"

text \<open>\<open>finish\<close> returns whether the operation was aborted.\<close>

definition finish :: "64 word \<Rightarrow> abort_world \<Rightarrow> bool \<times> abort_world" where
  "finish i w =
     (case active_operation (handle w) of
        Some operation \<Rightarrow>
          if op_id operation = i then (False, w\<lparr>handle := (handle w)\<lparr>active_operation := None\<rparr>\<rparr>)
          else (True, w)
      | None \<Rightarrow> (True, w))"

definition drop_guard :: "64 word \<Rightarrow> abort_world \<Rightarrow> abort_world" where
  "drop_guard i w =
     (case active_operation (handle w) of
        Some operation \<Rightarrow>
          if op_id operation = i then w\<lparr>handle := (handle w)\<lparr>active_operation := None\<rparr>\<rparr> else w
      | None \<Rightarrow> w)"

definition handle_abort :: "(socket \<Rightarrow> io_kind option) \<Rightarrow> abort_world \<Rightarrow> unit xresult \<times> abort_world" where
  "handle_abort shutdown w =
     (let w' = w\<lparr>handle := (handle w)\<lparr>active_operation := None\<rparr>\<rparr> in
      case Option.bind (active_operation (handle w)) op_stream of
        Some stream \<Rightarrow>
          ((case shutdown stream of
              None \<Rightarrow> Inr ()
            | Some NotConnected \<Rightarrow> Inr ()
            | Some e \<Rightarrow> Inl (IOError e)), w'\<lparr>shut := shut w @ [stream]\<rparr>)
      | None \<Rightarrow> (Inr (), w'))"

section \<open>Interleavings\<close>

text \<open>
  The steps that can interleave with an operation: aborts and attachments from any thread, and the
  guards of earlier operations being finished or dropped. A new operation cannot begin before the
  current one ends, because the connector that begins operations is borrowed mutably.
\<close>

datatype abort_event =
    EAttach "64 word" socket
  | EFinish "64 word"
  | EDrop "64 word"
  | EAbort

fun abort_step :: "(socket \<Rightarrow> io_kind option) \<Rightarrow> abort_event \<Rightarrow> abort_world \<Rightarrow> abort_world" where
  "abort_step sd (EAttach i s) w = snd (attach_stream i s w)"
| "abort_step sd (EFinish i) w = snd (finish i w)"
| "abort_step sd (EDrop i) w = drop_guard i w"
| "abort_step sd EAbort w = snd (handle_abort sd w)"

definition abort_run :: "(socket \<Rightarrow> io_kind option) \<Rightarrow> abort_event list \<Rightarrow> abort_world \<Rightarrow> abort_world" where
  "abort_run sd es w = fold (abort_step sd) es w"

text \<open>The events of a run that belong to operation \<open>i\<close> itself.\<close>

fun ends_op :: "64 word \<Rightarrow> abort_event \<Rightarrow> bool" where
  "ends_op i (EFinish j) \<longleftrightarrow> i = j"
| "ends_op i (EDrop j) \<longleftrightarrow> i = j"
| "ends_op i _ \<longleftrightarrow> False"

definition is_active :: "64 word \<Rightarrow> abort_world \<Rightarrow> bool" where
  "is_active i w \<longleftrightarrow> (\<exists>s. active_operation (handle w) = Some \<lparr>op_id = i, op_stream = s\<rparr>)"

lemma begin_active: "begin_operation w = (i, w') \<Longrightarrow> is_active i w'"
  by (auto simp: begin_operation_def Let_def is_active_def)

lemma step_active:
  "is_active i (abort_step sd e w) \<longleftrightarrow> is_active i w \<and> e \<noteq> EAbort \<and> \<not> ends_op i e"
proof (cases "active_operation (handle w)")
  case None
  then show ?thesis
    by (cases e) (auto simp: is_active_def attach_stream_def finish_def drop_guard_def handle_abort_def Let_def)
next
  case (Some a)
  then show ?thesis
    by (cases a; cases e) (auto simp: is_active_def attach_stream_def finish_def drop_guard_def
        handle_abort_def Let_def split: option.splits)
qed

lemma run_active:
  "is_active i (abort_run sd es w) \<longleftrightarrow> is_active i w \<and> EAbort \<notin> set es \<and> (\<forall>e\<in>set es. \<not> ends_op i e)"
  unfolding abort_run_def
  by (induction es arbitrary: w) (auto simp: step_active)

lemma finish_active: "fst (finish i w) \<longleftrightarrow> \<not> is_active i w"
proof (cases "active_operation (handle w)")
  case None
  then show ?thesis by (simp add: finish_def is_active_def)
next
  case (Some a)
  then show ?thesis by (cases a) (auto simp: finish_def is_active_def)
qed

text \<open>The streams shut by a step: the refused attachment, or the active operation's stream.\<close>

lemma step_shut:
  "shut (abort_step sd e w) = shut w @
     (case e of
        EAttach i s \<Rightarrow> if is_active i w then [] else [s]
      | EAbort \<Rightarrow> (case Option.bind (active_operation (handle w)) op_stream of Some s \<Rightarrow> [s] | None \<Rightarrow> [])
      | _ \<Rightarrow> [])"
proof (cases "active_operation (handle w)")
  case None
  then show ?thesis
    by (cases e) (auto simp: is_active_def attach_stream_def finish_def drop_guard_def handle_abort_def Let_def)
next
  case (Some a)
  then show ?thesis
    by (cases a; cases e) (auto simp: is_active_def attach_stream_def finish_def drop_guard_def
        handle_abort_def Let_def split: option.splits)
qed

text \<open>The stream an operation holds is the last one attached to it since it began.\<close>

definition holds :: "64 word \<Rightarrow> socket option \<Rightarrow> abort_world \<Rightarrow> bool" where
  "holds i s w \<longleftrightarrow> active_operation (handle w) = Some \<lparr>op_id = i, op_stream = s\<rparr>"

fun attached :: "64 word \<Rightarrow> abort_event list \<Rightarrow> socket option \<Rightarrow> socket option" where
  "attached i [] s = s"
| "attached i (EAttach j t # es) s = attached i es (if i = j then Some t else s)"
| "attached i (_ # es) s = attached i es s"

lemma run_holds:
  "holds i s w \<Longrightarrow> EAbort \<notin> set es \<Longrightarrow> (\<forall>e\<in>set es. \<not> ends_op i e) \<Longrightarrow>
   holds i (attached i es s) (abort_run sd es w)"
  unfolding abort_run_def
proof (induction i es s arbitrary: w rule: attached.induct)
  case (2 i j t es s)
  then show ?case
    by (cases "i = j") (auto simp: holds_def attach_stream_def)
qed (auto simp: holds_def finish_def drop_guard_def)

section \<open>Properties\<close>

text \<open>
  C36: an operation learns of an abort exactly when there was one: if no step of the interleaving ended
  the operation itself, its \<open>finish\<close> reports an abort if and only if an abort happened since it
  began, whatever attachments and guards of other operations interleaved.
\<close>
theorem finish_reports_abort_exactly:
  assumes "begin_operation w = (i, w')" and "\<forall>e\<in>set es. \<not> ends_op i e"
  shows "fst (finish i (abort_run sd es w')) \<longleftrightarrow> EAbort \<in> set es"
  using run_active [of i sd es w'] begin_active [OF assms(1)] assms(2) by (simp add: finish_active)

theorem finish_reports_abort_exactly_witness:
  "fst (finish 0 (abort_run (\<lambda>_. None) [EAttach 0 7, EAbort]
     (snd (begin_operation \<lparr>handle = default_abort_state, shut = []\<rparr>))))"
proof -
  have "begin_operation \<lparr>handle = default_abort_state, shut = []\<rparr>
      = (0, snd (begin_operation \<lparr>handle = default_abort_state, shut = []\<rparr>))"
    by (simp add: begin_operation_def default_abort_state_def Let_def)
  from finish_reports_abort_exactly [OF this, of "[EAttach 0 7, EAbort]" "\<lambda>_. None"] show ?thesis by simp
qed

text \<open>
  An aborted operation cannot go on with a socket: the abort shuts the stream that was attached to
  it last, and every stream that is attached to it afterwards is refused and shut at once.
\<close>
theorem abort_shuts_every_stream:
  fixes sd :: "socket \<Rightarrow> io_kind option"
  assumes "begin_operation w = (i, w')" and "\<forall>e\<in>set es. \<not> ends_op i e" and "EAbort \<notin> set es"
  defines "u \<equiv> snd (handle_abort sd (abort_run sd es w'))"
  shows "(\<forall>s. attached i es None = Some s \<longrightarrow> s \<in> set (shut u))
    \<and> (\<forall>es' s. let v = abort_run sd es' u in
         \<not> fst (attach_stream i s v) \<and> shut (snd (attach_stream i s v)) = shut v @ [s])"
proof -
  have h: "holds i (attached i es None) (abort_run sd es w')"
    using assms(1-3) by (intro run_holds) (auto simp: begin_operation_def holds_def Let_def)
  have "s \<in> set (shut u)" if "attached i es None = Some s" for s
    using h that by (simp add: u_def handle_abort_def holds_def Let_def)
  moreover have "\<not> is_active i u" by (simp add: u_def is_active_def handle_abort_def Let_def split: option.splits)
  then have "\<not> is_active i (abort_run sd es' u)" for es' using run_active by blast
  then have "\<not> fst (attach_stream i s (abort_run sd es' u))
      \<and> shut (snd (attach_stream i s (abort_run sd es' u))) = shut (abort_run sd es' u) @ [s]" for es' s
    by (cases "active_operation (handle (abort_run sd es' u))"; cases "the (active_operation (handle (abort_run sd es' u)))")
      (auto simp: attach_stream_def is_active_def)
  ultimately show ?thesis by (simp add: Let_def)
qed

theorem abort_shuts_every_stream_witness:
  "let w' = snd (begin_operation \<lparr>handle = default_abort_state, shut = []\<rparr>);
       u = snd (handle_abort (\<lambda>_. None) (abort_run (\<lambda>_. None) [EAttach 0 7] w')) in 7 \<in> set (shut u)"
proof -
  have "begin_operation \<lparr>handle = default_abort_state, shut = []\<rparr>
      = (0, snd (begin_operation \<lparr>handle = default_abort_state, shut = []\<rparr>))"
    by (simp add: begin_operation_def default_abort_state_def Let_def)
  from abort_shuts_every_stream [OF this, of "[EAttach 0 7]" "\<lambda>_. None"] show ?thesis by (simp add: Let_def)
qed

text \<open>
  An abort only reaches the active operation: it shuts at most one socket, the one the active
  operation holds, and a guard of an operation that is no longer active cannot end another one.
\<close>
theorem abort_touches_only_the_active_operation:
  "shut (snd (handle_abort sd w)) = shut w @
     (case Option.bind (active_operation (handle w)) op_stream of Some s \<Rightarrow> [s] | None \<Rightarrow> [])
   \<and> (\<not> is_active i w \<longrightarrow> drop_guard i w = w \<and> finish i w = (True, w))"
proof (cases "active_operation (handle w)")
  case None
  then show ?thesis by (simp add: handle_abort_def drop_guard_def finish_def Let_def)
next
  case (Some a)
  then show ?thesis
    by (cases a) (auto simp: handle_abort_def drop_guard_def finish_def is_active_def Let_def split: option.splits)
qed

theorem abort_touches_only_the_active_operation_witness:
  "let w = \<lparr>handle = \<lparr>active_operation = Some \<lparr>op_id = 4, op_stream = Some 9\<rparr>, next_operation_id = 5\<rparr>, shut = []\<rparr> in
   shut (snd (handle_abort (\<lambda>_. None) w)) = [9] \<and> drop_guard 3 w = w \<and> finish 3 w = (True, w)"
  using abort_touches_only_the_active_operation [of "\<lambda>_. None"
      "\<lparr>handle = \<lparr>active_operation = Some \<lparr>op_id = 4, op_stream = Some 9\<rparr>, next_operation_id = 5\<rparr>, shut = []\<rparr>" 3]
  by (simp add: Let_def is_active_def)

end
