(* ===== verification/Admission.thy ===== *)
theory Admission
  imports Errors
begin

text \<open>
  Admission control of the Node binding (\<open>bindings/napi-xqdb/src/admission.rs\<close>): the counters of
  queued commands and bytes, the permits that reserve a place in the queue and the reservations that
  travel with a command. Each method runs under the lock of the counters, so the system is a step
  relation over its methods; a reservation that is dropped gives its share back. An error is its
  stable code.
\<close>

type_synonym 'a bresult = "string + 'a"

record admission_counts =
  queued_commands :: nat
  queued_bytes :: nat

record admission_state =
  owner_id :: "64 word"
  command_capacity :: nat
  byte_capacity :: nat
  stopping :: bool
  counts :: admission_counts

text \<open>A reservation is the number of bytes charged to it; a permit holds one until it is taken.\<close>

type_synonym queue_reservation = nat

record admission_permit =
  owner :: "64 word"
  reservation :: "queue_reservation option"

definition admission_new :: "64 word \<Rightarrow> nat \<Rightarrow> nat \<Rightarrow> bool \<Rightarrow> admission_state \<times> 64 word" where
  "admission_new next_owner_id commands bytes_cap stop =
     (\<lparr>owner_id = next_owner_id, command_capacity = commands, byte_capacity = bytes_cap, stopping = stop,
       counts = \<lparr>queued_commands = 0, queued_bytes = 0\<rparr>\<rparr>, next_owner_id + 1)"

definition reserve :: "admission_state \<Rightarrow> (admission_permit \<times> admission_state) bresult" where
  "reserve st =
     (if stopping st then Inl CODE_INTERNAL
      else if queued_commands (counts st) \<ge> command_capacity st then Inl CODE_BACKPRESSURE
      else Inr (\<lparr>owner = owner_id st, reservation = Some 0\<rparr>,
                st\<lparr>counts := (counts st)\<lparr>queued_commands := queued_commands (counts st) + 1\<rparr>\<rparr>))"

definition drop_reservation :: "queue_reservation \<Rightarrow> admission_state \<Rightarrow> admission_state" where
  "drop_reservation reserved_bytes st =
     st\<lparr>counts := \<lparr>queued_commands = queued_commands (counts st) - 1,
                   queued_bytes = queued_bytes (counts st) - reserved_bytes\<rparr>\<rparr>"

definition take_uncommitted_for ::
  "admission_state \<Rightarrow> admission_permit \<Rightarrow> (queue_reservation \<times> admission_permit) bresult" where
  "take_uncommitted_for st permit =
     (if owner permit \<noteq> owner_id st then Inl CODE_CONVERSION
      else case reservation permit of
        None \<Rightarrow> Inl CODE_CONVERSION
      | Some r \<Rightarrow> Inr (r, permit\<lparr>reservation := None\<rparr>))"

definition release_for ::
  "admission_permit \<Rightarrow> admission_state \<Rightarrow> (admission_permit \<times> admission_state) bresult" where
  "release_for permit st =
     (if owner permit \<noteq> owner_id st then Inl CODE_CONVERSION
      else Inr (permit\<lparr>reservation := None\<rparr>,
                (case reservation permit of None \<Rightarrow> st | Some r \<Rightarrow> drop_reservation r st)))"

definition charge_bytes ::
  "nat \<Rightarrow> queue_reservation \<Rightarrow> admission_state \<Rightarrow> (queue_reservation \<times> admission_state) bresult" where
  "charge_bytes n reserved_bytes st =
     rbind (ok_or (checked_add reserved_bytes n) CODE_BACKPRESSURE) (\<lambda>new_reservation.
     rbind (ok_or (checked_add (queued_bytes (counts st)) n) CODE_BACKPRESSURE) (\<lambda>new_total.
     if new_total > byte_capacity st then Inl CODE_BACKPRESSURE
     else Inr (new_reservation, st\<lparr>counts := (counts st)\<lparr>queued_bytes := new_total\<rparr>\<rparr>)))"

section \<open>The system\<close>

text \<open>The permits handed out and the reservations taken from them, as they interleave.\<close>

record admission_system =
  adm :: admission_state
  permits :: "admission_permit list"
  taken :: "queue_reservation list"

definition remove_nth :: "nat \<Rightarrow> 'a list \<Rightarrow> 'a list" where
  "remove_nth i xs = take i xs @ drop (Suc i) xs"

inductive adm_step :: "admission_system \<Rightarrow> admission_system \<Rightarrow> bool" where
  step_reserve: "reserve (adm s) = Inr (p, st) \<Longrightarrow> adm_step s (s\<lparr>adm := st, permits := permits s @ [p]\<rparr>)"
| step_take: "i < length (permits s) \<Longrightarrow> take_uncommitted_for (adm s) (permits s ! i) = Inr (r, p)
    \<Longrightarrow> adm_step s (s\<lparr>permits := (permits s)[i := p], taken := taken s @ [r]\<rparr>)"
| step_release: "i < length (permits s) \<Longrightarrow> release_for (permits s ! i) (adm s) = Inr (p, st)
    \<Longrightarrow> adm_step s (s\<lparr>adm := st, permits := (permits s)[i := p]\<rparr>)"
| step_drop_permit: "i < length (permits s) \<Longrightarrow> reservation (permits s ! i) = Some r
    \<Longrightarrow> adm_step s (s\<lparr>adm := drop_reservation r (adm s), permits := remove_nth i (permits s)\<rparr>)"
| step_drop_used: "i < length (permits s) \<Longrightarrow> reservation (permits s ! i) = None
    \<Longrightarrow> adm_step s (s\<lparr>permits := remove_nth i (permits s)\<rparr>)"
| step_charge: "i < length (taken s) \<Longrightarrow> charge_bytes n (taken s ! i) (adm s) = Inr (r, st)
    \<Longrightarrow> adm_step s (s\<lparr>adm := st, taken := (taken s)[i := r]\<rparr>)"
| step_drop: "i < length (taken s)
    \<Longrightarrow> adm_step s (s\<lparr>adm := drop_reservation (taken s ! i) (adm s), taken := remove_nth i (taken s)\<rparr>)"
| step_stop: "adm_step s (s\<lparr>adm := (adm s)\<lparr>stopping := True\<rparr>\<rparr>)"

inductive_cases adm_stepE: "adm_step s t"

definition permit_commands :: "admission_permit \<Rightarrow> nat" where
  "permit_commands p = (case reservation p of None \<Rightarrow> 0 | Some r \<Rightarrow> 1)"

definition permit_bytes :: "admission_permit \<Rightarrow> nat" where
  "permit_bytes p = (case reservation p of None \<Rightarrow> 0 | Some r \<Rightarrow> r)"

definition live_commands :: "admission_system \<Rightarrow> nat" where
  "live_commands s = sum_list (map permit_commands (permits s)) + length (taken s)"

definition live_bytes :: "admission_system \<Rightarrow> nat" where
  "live_bytes s = sum_list (map permit_bytes (permits s)) + sum_list (taken s)"

text \<open>
  The accounting invariant: the counters are exactly the live reservations, and within the limits.
\<close>

definition adm_inv :: "admission_system \<Rightarrow> bool" where
  "adm_inv s \<longleftrightarrow> queued_commands (counts (adm s)) = live_commands s
     \<and> queued_bytes (counts (adm s)) = live_bytes s
     \<and> queued_commands (counts (adm s)) \<le> command_capacity (adm s)
     \<and> queued_bytes (counts (adm s)) \<le> byte_capacity (adm s)"

lemma sum_map_update:
  "i < length xs \<Longrightarrow> sum_list (map g (xs[i := v])) + g (xs ! i) = sum_list (map g xs) + (g v :: nat)"
proof (induction xs arbitrary: i)
  case (Cons x xs)
  then show ?case by (cases i) auto
qed simp

lemma sum_map_remove:
  "i < length xs \<Longrightarrow> sum_list (map g xs) = g (xs ! i) + (sum_list (map g (remove_nth i xs)) :: nat)"
  unfolding remove_nth_def
proof (induction xs arbitrary: i)
  case (Cons x xs)
  then show ?case by (cases i) auto
qed simp

lemmas sum_update_id = sum_map_update [where g = id, simplified]
lemmas sum_remove_id = sum_map_remove [where g = id, simplified]

lemma length_remove_nth: "i < length xs \<Longrightarrow> length xs = Suc (length (remove_nth i xs))"
  by (simp add: remove_nth_def)

lemmas adm_defs = adm_inv_def live_commands_def live_bytes_def permit_commands_def permit_bytes_def

lemma adm_step_inv: "adm_step s t \<Longrightarrow> adm_inv s \<Longrightarrow> adm_inv t"
proof (induction rule: adm_step.induct)
  case (step_reserve s p st)
  then show ?case by (auto simp: adm_defs reserve_def split: if_splits)
next
  case (step_take i s r p)
  then have "reservation (permits s ! i) = Some r" "p = (permits s ! i)\<lparr>reservation := None\<rparr>"
    by (auto simp: take_uncommitted_for_def split: if_splits option.splits)
  then show ?case
    using step_take sum_map_update [of i "permits s" permit_commands p] sum_map_update [of i "permits s" permit_bytes p]
    by (simp add: adm_defs)
next
  case (step_release i s p st)
  then have p: "p = (permits s ! i)\<lparr>reservation := None\<rparr>"
    and st: "st = (case reservation (permits s ! i) of None \<Rightarrow> adm s | Some r \<Rightarrow> drop_reservation r (adm s))"
    by (auto simp: release_for_def split: if_splits)
  show ?case
    using step_release sum_map_update [of i "permits s" permit_commands p] sum_map_update [of i "permits s" permit_bytes p]
    by (auto simp: adm_defs p st drop_reservation_def split: option.splits)
next
  case (step_drop_permit i s r)
  then show ?case
    using sum_map_remove [of i "permits s" permit_commands] sum_map_remove [of i "permits s" permit_bytes]
    by (auto simp: adm_defs drop_reservation_def)
next
  case (step_drop_used i s)
  then show ?case
    using sum_map_remove [of i "permits s" permit_commands] sum_map_remove [of i "permits s" permit_bytes]
    by (auto simp: adm_defs)
next
  case (step_charge i s n r st)
  then show ?case using sum_update_id [of i "taken s" r]
    by (auto simp: adm_defs charge_bytes_def result_simps usize_simps)
next
  case (step_drop i s)
  then show ?case using sum_remove_id [of i "taken s"] length_remove_nth [of i "taken s"]
    by (auto simp: adm_defs drop_reservation_def)
next
  case (step_stop s)
  then show ?case by (simp add: adm_defs)
qed

definition adm_initial :: "admission_system \<Rightarrow> bool" where
  "adm_initial s \<longleftrightarrow> (\<exists>i c b stop. adm s = fst (admission_new i c b stop)) \<and> permits s = [] \<and> taken s = []"

lemma adm_initial_inv: "adm_initial s \<Longrightarrow> adm_inv s"
  by (auto simp: adm_initial_def admission_new_def adm_defs)

lemma adm_reachable_inv: "adm_step\<^sup>*\<^sup>* s t \<Longrightarrow> adm_initial s \<Longrightarrow> adm_inv t"
  by (induction rule: rtranclp_induct) (auto intro: adm_initial_inv adm_step_inv)

section \<open>Properties\<close>

text \<open>
  C17: in every interleaving of reservations, takings, charges, releases and drops, the counters are
  exactly the number of live reservations and the sum of their bytes, and never exceed the command
  and byte capacities; a drop therefore never saturates, and an idle system is back at zero.
\<close>
theorem admission_accounting:
  assumes "adm_step\<^sup>*\<^sup>* s t" "adm_initial s"
  shows "queued_commands (counts (adm t)) = live_commands t \<and> queued_bytes (counts (adm t)) = live_bytes t
    \<and> live_commands t \<le> command_capacity (adm t) \<and> live_bytes t \<le> byte_capacity (adm t)
    \<and> (permits t = [] \<and> taken t = [] \<longrightarrow> counts (adm t) = \<lparr>queued_commands = 0, queued_bytes = 0\<rparr>)"
proof -
  have "adm_inv t" by (rule adm_reachable_inv [OF assms])
  then show ?thesis
    by (cases "counts (adm t)") (auto simp: adm_inv_def live_commands_def live_bytes_def)
qed

theorem admission_accounting_witness:
  "\<exists>s t. adm_initial s \<and> adm_step\<^sup>*\<^sup>* s t \<and> taken t = [5] \<and> queued_bytes (counts (adm t)) = 5"
proof -
  define a where "a = fst (admission_new 1 2 10 False)"
  define s where "s = \<lparr>adm = a, permits = [], taken = []\<rparr>"
  define s1 where "s1 = s\<lparr>adm := snd (projr (reserve a)), permits := [] @ [fst (projr (reserve a))]\<rparr>"
  define s2 where "s2 = s1\<lparr>permits := (permits s1)[0 := (permits s1 ! 0)\<lparr>reservation := None\<rparr>], taken := [] @ [0]\<rparr>"
  define s3 where "s3 = s2\<lparr>adm := snd (projr (charge_bytes 5 0 (adm s2))), taken := (taken s2)[0 := 5]\<rparr>"
  note defs = s_def s1_def s2_def s3_def a_def admission_new_def reserve_def take_uncommitted_for_def
    charge_bytes_def checked_add_def
  have i: "adm_initial s" unfolding adm_initial_def s_def a_def by auto
  have "adm_step s s1"
    unfolding s1_def s_def using step_reserve [of "\<lparr>adm = a, permits = [], taken = []\<rparr>" "fst (projr (reserve a))" "snd (projr (reserve a))"]
    by (simp add: a_def admission_new_def reserve_def)
  moreover have "adm_step s1 s2"
    unfolding s2_def using step_take [of 0 s1 0 "(permits s1 ! 0)\<lparr>reservation := None\<rparr>"] by (simp add: defs)
  moreover have "adm_step s2 s3"
    unfolding s3_def using step_charge [of 0 s2 5 5 "snd (projr (charge_bytes 5 0 (adm s2)))"] by (simp add: defs)
  ultimately have "adm_step\<^sup>*\<^sup>* s s3" by (meson converse_rtranclp_into_rtranclp rtranclp.rtrancl_refl)
  from admission_accounting [OF this i] have "queued_bytes (counts (adm s3)) = live_bytes s3" by simp
  then have "queued_bytes (counts (adm s3)) = 5" by (simp add: live_bytes_def defs permit_bytes_def)
  then show ?thesis using \<open>adm_step\<^sup>*\<^sup>* s s3\<close> i by (intro exI [of _ s] exI [of _ s3]) (simp add: s3_def s2_def)
qed

text \<open>
  A permit is good for one reservation of its own connector: a permit of another connector is
  refused, taking it twice is refused, and a full queue or a stopping worker refuses new permits
  without changing the counters.
\<close>
theorem permits_are_single_use:
  "(owner p \<noteq> owner_id st \<longrightarrow> take_uncommitted_for st p = Inl CODE_CONVERSION \<and> release_for p st = Inl CODE_CONVERSION)
   \<and> (\<forall>r q. take_uncommitted_for st p = Inr (r, q) \<longrightarrow> take_uncommitted_for st q = Inl CODE_CONVERSION
        \<and> release_for q st = Inr (q, st))
   \<and> (stopping st \<longrightarrow> reserve st = Inl CODE_INTERNAL)
   \<and> (\<not> stopping st \<longrightarrow> (is_ok (reserve st) \<longleftrightarrow> queued_commands (counts st) < command_capacity st))"
  by (cases p) (auto simp: take_uncommitted_for_def release_for_def reserve_def split: option.splits if_splits)

theorem permits_are_single_use_witness:
  "let st = fst (admission_new 1 2 10 True) in reserve st = Inl CODE_INTERNAL"
  using permits_are_single_use [of _ "fst (admission_new 1 2 10 True)"] by (simp add: admission_new_def Let_def)

end
