(* ===== verification/ListScan.thy ===== *)
theory ListScan
  imports QTypes Compression
begin

text \<open>
  The resumable scan for the end of one q list (\<open>ListScan\<close> in \<open>crates/xqdb/src/serde6.rs\<close>) and the
  loop that drives it while a frame is still arriving (\<open>scan_to_end\<close> in \<open>pipeline.rs\<close>). A scan is its
  record of progress; \<open>advance\<close> looks at the received prefix of the body and at the total length.
  Slicing beyond the received bytes, which panics in the source, gives \<open>Inl Panicked\<close>.
\<close>

datatype scan_outcome = Complete nat | Incomplete

record list_scan =
  ls_k_type :: byte
  ls_pos :: nat
  rows_left :: "nat option"
  child_type :: "byte option"
  child_symbols_left :: nat

definition take_list_length :: "bytes \<Rightarrow> nat \<Rightarrow> (nat \<times> nat) xresult" where
  "take_list_length bs pos =
     rbind (ok_or (checked_add pos 5) DeserializationErr) (\<lambda>end.
     rbind (ok_or (get_range bs pos end) DeserializationErr) (\<lambda>header.
     rbind (ok_or (usize_of_int (le_i32 (take 4 (drop 1 header)))) DeserializationErr) (\<lambda>n.
     Inr (n, end))))"

definition list_scan_new :: "byte \<Rightarrow> nat \<Rightarrow> list_scan xresult" where
  "list_scan_new k_type start_pos =
     (let fixed_width = (1 \<le> k_type \<and> k_type \<le> 19 \<and> K_TYPE_SIZE ! unat k_type > 0) in
      if \<not> (k_type = 0 \<or> k_type = 11 \<or> fixed_width) then Inl (NotSupportedKListErr k_type)
      else Inr \<lparr>ls_k_type = k_type, ls_pos = start_pos, rows_left = None, child_type = None,
                child_symbols_left = 0\<rparr>)"

definition incomplete_or_overrun :: "nat \<Rightarrow> nat \<Rightarrow> scan_outcome xresult" where
  "incomplete_or_overrun needed total_len =
     (if needed > total_len then Inl DeserializationErr else Inr Incomplete)"

text \<open>The loop of \<open>scan_symbols\<close>, returning the outcome with the updated position and count.\<close>

primrec scan_symbols :: "bytes \<Rightarrow> nat \<Rightarrow> nat \<Rightarrow> nat \<Rightarrow> (scan_outcome \<times> nat \<times> nat) xresult" where
  "scan_symbols received total_len 0 pos = Inr (Complete pos, pos, 0)"
| "scan_symbols received total_len (Suc n) pos =
     rbind (ok_or (get_from received pos) Panicked) (\<lambda>tail.
     case memchr0 tail of
       Some terminator \<Rightarrow> scan_symbols received total_len n (pos + terminator + 1)
     | None \<Rightarrow>
         if length received < total_len then Inr (Incomplete, pos, Suc n)
         else Inl DeserializationErr)"

definition nestable_type :: "byte \<Rightarrow> bool" where
  "nestable_type t \<longleftrightarrow> t \<in> {1, 4, 5, 6, 7, 8, 9, 10, 11, 12}"

text \<open>The result of looking at the next element of a nested list.\<close>

datatype nested_next =
    Row list_scan
  | Symbols list_scan
  | Suspend list_scan

text \<open>The element's type, checked against the elements before it, and its length.\<close>

definition element_header :: "bytes \<Rightarrow> list_scan \<Rightarrow> (byte \<times> byte \<times> nat \<times> list_scan) xresult" where
  "element_header received s =
     rbind (index_at received (ls_pos s)) (\<lambda>current_k_type.
     rbind (case child_type s of
              Some t \<Rightarrow> Inr (t, s)
            | None \<Rightarrow>
                if \<not> nestable_type current_k_type then Inl (NotSupportedKNestedListErr current_k_type)
                else Inr (current_k_type, s\<lparr>child_type := Some current_k_type\<rparr>)) (\<lambda>(child, s).
     if current_k_type \<noteq> child \<and> current_k_type \<noteq> 0
     then Inl (NotSupportedKMixedListErr child current_k_type)
     else rbind (take_list_length received (ls_pos s + 1)) (\<lambda>(sub_length, pos).
       Inr (current_k_type, child, sub_length, s\<lparr>ls_pos := pos\<rparr>))))"

definition element_payload ::
  "bytes \<Rightarrow> nat \<Rightarrow> nat \<Rightarrow> byte \<Rightarrow> byte \<Rightarrow> nat \<Rightarrow> list_scan \<Rightarrow> nested_next xresult" where
  "element_payload received total_len n current_k_type child sub_length s =
     (if current_k_type = 0 then
        (if sub_length \<noteq> 0 then Inl (NotSupportedKMixedListErr child current_k_type) else Inr (Row s))
      else if current_k_type = 11 then
        (if sub_length = 0 then Inr (Row s) else Inr (Symbols (s\<lparr>child_symbols_left := sub_length\<rparr>)))
      else rbind (ok_or (checked_mul sub_length (K_TYPE_SIZE ! unat current_k_type)) DeserializationErr)
          (\<lambda>payload_length.
        rbind (ok_or (checked_add (ls_pos s) payload_length) DeserializationErr) (\<lambda>end.
        if end > total_len then Inl DeserializationErr
        else if end > length received
        then Inr (Suspend (s\<lparr>ls_pos := end, rows_left := Some (n - 1)\<rparr>))
        else Inr (Row (s\<lparr>ls_pos := end\<rparr>)))))"

definition next_element :: "bytes \<Rightarrow> nat \<Rightarrow> nat \<Rightarrow> list_scan \<Rightarrow> nested_next xresult" where
  "next_element received total_len n s =
     (let header_end = saturating_add (ls_pos s) 6 in
      if header_end > length received
      then rbind (incomplete_or_overrun header_end total_len) (\<lambda>_. Inr (Suspend (s\<lparr>rows_left := Some n\<rparr>)))
      else rbind (element_header received s) (\<lambda>(current_k_type, child, sub_length, s).
        element_payload received total_len n current_k_type child sub_length s))"

lemma next_element_Symbols:
  "next_element r t n s = Inr (Symbols s') \<Longrightarrow> 0 < child_symbols_left s'"
  by (auto simp: next_element_def element_payload_def Let_def rbind_Inr_iff incomplete_or_overrun_def
      split: if_splits prod.splits)

function advance_nested :: "bytes \<Rightarrow> nat \<Rightarrow> nat \<Rightarrow> list_scan \<Rightarrow> (scan_outcome \<times> list_scan) xresult" where
  "advance_nested received total_len n s =
     (if n > 0 then
        if child_symbols_left s > 0 then
          rbind (scan_symbols received total_len (child_symbols_left s) (ls_pos s)) (\<lambda>(outcome, pos, left).
            let s = s\<lparr>ls_pos := pos, child_symbols_left := left\<rparr> in
            if outcome = Incomplete then Inr (Incomplete, s\<lparr>rows_left := Some n\<rparr>)
            else advance_nested received total_len (n - 1) s)
        else
          rbind (next_element received total_len n s) (\<lambda>r. case r of
            Row s \<Rightarrow> advance_nested received total_len (n - 1) s
          | Symbols s \<Rightarrow> advance_nested received total_len n s
          | Suspend s \<Rightarrow> Inr (Incomplete, s))
      else Inr (if ls_pos s \<le> length received then Complete (ls_pos s) else Incomplete, s\<lparr>rows_left := Some 0\<rparr>))"
  by pat_completeness auto
termination
  by (relation "measure (\<lambda>(r, t, n, s). 2 * n + (if child_symbols_left s = 0 then 1 else 0))")
    (auto split: if_splits dest: next_element_Symbols)

declare advance_nested.simps [simp del]

text \<open>The list header, read once.\<close>

definition scan_header :: "bytes \<Rightarrow> nat \<Rightarrow> list_scan \<Rightarrow> list_scan xresult" where
  "scan_header received total_len s =
     rbind (take_list_length received (ls_pos s)) (\<lambda>(rows, pos).
     if ls_k_type s = 0 \<or> ls_k_type s = 11 then Inr (s\<lparr>ls_pos := pos, rows_left := Some rows\<rparr>)
     else
       rbind (ok_or (checked_mul rows (K_TYPE_SIZE ! unat (ls_k_type s))) DeserializationErr) (\<lambda>payload_length.
       rbind (ok_or (checked_add pos payload_length) DeserializationErr) (\<lambda>pos.
       if pos > total_len then Inl DeserializationErr
       else Inr (s\<lparr>ls_pos := pos, rows_left := Some 0\<rparr>))))"

definition advance_body :: "bytes \<Rightarrow> nat \<Rightarrow> list_scan \<Rightarrow> (scan_outcome \<times> list_scan) xresult" where
  "advance_body received total_len s =
     (let n = (case rows_left s of Some n \<Rightarrow> n | None \<Rightarrow> 0) in
      if ls_k_type s = 11 then
        rbind (scan_symbols received total_len n (ls_pos s)) (\<lambda>(outcome, pos, left).
        Inr (outcome, s\<lparr>ls_pos := pos, rows_left := Some left\<rparr>))
      else if ls_k_type s = 0 then advance_nested received total_len n s
      else Inr (if ls_pos s \<le> length received then Complete (ls_pos s) else Incomplete, s))"

definition advance :: "bytes \<Rightarrow> nat \<Rightarrow> list_scan \<Rightarrow> (scan_outcome \<times> list_scan) xresult" where
  "advance received total_len s =
     (if rows_left s = None then
        let header_end = saturating_add (ls_pos s) 5 in
        if header_end > length received
        then rbind (incomplete_or_overrun header_end total_len) (\<lambda>outcome. Inr (outcome, s))
        else rbind (scan_header received total_len s) (advance_body received total_len)
      else advance_body received total_len s)"

definition calculate_array_end_index :: "bytes \<Rightarrow> nat \<Rightarrow> byte \<Rightarrow> nat xresult" where
  "calculate_array_end_index vec start_pos k_type =
     rbind (list_scan_new k_type start_pos) (\<lambda>s.
     rbind (advance vec (length vec) s) (\<lambda>(outcome, _).
     case outcome of Complete end \<Rightarrow> Inr end | Incomplete \<Rightarrow> Inl DeserializationErr))"

section \<open>Driving a scan while bytes arrive\<close>

text \<open>
  The reader publishes how much of the body is in place (\<open>SharedBody\<close> in \<open>pipeline.rs\<close>). What a scanner
  observes of it is a sequence of counts and, after them, whether the receipt completes: then every
  later look sees the whole body, otherwise it sees the failure. A wait skips the counts that are
  too small. Body lengths are below \<open>isize::MAX\<close>, where \<open>saturating_add\<close> is addition.
\<close>

type_synonym progress = "nat list \<times> bool"

definition receipt_failed :: xqdb_error where
  "receipt_failed = IOError UnexpectedEof"

fun next_count :: "nat \<Rightarrow> nat \<Rightarrow> progress \<Rightarrow> (nat \<times> progress) xresult" where
  "next_count total_len needed ([], completes) =
     (if completes then Inr (total_len, ([], completes)) else Inl receipt_failed)"
| "next_count total_len needed (count # counts, completes) =
     (if count < needed then next_count total_len needed (counts, completes)
      else Inr (count, (counts, completes)))"

definition snapshot :: "nat \<Rightarrow> progress \<Rightarrow> (nat \<times> progress) xresult" where
  "snapshot total_len p = next_count total_len 0 p"

definition wait_for :: "nat \<Rightarrow> nat \<Rightarrow> progress \<Rightarrow> (nat \<times> progress) xresult" where
  "wait_for total_len needed p =
     (if needed > total_len then Inl DeserializationErr else next_count total_len needed p)"

lemma next_count_needed:
  "next_count t needed p = Inr (c, p') \<Longrightarrow> needed \<le> t \<Longrightarrow> needed \<le> c"
  by (induction t needed p rule: next_count.induct) (auto split: if_splits)

function scan_loop :: "bytes \<Rightarrow> nat \<Rightarrow> progress \<Rightarrow> list_scan \<Rightarrow> (nat \<times> progress) xresult" where
  "scan_loop body count p s =
     rbind (advance (take count body) (length body) s) (\<lambda>(outcome, s).
     case outcome of
       Complete end \<Rightarrow> Inr (end, p)
     | Incomplete \<Rightarrow>
         rbind (wait_for (length body) (count + 1) p) (\<lambda>(count, p). scan_loop body count p s))"
  by pat_completeness auto
termination
  by (relation "measure (\<lambda>(body, count, p, s). length body - count)")
    (auto simp: wait_for_def split: if_splits dest!: next_count_needed)

declare scan_loop.simps [simp del]

definition scan_to_end :: "bytes \<Rightarrow> list_scan \<Rightarrow> progress \<Rightarrow> (nat \<times> progress) xresult" where
  "scan_to_end body s p =
     rbind (snapshot (length body) p) (\<lambda>(count, p). scan_loop body count p s)"

end
