(* ===== verification/ListScanCorrect.thy ===== *)
theory ListScanCorrect
  imports ListScan
begin

text \<open>
  A list scan may be suspended when the received bytes run out and resumed when more have arrived.
  The laws of the suspended state are stated once as the locale \<open>resumable_scan\<close>, which the scan of
  \<open>serde6.rs\<close> interprets; the driver of \<open>pipeline.rs\<close> rests on them.
\<close>

section \<open>Resuming a scan\<close>

lemma memchr0_prefix: "memchr0 xs = Some k \<Longrightarrow> memchr0 (xs @ ys) = Some k"
  by (auto simp: memchr0_Some nth_append)

lemma scan_symbols_resume:
  "p \<le> length r \<Longrightarrow>
   scan_symbols (r @ e) (length (r @ e)) n p =
     (case scan_symbols r (length (r @ e)) n p of
        Inl x \<Rightarrow> Inl x
      | Inr (Complete z, q) \<Rightarrow> Inr (Complete z, q)
      | Inr (Incomplete, q, m) \<Rightarrow> scan_symbols (r @ e) (length (r @ e)) m q)"
proof (induction n arbitrary: p)
  case 0
  then show ?case by simp
next
  case (Suc n)
  show ?case
  proof (cases "memchr0 (drop p r)")
    case None
    then show ?thesis using Suc.prems by (cases "e = []") (auto simp: get_from_def)
  next
    case (Some k)
    then have "k < length r - p" by (simp add: memchr0_Some)
    then have "p + k + 1 \<le> length r" using Suc.prems by simp
    moreover have "memchr0 (drop p (r @ e)) = Some k" using memchr0_prefix [OF Some] Suc.prems by simp
    ultimately show ?thesis using Suc.IH [of "p + k + 1"] Some Suc.prems by (simp add: get_from_def)
  qed
qed

lemma scan_symbols_pos:
  "p \<le> length r \<Longrightarrow> scan_symbols r t n p = Inr (x, q, m) \<Longrightarrow>
     q \<le> length r \<and> m \<le> n \<and> (x = Incomplete \<longrightarrow> 0 < m) \<and> (x \<noteq> Incomplete \<longrightarrow> x = Complete q \<and> m = 0)"
proof (induction n arbitrary: p)
  case 0
  then show ?case by auto
next
  case (Suc n)
  show ?case
  proof (cases "memchr0 (drop p r)")
    case None
    then show ?thesis using Suc.prems by (auto simp: get_from_def split: if_splits)
  next
    case (Some k)
    then have "k < length r - p" by (simp add: memchr0_Some)
    then have "p + k + 1 \<le> length r" using Suc.prems by simp
    then show ?thesis using Suc.IH [of "p + k + 1"] Some Suc.prems by (auto simp: get_from_def)
  qed
qed

lemma take_list_length_prefix:
  "p + 5 \<le> length r \<Longrightarrow> take_list_length (r @ e) p = take_list_length r p"
  by (simp add: take_list_length_def checked_add_def get_range_def)

lemma take_list_length_pos: "take_list_length r p = Inr (n, q) \<Longrightarrow> q = p + 5 \<and> q \<le> length r"
  by (auto simp: take_list_length_def result_simps usize_simps get_range_Some)

lemma saturating_small: "n < usize_limit - 16 \<Longrightarrow> saturating_add p 6 > n \<longleftrightarrow> p + 6 > n"
  "n < usize_limit - 16 \<Longrightarrow> saturating_add p 5 > n \<longleftrightarrow> p + 5 > n"
  "n < usize_limit - 16 \<Longrightarrow> saturating_add p (Suc 0) > n \<longleftrightarrow> p + 1 > n"
  by (auto simp: saturating_add_def min_def)

text \<open>Looking at the next element with more bytes at hand gives the same result, or resumes.\<close>

lemma next_element_resume:
  assumes "length (r @ e) < usize_limit - 16"
  shows "(case next_element r (length (r @ e)) n s of
      Inl x \<Rightarrow> next_element (r @ e) (length (r @ e)) n s = Inl x
    | Inr (Suspend t) \<Rightarrow>
        (rows_left t = Some n \<and> t = s\<lparr>rows_left := Some n\<rparr> \<and> e \<noteq> [])
        \<or> (rows_left t = Some (n - 1) \<and> child_symbols_left t = child_symbols_left s
            \<and> (\<exists>t'. next_element (r @ e) (length (r @ e)) n s = Inr (Row t') \<and> t = t'\<lparr>rows_left := Some (n - 1)\<rparr>))
    | Inr x \<Rightarrow> next_element (r @ e) (length (r @ e)) n s = Inr x)"
proof (cases "ls_pos s + 6 > length r")
  case True
  then show ?thesis using assms
    by (auto simp: next_element_def saturating_small incomplete_or_overrun_def Let_def)
next
  case False
  have h: "element_header (r @ e) s = element_header r s"
  proof -
    have "index_at (r @ e) (ls_pos s) = Inr (r ! ls_pos s)" "index_at r (ls_pos s) = Inr (r ! ls_pos s)"
      "take_list_length (r @ e) (ls_pos s + 1) = take_list_length r (ls_pos s + 1)"
      using False by (auto simp: index_at_def get_at_def nth_append take_list_length_prefix)
    then show ?thesis by (cases "child_type s") (simp_all add: element_header_def)
  qed
  show ?thesis
  proof (cases "element_header r s")
    case (Inl x)
    then show ?thesis using False assms h by (simp add: next_element_def saturating_small)
  next
    case (Inr y)
    obtain c child sub t where y: "y = (c, child, sub, t)" by (cases y) auto
    have cs: "child_symbols_left t = child_symbols_left s"
      using Inr unfolding y element_header_def rbind_Inr_iff [of "index_at _ _"] rbind_pair_iff if_Inl_Inr_iff
      by (auto split: option.splits if_split_asm)
    have "next_element r' (length (r @ e)) n s = element_payload r' (length (r @ e)) n c child sub t"
      if "r' = r \<or> r' = r @ e" for r'
      using that False assms h Inr y by (auto simp: next_element_def saturating_small)
    then show ?thesis using cs
      by (auto simp: element_payload_def checked_mul_def checked_add_def not_less)
  qed
qed

text \<open>The row counter in the record is only written by the loop, never read.\<close>

fun with_rows :: "nat option \<Rightarrow> nested_next \<Rightarrow> nested_next" where
  "with_rows x (Row s) = Row (s\<lparr>rows_left := x\<rparr>)"
| "with_rows x (Symbols s) = Symbols (s\<lparr>rows_left := x\<rparr>)"
| "with_rows x (Suspend s) = Suspend s"

lemma element_header_rows:
  "element_header r (s\<lparr>rows_left := x\<rparr>) =
     rbind (element_header r s) (\<lambda>(c, child, sub, t). Inr (c, child, sub, t\<lparr>rows_left := x\<rparr>))"
proof -
  have *: "rbind (take_list_length r p) (\<lambda>(sub, q). f sub q) = rbind (rbind (take_list_length r p) g) h"
    if "\<And>sub q. f sub q = rbind (g (sub, q)) h" for p f g h
    using that by (cases "take_list_length r p") auto
  show ?thesis
    by (cases "index_at r (ls_pos s)"; cases "child_type s")
      (auto simp: element_header_def rbind_assoc split: prod.splits intro!: rbind_cong)
qed

lemma next_element_rows:
  "next_element r t n (s\<lparr>rows_left := x\<rparr>) = rbind (next_element r t n s) (\<lambda>y. Inr (with_rows x y))"
proof (cases "saturating_add (ls_pos s) 6 > length r")
  case True
  then show ?thesis by (simp add: next_element_def incomplete_or_overrun_def Let_def)
next
  case False
  have "element_payload r t n c child sub (u\<lparr>rows_left := x\<rparr>) = rbind (element_payload r t n c child sub u) (\<lambda>y. Inr (with_rows x y))"
    for c child sub u
    by (simp add: element_payload_def checked_mul_def checked_add_def)
  then show ?thesis using False
    by (cases "element_header r s") (auto simp: next_element_def element_header_rows Let_def)
qed

lemma advance_nested_rows: "advance_nested r t n (s\<lparr>rows_left := x\<rparr>) = advance_nested r t n s"
proof (induction r t n s rule: advance_nested.induct)
  case (1 r t n s)
  show ?case
  proof (cases "n = 0")
    case True
    then show ?thesis by (simp add: advance_nested.simps [of r t 0])
  next
    case n: False
    show ?thesis
    proof (cases "child_symbols_left s > 0")
      case True
      then show ?thesis using n 1(1)
        by (cases s) (auto simp: advance_nested.simps [of r t n] Let_def intro!: rbind_cong)
    next
      case False
      show ?thesis
      proof (cases "next_element r t n s")
        case (Inl e)
        then show ?thesis using n False by (simp add: advance_nested.simps [of r t n] next_element_rows)
      next
        case (Inr y)
        then show ?thesis using n False 1(2,3)
          by (cases y) (simp_all add: advance_nested.simps [of r t n] next_element_rows)
      qed
    qed
  qed
qed


lemma next_element_shape:
  assumes "next_element r t n s = Inr y" "child_symbols_left s = 0"
  shows "case y of Row u \<Rightarrow> child_symbols_left u = 0 \<and> ls_k_type u = ls_k_type s
    | Symbols u \<Rightarrow> ls_pos u \<le> length r \<and> 0 < child_symbols_left u \<and> ls_k_type u = ls_k_type s
    | Suspend u \<Rightarrow> child_symbols_left u = 0 \<and> ls_k_type u = ls_k_type s"
proof (cases "saturating_add (ls_pos s) 6 > length r")
  case True
  then show ?thesis using assms by (auto simp: next_element_def incomplete_or_overrun_def Let_def split: if_splits)
next
  case False
  then obtain c child sub u where h: "element_header r s = Inr (c, child, sub, u)"
    "element_payload r t n c child sub u = Inr y"
    using assms(1) by (cases "element_header r s") (auto simp: next_element_def Let_def)
  have "child_symbols_left u = 0" "ls_pos u \<le> length r" "ls_k_type u = ls_k_type s"
    using h(1) assms(2) unfolding element_header_def rbind_Inr_iff [of "index_at _ _"] rbind_pair_iff if_Inl_Inr_iff
    by (auto split: option.splits if_split_asm dest!: take_list_length_pos)
  then show ?thesis using h(2)
    by (auto simp: element_payload_def rbind_Inr_iff split: if_split_asm)
qed

definition resumed :: "(scan_outcome \<times> 's) xresult \<Rightarrow> ('s \<Rightarrow> (scan_outcome \<times> 's) xresult)
    \<Rightarrow> (scan_outcome \<times> 's) xresult" where
  "resumed m f = (case m of Inr (Incomplete, t) \<Rightarrow> f t | _ \<Rightarrow> m)"

lemma resumed_simps [simp]:
  "resumed (Inl x) f = Inl x" "resumed (Inr (Complete z, t)) f = Inr (Complete z, t)"
  "resumed (Inr (Incomplete, t)) f = f t"
  by (simp_all add: resumed_def)

text \<open>Where a suspended scan stands: inside a symbol it has seen every byte before its position.\<close>

definition nested_ok :: "bytes \<Rightarrow> list_scan \<Rightarrow> bool" where
  "nested_ok r s \<longleftrightarrow> (child_symbols_left s > 0 \<longrightarrow> ls_pos s \<le> length r)"

definition resume_law :: "bytes \<Rightarrow> bytes \<Rightarrow> nat \<Rightarrow> nat \<Rightarrow> list_scan \<Rightarrow> bool" where
  "resume_law r e T n s \<longleftrightarrow>
     advance_nested (r @ e) T n s = resumed (advance_nested r T n s) (\<lambda>t. advance_nested (r @ e) T (the (rows_left t)) t)
     \<and> (\<forall>x t. advance_nested r T n s = Inr (x, t) \<longrightarrow>
           nested_ok r t \<and> ls_k_type t = ls_k_type s \<and> rows_left t \<noteq> None)"

lemma resume_law_step:
  assumes "resume_law r e T n' s'" "ls_k_type s' = ls_k_type s"
    and "advance_nested r T n s = advance_nested r T n' s'"
    and "advance_nested (r @ e) T n s = advance_nested (r @ e) T n' s'"
  shows "resume_law r e T n s"
  using assms(1) unfolding resume_law_def assms(2-4) .

lemma resume_law_error:
  "advance_nested r T n s = Inl x \<Longrightarrow> advance_nested (r @ e) T n s = Inl x \<Longrightarrow> resume_law r e T n s"
  by (simp add: resume_law_def)

lemma resume_law_suspended:
  assumes "advance_nested r T n s = Inr (Incomplete, t)" "rows_left t = Some m"
    and "advance_nested (r @ e) T n s = advance_nested (r @ e) T m t" "nested_ok r t" "ls_k_type t = ls_k_type s"
  shows "resume_law r e T n s"
  using assms by (simp add: resume_law_def)

lemma advance_nested_resume:
  assumes len: "length (r @ e) < usize_limit - 16"
    and T: "T = length (r @ e)"
  shows "nested_ok r s \<Longrightarrow> resume_law r e T n s"
proof (induction "2 * n + (if child_symbols_left s = 0 then 1 else 0)" arbitrary: n s rule: less_induct)
  case (less n s)
  note ok = less.prems
  show ?case
  proof (cases "n = 0")
    case True
    then show ?thesis using ok
      by (auto simp: advance_nested.simps [of _ T 0] nested_ok_def resume_law_def)
  next
    case n: False
    show ?thesis
    proof (cases "child_symbols_left s > 0")
      case csl: True
      then have pos: "ls_pos s \<le> length r" using ok by (simp add: nested_ok_def)
      let ?m = "child_symbols_left s"
      note sr = scan_symbols_resume [OF pos, of e ?m, folded T]
      show ?thesis
      proof (cases "scan_symbols r T ?m (ls_pos s)")
        case (Inl x)
        then show ?thesis using n csl sr
          by (intro resume_law_error) (simp_all add: advance_nested.simps [of _ T n s])
      next
        case (Inr y)
        obtain x q m where y: "y = (x, q, m)" by (cases y) auto
        let ?t = "s\<lparr>ls_pos := q, child_symbols_left := m\<rparr>"
        note sp = scan_symbols_pos [OF pos Inr [unfolded y]]
        show ?thesis
        proof (cases x)
          case Incomplete
          then have "advance_nested r T n s = Inr (Incomplete, ?t\<lparr>rows_left := Some n\<rparr>)"
            using n csl Inr y by (simp add: advance_nested.simps [of r T n s] Let_def)
          moreover have "advance_nested (r @ e) T n s = advance_nested (r @ e) T n ?t"
          proof -
            have "scan_symbols (r @ e) T ?m (ls_pos s) = scan_symbols (r @ e) T m q"
              using sr Inr y Incomplete by simp
            moreover have "0 < m" using sp Incomplete by simp
            ultimately show ?thesis using n csl
              by (simp add: advance_nested.simps [of "r @ e" T n s] advance_nested.simps [of "r @ e" T n ?t] Let_def)
          qed
          ultimately show ?thesis using sp Incomplete
            by (intro resume_law_suspended [of r T n s "?t\<lparr>rows_left := Some n\<rparr>" n]) (simp_all add: advance_nested_rows nested_ok_def)
        next
          case (Complete z)
          then have m: "m = 0" "x \<noteq> Incomplete" using sp by auto
          have "advance_nested r T n s = advance_nested r T (n - 1) ?t"
            "advance_nested (r @ e) T n s = advance_nested (r @ e) T (n - 1) ?t"
            using n csl Inr y sr Complete by (simp_all add: advance_nested.simps [of _ T n s] Let_def)
          moreover have "resume_law r e T (n - 1) ?t"
            using n csl m by (intro less.hyps) (simp_all add: nested_ok_def)
          ultimately show ?thesis by - (rule resume_law_step, assumption, simp, assumption+)
        qed
      qed
    next
      case csl: False
      then have c0: "child_symbols_left s = 0" by simp
      note nr = next_element_resume [OF len, of n s, folded T]
      show ?thesis
      proof (cases "next_element r T n s")
        case (Inl x)
        then show ?thesis using n csl nr
          by (intro resume_law_error) (simp_all add: advance_nested.simps [of _ T n s])
      next
        case (Inr y)
        note sh = next_element_shape [OF Inr c0]
        show ?thesis
        proof (cases y)
          case (Row u)
          then have "advance_nested r T n s = advance_nested r T (n - 1) u"
            "advance_nested (r @ e) T n s = advance_nested (r @ e) T (n - 1) u"
            using n csl Inr nr by (simp_all add: advance_nested.simps [of _ T n s])
          moreover have "resume_law r e T (n - 1) u"
            using n c0 sh Row by (intro less.hyps) (simp_all add: nested_ok_def)
          moreover have "ls_k_type u = ls_k_type s" using sh Row by simp
          ultimately show ?thesis by - (rule resume_law_step)
        next
          case (Symbols u)
          then have "advance_nested r T n s = advance_nested r T n u"
            "advance_nested (r @ e) T n s = advance_nested (r @ e) T n u"
            using n csl Inr nr by (simp_all add: advance_nested.simps [of _ T n s])
          moreover have "resume_law r e T n u"
            using n c0 sh Symbols by (intro less.hyps) (simp_all add: nested_ok_def)
          moreover have "ls_k_type u = ls_k_type s" using sh Symbols by simp
          ultimately show ?thesis by - (rule resume_law_step)
        next
          case (Suspend u)
          have run: "advance_nested r T n s = Inr (Incomplete, u)"
            using n csl Inr Suspend by (simp add: advance_nested.simps [of r T n s])
          obtain m where m: "rows_left u = Some m" "advance_nested (r @ e) T n s = advance_nested (r @ e) T m u"
            using nr unfolding Inr Suspend sum.case nested_next.case
          proof (elim disjE exE conjE)
            fix t' assume a: "next_element (r @ e) T n s = Inr (Row t')" "u = t'\<lparr>rows_left := Some (n - 1)\<rparr>"
            then have "advance_nested (r @ e) T n s = advance_nested (r @ e) T (n - 1) t'"
              using n csl by (simp add: advance_nested.simps [of _ T n s])
            then show ?thesis using a(2) by (intro that [of "n - 1"]) (simp_all add: advance_nested_rows)
          next
            assume "u = s\<lparr>rows_left := Some n\<rparr>"
            then show ?thesis by (intro that [of n]) (simp_all add: advance_nested_rows)
          qed
          then show ?thesis using run sh Suspend
            by (intro resume_law_suspended [of r T n s u m]) (simp_all add: nested_ok_def)
        qed
      qed
    qed
  qed
qed


definition scan_ok :: "bytes \<Rightarrow> list_scan \<Rightarrow> bool" where
  "scan_ok r s \<longleftrightarrow> rows_left s = None \<and> child_symbols_left s = 0 \<or> rows_left s \<noteq> None \<and>
     ((ls_k_type s = 11 \<longrightarrow> ls_pos s \<le> length r) \<and> (ls_k_type s = 0 \<longrightarrow> nested_ok r s))"

lemma advance_body_resume:
  assumes len: "length (r @ e) < usize_limit - 16" and ok: "scan_ok r s" and rows: "rows_left s \<noteq> None"
  shows "advance_body (r @ e) (length (r @ e)) s
       = resumed (advance_body r (length (r @ e)) s) (advance (r @ e) (length (r @ e)))"
    "advance_body r (length (r @ e)) s = Inr (x, t) \<Longrightarrow> scan_ok r t \<and> rows_left t \<noteq> None"
proof -
  obtain n where n: "rows_left s = Some n" using rows by auto
  let ?T = "length (r @ e)"
  show "advance_body (r @ e) ?T s = resumed (advance_body r ?T s) (advance (r @ e) ?T)"
  proof (cases "ls_k_type s = 11")
    case True
    then have p: "ls_pos s \<le> length r" using ok n by (simp add: scan_ok_def)
    show ?thesis
    proof (cases "scan_symbols r ?T n (ls_pos s)")
      case (Inl y)
      then show ?thesis using True n scan_symbols_resume [OF p, of e n] by (simp add: advance_body_def)
    next
      case (Inr y)
      obtain z q m where y: "y = (z, q, m)" by (cases y) auto
      then show ?thesis using True n Inr scan_symbols_resume [OF p, of e n]
        by (cases z) (simp_all add: advance_body_def advance_def)
    qed
  next
    case False
    show ?thesis
    proof (cases "ls_k_type s = 0")
      case True
      then have "resume_law r e ?T n s"
        using ok n by (intro advance_nested_resume [OF len refl]) (simp add: scan_ok_def)
      then show ?thesis using True n
        by (cases "advance_nested r ?T n s") (auto simp: resume_law_def resumed_def advance_body_def advance_def split: scan_outcome.splits)
    next
      case no: False
      then show ?thesis using False n by (simp add: advance_body_def advance_def)
    qed
  qed
  show "scan_ok r t \<and> rows_left t \<noteq> None" if a: "advance_body r ?T s = Inr (x, t)"
  proof (cases "ls_k_type s = 0")
    case True
    then have "resume_law r e ?T n s"
      using ok n by (intro advance_nested_resume [OF len refl]) (simp add: scan_ok_def)
    then show ?thesis using True n a by (auto simp: resume_law_def advance_body_def scan_ok_def)
  next
    case False
    then show ?thesis using ok n a scan_symbols_pos [of "ls_pos s" r ?T n]
      by (auto simp: advance_body_def scan_ok_def rbind_pair_iff split: if_split_asm)
  qed
qed

lemma scan_header_shape:
  "scan_header r T s = Inr t \<Longrightarrow> scan_ok r t \<and> rows_left t \<noteq> None"
  if "child_symbols_left s = 0"
  using that take_list_length_pos [of r "ls_pos s"]
  by (auto simp: scan_header_def scan_ok_def nested_ok_def rbind_pair_iff rbind_Inr_iff split: if_split_asm)


lemma scan_header_prefix:
  "ls_pos s + 5 \<le> length r \<Longrightarrow> scan_header (r @ e) T s = scan_header r T s"
  by (simp add: scan_header_def take_list_length_prefix)

text \<open>
  The contract between a scan and whoever drives it while bytes arrive: an unfinished call leaves a
  state from which the complete body gives what it would have given before the call.
\<close>

locale resumable_scan =
  fixes step :: "bytes \<Rightarrow> nat \<Rightarrow> 's \<Rightarrow> (scan_outcome \<times> 's) xresult"
    and ok :: "bytes \<Rightarrow> 's \<Rightarrow> bool"
  assumes resume: "length (r @ e) < usize_limit - 16 \<Longrightarrow> ok r s \<Longrightarrow>
      step (r @ e) (length (r @ e)) s = resumed (step r (length (r @ e)) s) (step (r @ e) (length (r @ e)))"
    and keeps: "length (r @ e) < usize_limit - 16 \<Longrightarrow> ok r s \<Longrightarrow>
      step r (length (r @ e)) s = Inr (x, t) \<Longrightarrow> ok r t"
    and more: "ok r s \<Longrightarrow> ok (r @ e) s"
begin

lemma prefix_run:
  assumes "length body < usize_limit - 16" "ok (take c body) s"
  shows "step body (length body) s = resumed (step (take c body) (length body) s) (step body (length body))"
  using resume [of "take c body" "drop c body" s] assms by simp

lemma prefix_state:
  assumes "length body < usize_limit - 16" "ok (take c body) s" "step (take c body) (length body) s = Inr (x, t)"
    and "c \<le> d"
  shows "ok (take d body) t"
proof -
  have "ok (take c body) t"
    using keeps [of "take c body" "drop c body" s x t] assms(1-3) by simp
  then have "ok (take c body @ drop c (take d body)) t" by (rule more)
  moreover have "take c body @ drop c (take d body) = take d body"
    using append_take_drop_id [of c "take d body"] assms(4) by (simp add: min_absorb1)
  ultimately show ?thesis by simp
qed

end

lemma advance_resume:
  assumes len: "length (r @ e) < usize_limit - 16" and ok: "scan_ok r s"
  shows "advance (r @ e) (length (r @ e)) s
       = resumed (advance r (length (r @ e)) s) (advance (r @ e) (length (r @ e)))"
    "advance r (length (r @ e)) s = Inr (x, t) \<Longrightarrow> scan_ok r t"
proof -
  let ?T = "length (r @ e)"
  have "advance (r @ e) ?T s = resumed (advance r ?T s) (advance (r @ e) ?T)
      \<and> (advance r ?T s = Inr (x, t) \<longrightarrow> scan_ok r t)"
  proof (cases "rows_left s = None \<and> ls_pos s + 5 > length r")
    case True
    then show ?thesis using len ok
      by (auto simp: advance_def saturating_small incomplete_or_overrun_def Let_def)
  next
    case False
    show ?thesis
    proof (cases "rows_left s")
      case (Some n)
      then show ?thesis using advance_body_resume [OF len ok] by (auto simp: advance_def [of _ _ s])
    next
      case None
      with False have p: "ls_pos s + 5 \<le> length r" by simp
      have a: "advance r' ?T s = rbind (scan_header r ?T s) (advance_body r' ?T)" if "r' = r \<or> r' = r @ e" for r'
        using that None p len by (auto simp: advance_def saturating_small Let_def scan_header_prefix)
      show ?thesis
      proof (cases "scan_header r ?T s")
        case (Inl y)
        then show ?thesis by (simp add: a del: length_append)
      next
        case (Inr u)
        have "child_symbols_left s = 0" using ok None by (simp add: scan_ok_def)
        then have u: "scan_ok r u" "rows_left u \<noteq> None" using scan_header_shape [OF _ Inr] by auto
        have b: "advance r' ?T s = advance_body r' ?T u" if "r' = r \<or> r' = r @ e" for r'
          using a [OF that] Inr by simp
        have "advance (r @ e) ?T s = advance_body (r @ e) ?T u" "advance r ?T s = advance_body r ?T u"
          by (rule b; simp)+
        then show ?thesis using advance_body_resume [OF len u] by metis
      qed
    qed
  qed
  then show "advance (r @ e) ?T s = resumed (advance r ?T s) (advance (r @ e) ?T)"
    "advance r ?T s = Inr (x, t) \<Longrightarrow> scan_ok r t" by auto
qed

interpretation list_scanner: resumable_scan advance scan_ok
  by unfold_locales (use advance_resume in blast, use advance_resume in blast, auto simp: scan_ok_def nested_ok_def)

text \<open>What a scanner of a completely received body may observe: increasing counts within the body.\<close>

definition progress_ok :: "nat \<Rightarrow> nat \<Rightarrow> progress \<Rightarrow> bool" where
  "progress_ok total_len least p \<longleftrightarrow> snd p \<and> sorted (fst p) \<and> (\<forall>c\<in>set (fst p). least \<le> c \<and> c \<le> total_len)"

lemma next_count_ok:
  assumes "progress_ok t l p" "needed \<le> t" "l \<le> t"
  shows "\<exists>c p'. next_count t needed p = Inr (c, p') \<and> max l needed \<le> c \<and> c \<le> t \<and> progress_ok t c p'"
  using assms
proof (induction t needed p rule: next_count.induct)
  case (2 t needed count counts completes)
  show ?case
  proof (cases "count < needed")
    case True
    then have "progress_ok t l (counts, completes)" using 2(2) by (simp add: progress_ok_def)
    then show ?thesis using 2(1,3,4) True by simp
  next
    case False
    then show ?thesis using 2 by (auto simp: progress_ok_def)
  qed
qed (simp add: progress_ok_def)

definition outcome_end :: "scan_outcome \<times> list_scan \<Rightarrow> nat xresult" where
  "outcome_end r = (case fst r of Complete z \<Rightarrow> Inr z | Incomplete \<Rightarrow> Inl DeserializationErr)"

text \<open>A streamed scan that agrees with the result of scanning the complete body.\<close>

definition scans_to :: "nat xresult \<Rightarrow> nat \<Rightarrow> nat \<Rightarrow> (nat \<times> progress) xresult \<Rightarrow> bool" where
  "scans_to full total_len least r \<longleftrightarrow> (case full of
       Inl e \<Rightarrow> r = Inl e
     | Inr z \<Rightarrow> \<exists>c p. r = Inr (z, p) \<and> least \<le> c \<and> c \<le> total_len \<and> progress_ok total_len c p)"

lemma scans_to_mono: "scans_to full t c r \<Longrightarrow> l \<le> c \<Longrightarrow> scans_to full t l r"
proof (cases full)
  case (Inr z)
  assume "scans_to full t c r" "l \<le> c"
  then obtain d p where "r = Inr (z, p)" "l \<le> d" "d \<le> t" "progress_ok t d p"
    using Inr by (auto simp: scans_to_def intro: order.trans)
  then show ?thesis using Inr by (auto simp: scans_to_def)
qed (simp add: scans_to_def)

lemma scan_loop_full:
  assumes len: "length body < usize_limit - 16"
  shows "scan_ok (take count body) s \<Longrightarrow> progress_ok (length body) count p \<Longrightarrow> count \<le> length body \<Longrightarrow>
    scans_to (rbind (advance body (length body) s) outcome_end) (length body) count (scan_loop body count p s)"
proof (induction "length body - count" arbitrary: count p s rule: less_induct)
  case less
  note ok = less.prems(1)
  note run = list_scanner.prefix_run [OF len ok]
  note step = scan_loop.simps [of body count p s]
  show ?case
  proof (cases "advance (take count body) (length body) s")
    case (Inl x)
    then show ?thesis using run step by (simp add: scans_to_def)
  next
    case (Inr y)
    obtain x t where y: "y = (x, t)" by (cases y)
    show ?thesis
    proof (cases x)
      case (Complete z)
      then have "scan_loop body count p s = Inr (z, p)" "rbind (advance body (length body) s) outcome_end = Inr z"
        using run Inr y step by (simp_all add: outcome_end_def)
      then show ?thesis using less.prems by (auto simp: scans_to_def)
    next
      case Incomplete
      show ?thesis
      proof (cases "count < length body")
        case False
        then have "rbind (advance body (length body) s) outcome_end = Inl DeserializationErr"
          "scan_loop body count p s = Inl DeserializationErr"
          using Inr y Incomplete step less.prems(3) by (simp_all add: wait_for_def outcome_end_def)
        then show ?thesis by (simp add: scans_to_def)
      next
        case True
        then obtain c p' where c: "next_count (length body) (count + 1) p = Inr (c, p')" "count < c"
          "c \<le> length body" "progress_ok (length body) c p'"
          using next_count_ok [OF less.prems(2), of "count + 1"] by auto
        have "scan_ok (take c body) t"
          using list_scanner.prefix_state [OF len ok] Inr y c(2) by simp
        moreover have "advance body (length body) s = advance body (length body) t"
          using run Inr y Incomplete by simp
        moreover have "scan_loop body count p s = scan_loop body c p' t"
          using Inr y Incomplete step True c(1) by (simp add: wait_for_def)
        moreover have "length body - c < length body - count" using c(2) True by simp
        ultimately show ?thesis using less.hyps [of c t p'] c scans_to_mono [of _ _ c _ count] by simp
      qed
    qed
  qed
qed

lemma list_scan_new_ok: "list_scan_new k_type start_pos = Inr s \<Longrightarrow> scan_ok r s"
  by (auto simp: list_scan_new_def scan_ok_def Let_def split: if_split_asm)

text \<open>
  Scanning a list whose bytes arrive in any order of observations gives the end of the list in the
  complete body, or its error.
\<close>

lemma scan_to_end_full:
  assumes len: "length body < usize_limit - 16" and p: "progress_ok (length body) l p" "l \<le> length body"
  shows "scans_to (calculate_array_end_index body start_pos k_type) (length body) l
    (rbind (list_scan_new k_type start_pos) (\<lambda>s. scan_to_end body s p))"
proof (cases "list_scan_new k_type start_pos")
  case (Inl x)
  then show ?thesis by (simp add: calculate_array_end_index_def scans_to_def)
next
  case (Inr s)
  obtain c p' where c: "next_count (length body) 0 p = Inr (c, p')" "l \<le> c" "c \<le> length body"
    "progress_ok (length body) c p'"
    using next_count_ok [OF p(1) _ p(2), of 0] by auto
  have "calculate_array_end_index body start_pos k_type = rbind (advance body (length body) s) outcome_end"
    using Inr by (auto simp: calculate_array_end_index_def outcome_end_def split_def intro: rbind_cong)
  moreover have "scan_to_end body s p = scan_loop body c p' s"
    using c(1) by (simp add: scan_to_end_def snapshot_def)
  ultimately show ?thesis
    using scan_loop_full [OF len list_scan_new_ok [OF Inr] c(4,3)] Inr c(2) scans_to_mono [of _ _ c _ l] by simp
qed

text \<open>
  C4: scanning a list while its frame is still arriving, resumed at every wake-up with however many
  bytes have been published, ends where one scan of the complete body ends, with the same error when
  the list is malformed, whatever increasing sequence of byte counts the scanner observes.
\<close>
theorem streamed_scan_is_full_scan:
  assumes "length body < usize_limit - 16" "sorted counts" "\<forall>c\<in>set counts. c \<le> length body"
  shows "rbind (rbind (list_scan_new k_type start_pos) (\<lambda>s. scan_to_end body s (counts, True))) (\<lambda>(end, _). Inr end)
    = calculate_array_end_index body start_pos k_type"
  using scan_to_end_full [OF assms(1), where l = 0 and p = "(counts, True)" and k_type = k_type and start_pos = start_pos]
    assms(2,3)
  by (auto simp: progress_ok_def scans_to_def split: sum.splits)

theorem streamed_scan_is_full_scan_witness:
  "rbind (rbind (list_scan_new 11 0) (\<lambda>s. scan_to_end [0, 2, 0, 0, 0, 97, 0, 98, 0] s ([3, 6], True))) (\<lambda>(end, _). Inr end)
     = calculate_array_end_index [0, 2, 0, 0, 0, 97, 0, 98, 0] 0 11"
  using streamed_scan_is_full_scan [of "[0, 2, 0, 0, 0, 97, 0, 98, 0]" "[3, 6]" 11 0] by simp

end
