(* ===== verification/Ieee754.thy ===== *)
theory Ieee754
  imports Prelude
begin

text \<open>
  The binary floating-point numbers the serializer handles, as their IEEE 754 bit patterns:
  classification of \<open>f32\<close> and \<open>f64\<close> values, and the few \<open>f64\<close> operations of \<open>serde6.rs\<close>
  (multiplication, division, subtraction, \<open>round\<close> and the conversions from and to \<open>i64\<close>),
  each as the exact rational result rounded to nearest, ties to even.
\<close>

type_synonym f32 = "32 word"
type_synonym f64 = "64 word"

definition f32_is_nan :: "f32 \<Rightarrow> bool" where
  "f32_is_nan w \<longleftrightarrow> unat w mod 0x80000000 > 0x7F800000"

definition f64_is_nan :: "f64 \<Rightarrow> bool" where
  "f64_is_nan w \<longleftrightarrow> unat w mod 0x8000000000000000 > 0x7FF0000000000000"

definition f64_is_finite :: "f64 \<Rightarrow> bool" where
  "f64_is_finite w \<longleftrightarrow> unat w mod 0x8000000000000000 < 0x7FF0000000000000"

text \<open>The quiet NaN that \<open>f32::NAN\<close> and \<open>f64::NAN\<close> denote.\<close>

definition F32_NAN :: f32 where "F32_NAN = 0x7FC00000"
definition F64_NAN :: f64 where "F64_NAN = 0x7FF8000000000000"

section \<open>Values\<close>

text \<open>A finite number is \<open>(-1) ^ sign * mantissa * 2 ^ (exponent - 1074)\<close>.\<close>

definition f64_sign :: "f64 \<Rightarrow> bool" where
  "f64_sign w \<longleftrightarrow> unat w \<ge> 0x8000000000000000"

definition f64_mantissa :: "f64 \<Rightarrow> nat" where
  "f64_mantissa w =
     (let f = unat w mod 0x10000000000000; e = unat w div 0x10000000000000 mod 2048
      in if e = 0 then f else f + 0x10000000000000)"

definition f64_exponent :: "f64 \<Rightarrow> nat" where
  "f64_exponent w = (let e = unat w div 0x10000000000000 mod 2048 in if e = 0 then 0 else e - 1)"

text \<open>Numerator and denominator of the value, the denominator a power of two.\<close>

definition f64_num :: "f64 \<Rightarrow> int" where
  "f64_num w = (if f64_sign w then -1 else 1) * int (f64_mantissa w) * 2 ^ (f64_exponent w - 1074)"

definition f64_den :: "f64 \<Rightarrow> nat" where
  "f64_den w = 2 ^ (1074 - f64_exponent w)"

section \<open>Rounding\<close>

fun bit_length :: "nat \<Rightarrow> nat" where
  "bit_length n = (if n = 0 then 0 else Suc (bit_length (n div 2)))"

declare bit_length.simps [simp del]

text \<open>The quotient rounded to nearest, ties to even.\<close>

definition div_nearest_even :: "nat \<Rightarrow> nat \<Rightarrow> nat" where
  "div_nearest_even n d =
     (let q = n div d; r = n mod d in
      if 2 * r > d \<or> 2 * r = d \<and> odd q then q + 1 else q)"

text \<open>
  The scale \<open>k\<close> of a result: the smallest with \<open>n / d < 2 ^ 53 * 2 ^ (k - 1074)\<close>, at least 0.
\<close>

definition f64_scale :: "nat \<Rightarrow> nat \<Rightarrow> nat" where
  "f64_scale n d =
     (let k = bit_length n + 1021 - bit_length d in
      if n * 2 ^ 1074 < d * 2 ^ (53 + k) then k else Suc k)"

text \<open>\<open>n / d\<close> rounded to an \<open>f64\<close>; what is too large becomes infinite.\<close>

definition f64_of_ratio :: "bool \<Rightarrow> nat \<Rightarrow> nat \<Rightarrow> f64" where
  "f64_of_ratio negative n d =
     (let k = f64_scale n d;
          m = div_nearest_even (n * 2 ^ 1074) (d * 2 ^ k);
          bits = (if m < 0x10000000000000 then m else k * 0x10000000000000 + m);
          magnitude = min bits 0x7FF0000000000000
      in of_nat (magnitude + (if negative then 0x8000000000000000 else 0)))"

section \<open>Operations on finite numbers\<close>

definition f64_mul :: "f64 \<Rightarrow> f64 \<Rightarrow> f64" where
  "f64_mul a b = f64_of_ratio (f64_sign a \<noteq> f64_sign b)
     (nat \<bar>f64_num a * f64_num b\<bar>) (f64_den a * f64_den b)"

definition f64_div :: "f64 \<Rightarrow> f64 \<Rightarrow> f64" where
  "f64_div a b = f64_of_ratio (f64_sign a \<noteq> f64_sign b)
     (nat \<bar>f64_num a\<bar> * f64_den b) (f64_den a * nat \<bar>f64_num b\<bar>)"

text \<open>A zero difference of different operands is positive.\<close>

definition f64_sub :: "f64 \<Rightarrow> f64 \<Rightarrow> f64" where
  "f64_sub a b =
     (let n = f64_num a * int (f64_den b) - f64_num b * int (f64_den a)
      in f64_of_ratio (n < 0 \<or> n = 0 \<and> f64_sign a \<and> \<not> f64_sign b) (nat \<bar>n\<bar>) (f64_den a * f64_den b))"

definition f64_of_int :: "int \<Rightarrow> f64" where
  "f64_of_int i = f64_of_ratio (i < 0) (nat \<bar>i\<bar>) 1"

text \<open>\<open>f64::round\<close>: to the nearest integer, halves away from zero; infinities are kept.\<close>

definition f64_round :: "f64 \<Rightarrow> f64" where
  "f64_round a =
     (if f64_is_finite a
      then f64_of_ratio (f64_sign a) ((2 * nat \<bar>f64_num a\<bar> + f64_den a) div (2 * f64_den a)) 1
      else a)"

text \<open>\<open>value as i64\<close> of a finite number in range: truncation towards zero.\<close>

definition f64_trunc :: "f64 \<Rightarrow> int" where
  "f64_trunc a = (if f64_sign a then - 1 else 1) * int (nat \<bar>f64_num a\<bar> div f64_den a)"

section \<open>Single precision\<close>

text \<open>A finite number is \<open>(-1) ^ sign * mantissa * 2 ^ (exponent - 149)\<close>.\<close>

definition f32_sign :: "f32 \<Rightarrow> bool" where
  "f32_sign w \<longleftrightarrow> unat w \<ge> 0x80000000"

definition f32_is_finite :: "f32 \<Rightarrow> bool" where
  "f32_is_finite w \<longleftrightarrow> unat w mod 0x80000000 < 0x7F800000"

definition f32_mantissa :: "f32 \<Rightarrow> nat" where
  "f32_mantissa w =
     (let f = unat w mod 0x800000; e = unat w div 0x800000 mod 256 in if e = 0 then f else f + 0x800000)"

definition f32_exponent :: "f32 \<Rightarrow> nat" where
  "f32_exponent w = (let e = unat w div 0x800000 mod 256 in if e = 0 then 0 else e - 1)"

text \<open>\<open>value as f64\<close>: exact for a finite value; a NaN becomes the quiet NaN.\<close>

definition f64_of_f32 :: "f32 \<Rightarrow> f64" where
  "f64_of_f32 w =
     (if f32_is_nan w then F64_NAN
      else if \<not> f32_is_finite w then (if f32_sign w then 0xFFF0000000000000 else 0x7FF0000000000000)
      else f64_of_ratio (f32_sign w) (f32_mantissa w * 2 ^ f32_exponent w) (2 ^ 149))"

definition f32_scale :: "nat \<Rightarrow> nat \<Rightarrow> nat" where
  "f32_scale n d =
     (let k = bit_length n + 125 - bit_length d in
      if n * 2 ^ 149 < d * 2 ^ (24 + k) then k else Suc k)"

definition f32_of_ratio :: "bool \<Rightarrow> nat \<Rightarrow> nat \<Rightarrow> f32" where
  "f32_of_ratio negative n d =
     (let k = f32_scale n d;
          m = div_nearest_even (n * 2 ^ 149) (d * 2 ^ k);
          bits = (if m < 0x800000 then m else k * 0x800000 + m);
          magnitude = min bits 0x7F800000
      in of_nat (magnitude + (if negative then 0x80000000 else 0)))"

text \<open>\<open>value as f32\<close>: rounded to nearest, ties to even.\<close>

definition f32_of_f64 :: "f64 \<Rightarrow> f32" where
  "f32_of_f64 w =
     (if f64_is_nan w then F32_NAN
      else if \<not> f64_is_finite w then (if f64_sign w then 0xFF800000 else 0x7F800000)
      else f32_of_ratio (f64_sign w) (nat \<bar>f64_num w\<bar>) (f64_den w))"

section \<open>Examples that fix the bit patterns\<close>

lemmas f64_defs = f64_sign_def f64_mantissa_def f64_exponent_def f64_num_def f64_den_def
  div_nearest_even_def f64_scale_def f64_of_ratio_def f64_mul_def f64_div_def f64_sub_def
  f64_of_int_def f64_round_def f64_trunc_def f64_is_finite_def

end
