(* ===== verification/KTypes.thy ===== *)
theory KTypes
  imports QValue Ieee754
begin

text \<open>
  Native values: the enumeration \<open>K\<close> of \<open>crates/xqdb/src/types.rs\<close>, the Polars series and frames
  it carries, the conversion of one series element to a \<open>K\<close> and the sizes the serializer
  announces (\<open>j6_len\<close>, \<open>get_series_len\<close>). A series is one chunk: its name and its column, the logical
  values of an Arrow array with \<open>None\<close> for a null. Machine integers are words, read as signed
  numbers by \<open>sint\<close>; floats are their bit patterns; a date is its day number (day 1 is 1 January of
  year 1), a timestamp and a duration are nanoseconds, a time is seconds after midnight and
  nanoseconds of the second. Categorical columns are shown by the symbols of their rows.
\<close>

section \<open>Signed machine integers\<close>

definition checked_i32 :: "int \<Rightarrow> int option" where
  "checked_i32 i = (if -2147483648 \<le> i \<and> i \<le> 2147483647 then Some i else None)"

definition checked_i64 :: "int \<Rightarrow> int option" where
  "checked_i64 i = (if -9223372036854775808 \<le> i \<and> i \<le> 9223372036854775807 then Some i else None)"

definition I16_MIN :: "16 word" where "I16_MIN = 0x8000"
definition I16_MAX :: "16 word" where "I16_MAX = 0x7FFF"
definition I32_MIN :: "32 word" where "I32_MIN = 0x80000000"
definition I32_MAX :: "32 word" where "I32_MAX = 0x7FFFFFFF"
definition I64_MIN :: "64 word" where "I64_MIN = 0x8000000000000000"
definition I64_MAX :: "64 word" where "I64_MAX = 0x7FFFFFFFFFFFFFFF"

section \<open>Series, frames and values\<close>

datatype time_unit = Nanoseconds | Microseconds | Milliseconds

text \<open>
  The data types of the series the client handles. A list column has the validity of its rows, the
  offsets of its rows and the flat child values; an array column has its width instead of offsets.
  \<open>OtherCol\<close> stands for every data type the client refuses.
\<close>

datatype column =
    BooleanCol "bool option list"
  | UInt8Col "byte option list"
  | Int16Col "16 word option list"
  | Int32Col "32 word option list"
  | Int64Col "64 word option list"
  | Float32Col "f32 option list"
  | Float64Col "f64 option list"
  | StringCol "bytes option list"
  | BinaryCol "bytes option list"
  | CategoricalCol "bytes option list"
  | DateCol "32 word option list"
  | DatetimeCol time_unit "64 word option list"
  | DurationCol time_unit "64 word option list"
  | TimeCol "64 word option list"
  | ListCol "bool list" "int list" column
  | ArrayCol nat "bool list" column
  | NullCol nat
  | OtherCol nat

record series =
  s_name :: bytes
  s_data :: column

datatype k =
    KBoolean bool
  | KGuid bytes
  | KU8 byte
  | KI16 "16 word"
  | KI32 "32 word"
  | KI64 "64 word"
  | KF32 f32
  | KF64 f64
  | KChar byte
  | KCharVector bytes
  | KSymbol bytes
  | KString bytes
  | KDateTime int
  | KDate int
  | KTime nat nat
  | KDuration int
  | KMixedList "k list"
  | KSeries series
  | KDataFrame "series list"
  | KDict "(bytes \<times> k) list"
  | KQValue qvalue
  | KOperator qoperator
  | KLambda qlambda
  | KNull

lemma k_size_members:
  "x \<in> set vs \<Longrightarrow> size x < size (KMixedList vs)"
  "p \<in> set d \<Longrightarrow> size (snd p) < size (KDict d)"
proof -
  show "x \<in> set vs \<Longrightarrow> size x < size (KMixedList vs)"
    using size_list_estimation' [of x vs "size x" size] by simp
  show "p \<in> set d \<Longrightarrow> size (snd p) < size (KDict d)"
    using size_list_estimation' [of p d "size (snd p)" "size_prod (\<lambda>_. 0) size"] by (cases p) simp
qed

fun column_len :: "column \<Rightarrow> nat" where
  "column_len (BooleanCol vs) = length vs"
| "column_len (UInt8Col vs) = length vs"
| "column_len (Int16Col vs) = length vs"
| "column_len (Int32Col vs) = length vs"
| "column_len (Int64Col vs) = length vs"
| "column_len (Float32Col vs) = length vs"
| "column_len (Float64Col vs) = length vs"
| "column_len (StringCol vs) = length vs"
| "column_len (BinaryCol vs) = length vs"
| "column_len (CategoricalCol vs) = length vs"
| "column_len (DateCol vs) = length vs"
| "column_len (DatetimeCol _ vs) = length vs"
| "column_len (DurationCol _ vs) = length vs"
| "column_len (TimeCol vs) = length vs"
| "column_len (ListCol rows _ _) = length rows"
| "column_len (ArrayCol _ rows _) = length rows"
| "column_len (NullCol n) = n"
| "column_len (OtherCol n) = n"

definition series_len :: "series \<Rightarrow> nat" where
  "series_len s = column_len (s_data s)"

text \<open>\<open>values.iter().flatten()\<close>: the values that are not null.\<close>

definition flatten :: "'a option list \<Rightarrow> 'a list" where
  "flatten vs = map the (filter (\<lambda>v. v \<noteq> None) vs)"

text \<open>\<open>impl TryFrom<K> for Series\<close> and \<open>for DataFrame\<close>.\<close>

fun series_of_k :: "k \<Rightarrow> series xresult" where
  "series_of_k (KSeries s) = Inr s"
| "series_of_k _ = Inl Err"

fun data_frame_of_k :: "k \<Rightarrow> series list xresult" where
  "data_frame_of_k (KDataFrame df) = Inr df"
| "data_frame_of_k _ = Inl Err"

section \<open>One element of a series\<close>

datatype any_value =
    AvNull
  | AvBoolean bool
  | AvString bytes
  | AvUInt8 byte
  | AvInt16 "16 word"
  | AvInt32 "32 word"
  | AvInt64 "64 word"
  | AvFloat32 f32
  | AvFloat64 f64
  | AvBinary bytes
  | AvDate "32 word"
  | AvDatetime "64 word" time_unit
  | AvDuration "64 word" time_unit
  | AvTime "64 word"
  | AvCategorical bytes
  | AvList series
  | AvUnsupported

text \<open>
  What the client needs of the calendar and of the frame library: which day numbers and months
  are dates, and which columns make a frame.
\<close>

record externals =
  from_num_days :: "int \<Rightarrow> int option"
  from_ymd :: "int \<Rightarrow> int \<Rightarrow> int option"
  frame_ok :: "series list \<Rightarrow> bool"
  hstack_ok :: "series list \<Rightarrow> series list \<Rightarrow> bool"

definition unit_multiplier :: "time_unit \<Rightarrow> int" where
  "unit_multiplier u = (case u of Nanoseconds \<Rightarrow> 1 | Microseconds \<Rightarrow> 1000 | Milliseconds \<Rightarrow> 1000000)"

fun try_from_any_value :: "externals \<Rightarrow> any_value \<Rightarrow> k xresult" where
  "try_from_any_value ext AvNull = Inr KNull"
| "try_from_any_value ext (AvBoolean b) = Inr (KBoolean b)"
| "try_from_any_value ext (AvString s) = Inr (KString s)"
| "try_from_any_value ext (AvUInt8 v) = Inr (KU8 v)"
| "try_from_any_value ext (AvInt16 v) = Inr (KI16 v)"
| "try_from_any_value ext (AvInt32 v) = Inr (KI32 v)"
| "try_from_any_value ext (AvInt64 v) = Inr (KI64 v)"
| "try_from_any_value ext (AvFloat32 v) = Inr (KF32 v)"
| "try_from_any_value ext (AvFloat64 v) = Inr (KF64 v)"
| "try_from_any_value ext (AvBinary v) = (if length v = 16 then Inr (KGuid v) else Inl NotAbleToSerializeErr)"
| "try_from_any_value ext (AvDate v) =
     rbind (ok_or (Option.bind (checked_i32 (sint v + 719163)) (from_num_days ext)) NotAbleToSerializeErr)
       (\<lambda>d. Inr (KDate d))"
| "try_from_any_value ext (AvDatetime v u) =
     rbind (ok_or (checked_i64 (sint v * unit_multiplier u)) NotAbleToSerializeErr) (\<lambda>ns. Inr (KDateTime ns))"
| "try_from_any_value ext (AvDuration v u) =
     rbind (ok_or (checked_i64 (sint v * unit_multiplier u)) NotAbleToSerializeErr) (\<lambda>ns. Inr (KDuration ns))"
| "try_from_any_value ext (AvTime v) =
     (if 0 \<le> sint v \<and> sint v < 86400000000000
      then Inr (KTime (nat (sint v) div 1000000000) (nat (sint v) mod 1000000000))
      else Inl NotAbleToSerializeErr)"
| "try_from_any_value ext (AvCategorical s) = rbind (validate_q_symbol s) (\<lambda>_. Inr (KSymbol s))"
| "try_from_any_value ext (AvList s) = Inr (KSeries s)"
| "try_from_any_value ext AvUnsupported = Inl NotAbleToSerializeErr"

text \<open>The rows of a column between two offsets.\<close>

fun column_slice :: "nat \<Rightarrow> nat \<Rightarrow> column \<Rightarrow> column" where
  "column_slice i n (BooleanCol vs) = BooleanCol (take n (drop i vs))"
| "column_slice i n (UInt8Col vs) = UInt8Col (take n (drop i vs))"
| "column_slice i n (Int16Col vs) = Int16Col (take n (drop i vs))"
| "column_slice i n (Int32Col vs) = Int32Col (take n (drop i vs))"
| "column_slice i n (Int64Col vs) = Int64Col (take n (drop i vs))"
| "column_slice i n (Float32Col vs) = Float32Col (take n (drop i vs))"
| "column_slice i n (Float64Col vs) = Float64Col (take n (drop i vs))"
| "column_slice i n (StringCol vs) = StringCol (take n (drop i vs))"
| "column_slice i n (BinaryCol vs) = BinaryCol (take n (drop i vs))"
| "column_slice i n (CategoricalCol vs) = CategoricalCol (take n (drop i vs))"
| "column_slice i n (DateCol vs) = DateCol (take n (drop i vs))"
| "column_slice i n (DatetimeCol u vs) = DatetimeCol u (take n (drop i vs))"
| "column_slice i n (DurationCol u vs) = DurationCol u (take n (drop i vs))"
| "column_slice i n (TimeCol vs) = TimeCol (take n (drop i vs))"
| "column_slice i n (ListCol rows offsets c) = ListCol (take n (drop i rows)) (take (Suc n) (drop i offsets)) c"
| "column_slice i n (ArrayCol w rows c) = ArrayCol w (take n (drop i rows)) (column_slice (w * i) (w * n) c)"
| "column_slice i n (NullCol m) = NullCol (min n (m - i))"
| "column_slice i n (OtherCol m) = OtherCol (min n (m - i))"

definition av :: "('a \<Rightarrow> any_value) \<Rightarrow> 'a option list \<Rightarrow> any_value list" where
  "av f = map (\<lambda>v. case v of None \<Rightarrow> AvNull | Some x \<Rightarrow> f x)"

text \<open>\<open>series.iter()\<close>.\<close>

fun column_iter :: "column \<Rightarrow> any_value list" where
  "column_iter (BooleanCol vs) = av AvBoolean vs"
| "column_iter (UInt8Col vs) = av AvUInt8 vs"
| "column_iter (Int16Col vs) = av AvInt16 vs"
| "column_iter (Int32Col vs) = av AvInt32 vs"
| "column_iter (Int64Col vs) = av AvInt64 vs"
| "column_iter (Float32Col vs) = av AvFloat32 vs"
| "column_iter (Float64Col vs) = av AvFloat64 vs"
| "column_iter (StringCol vs) = av AvString vs"
| "column_iter (BinaryCol vs) = av AvBinary vs"
| "column_iter (CategoricalCol vs) = av AvCategorical vs"
| "column_iter (DateCol vs) = av AvDate vs"
| "column_iter (DatetimeCol u vs) = av (\<lambda>v. AvDatetime v u) vs"
| "column_iter (DurationCol u vs) = av (\<lambda>v. AvDuration v u) vs"
| "column_iter (TimeCol vs) = av AvTime vs"
| "column_iter (ListCol rows offsets c) =
     map (\<lambda>(valid, a, b). if valid
            then AvList \<lparr>s_name = [], s_data = column_slice (nat a) (nat (b - a)) c\<rparr> else AvNull)
       (zip rows (windows2 offsets))"
| "column_iter (ArrayCol w rows c) = replicate (length rows) AvUnsupported"
| "column_iter (NullCol n) = replicate n AvNull"
| "column_iter (OtherCol n) = replicate n AvUnsupported"

section \<open>Type codes\<close>

fun series_type_code :: "column \<Rightarrow> int xresult" where
  "series_type_code (NullCol _) = Inr 0"
| "series_type_code (StringCol _) = Inr 0"
| "series_type_code (ListCol _ _ _) = Inr 0"
| "series_type_code (ArrayCol _ _ _) = Inr 0"
| "series_type_code (BooleanCol _) = Inr 1"
| "series_type_code (BinaryCol _) = Inr 2"
| "series_type_code (UInt8Col _) = Inr 4"
| "series_type_code (Int16Col _) = Inr 5"
| "series_type_code (Int32Col _) = Inr 6"
| "series_type_code (Int64Col _) = Inr 7"
| "series_type_code (Float32Col _) = Inr 8"
| "series_type_code (Float64Col _) = Inr 9"
| "series_type_code (CategoricalCol _) = Inr 11"
| "series_type_code (DatetimeCol u _) = Inr (if u = Milliseconds then 15 else 12)"
| "series_type_code (DateCol _) = Inr 14"
| "series_type_code (DurationCol _ _) = Inr 16"
| "series_type_code (TimeCol _) = Inr 19"
| "series_type_code (OtherCol _) = Inl NotSupportedSeriesTypeErr"

fun try_get_j_type_code :: "k \<Rightarrow> int xresult" where
  "try_get_j_type_code (KSeries s) = series_type_code (s_data s)"
| "try_get_j_type_code (KBoolean _) = Inr (-1)"
| "try_get_j_type_code (KGuid _) = Inr (-2)"
| "try_get_j_type_code (KU8 _) = Inr (-4)"
| "try_get_j_type_code (KI16 _) = Inr (-5)"
| "try_get_j_type_code (KI32 _) = Inr (-6)"
| "try_get_j_type_code (KI64 _) = Inr (-7)"
| "try_get_j_type_code (KF32 _) = Inr (-8)"
| "try_get_j_type_code (KF64 _) = Inr (-9)"
| "try_get_j_type_code (KChar _) = Inr (-10)"
| "try_get_j_type_code (KCharVector _) = Inr 10"
| "try_get_j_type_code (KString _) = Inr 10"
| "try_get_j_type_code (KSymbol _) = Inr (-11)"
| "try_get_j_type_code (KDateTime _) = Inr (-12)"
| "try_get_j_type_code (KDate _) = Inr (-14)"
| "try_get_j_type_code (KDuration _) = Inr (-16)"
| "try_get_j_type_code (KTime _ _) = Inr (-19)"
| "try_get_j_type_code (KMixedList _) = Inr 0"
| "try_get_j_type_code (KDataFrame _) = Inr 98"
| "try_get_j_type_code (KDict _) = Inr 99"
| "try_get_j_type_code (KQValue v) = Inr (qv_type_code v)"
| "try_get_j_type_code (KOperator op) = Inr (uint (op_k_type op))"
| "try_get_j_type_code (KLambda _) = Inr 100"
| "try_get_j_type_code KNull = Inr 101"

end
