(* ===== verification/KLen.thy ===== *)
theory KLen
  imports KTypes
begin

text \<open>
  The size announced for a value before it is serialized: \<open>get_series_len\<close> and \<open>K::j6_len\<close> of
  \<open>crates/xqdb/src/types.rs\<close>, with the checks that refuse what q cannot represent.
\<close>

definition NANOS_DIFF :: int where "NANOS_DIFF = 946684800000000000"
definition DAY_DIFF :: int where "DAY_DIFF = 730120"
definition NANOS_PER_DAY :: int where "NANOS_PER_DAY = 86400000000000"

section \<open>Series\<close>

definition checked_series_size :: "nat \<Rightarrow> nat \<Rightarrow> nat xresult" where
  "checked_series_size len value_width =
     rbind (checked_q_count len) (\<lambda>_.
     ok_or (Option.bind (checked_mul len value_width) (\<lambda>l. checked_add l 6)) OverLengthErr)"

definition checked_nested_series_size :: "nat \<Rightarrow> nat \<Rightarrow> nat \<Rightarrow> nat xresult" where
  "checked_nested_series_size outer_length values_length value_width =
     rbind (checked_q_count outer_length) (\<lambda>_.
     rbind (ok_or (checked_mul values_length value_width) OverLengthErr) (\<lambda>values_size.
     rbind (ok_or (checked_mul outer_length 6) OverLengthErr) (\<lambda>headers_size.
     ok_or (Option.bind (checked_add values_size headers_size) (\<lambda>l. checked_add l 6)) OverLengthErr)))"

text \<open>The number of child values between the first and the last offset of the chunk.\<close>

definition list_values_length :: "int list \<Rightarrow> nat xresult" where
  "list_values_length offsets =
     (if offsets = [] then Inl NotAbleToSerializeErr
      else rbind (ok_or (checked_i64 (last offsets - hd offsets)) NotAbleToSerializeErr) (\<lambda>chunk_length.
        rbind (ok_or (usize_of_int chunk_length) OverLengthErr) (\<lambda>n.
        ok_or (checked_add 0 n) OverLengthErr)))"

definition validate_q_time_series :: "64 word option list \<Rightarrow> unit xresult" where
  "validate_q_time_series vs =
     rfold (\<lambda>nanoseconds _.
       if \<not> (0 \<le> sint nanoseconds \<and> sint nanoseconds < 86400000000000) then Inl NotAbleToSerializeErr
       else if sint nanoseconds mod 1000000 \<noteq> 0 then Inl NotAbleToSerializeErr
       else Inr ()) (flatten vs) ()"

definition validate_guid_series :: "bytes option list \<Rightarrow> unit xresult" where
  "validate_guid_series vs =
     (if list_ex (\<lambda>v. length v \<noteq> 16) (flatten vs) then Inl NotAbleToSerializeErr else Inr ())"

text \<open>\<open>checked_sub(NANOS_DIFF)\<close> within q's finite timestamps.\<close>

definition q_timestamp_nanoseconds :: "int \<Rightarrow> int xresult" where
  "q_timestamp_nanoseconds unix_nanoseconds =
     (case checked_i64 (unix_nanoseconds - NANOS_DIFF) of
        Some v \<Rightarrow> if v > -9223372036854775808 + 1 \<and> v < 9223372036854775807 then Inr v
                  else Inl NotAbleToSerializeErr
      | None \<Rightarrow> Inl NotAbleToSerializeErr)"

definition null_count :: "bool list \<Rightarrow> nat" where
  "null_count rows = length (filter Not rows)"

text \<open>The width of the child values of a list column.\<close>

fun list_value_width :: "column \<Rightarrow> nat xresult" where
  "list_value_width (BooleanCol _) = Inr 1"
| "list_value_width (UInt8Col _) = Inr 1"
| "list_value_width (Int16Col _) = Inr 2"
| "list_value_width (Int32Col _) = Inr 4"
| "list_value_width (Float32Col _) = Inr 4"
| "list_value_width (Int64Col _) = Inr 8"
| "list_value_width (Float64Col _) = Inr 8"
| "list_value_width _ = Inl NotSupportedPolarsNestedListTypeErr"

definition is_boolean_col :: "column \<Rightarrow> bool" where
  "is_boolean_col c = (case c of BooleanCol _ \<Rightarrow> True | _ \<Rightarrow> False)"

definition categorical_len :: "bytes option list \<Rightarrow> nat xresult" where
  "categorical_len vs =
     rbind (checked_q_count (length vs)) (\<lambda>_.
     rfold (\<lambda>category total.
       rbind (case category of
                Some symbol \<Rightarrow> rbind (validate_q_symbol symbol) (\<lambda>_. Inr (length symbol))
              | None \<Rightarrow> Inr 0) (\<lambda>symbol_length.
       ok_or (Option.bind (checked_add total symbol_length) (\<lambda>l. checked_add l 1)) OverLengthErr))
       vs 6)"

fun get_series_len :: "column \<Rightarrow> nat xresult" where
  "get_series_len (NullCol n) = (if n = 0 then checked_series_size n 0 else Inl NotAbleToSerializeErr)"
| "get_series_len (BooleanCol vs) = checked_series_size (length vs) 1"
| "get_series_len (Int16Col vs) = checked_series_size (length vs) 2"
| "get_series_len (Int32Col vs) = checked_series_size (length vs) 4"
| "get_series_len (Int64Col vs) = checked_series_size (length vs) 8"
| "get_series_len (UInt8Col vs) = checked_series_size (length vs) 1"
| "get_series_len (Float32Col vs) = checked_series_size (length vs) 4"
| "get_series_len (Float64Col vs) = checked_series_size (length vs) 8"
| "get_series_len (DatetimeCol u vs) =
     rbind (if u \<noteq> Milliseconds then
              rfold (\<lambda>value _.
                rbind (ok_or (checked_i64 (sint value * unit_multiplier u)) NotAbleToSerializeErr) (\<lambda>ns.
                rbind (q_timestamp_nanoseconds ns) (\<lambda>_. Inr ()))) (flatten vs) ()
            else Inr ()) (\<lambda>_.
     checked_series_size (length vs) 8)"
| "get_series_len (DateCol vs) =
     (if list_ex (\<lambda>days. checked_i32 (sint days - 10957) = None) (flatten vs) then Inl NotAbleToSerializeErr
      else checked_series_size (length vs) 4)"
| "get_series_len (TimeCol vs) =
     rbind (validate_q_time_series vs) (\<lambda>_. checked_series_size (length vs) 4)"
| "get_series_len (DurationCol u vs) =
     (if list_ex (\<lambda>value. checked_i64 (sint value * unit_multiplier u) = None) (flatten vs)
      then Inl NotAbleToSerializeErr else checked_series_size (length vs) 8)"
| "get_series_len (StringCol vs) =
     rbind (rfold (\<lambda>value len.
              rbind (checked_q_count (length value)) (\<lambda>_. ok_or (checked_add len (length value)) OverLengthErr))
              (flatten vs) 0) (\<lambda>value_bytes.
     checked_nested_series_size (length vs) value_bytes 1)"
| "get_series_len (ListCol rows offsets child) =
     (if null_count rows > 0 then Inl NotAbleToSerializeErr
      else rbind (list_values_length offsets) (\<lambda>values_length.
        rbind (list_value_width child) (\<lambda>value_width.
        checked_nested_series_size (length rows) values_length value_width)))"
| "get_series_len (ArrayCol width rows child) =
     (if width = 0 then Inl NotAbleToSerializeErr
      else if null_count rows > 0 then Inl NotAbleToSerializeErr
      else if is_boolean_col child then
        rbind (ok_or (checked_mul (length rows) width) OverLengthErr) (\<lambda>values_length.
        checked_nested_series_size (length rows) values_length 1)
      else Inl NotSupportedPolarsNestedListTypeErr)"
| "get_series_len (BinaryCol vs) =
     rbind (validate_guid_series vs) (\<lambda>_. checked_series_size (length vs) 16)"
| "get_series_len (CategoricalCol vs) = categorical_len vs"
| "get_series_len (OtherCol _) = Inl NotSupportedSeriesTypeErr"

section \<open>Values\<close>

lemma rfold_cong [fundef_cong]:
  "xs = ys \<Longrightarrow> s = t \<Longrightarrow> (\<And>x u. x \<in> set ys \<Longrightarrow> f x u = g x u) \<Longrightarrow> rfold f xs s = rfold g ys t"
proof (induction ys arbitrary: xs s t)
  case (Cons y ys)
  then show ?case by (auto intro!: rbind_cong)
qed simp

definition add_len :: "nat \<Rightarrow> nat \<Rightarrow> nat xresult" where
  "add_len a b = ok_or (checked_add a b) OverLengthErr"

definition data_frame_len :: "series list \<Rightarrow> nat xresult" where
  "data_frame_len df =
     rbind (checked_q_count (length df)) (\<lambda>_.
     rfold (\<lambda>column len.
       rbind (validate_q_symbol (s_name column)) (\<lambda>_.
       rbind (ok_or (Option.bind (checked_add len (length (s_name column))) (\<lambda>l. checked_add l 1)) OverLengthErr) (\<lambda>len.
       rbind (get_series_len (s_data column)) (\<lambda>n. add_len len n)))) df 15)"

definition timestamp_nanos_opt :: "int \<Rightarrow> int option" where
  "timestamp_nanos_opt = checked_i64"

function j6_len_with_depth :: "k \<Rightarrow> nat \<Rightarrow> nat xresult" where
  "j6_len_with_depth v depth =
     (if depth > MAX_VALUE_DEPTH then Inl NotAbleToSerializeErr
      else case v of
        KBoolean _ \<Rightarrow> Inr 2
      | KGuid _ \<Rightarrow> Inr 17
      | KU8 _ \<Rightarrow> Inr 2
      | KI16 _ \<Rightarrow> Inr 3
      | KI32 _ \<Rightarrow> Inr 5
      | KI64 _ \<Rightarrow> Inr 9
      | KF32 _ \<Rightarrow> Inr 5
      | KF64 _ \<Rightarrow> Inr 9
      | KChar _ \<Rightarrow> Inr 2
      | KCharVector s \<Rightarrow> rbind (checked_q_count (length s)) (\<lambda>_. add_len (length s) 6)
      | KSymbol s \<Rightarrow> rbind (validate_q_symbol s) (\<lambda>_. add_len (length s) 2)
      | KString s \<Rightarrow> rbind (checked_q_count (length s)) (\<lambda>_. add_len (length s) 6)
      | KDateTime t \<Rightarrow>
          rbind (ok_or (timestamp_nanos_opt t) NotAbleToSerializeErr) (\<lambda>unix_nanoseconds.
          rbind (q_timestamp_nanoseconds unix_nanoseconds) (\<lambda>_. Inr 9))
      | KDate _ \<Rightarrow> Inr 5
      | KTime _ nanosecond \<Rightarrow> if nanosecond mod 1000000 \<noteq> 0 then Inl NotAbleToSerializeErr else Inr 5
      | KDuration d \<Rightarrow> rbind (ok_or (checked_i64 d) NotAbleToSerializeErr) (\<lambda>_. Inr 9)
      | KMixedList values \<Rightarrow>
          rbind (checked_q_count (length values)) (\<lambda>_.
          rfold (\<lambda>x len. rbind (j6_len_with_depth x (depth + 1)) (\<lambda>n. add_len len n)) values 6)
      | KSeries s \<Rightarrow> get_series_len (s_data s)
      | KDataFrame df \<Rightarrow> data_frame_len df
      | KOperator _ \<Rightarrow> Inr 2
      | KLambda l \<Rightarrow>
          rbind (checked_q_count (length (source l))) (\<lambda>_.
          ok_or (Option.bind (checked_add (length (source l)) (length (lcontext l))) (\<lambda>n. checked_add n 8)) OverLengthErr)
      | KQValue q \<Rightarrow>
          if qv_max_depth q > MAX_VALUE_DEPTH - depth then Inl NotAbleToSerializeErr else Inr (length (qv_bytes q))
      | KNull \<Rightarrow> Inr 2
      | KDict dict \<Rightarrow>
          rbind (checked_q_count (length dict)) (\<lambda>_.
          rfold (\<lambda>(key, x) len.
            rbind (validate_q_symbol key) (\<lambda>_.
            rbind (ok_or (Option.bind (checked_add len (length key)) (\<lambda>l. checked_add l 1)) OverLengthErr) (\<lambda>len.
            rbind (j6_len_with_depth x (depth + 1)) (\<lambda>n. add_len len n)))) dict 13))"
  by pat_completeness auto
termination
  by (relation "measure (\<lambda>(v, depth). MAX_VALUE_DEPTH + 1 - depth)") auto

declare j6_len_with_depth.simps [simp del]

definition j6_len :: "k \<Rightarrow> nat xresult" where
  "j6_len v = j6_len_with_depth v 0"

end
