(* ===== verification/KSerialize.thy ===== *)
theory KSerialize
  imports KLen
begin

text \<open>
  The native serializer of \<open>crates/xqdb/src/serde6.rs\<close>: \<open>serialize_series_into\<close>, \<open>serialize_into\<close> and
  \<open>serialize\<close>. Each writer is the list of bytes it appends to the output buffer, or its error.
\<close>

section \<open>Numbers on the wire\<close>

definition le_word :: "'a::len word \<Rightarrow> bytes" where
  "le_word w = le_bytes (LENGTH('a) div 8) (unat w)"

definition le_int :: "nat \<Rightarrow> int \<Rightarrow> bytes" where
  "le_int w i = le_bytes w (nat (i mod 256 ^ w))"

definition q_list_length :: "nat \<Rightarrow> bytes xresult" where
  "q_list_length len = (if len < 2147483648 then Inr (le_bytes 4 len) else Inl OverLengthErr)"

definition MS_PER_DAY :: f64 where "MS_PER_DAY = 0x4194997000000000"
definition DAYS_TO_2000 :: f64 where "DAYS_TO_2000 = 0x40C5668000000000"

text \<open>\<open>value as f64 / MS_PER_DAY - 10_957.0\<close>\<close>

definition q_datetime_days :: "64 word \<Rightarrow> f64" where
  "q_datetime_days value = f64_sub (f64_div (f64_of_int (sint value)) MS_PER_DAY) DAYS_TO_2000"

section \<open>Series\<close>

definition unwrap_or :: "'a \<Rightarrow> 'a option \<Rightarrow> 'a" where
  "unwrap_or d v = (case v of None \<Rightarrow> d | Some x \<Rightarrow> x)"

definition bool_byte :: "bool \<Rightarrow> byte" where
  "bool_byte b = (if b then 1 else 0)"

text \<open>Fixed-width values with the null of their q type in place of a null.\<close>

definition write_wire_numbers :: "'a::len word \<Rightarrow> 'a word option list \<Rightarrow> bytes" where
  "write_wire_numbers null_value vs = concat (map (\<lambda>v. le_word (unwrap_or null_value v)) vs)"

definition try_write_wire_numbers :: "nat \<Rightarrow> ('a \<Rightarrow> int xresult) \<Rightarrow> int \<Rightarrow> 'a option list \<Rightarrow> bytes xresult" where
  "try_write_wire_numbers width f null_value vs =
     rbind (rmap (\<lambda>v. case v of None \<Rightarrow> Inr null_value | Some x \<Rightarrow> f x) vs) (\<lambda>ns.
     Inr (concat (map (le_int width) ns)))"

text \<open>The start and end of a row from its two offsets.\<close>

definition row_range :: "int \<times> int \<Rightarrow> (nat \<times> nat) xresult" where
  "row_range offs =
     rbind (ok_or (usize_of_int (fst offs)) NotAbleToSerializeErr) (\<lambda>start.
     rbind (ok_or (usize_of_int (snd offs)) NotAbleToSerializeErr) (\<lambda>end.
     Inr (start, end)))"

definition write_nested_wire_lists ::
  "byte \<Rightarrow> 'a::len word \<Rightarrow> 'a word option list \<Rightarrow> int list \<Rightarrow> bytes xresult" where
  "write_nested_wire_lists k_type null_value values offsets =
     rbind (rmap (\<lambda>offs.
       rbind (row_range offs) (\<lambda>(start, end).
       rbind (ok_or (get_range values start end) NotAbleToSerializeErr) (\<lambda>nested_values.
       rbind (q_list_length (length nested_values)) (\<lambda>len.
       Inr ([k_type, 0] @ len @ write_wire_numbers null_value nested_values))))) (windows2 offsets))
     (\<lambda>rows. Inr (concat rows))"

text \<open>\<open>array.get(i).unwrap_or(false) as u8\<close>: nulls and positions past the end are false.\<close>

definition get_bool :: "bool option list \<Rightarrow> nat \<Rightarrow> byte" where
  "get_bool vs i = bool_byte (unwrap_or False (Option.bind (get_at vs i) id))"

definition write_boolean_lists :: "bool option list \<Rightarrow> int list \<Rightarrow> bytes xresult" where
  "write_boolean_lists values offsets =
     rbind (rmap (\<lambda>offs.
       rbind (row_range offs) (\<lambda>(start_offset, end_offset).
       rbind (ok_or (checked_sub end_offset start_offset) Panicked) (\<lambda>n.
       rbind (q_list_length n) (\<lambda>len.
       Inr ([1, 0] @ len @ map (get_bool values) [start_offset..<end_offset]))))) (windows2 offsets))
     (\<lambda>rows. Inr (concat rows))"

definition write_boolean_arrays :: "nat \<Rightarrow> nat \<Rightarrow> bool option list \<Rightarrow> bytes xresult" where
  "write_boolean_arrays width k_length values =
     rbind (q_list_length width) (\<lambda>len_vec.
     rbind (rmap (\<lambda>row.
       rbind (ok_or (checked_mul row width) OverLengthErr) (\<lambda>start.
       rbind (ok_or (checked_add start width) OverLengthErr) (\<lambda>end.
       Inr ([1, 0] @ len_vec @ map (get_bool values) [start..<end])))) [0..<k_length])
     (\<lambda>rows. Inr (concat rows)))"

text \<open>The child values of a list column, by their data type.\<close>

fun write_list_child :: "column \<Rightarrow> int list \<Rightarrow> bytes xresult" where
  "write_list_child (BooleanCol vs) offsets = write_boolean_lists vs offsets"
| "write_list_child (UInt8Col vs) offsets = write_nested_wire_lists 4 0 vs offsets"
| "write_list_child (Int16Col vs) offsets = write_nested_wire_lists 5 I16_MIN vs offsets"
| "write_list_child (Int32Col vs) offsets = write_nested_wire_lists 6 I32_MIN vs offsets"
| "write_list_child (Int64Col vs) offsets = write_nested_wire_lists 7 I64_MIN vs offsets"
| "write_list_child (Float32Col vs) offsets = write_nested_wire_lists 8 F32_NAN vs offsets"
| "write_list_child (Float64Col vs) offsets = write_nested_wire_lists 9 F64_NAN vs offsets"
| "write_list_child _ offsets = Inl NotSupportedPolarsNestedListTypeErr"

definition write_strings :: "bytes option list \<Rightarrow> bytes xresult" where
  "write_strings vs =
     rbind (rmap (\<lambda>v. case v of
         Some value \<Rightarrow> rbind (q_list_length (length value)) (\<lambda>len. Inr ([10, 0] @ len @ value))
       | None \<Rightarrow> Inr [10, 0, 0, 0, 0, 0]) vs)
     (\<lambda>rows. Inr (concat rows))"

definition write_symbols :: "bytes option list \<Rightarrow> bytes xresult" where
  "write_symbols vs =
     rbind (rmap (\<lambda>category.
       rbind (case category of
                Some symbol \<Rightarrow> rbind (validate_q_symbol symbol) (\<lambda>_. Inr symbol)
              | None \<Rightarrow> Inr []) (\<lambda>symbol. Inr (symbol @ [0]))) vs)
     (\<lambda>rows. Inr (concat rows))"

text \<open>The columns of times, by their data type.\<close>

definition serialize_date_column :: "32 word option list \<Rightarrow> (byte \<times> bytes) xresult" where
  "serialize_date_column vs =
     rbind (try_write_wire_numbers 4
        (\<lambda>value. ok_or (checked_i32 (sint value - 10957)) NotAbleToSerializeErr) (-2147483648) vs)
     (\<lambda>bs. Inr (14, bs))"

definition serialize_datetime_column :: "time_unit \<Rightarrow> 64 word option list \<Rightarrow> (byte \<times> bytes) xresult" where
  "serialize_datetime_column u vs =
     (if u = Milliseconds
      then Inr (15, concat (map (\<lambda>v. le_word (case v of None \<Rightarrow> F64_NAN | Some x \<Rightarrow> q_datetime_days x)) vs))
      else rbind (try_write_wire_numbers 8
        (\<lambda>value. rbind (ok_or (checked_i64 (sint value * unit_multiplier u)) NotAbleToSerializeErr)
           q_timestamp_nanoseconds) (-9223372036854775808) vs) (\<lambda>bs. Inr (12, bs)))"

definition serialize_duration_column :: "time_unit \<Rightarrow> 64 word option list \<Rightarrow> (byte \<times> bytes) xresult" where
  "serialize_duration_column u vs =
     rbind (try_write_wire_numbers 8
        (\<lambda>value. ok_or (checked_i64 (sint value * unit_multiplier u)) NotAbleToSerializeErr)
        (-9223372036854775808) vs) (\<lambda>bs. Inr (16, bs))"

definition serialize_time_column :: "64 word option list \<Rightarrow> (byte \<times> bytes) xresult" where
  "serialize_time_column vs =
     rbind (validate_q_time_series vs) (\<lambda>_.
     rbind (try_write_wire_numbers 4
        (\<lambda>value. ok_or (checked_i32 (sint value div 1000000)) NotAbleToSerializeErr) (-2147483648) vs)
     (\<lambda>bs. Inr (19, bs)))"

lemmas serialize_temporal_defs [simp] = serialize_date_column_def serialize_datetime_column_def
  serialize_duration_column_def serialize_time_column_def

text \<open>The columns of lists.\<close>

definition serialize_array_column :: "nat \<Rightarrow> bool list \<Rightarrow> column \<Rightarrow> (byte \<times> bytes) xresult" where
  "serialize_array_column width rows child =
     (if null_count rows > 0 then Inl NotAbleToSerializeErr
      else case child of
        BooleanCol vs \<Rightarrow> rbind (write_boolean_arrays width (length rows) vs) (\<lambda>bs. Inr (0, bs))
      | _ \<Rightarrow> Inl NotSupportedPolarsNestedListTypeErr)"

definition serialize_list_column :: "bool list \<Rightarrow> int list \<Rightarrow> column \<Rightarrow> (byte \<times> bytes) xresult" where
  "serialize_list_column rows offsets child =
     (if length offsets \<noteq> length rows + 1 then Inl NotAbleToSerializeErr
      else if null_count rows > 0 then Inl NotAbleToSerializeErr
      else rbind (write_list_child child offsets) (\<lambda>bs. Inr (0, bs)))"

lemmas serialize_list_defs [simp] = serialize_array_column_def serialize_list_column_def

text \<open>The payload of a column after its six-byte header, with the type byte of the header.\<close>

fun serialize_column :: "column \<Rightarrow> (byte \<times> bytes) xresult" where
  "serialize_column (BooleanCol vs) = Inr (1, map (\<lambda>v. bool_byte (unwrap_or False v)) vs)"
| "serialize_column (UInt8Col vs) = Inr (4, map (unwrap_or 0) vs)"
| "serialize_column (Int16Col vs) = Inr (5, write_wire_numbers I16_MIN vs)"
| "serialize_column (Int32Col vs) = Inr (6, write_wire_numbers I32_MIN vs)"
| "serialize_column (Int64Col vs) = Inr (7, write_wire_numbers I64_MIN vs)"
| "serialize_column (Float32Col vs) = Inr (8, write_wire_numbers F32_NAN vs)"
| "serialize_column (Float64Col vs) = Inr (9, write_wire_numbers F64_NAN vs)"
| "serialize_column (StringCol vs) = rbind (write_strings vs) (\<lambda>bs. Inr (0, bs))"
| "serialize_column (DateCol vs) = serialize_date_column vs"
| "serialize_column (DatetimeCol u vs) = serialize_datetime_column u vs"
| "serialize_column (DurationCol u vs) = serialize_duration_column u vs"
| "serialize_column (TimeCol vs) = serialize_time_column vs"
| "serialize_column (ArrayCol width rows child) = serialize_array_column width rows child"
| "serialize_column (ListCol rows offsets child) = serialize_list_column rows offsets child"
| "serialize_column (CategoricalCol vs) = rbind (write_symbols vs) (\<lambda>bs. Inr (11, bs))"
| "serialize_column (BinaryCol vs) =
     rbind (validate_guid_series vs) (\<lambda>_. Inr (2, concat (map (unwrap_or (replicate 16 0)) vs)))"
| "serialize_column (NullCol n) = (if n = 0 then Inr (0, []) else Inl NotSupportedSeriesTypeErr)"
| "serialize_column (OtherCol _) = Inl NotSupportedSeriesTypeErr"

definition serialize_series_into :: "series \<Rightarrow> bytes xresult" where
  "serialize_series_into s =
     (let k_length = series_len s in
      if k_length > 2147483647 then Inl OverLengthErr
      else rbind (serialize_column (s_data s)) (\<lambda>(type_byte, payload).
        Inr ([type_byte, 0] @ le_bytes 4 k_length @ payload)))"

section \<open>Values\<close>

lemma rmap_cong [fundef_cong]:
  "xs = ys \<Longrightarrow> (\<And>x. x \<in> set ys \<Longrightarrow> f x = g x) \<Longrightarrow> rmap f xs = rmap g ys"
proof (induction ys arbitrary: xs)
  case (Cons y ys)
  then show ?case by (auto intro!: rbind_cong)
qed simp

definition symbol_names :: "bytes list \<Rightarrow> bytes xresult" where
  "symbol_names names =
     rbind (rmap (\<lambda>name. rbind (validate_q_symbol name) (\<lambda>_. Inr (name @ [0]))) names) (\<lambda>bs. Inr (concat bs))"

definition serialize_data_frame :: "series list \<Rightarrow> bytes xresult" where
  "serialize_data_frame df =
     rbind (checked_q_count (length df)) (\<lambda>column_count.
     rbind (symbol_names (map s_name df)) (\<lambda>names.
     rbind (rmap serialize_series_into df) (\<lambda>columns.
     Inr ([98, 0, 99, 11, 0] @ le_bytes 4 column_count @ names
          @ [0, 0] @ le_bytes 4 column_count @ concat columns))))"

function serialize_into :: "k \<Rightarrow> bytes xresult" where
  "serialize_into v = (case v of
      KBoolean b \<Rightarrow> Inr [255, bool_byte b]
    | KGuid g \<Rightarrow> Inr (254 # g)
    | KU8 b \<Rightarrow> Inr [252, b]
    | KI16 i \<Rightarrow> Inr (251 # le_word i)
    | KI32 i \<Rightarrow> Inr (250 # le_word i)
    | KI64 i \<Rightarrow> Inr (249 # le_word i)
    | KF32 f \<Rightarrow> Inr (248 # le_word f)
    | KF64 f \<Rightarrow> Inr (247 # le_word f)
    | KChar c \<Rightarrow> Inr [246, c]
    | KSymbol s \<Rightarrow> rbind (validate_q_symbol s) (\<lambda>_. Inr (245 # s @ [0]))
    | KCharVector s \<Rightarrow> rbind (q_list_length (length s)) (\<lambda>len. Inr ([10, 0] @ len @ s))
    | KString s \<Rightarrow> rbind (q_list_length (length s)) (\<lambda>len. Inr ([10, 0] @ len @ s))
    | KDateTime t \<Rightarrow>
        rbind (ok_or (timestamp_nanos_opt t) NotAbleToSerializeErr) (\<lambda>unix_nanoseconds.
        rbind (q_timestamp_nanoseconds unix_nanoseconds) (\<lambda>q_nanoseconds.
        Inr (244 # le_int 8 q_nanoseconds)))
    | KDate d \<Rightarrow>
        rbind (ok_or (checked_i32 (d - DAY_DIFF)) NotAbleToSerializeErr) (\<lambda>days. Inr (242 # le_int 4 days))
    | KTime secs nanosecond \<Rightarrow> Inr (237 # le_int 4 (int (secs * 1000 + nanosecond div 1000000)))
    | KDuration d \<Rightarrow>
        rbind (ok_or (checked_i64 d) NotAbleToSerializeErr) (\<lambda>ns. Inr (240 # le_int 8 ns))
    | KMixedList l \<Rightarrow>
        rbind (q_list_length (length l)) (\<lambda>len.
        rbind (rmap (\<lambda>x. serialize_into x) l) (\<lambda>atoms.
        Inr ([0, 0] @ len @ concat atoms)))
    | KSeries s \<Rightarrow> serialize_series_into s
    | KDataFrame df \<Rightarrow> serialize_data_frame df
    | KQValue q \<Rightarrow> Inr (qv_bytes q)
    | KOperator op \<Rightarrow> Inr [fst (wire_value op), snd (wire_value op)]
    | KLambda l \<Rightarrow>
        rbind (q_list_length (length (source l))) (\<lambda>source_length.
        Inr (100 # lcontext l @ [0, 10, 0] @ source_length @ source l))
    | KNull \<Rightarrow> Inr [101, 0]
    | KDict dict \<Rightarrow>
        rbind (checked_q_count (length dict)) (\<lambda>len.
        rbind (symbol_names (map fst dict)) (\<lambda>keys.
        rbind (rmap (\<lambda>(key, x). serialize_into x) dict) (\<lambda>values.
        Inr ([99, 11, 0] @ le_bytes 4 len @ keys @ [0, 0] @ le_bytes 4 len @ concat values)))))"
  by pat_completeness auto
termination
proof (relation "measure size")
  fix v l a x assume "v = KMixedList l" "x \<in> set l"
  then show "(x, v) \<in> measure size" using k_size_members(1) by simp
next
  fix v dict a aa p key x assume "v = KDict dict" "p \<in> set dict" "(key, x) = p"
  then show "(x, v) \<in> measure size" using k_size_members(2) [of p dict] by auto
qed auto

declare serialize_into.simps [simp del]

definition serialize :: "k \<Rightarrow> bytes xresult" where
  "serialize v = rbind (j6_len v) (\<lambda>_. serialize_into v)"

end
