(* ===== verification/KLenCorrect.thy ===== *)
theory KLenCorrect
  imports KSerialize
begin

text \<open>
  The size announced by \<open>j6_len\<close> is the size of what \<open>serialize_into\<close> writes, for columns, frames and
  nested values; the request writer of the connector relies on it.
\<close>

section \<open>Well-formed values\<close>

text \<open>
  What the types of the source guarantee: a GUID has sixteen bytes, a date is within the calendar's
  32-bit day numbers, the offsets of a list column increase within its child values. Rows are
  shorter than q's list limit.
\<close>

fun column_wf :: "column \<Rightarrow> bool" where
  "column_wf (ListCol rows offsets child) \<longleftrightarrow>
     length offsets = length rows + 1 \<and> sorted offsets \<and> 0 \<le> hd offsets
     \<and> last offsets \<le> int (column_len child) \<and> last offsets < 9223372036854775808
     \<and> list_all (\<lambda>(a, b). b - a < 2147483648) (windows2 offsets)"
| "column_wf (ArrayCol width rows child) \<longleftrightarrow> width < 2147483648"
| "column_wf _ \<longleftrightarrow> True"

function k_wf :: "k \<Rightarrow> bool" where
  "k_wf v \<longleftrightarrow> (case v of
      KGuid g \<Rightarrow> length g = 16
    | KDate d \<Rightarrow> checked_i32 (d - DAY_DIFF) \<noteq> None
    | KSeries s \<Rightarrow> column_wf (s_data s)
    | KDataFrame df \<Rightarrow> list_all (\<lambda>s. column_wf (s_data s)) df
    | KMixedList vs \<Rightarrow> list_all (\<lambda>x. k_wf x) vs
    | KDict d \<Rightarrow> list_all (\<lambda>(key, x). k_wf x) d
    | _ \<Rightarrow> True)"
  by pat_completeness auto
termination
proof (relation "measure size")
  fix v vs x assume "v = KMixedList vs" "x \<in> set vs"
  then show "(x, v) \<in> measure size" using k_size_members(1) by simp
next
  fix v d p key x assume "v = KDict d" "p \<in> set d" "(key, x) = p"
  then show "(x, v) \<in> measure size" using k_size_members(2) [of p d] by auto
qed auto

declare k_wf.simps [simp del]

lemma k_wf_simps [simp]:
  "k_wf (KMixedList vs) \<longleftrightarrow> list_all k_wf vs"
  "k_wf (KDict d) \<longleftrightarrow> list_all (\<lambda>p. k_wf (snd p)) d"
  "k_wf (KSeries s) \<longleftrightarrow> column_wf (s_data s)"
  "k_wf (KDataFrame df) \<longleftrightarrow> list_all (\<lambda>s. column_wf (s_data s)) df"
  "k_wf (KDate x) \<longleftrightarrow> checked_i32 (x - DAY_DIFF) \<noteq> None"
  "k_wf (KGuid g) \<longleftrightarrow> length g = 16"
  by (simp_all add: k_wf.simps [of "KMixedList vs"] k_wf.simps [of "KDict d"] k_wf.simps [of "KSeries s"]
      k_wf.simps [of "KDataFrame df"] k_wf.simps [of "KDate x"] k_wf.simps [of "KGuid g"] split_def)

section \<open>Sizes\<close>

lemma length_le_word: "length (le_word (w :: 'a::len word)) = LENGTH('a) div 8"
  by (simp add: le_word_def)

lemma length_le_int [simp]: "length (le_int w i) = w"
  by (simp add: le_int_def)

lemma rmap_Inr_iff: "rmap f xs = Inr ys \<longleftrightarrow> list_all2 (\<lambda>x y. f x = Inr y) xs ys"
proof (induction xs arbitrary: ys)
  case Nil
  then show ?case by auto
next
  case (Cons x xs)
  then show ?case by (cases ys) (auto simp: rbind_Inr_iff)
qed

lemma rmap_total:
  assumes "\<And>x. x \<in> set xs \<Longrightarrow> f x = Inr (g x)"
  shows "rmap f xs = Inr (map g xs)"
  using assms by (induction xs) auto

lemma length_concat_map_const: "(\<And>x. x \<in> set xs \<Longrightarrow> length (f x) = w) \<Longrightarrow> length (concat (map f xs)) = w * length xs"
  by (induction xs) auto

lemma length_write_wire_numbers:
  "length (write_wire_numbers (d :: 'a::len word) vs) = LENGTH('a) div 8 * length vs"
  unfolding write_wire_numbers_def by (rule length_concat_map_const) (simp add: length_le_word)

lemma checked_series_size_Inr:
  "checked_series_size len w = Inr n \<longleftrightarrow> len < 2147483648 \<and> len * w + 6 < usize_limit \<and> n = len * w + 6"
  by (auto simp: checked_series_size_def checked_q_count_def result_simps usize_simps bind_eq_Some_conv)

lemma checked_nested_series_size_Inr:
  "checked_nested_series_size len vlen w = Inr n \<longleftrightarrow>
     len < 2147483648 \<and> vlen * w + len * 6 + 6 < usize_limit \<and> n = vlen * w + len * 6 + 6"
  by (auto simp: checked_nested_series_size_def checked_q_count_def result_simps usize_simps bind_eq_Some_conv)

lemma q_list_length_ok: "n < 2147483648 \<Longrightarrow> q_list_length n = Inr (le_bytes 4 n)"
  by (simp add: q_list_length_def)

lemma try_write_total:
  assumes "\<And>x. Some x \<in> set vs \<Longrightarrow> \<exists>i. f x = Inr i"
  shows "\<exists>bs. try_write_wire_numbers w f d vs = Inr bs \<and> length bs = w * length vs"
proof -
  have "rmap (\<lambda>v. case v of None \<Rightarrow> Inr d | Some x \<Rightarrow> f x) vs
      = Inr (map (\<lambda>v. projr (case v of None \<Rightarrow> Inr d | Some x \<Rightarrow> f x)) vs)"
    using assms by (intro rmap_total) (fastforce split: option.splits)
  then show ?thesis
    by (simp add: try_write_wire_numbers_def length_concat_map_const)
qed

lemma set_flatten: "x \<in> set (flatten vs) \<longleftrightarrow> Some x \<in> set vs"
  by (force simp: flatten_def)

lemma rfold_unit_all:
  "rfold (\<lambda>x _. f x) xs () = Inr () \<Longrightarrow> x \<in> set xs \<Longrightarrow> f x = Inr ()"
  by (induction xs) (auto simp: rbind_Inr_iff)

section \<open>Columns\<close>

lemma string_sizes:
  "rfold (\<lambda>value len. rbind (checked_q_count (length value)) (\<lambda>_. ok_or (checked_add len (length value)) OverLengthErr))
     (flatten vs) acc = Inr n \<Longrightarrow>
   \<exists>bs. write_strings vs = Inr bs \<and> acc + length bs = n + 6 * length vs"
proof (induction vs arbitrary: acc)
  case Nil
  then show ?case by (simp add: flatten_def write_strings_def)
next
  case (Cons v vs)
  show ?case
  proof (cases v)
    case None
    then have "rfold (\<lambda>value len. rbind (checked_q_count (length value))
        (\<lambda>_. ok_or (checked_add len (length value)) OverLengthErr)) (flatten vs) acc = Inr n"
      using Cons.prems by (simp add: flatten_def)
    from Cons.IH [OF this] show ?thesis using None
      by (auto simp: write_strings_def rbind_Inr_iff)
  next
    case (Some s)
    then obtain m where m: "length s < 2147483648" "m = acc + length s"
      "rfold (\<lambda>value len. rbind (checked_q_count (length value))
        (\<lambda>_. ok_or (checked_add len (length value)) OverLengthErr)) (flatten vs) m = Inr n"
      using Cons.prems by (auto simp: flatten_def checked_q_count_def rbind_Inr_iff ok_or_Inr_iff usize_simps split: if_splits)
    from Cons.IH [OF m(3)] show ?thesis using Some m(1,2)
      by (auto simp: write_strings_def rbind_Inr_iff q_list_length_ok)
  qed
qed

lemma symbol_sizes:
  "rfold (\<lambda>category total.
       rbind (case category of
                Some symbol \<Rightarrow> rbind (validate_q_symbol symbol) (\<lambda>_. Inr (length symbol))
              | None \<Rightarrow> Inr 0) (\<lambda>symbol_length.
       ok_or (Option.bind (checked_add total symbol_length) (\<lambda>l. checked_add l 1)) OverLengthErr)) vs acc = Inr n \<Longrightarrow>
   \<exists>bs. write_symbols vs = Inr bs \<and> n = acc + length bs"
proof (induction vs arbitrary: acc)
  case Nil
  then show ?case by (simp add: write_symbols_def)
next
  case (Cons v vs)
  from Cons.prems obtain l where
    l: "(case v of Some symbol \<Rightarrow> rbind (validate_q_symbol symbol) (\<lambda>_. Inr (length symbol)) | None \<Rightarrow> Inr 0) = Inr l"
    and r: "rfold (\<lambda>category total.
       rbind (case category of
                Some symbol \<Rightarrow> rbind (validate_q_symbol symbol) (\<lambda>_. Inr (length symbol))
              | None \<Rightarrow> Inr 0) (\<lambda>symbol_length.
       ok_or (Option.bind (checked_add total symbol_length) (\<lambda>l. checked_add l 1)) OverLengthErr)) vs (acc + l + 1) = Inr n"
    by (auto simp: rbind_Inr_iff ok_or_Inr_iff bind_eq_Some_conv usize_simps)
  from Cons.IH [OF r] obtain bs where "write_symbols vs = Inr bs" "n = acc + l + 1 + length bs" by auto
  then show ?case using l by (cases v) (auto simp: write_symbols_def rbind_Inr_iff)
qed


lemma windows2_sorted:
  "sorted xs \<Longrightarrow> (a, b) \<in> set (windows2 xs) \<Longrightarrow> hd xs \<le> a \<and> a \<le> b \<and> b \<le> last xs"
proof (induction xs rule: windows2.induct)
  case (1 x y xs)
  then show ?case by (cases "(a, b) = (x, y)") (force, fastforce)
qed auto

lemma windows_rows:
  assumes "sorted offs" "offs \<noteq> []"
    and "\<And>a b. (a, b) \<in> set (windows2 offs) \<Longrightarrow> \<exists>r. f (a, b) = Inr r \<and> length r = 6 + w * nat (b - a)"
  shows "\<exists>rows. rmap f (windows2 offs) = Inr rows
    \<and> length (concat rows) = 6 * (length offs - 1) + w * nat (last offs - hd offs)"
  using assms
proof (induction offs rule: windows2.induct)
  case (1 a b xs)
  obtain r where r: "f (a, b) = Inr r" "length r = 6 + w * nat (b - a)"
    using "1.prems"(3) [of a b] by auto
  obtain rows where rows: "rmap f (windows2 (b # xs)) = Inr rows"
    "length (concat rows) = 6 * length xs + w * nat (last (b # xs) - b)"
    using "1.IH" "1.prems" by fastforce
  have "a \<le> b" "b \<le> last (b # xs)"
    using "1.prems"(1) by (auto simp del: sorted_simps(2) simp: sorted_wrt.simps(2) intro: order.trans)
  then have "nat (b - a) + nat (last (b # xs) - b) = nat (last (b # xs) - a)"
    by (simp flip: nat_add_distrib)
  then have "w * nat (b - a) + w * nat (last (b # xs) - b) = w * nat (last (b # xs) - a)"
    by (metis distrib_left)
  then show ?case using r rows by simp
qed auto

lemma row_range_ok: "0 \<le> a \<Longrightarrow> 0 \<le> b \<Longrightarrow> a < 9223372036854775808 \<Longrightarrow> b < 9223372036854775808 \<Longrightarrow>
  row_range (a, b) = Inr (nat a, nat b)"
  by (simp add: row_range_def usize_of_int_def)

lemma list_offsets:
  assumes "column_wf (ListCol rows offsets child)" "(a, b) \<in> set (windows2 offsets)"
  shows "row_range (a, b) = Inr (nat a, nat b)" "nat a \<le> nat b" "nat b \<le> column_len child"
    "nat b - nat a = nat (b - a)" "nat (b - a) < 2147483648"
proof -
  have s: "hd offsets \<le> a" "a \<le> b" "b \<le> last offsets"
    using windows2_sorted [OF _ assms(2)] assms(1) by auto
  have w: "0 \<le> hd offsets" "last offsets \<le> int (column_len child)" "last offsets < 9223372036854775808"
    "b - a < 2147483648"
    using assms by (auto simp: list_all_iff)
  show "row_range (a, b) = Inr (nat a, nat b)" using s w by (intro row_range_ok) linarith+
  show "nat a \<le> nat b" "nat b \<le> column_len child" "nat b - nat a = nat (b - a)" "nat (b - a) < 2147483648"
    using s w by (simp_all add: nat_le_iff nat_diff_distrib)
qed

lemma nested_numbers_size:
  fixes d :: "'a::len word"
  assumes wf: "column_wf (ListCol rows offsets child)" and vs: "length vs = column_len child"
  shows "\<exists>bs. write_nested_wire_lists t d vs offsets = Inr bs
    \<and> length bs = 6 * length rows + LENGTH('a) div 8 * nat (last offsets - hd offsets)"
proof -
  let ?f = "\<lambda>offs. rbind (row_range offs) (\<lambda>(start, end).
       rbind (ok_or (get_range vs start end) NotAbleToSerializeErr) (\<lambda>nested_values.
       rbind (q_list_length (length nested_values)) (\<lambda>len.
       Inr ([t, 0] @ len @ write_wire_numbers d nested_values))))"
  have "\<exists>r. ?f (a, b) = Inr r \<and> length r = 6 + LENGTH('a) div 8 * nat (b - a)"
    if ab: "(a, b) \<in> set (windows2 offsets)" for a b
  proof -
    note o = list_offsets [OF wf ab]
    have "min (column_len child - nat a) (nat (b - a)) = nat (b - a)"
      using diff_le_mono [OF o(3), of "nat a"] o(4) by simp
    then show ?thesis using o vs by (simp add: get_range_def q_list_length_ok length_write_wire_numbers)
  qed
  then show ?thesis
    using windows_rows [of offsets ?f "LENGTH('a) div 8"] wf
    by (fastforce simp: write_nested_wire_lists_def)
qed

lemma boolean_lists_size:
  assumes wf: "column_wf (ListCol rows offsets child)"
  shows "\<exists>bs. write_boolean_lists vs offsets = Inr bs
    \<and> length bs = 6 * length rows + nat (last offsets - hd offsets)"
proof -
  let ?f = "\<lambda>offs. rbind (row_range offs) (\<lambda>(start_offset, end_offset).
       rbind (ok_or (checked_sub end_offset start_offset) Panicked) (\<lambda>n.
       rbind (q_list_length n) (\<lambda>len.
       Inr ([1, 0] @ len @ map (get_bool vs) [start_offset..<end_offset]))))"
  have "\<exists>r. ?f (a, b) = Inr r \<and> length r = 6 + 1 * nat (b - a)"
    if ab: "(a, b) \<in> set (windows2 offsets)" for a b
    using list_offsets [OF wf ab] by (simp add: checked_sub_def q_list_length_ok)
  then show ?thesis
    using windows_rows [of offsets ?f 1] wf by (fastforce simp: write_boolean_lists_def)
qed

lemma list_values_length_ok:
  assumes "column_wf (ListCol rows offsets child)"
  shows "list_values_length offsets = Inr (nat (last offsets - hd offsets))"
proof -
  have "offsets \<noteq> []" using assms by auto
  then have "hd offsets \<le> last offsets" using assms by (cases offsets) auto
  then show ?thesis using assms
    by (auto simp: list_values_length_def checked_i64_def usize_of_int_def checked_add_def)
qed

lemma list_child_size:
  assumes wf: "column_wf (ListCol rows offsets child)" and w: "list_value_width child = Inr w"
  shows "\<exists>bs. write_list_child child offsets = Inr bs
    \<and> length bs = 6 * length rows + w * nat (last offsets - hd offsets)"
proof (cases child)
  case (BooleanCol vs)
  then show ?thesis using boolean_lists_size [OF wf, of vs] w by auto
next
  case (UInt8Col vs)
  then show ?thesis using nested_numbers_size [OF wf, of vs 4 0] w by auto
next
  case (Int16Col vs)
  then show ?thesis using nested_numbers_size [OF wf, of vs 5 I16_MIN] w by simp
next
  case (Int32Col vs)
  then show ?thesis using nested_numbers_size [OF wf, of vs 6 I32_MIN] w by simp
next
  case (Int64Col vs)
  then show ?thesis using nested_numbers_size [OF wf, of vs 7 I64_MIN] w by simp
next
  case (Float32Col vs)
  then show ?thesis using nested_numbers_size [OF wf, of vs 8 F32_NAN] w by simp
next
  case (Float64Col vs)
  then show ?thesis using nested_numbers_size [OF wf, of vs 9 F64_NAN] w by simp
qed (use w in auto)

lemma boolean_arrays_size:
  assumes "width < 2147483648" "n * width < usize_limit"
  shows "\<exists>bs. write_boolean_arrays width n vs = Inr bs \<and> length bs = 6 * n + width * n"
proof -
  have "rmap (\<lambda>row. rbind (ok_or (checked_mul row width) OverLengthErr) (\<lambda>start.
       rbind (ok_or (checked_add start width) OverLengthErr) (\<lambda>end.
       Inr ([1, 0] @ le_bytes 4 width @ map (get_bool vs) [start..<end])))) [0..<n]
     = Inr (map (\<lambda>row. [1, 0] @ le_bytes 4 width @ map (get_bool vs) [row * width..<row * width + width]) [0..<n])"
  proof (rule rmap_total)
    fix row assume "row \<in> set [0..<n]"
    then have "Suc row * width \<le> n * width" by (intro mult_le_mono1) simp
    then have "row * width + width < usize_limit" using assms(2) by simp
    then show "rbind (ok_or (checked_mul row width) OverLengthErr) (\<lambda>start.
       rbind (ok_or (checked_add start width) OverLengthErr) (\<lambda>end.
       Inr ([1, 0] @ le_bytes 4 width @ map (get_bool vs) [start..<end])))
       = Inr ([1, 0] @ le_bytes 4 width @ map (get_bool vs) [row * width..<row * width + width])"
      by (simp add: checked_mul_def checked_add_def del: le_bytes_numeral)
  qed
  then show ?thesis using assms(1)
    by (simp add: write_boolean_arrays_def q_list_length_ok length_concat_map_const [where w = "6 + width"]
        algebra_simps del: le_bytes_numeral)
qed

text \<open>A column whose size was announced is written in full, with that many bytes.\<close>

lemma column_size:
  assumes wf: "column_wf c" and len: "get_series_len c = Inr n"
  shows "\<exists>t payload. serialize_column c = Inr (t, payload) \<and> n = 6 + length payload \<and> column_len c < 2147483648"
proof (cases c)
  case (StringCol vs)
  then obtain m where m: "rfold (\<lambda>value len. rbind (checked_q_count (length value))
      (\<lambda>_. ok_or (checked_add len (length value)) OverLengthErr)) (flatten vs) 0 = Inr m"
    "n = m + length vs * 6 + 6" "length vs < 2147483648"
    using len by (auto simp: rbind_Inr_iff checked_nested_series_size_Inr)
  from string_sizes [OF m(1)] show ?thesis using m StringCol by auto
next
  case (CategoricalCol vs)
  then have "length vs < 2147483648" and r: "categorical_len vs = Inr n"
    using len by (auto simp: categorical_len_def rbind_Inr_iff checked_q_count_def split: if_splits)
  moreover from r have "\<exists>bs. write_symbols vs = Inr bs \<and> n = 6 + length bs"
    unfolding categorical_len_def rbind_Inr_iff [of "checked_q_count _"] by (blast dest: symbol_sizes)
  ultimately show ?thesis using CategoricalCol by auto
next
  case (DateCol vs)
  then have "\<exists>bs. try_write_wire_numbers 4 (\<lambda>value. ok_or (checked_i32 (sint value - 10957)) NotAbleToSerializeErr)
      (-2147483648) vs = Inr bs \<and> length bs = 4 * length vs"
    using len by (intro try_write_total)
      (auto simp: list_ex_iff set_flatten ok_or_Inr_iff split: if_splits)
  then show ?thesis using DateCol len by (auto simp: checked_series_size_Inr split: if_splits)
next
  case (DatetimeCol u vs)
  show ?thesis
  proof (cases "u = Milliseconds")
    case True
    then show ?thesis using DatetimeCol len
      by (simp add: checked_series_size_Inr length_concat_map_const [where w = 8] length_le_word)
  next
    case False
    have "\<exists>i. rbind (ok_or (checked_i64 (sint x * unit_multiplier u)) NotAbleToSerializeErr) q_timestamp_nanoseconds = Inr i"
      if "Some x \<in> set vs" for x
      using DatetimeCol len False that
      by (auto simp: rbind_Inr_iff set_flatten dest!: rfold_unit_all [where x = x])
    from try_write_total [of vs "\<lambda>value. rbind (ok_or (checked_i64 (sint value * unit_multiplier u)) NotAbleToSerializeErr)
        q_timestamp_nanoseconds", OF this]
    obtain bs where "try_write_wire_numbers 8 (\<lambda>value. rbind (ok_or (checked_i64 (sint value * unit_multiplier u))
        NotAbleToSerializeErr) q_timestamp_nanoseconds) (-9223372036854775808) vs = Inr bs" "length bs = 8 * length vs"
      by blast
    then show ?thesis using DatetimeCol len False by (auto simp: checked_series_size_Inr rbind_Inr_iff)
  qed
next
  case (DurationCol u vs)
  then have "\<exists>bs. try_write_wire_numbers 8 (\<lambda>value. ok_or (checked_i64 (sint value * unit_multiplier u)) NotAbleToSerializeErr)
      (-9223372036854775808) vs = Inr bs \<and> length bs = 8 * length vs"
    using len by (intro try_write_total)
      (auto simp: list_ex_iff set_flatten ok_or_Inr_iff split: if_splits)
  then show ?thesis using DurationCol len by (auto simp: checked_series_size_Inr split: if_splits)
next
  case (TimeCol vs)
  then have v: "validate_q_time_series vs = Inr ()" using len by (auto simp: rbind_Inr_iff)
  have "\<exists>i. ok_or (checked_i32 (sint x div 1000000)) NotAbleToSerializeErr = Inr i" if "Some x \<in> set vs" for x
  proof -
    have "0 \<le> sint x \<and> sint x < 86400000000000"
      using v that unfolding validate_q_time_series_def
      by (auto simp: set_flatten dest!: rfold_unit_all [where x = x] split: if_splits)
    then have "0 \<le> sint x div 1000000" "sint x div 1000000 < 86400000" by auto
    then show ?thesis by (simp add: checked_i32_def)
  qed
  from try_write_total [of vs "\<lambda>value. ok_or (checked_i32 (sint value div 1000000)) NotAbleToSerializeErr", OF this]
  obtain bs where "try_write_wire_numbers 4 (\<lambda>value. ok_or (checked_i32 (sint value div 1000000)) NotAbleToSerializeErr)
      (-2147483648) vs = Inr bs" "length bs = 4 * length vs"
    by blast
  then show ?thesis using TimeCol len v by (auto simp: checked_series_size_Inr)
next
  case (ListCol rows offsets child)
  then obtain w where w: "list_value_width child = Inr w" "null_count rows = 0"
    "n = nat (last offsets - hd offsets) * w + length rows * 6 + 6" "length rows < 2147483648"
    using len list_values_length_ok [of rows offsets child] wf
    by (auto simp: rbind_Inr_iff checked_nested_series_size_Inr split: if_splits)
  from list_child_size [OF wf [unfolded ListCol] w(1)] show ?thesis using ListCol wf w by auto
next
  case (ArrayCol width rows child)
  then obtain vs where vs: "child = BooleanCol vs" "null_count rows = 0"
    "length rows * width < usize_limit" "n = length rows * width + length rows * 6 + 6" "length rows < 2147483648"
    using len by (auto simp: is_boolean_col_def rbind_Inr_iff checked_nested_series_size_Inr ok_or_Inr_iff usize_simps
        split: if_splits column.splits)
  from boolean_arrays_size [of width "length rows" vs] show ?thesis using ArrayCol wf vs by auto
next
  case (BinaryCol vs)
  then have v: "validate_guid_series vs = Inr ()" "n = length vs * 16 + 6" "length vs < 2147483648"
    using len by (auto simp: rbind_Inr_iff checked_series_size_Inr)
  then have "length (concat (map (unwrap_or (replicate 16 0)) vs)) = 16 * length vs"
    by (intro length_concat_map_const)
      (auto simp: validate_guid_series_def list_ex_iff set_flatten unwrap_or_def split: if_splits option.splits)
  then show ?thesis using BinaryCol v by auto
qed (use len in \<open>auto simp: checked_series_size_Inr length_write_wire_numbers split: if_splits\<close>)


section \<open>Values\<close>

lemma add_len_Inr: "add_len a b = Inr n \<longleftrightarrow> a + b < usize_limit \<and> n = a + b"
  by (simp add: add_len_def ok_or_Inr_iff usize_simps)

lemma values_size:
  assumes "\<And>x m. x \<in> set vs \<Longrightarrow> f x = Inr m \<Longrightarrow> \<exists>bs. g x = Inr bs \<and> length bs = m"
    and "rfold (\<lambda>x len. rbind (f x) (\<lambda>n. add_len len n)) vs acc = Inr n"
  shows "\<exists>bss. rmap g vs = Inr bss \<and> acc + length (concat bss) = n"
  using assms
proof (induction vs arbitrary: acc)
  case Nil
  then show ?case by simp
next
  case (Cons x vs)
  from Cons.prems(2) obtain m where m: "f x = Inr m"
    "rfold (\<lambda>x len. rbind (f x) (\<lambda>n. add_len len n)) vs (acc + m) = Inr n"
    by (auto simp: rbind_Inr_iff add_len_Inr)
  obtain bs where "g x = Inr bs" "length bs = m" using Cons.prems(1) m(1) by (meson list.set_intros(1))
  moreover obtain bss where "rmap g vs = Inr bss" "acc + m + length (concat bss) = n"
    using Cons.IH [OF _ m(2)] Cons.prems(1) by (meson list.set_intros(2))
  ultimately show ?case by simp
qed

lemma keyed_sizes:
  assumes "\<And>p m. p \<in> set ps \<Longrightarrow> f p = Inr m \<Longrightarrow> \<exists>bs. g p = Inr bs \<and> length bs = m"
    and "rfold (\<lambda>p len.
       rbind (validate_q_symbol (kf p)) (\<lambda>_.
       rbind (ok_or (Option.bind (checked_add len (length (kf p))) (\<lambda>l. checked_add l 1)) OverLengthErr) (\<lambda>len.
       rbind (f p) (\<lambda>n. add_len len n)))) ps acc = Inr n"
  shows "\<exists>names bss. symbol_names (map kf ps) = Inr names \<and> rmap g ps = Inr bss
    \<and> acc + length names + length (concat bss) = n"
  using assms
proof (induction ps arbitrary: acc)
  case Nil
  then show ?case by (simp add: symbol_names_def)
next
  case (Cons p ps)
  from Cons.prems(2) obtain m where m: "validate_q_symbol (kf p) = Inr ()" "f p = Inr m"
    "rfold (\<lambda>p len.
       rbind (validate_q_symbol (kf p)) (\<lambda>_.
       rbind (ok_or (Option.bind (checked_add len (length (kf p))) (\<lambda>l. checked_add l 1)) OverLengthErr) (\<lambda>len.
       rbind (f p) (\<lambda>n. add_len len n)))) ps (acc + length (kf p) + 1 + m) = Inr n"
    by (auto simp: rbind_Inr_iff add_len_Inr ok_or_Inr_iff bind_eq_Some_conv usize_simps)
  obtain bs where "g p = Inr bs" "length bs = m" using Cons.prems(1) m(2) by (meson list.set_intros(1))
  moreover obtain names bss where "symbol_names (map kf ps) = Inr names" "rmap g ps = Inr bss"
    "acc + length (kf p) + 1 + m + length names + length (concat bss) = n"
    using Cons.IH [OF _ m(3)] Cons.prems(1) by (meson list.set_intros(2))
  ultimately show ?case using m(1) by (auto simp: symbol_names_def rbind_Inr_iff)
qed

lemma series_size:
  assumes "column_wf (s_data s)" "get_series_len (s_data s) = Inr n"
  shows "\<exists>bs. serialize_series_into s = Inr bs \<and> length bs = n"
  using column_size [OF assms] by (auto simp: serialize_series_into_def series_len_def Let_def)

lemma data_frame_size:
  assumes wf: "list_all (\<lambda>s. column_wf (s_data s)) df" and len: "data_frame_len df = Inr n"
  shows "\<exists>bs. serialize_data_frame df = Inr bs \<and> length bs = n"
proof -
  have c: "length df < 2147483648"
    using len by (auto simp: data_frame_len_def checked_q_count_def rbind_Inr_iff split: if_splits)
  have "\<exists>names bss. symbol_names (map s_name df) = Inr names \<and> rmap serialize_series_into df = Inr bss
      \<and> 15 + length names + length (concat bss) = n"
  proof (rule keyed_sizes [where f = "\<lambda>s. get_series_len (s_data s)"])
    show "\<exists>bs. serialize_series_into p = Inr bs \<and> length bs = m"
      if "p \<in> set df" "get_series_len (s_data p) = Inr m" for p m
      using that wf by (intro series_size) (auto simp: list_all_iff)
  qed (use len c in \<open>simp add: data_frame_len_def checked_q_count_def\<close>)
  then show ?thesis using c by (auto simp: serialize_data_frame_def checked_q_count_def)
qed

lemma value_size:
  "k_wf v \<Longrightarrow> j6_len_with_depth v depth = Inr n \<Longrightarrow> \<exists>bs. serialize_into v = Inr bs \<and> length bs = n"
proof (induction "size v" arbitrary: v depth n rule: less_induct)
  case less
  note len = less.prems(2)
  have d: "\<not> MAX_VALUE_DEPTH < depth"
    using len by (auto simp: j6_len_with_depth.simps [of v] split: if_splits)
  note len' = len [unfolded j6_len_with_depth.simps [of v] if_not_P [OF d]]
  show ?case
  proof (cases v)
    case (KMixedList vs)
    have c: "length vs < 2147483648"
      using len' KMixedList by (auto simp: checked_q_count_def rbind_Inr_iff split: if_splits)
    have "\<exists>bss. rmap serialize_into vs = Inr bss \<and> 6 + length (concat bss) = n"
    proof (rule values_size [where f = "\<lambda>x. j6_len_with_depth x (depth + 1)"])
      fix x m assume x: "x \<in> set vs" "j6_len_with_depth x (depth + 1) = Inr m"
      then have "size x < size v" using KMixedList k_size_members(1) by simp
      moreover have "k_wf x" using less.prems(1) x(1) KMixedList by (auto simp: list_all_iff)
      ultimately show "\<exists>bs. serialize_into x = Inr bs \<and> length bs = m" using less.hyps x(2) by blast
    qed (use len' c KMixedList in \<open>simp add: checked_q_count_def\<close>)
    then show ?thesis using KMixedList c
      by (auto simp: serialize_into.simps q_list_length_ok)
  next
    case (KDict dict)
    have c: "length dict < 2147483648"
      using len' KDict by (auto simp: checked_q_count_def rbind_Inr_iff split: if_splits)
    have "\<exists>names bss. symbol_names (map fst dict) = Inr names \<and> rmap (\<lambda>p. serialize_into (snd p)) dict = Inr bss
        \<and> 13 + length names + length (concat bss) = n"
    proof (rule keyed_sizes [where f = "\<lambda>p. j6_len_with_depth (snd p) (depth + 1)"])
      fix p m assume x: "p \<in> set dict" "j6_len_with_depth (snd p) (depth + 1) = Inr m"
      then have "size (snd p) < size v" using KDict k_size_members(2) by simp
      moreover have "k_wf (snd p)" using less.prems(1) x(1) KDict by (auto simp: list_all_iff)
      ultimately show "\<exists>bs. serialize_into (snd p) = Inr bs \<and> length bs = m" using less.hyps x(2) by blast
    qed (use len' c KDict in \<open>simp add: checked_q_count_def split_def\<close>)
    then show ?thesis using KDict c
      by (auto simp: serialize_into.simps checked_q_count_def split_def)
  next
    case (KSeries s)
    then show ?thesis using len' less.prems(1) series_size [of s n]
      by (simp add: serialize_into.simps)
  next
    case (KDataFrame df)
    then show ?thesis using len' less.prems(1) data_frame_size [of df n]
      by (simp add: serialize_into.simps)
  next
    case (KDate x)
    then show ?thesis using len' less.prems(1)
      by (auto simp: serialize_into.simps)
  qed (use len' less.prems(1) in \<open>auto simp: serialize_into.simps rbind_Inr_iff add_len_Inr
      checked_q_count_def q_list_length_ok validate_q_symbol_def length_le_word ok_or_Inr_iff bind_eq_Some_conv usize_simps
      split: if_splits\<close>)
qed



end
