(* ===== verification/KDeserialize.thy ===== *)
theory KDeserialize
  imports KSerialize ListScan
begin

text \<open>
  The native deserializer of \<open>crates/xqdb/src/serde6.rs\<close>: atoms, typed lists, nested lists, mixed
  lists, dictionaries, tables, lambdas and operators, from the bytes of a value to a \<open>K\<close>. Readers
  take a position and return the next one. Where the source would panic the result is
  \<open>Inl Panicked\<close>, which \<open>deserialize\<close> turns into an error as its \<open>catch_unwind\<close> does.
\<close>

section \<open>Reading\<close>

definition take_bytes :: "nat \<Rightarrow> bytes \<Rightarrow> nat \<Rightarrow> (bytes \<times> nat) xresult" where
  "take_bytes n bs pos =
     rbind (ok_or (checked_add pos n) DeserializationErr) (\<lambda>end.
     rbind (ok_or (get_range bs pos end) DeserializationErr) (\<lambda>value.
     Inr (value, end)))"

definition take_until_nul_at :: "bytes \<Rightarrow> nat \<Rightarrow> (bytes \<times> nat) xresult" where
  "take_until_nul_at bs pos =
     rbind (ok_or (get_from bs pos) DeserializationErr) (\<lambda>tail.
     rbind (ok_or (memchr0 tail) DeserializationErr) (\<lambda>len.
     rbind (ok_or (checked_add pos len) DeserializationErr) (\<lambda>end.
     rbind (ok_or (get_range bs pos end) Panicked) (\<lambda>value.
     rbind (ok_or (checked_add end 1) DeserializationErr) (\<lambda>next_pos.
     Inr (value, next_pos))))))"

definition take_utf8_until_nul :: "bytes \<Rightarrow> nat \<Rightarrow> symbol_encoding \<Rightarrow> (bytes \<times> nat) xresult" where
  "take_utf8_until_nul bs pos encoding =
     rbind (take_until_nul_at bs pos) (\<lambda>(value, pos).
     rbind (decode_utf8 value encoding) (\<lambda>text. Inr (text, pos)))"

definition check_symbol_list_consumed :: "bytes \<Rightarrow> nat \<Rightarrow> unit xresult" where
  "check_symbol_list_consumed payload cursor =
     (if cursor = length payload then Inr () else Inl DeserializationErr)"

definition of_le :: "bytes \<Rightarrow> 'a::len word" where
  "of_le bs = of_nat (le_nat bs)"

function wire_chunks :: "nat \<Rightarrow> bytes \<Rightarrow> bytes list" where
  "wire_chunks w bs = (if w = 0 \<or> length bs < w then [] else take w bs # wire_chunks w (drop w bs))"
  by pat_completeness auto
termination by (relation "measure (\<lambda>(w, bs). length bs)") auto

declare wire_chunks.simps [simp del]

definition decode_wire_numbers :: "bytes \<Rightarrow> 'a::len word list xresult" where
  "decode_wire_numbers bs =
     (let w = LENGTH('a) div 8 in
      if length bs mod w \<noteq> 0 then Inl DeserializationErr
      else Inr (map of_le (wire_chunks w bs)))"

section \<open>Times\<close>

definition unix_timestamp_nanoseconds :: "int \<Rightarrow> int xresult" where
  "unix_timestamp_nanoseconds q_nanoseconds =
     (if q_nanoseconds = -9223372036854775808 + 1 \<or> q_nanoseconds = 9223372036854775807
      then Inl DeserializationErr
      else ok_or (checked_i64 (q_nanoseconds + NANOS_DIFF)) DeserializationErr)"

definition finite_f64_to_i64 :: "f64 \<Rightarrow> int xresult" where
  "finite_f64_to_i64 value =
     (if \<not> f64_is_finite value
         \<or> \<not> (-9223372036854775808 * int (f64_den value) \<le> f64_num value
              \<and> f64_num value < 9223372036854775808 * int (f64_den value))
      then Inl DeserializationErr else Inr (f64_trunc value))"

definition q_datetime_nanoseconds :: "f64 \<Rightarrow> int xresult" where
  "q_datetime_nanoseconds q_days =
     rbind (finite_f64_to_i64 (f64_round (f64_mul q_days MS_PER_DAY))) (\<lambda>q_milliseconds.
     ok_or (Option.bind (checked_i64 (q_milliseconds * 1000000)) (\<lambda>v. checked_i64 (v + NANOS_DIFF)))
       DeserializationErr)"

text \<open>\<open>NaiveTime::from_num_seconds_from_midnight_opt\<close> for a time below one day.\<close>

definition time_of_nanoseconds :: "int \<Rightarrow> k" where
  "time_of_nanoseconds ns = KTime (nat (ns div 1000000000)) (nat (ns mod 1000000000))"

section \<open>Atoms\<close>

definition time_multiplier :: "byte \<Rightarrow> int" where
  "time_multiplier k_type = (if k_type = 237 then 1000000 else if k_type = 238 then 1000000000 else 60000000000)"

definition deserialize_temporal_atom :: "externals \<Rightarrow> bytes \<Rightarrow> byte \<Rightarrow> nat \<Rightarrow> (k \<times> nat) xresult" where
  "deserialize_temporal_atom ext vec k_type pos =
     (if k_type = 244 then
        rbind (take_bytes 8 vec pos) (\<lambda>(raw, pos).
        if (of_le raw :: 64 word) = I64_MIN then Inr (KNull, pos)
        else rbind (unix_timestamp_nanoseconds (le_i64 raw)) (\<lambda>ns. Inr (KDateTime ns, pos)))
      else if k_type = 243 then
        rbind (take_bytes 4 vec pos) (\<lambda>(raw, pos).
        rbind (ok_or (checked_i32 (2000 + le_i32 raw div 12)) DeserializationErr) (\<lambda>year.
        rbind (ok_or (from_ymd ext year (le_i32 raw mod 12 + 1)) DeserializationErr) (\<lambda>d.
        Inr (KDate d, pos))))
      else if k_type = 242 then
        rbind (take_bytes 4 vec pos) (\<lambda>(raw, pos).
        rbind (ok_or (checked_i32 (le_i32 raw + DAY_DIFF)) DeserializationErr) (\<lambda>days.
        rbind (ok_or (from_num_days ext days) DeserializationErr) (\<lambda>d.
        Inr (KDate d, pos))))
      else if k_type = 241 then
        rbind (take_bytes 8 vec pos) (\<lambda>(raw, pos).
        let unit = of_le raw :: f64 in
        if f64_is_nan unit then Inr (KNull, pos)
        else if \<not> f64_is_finite unit then Inl DeserializationErr
        else rbind (q_datetime_nanoseconds unit) (\<lambda>ns. Inr (KDateTime ns, pos)))
      else if k_type = 240 then
        rbind (take_bytes 8 vec pos) (\<lambda>(raw, pos). Inr (KDuration (le_i64 raw), pos))
      else
        rbind (take_bytes 4 vec pos) (\<lambda>(raw, pos).
        let unit = le_i32 raw in
        if unit < 0 then Inl (NotSupportedMinusTimeErr k_type)
        else case checked_i64 (unit * time_multiplier k_type) of
          Some ns \<Rightarrow> if ns < NANOS_PER_DAY then Inr (time_of_nanoseconds ns, pos) else Inl DeserializationErr
        | None \<Rightarrow> Inl DeserializationErr))"

definition deserialize_atom ::
  "externals \<Rightarrow> bytes \<Rightarrow> symbol_encoding \<Rightarrow> byte \<Rightarrow> nat \<Rightarrow> (k \<times> nat) xresult" where
  "deserialize_atom ext vec encoding k_type pos =
     (if k_type = 255 then
        rbind (take_bytes 1 vec pos) (\<lambda>(raw, pos).
        if raw = [0] then Inr (KBoolean False, pos)
        else if raw = [1] then Inr (KBoolean True, pos)
        else Inl DeserializationErr)
      else if k_type = 254 then rbind (take_bytes 16 vec pos) (\<lambda>(raw, pos). Inr (KGuid raw, pos))
      else if k_type = 252 then rbind (take_bytes 1 vec pos) (\<lambda>(raw, pos). Inr (KU8 (raw ! 0), pos))
      else if k_type = 251 then rbind (take_bytes 2 vec pos) (\<lambda>(raw, pos). Inr (KI16 (of_le raw), pos))
      else if k_type = 250 then rbind (take_bytes 4 vec pos) (\<lambda>(raw, pos). Inr (KI32 (of_le raw), pos))
      else if k_type = 249 then rbind (take_bytes 8 vec pos) (\<lambda>(raw, pos). Inr (KI64 (of_le raw), pos))
      else if k_type = 248 then rbind (take_bytes 4 vec pos) (\<lambda>(raw, pos). Inr (KF32 (of_le raw), pos))
      else if k_type = 247 then rbind (take_bytes 8 vec pos) (\<lambda>(raw, pos). Inr (KF64 (of_le raw), pos))
      else if k_type = 246 then rbind (take_bytes 1 vec pos) (\<lambda>(raw, pos). Inr (KChar (raw ! 0), pos))
      else if k_type = 245 then
        rbind (take_utf8_until_nul vec pos encoding) (\<lambda>(text, pos). Inr (KSymbol text, pos))
      else if k_type = 253 then Inl (NotSupportedKTypeErr k_type)
      else deserialize_temporal_atom ext vec k_type pos)"

section \<open>Lambdas and operators\<close>

definition deserialize_lambda :: "bytes \<Rightarrow> nat \<Rightarrow> symbol_encoding \<Rightarrow> (k \<times> nat) xresult" where
  "deserialize_lambda vec start_pos encoding =
     rbind (ok_or (get_from vec start_pos) DeserializationErr) (\<lambda>context_tail.
     rbind (ok_or (memchr0 context_tail) DeserializationErr) (\<lambda>context_length.
     rbind (ok_or (checked_add start_pos context_length) DeserializationErr) (\<lambda>context_end.
     rbind (ok_or (get_range vec start_pos context_end) Panicked) (\<lambda>raw_context.
     rbind (decode_utf8 raw_context encoding) (\<lambda>ctx.
     rbind (ok_or (checked_add context_end 1) DeserializationErr) (\<lambda>vector_start.
     rbind (ok_or (checked_add vector_start 6) DeserializationErr) (\<lambda>vector_end.
     rbind (ok_or (get_range vec vector_start vector_end) DeserializationErr) (\<lambda>header.
     if header ! 0 \<noteq> 10 then Inl DeserializationErr
     else if header ! 1 \<noteq> 0 then Inl DeserializationErr
     else rbind (ok_or (usize_of_int (le_i32 (take 4 (drop 2 header)))) DeserializationErr) (\<lambda>source_length.
     rbind (ok_or (checked_add vector_end source_length) DeserializationErr) (\<lambda>source_end.
     rbind (ok_or (get_range vec vector_end source_end) DeserializationErr) (\<lambda>raw_source.
     rbind (decode_utf8 raw_source encoding) (\<lambda>src.
     case qlambda_with_context src ctx of
       Inl _ \<Rightarrow> Inl DeserializationErr
     | Inr lambda \<Rightarrow> Inr (KLambda lambda, source_end)))))))))))))"

definition deserialize_operator :: "bytes \<Rightarrow> byte \<Rightarrow> nat \<Rightarrow> (k \<times> nat) xresult" where
  "deserialize_operator vec k_type pos =
     rbind (ok_or (get_at vec pos) DeserializationErr) (\<lambda>opcode.
     if k_type = 101 \<and> opcode = 0 then Inr (KNull, pos + 1)
     else rbind (ok_or (qoperator_from_wire k_type opcode) (NotSupportedKOperatorErr opcode)) (\<lambda>op.
       Inr (KOperator op, pos + 1)))"

section \<open>Typed lists\<close>

definition K_TYPE_NAME :: "bytes list" where
  "K_TYPE_NAME = map ascii
     ['''', ''boolean'', ''guid'', '''', ''byte'', ''short'', ''int'', ''long'', ''real'', ''float'',
      ''char'', ''symbol'', ''timestamp'', '''', ''date'', ''datetime'', ''timespan'', ''minute'',
      ''second'', ''time'']"

definition named_series :: "byte \<Rightarrow> column \<Rightarrow> k" where
  "named_series k_type c = KSeries \<lparr>s_name = K_TYPE_NAME ! unat k_type, s_data = c\<rparr>"

definition new_empty_series :: "byte \<Rightarrow> k xresult" where
  "new_empty_series k_type =
     rbind (if k_type = 0 then Inr (NullCol 0)
            else if k_type = 1 then Inr (BooleanCol [])
            else if k_type = 2 then Inr (BinaryCol [])
            else if k_type = 4 \<or> k_type = 10 then Inr (StringCol [])
            else if k_type = 5 then Inr (Int16Col [])
            else if k_type = 6 then Inr (Int32Col [])
            else if k_type = 7 then Inr (Int64Col [])
            else if k_type = 8 then Inr (Float32Col [])
            else if k_type = 9 then Inr (Float64Col [])
            else if k_type = 11 then Inr (CategoricalCol [])
            else if k_type = 12 \<or> k_type = 15 then Inr (DatetimeCol Nanoseconds [])
            else if k_type = 14 then Inr (DateCol [])
            else if k_type = 16 then Inr (DurationCol Nanoseconds [])
            else if 17 \<le> k_type \<and> k_type \<le> 19 then Inr (TimeCol [])
            else Inl (NotSupportedKListErr k_type)) (\<lambda>c.
     Inr (named_series k_type c))"

text \<open>Values with their validity.\<close>

definition nulls :: "('a \<Rightarrow> bool) \<Rightarrow> 'a list \<Rightarrow> 'a option list" where
  "nulls valid vs = map (\<lambda>v. if valid v then Some v else None) vs"

definition decode_booleans :: "bytes \<Rightarrow> bool option list xresult" where
  "decode_booleans payload =
     (if list_ex (\<lambda>v. v > 1) payload then Inl DeserializationErr
      else Inr (map (\<lambda>v. Some (v = 1)) payload))"

text \<open>The NUL-terminated symbols of a validated payload.\<close>

primrec split_symbols :: "nat \<Rightarrow> bytes \<Rightarrow> nat \<Rightarrow> (bytes list \<times> nat) xresult" where
  "split_symbols 0 payload cursor = Inr ([], cursor)"
| "split_symbols (Suc n) payload cursor =
     rbind (ok_or (get_from payload cursor) Panicked) (\<lambda>tail.
     rbind (ok_or (memchr0 tail) DeserializationErr) (\<lambda>terminator.
     rbind (split_symbols n payload (cursor + terminator + 1)) (\<lambda>(symbols, cursor).
     Inr (take terminator tail # symbols, cursor))))"

definition decode_symbols :: "bytes \<Rightarrow> nat \<Rightarrow> bytes list xresult" where
  "decode_symbols payload len =
     rbind (split_symbols len payload 0) (\<lambda>(symbols, cursor).
     rbind (check_symbol_list_consumed payload cursor) (\<lambda>_. Inr symbols))"

definition decode_char_column :: "bytes \<Rightarrow> symbol_encoding \<Rightarrow> bytes option list xresult" where
  "decode_char_column payload encoding =
     (if list_all (\<lambda>b. b < 128) payload then Inr (map (\<lambda>b. Some [b]) payload)
      else if encoding = Lossy
      then Inr (map (\<lambda>b. Some (if b < 128 then [b] else REPLACEMENT_CHARACTER)) payload)
      else Inl DeserializationErr)"

text \<open>A timestamp with the null kept as \<open>i64::MIN\<close>.\<close>

definition decode_timestamp :: "64 word \<Rightarrow> 64 word xresult" where
  "decode_timestamp v =
     (if v \<noteq> I64_MIN then rbind (unix_timestamp_nanoseconds (sint v)) (\<lambda>ns. Inr (word_of_int ns)) else Inr v)"

definition decode_datetime :: "f64 \<Rightarrow> 64 word xresult" where
  "decode_datetime v =
     (if f64_is_nan v then Inr I64_MIN
      else if \<not> f64_is_finite v then Inl DeserializationErr
      else rbind (q_datetime_nanoseconds v) (\<lambda>ns. Inr (word_of_int ns)))"

definition decode_date :: "32 word \<Rightarrow> 32 word option xresult" where
  "decode_date v =
     (if v = I32_MIN then Inr None
      else rbind (ok_or (checked_i32 (sint v + 10957)) DeserializationErr) (\<lambda>d. Inr (Some (word_of_int d))))"

definition decode_time :: "int \<Rightarrow> 32 word \<Rightarrow> 64 word option xresult" where
  "decode_time multiplier v =
     (if v = I32_MIN then Inr None
      else case checked_i64 (sint v * multiplier) of
        Some ns \<Rightarrow> if 0 \<le> ns \<and> ns < NANOS_PER_DAY then Inr (Some (word_of_int ns)) else Inl DeserializationErr
      | None \<Rightarrow> Inl DeserializationErr)"

definition finite_i16 :: "16 word \<Rightarrow> bool" where
  "finite_i16 v \<longleftrightarrow> sint v > sint I16_MIN + 1 \<and> sint v < sint I16_MAX"

definition finite_i32 :: "32 word \<Rightarrow> bool" where
  "finite_i32 v \<longleftrightarrow> sint v > sint I32_MIN + 1 \<and> sint v < sint I32_MAX"

definition finite_i64 :: "64 word \<Rightarrow> bool" where
  "finite_i64 v \<longleftrightarrow> sint v > sint I64_MIN + 1 \<and> sint v < sint I64_MAX"

text \<open>The fixed-width list types other than characters.\<close>

definition decode_fixed_column :: "byte \<Rightarrow> bytes \<Rightarrow> column xresult" where
  "decode_fixed_column k_type payload =
     (if k_type = 1 then rbind (decode_booleans payload) (\<lambda>vs. Inr (BooleanCol vs))
      else if k_type = 2 then Inr (BinaryCol (map Some (wire_chunks 16 payload)))
      else if k_type = 4 then Inr (UInt8Col (map Some payload))
      else if k_type = 5 then rbind (decode_wire_numbers payload) (\<lambda>vs. Inr (Int16Col (nulls finite_i16 vs)))
      else if k_type = 6 then rbind (decode_wire_numbers payload) (\<lambda>vs. Inr (Int32Col (nulls finite_i32 vs)))
      else if k_type = 7 then rbind (decode_wire_numbers payload) (\<lambda>vs. Inr (Int64Col (nulls finite_i64 vs)))
      else if k_type = 8 then
        rbind (decode_wire_numbers payload) (\<lambda>vs. Inr (Float32Col (nulls (\<lambda>v. \<not> f32_is_nan v) vs)))
      else if k_type = 9 then
        rbind (decode_wire_numbers payload) (\<lambda>vs. Inr (Float64Col (nulls (\<lambda>v. \<not> f64_is_nan v) vs)))
      else if k_type = 12 then
        rbind (decode_wire_numbers payload) (\<lambda>vs. rbind (rmap decode_timestamp vs) (\<lambda>vs.
        Inr (DatetimeCol Nanoseconds (nulls (\<lambda>v. v \<noteq> I64_MIN) vs))))
      else if k_type = 14 then
        rbind (decode_wire_numbers payload) (\<lambda>vs. rbind (rmap decode_date vs) (\<lambda>vs. Inr (DateCol vs)))
      else if k_type = 15 then
        rbind (decode_wire_numbers payload) (\<lambda>vs. rbind (rmap decode_datetime vs) (\<lambda>vs.
        Inr (DatetimeCol Nanoseconds (nulls (\<lambda>v. v \<noteq> I64_MIN) vs))))
      else if k_type = 16 then
        rbind (decode_wire_numbers payload) (\<lambda>vs. Inr (DurationCol Nanoseconds (nulls (\<lambda>v. v \<noteq> I64_MIN) vs)))
      else if 17 \<le> k_type \<and> k_type \<le> 19 then
        rbind (decode_wire_numbers payload) (\<lambda>vs.
        rbind (rmap (decode_time (if k_type = 17 then 60000000000 else if k_type = 18 then 1000000000 else 1000000)) vs)
          (\<lambda>vs. Inr (TimeCol vs)))
      else Inl (NotSupportedKListErr k_type))"

section \<open>Nested lists\<close>

text \<open>The rows of a nested character list, or \<open>None\<close> at the first row that is not UTF-8.\<close>

primrec char_rows :: "nat \<Rightarrow> bytes \<Rightarrow> nat \<Rightarrow> nat \<Rightarrow> (bytes list \<times> nat) option xresult" where
  "char_rows 0 vec pos values_len = Inr (Some ([], pos))"
| "char_rows (Suc n) vec pos values_len =
     rbind (ok_or (get_at vec pos) DeserializationErr) (\<lambda>current_k_type.
     rbind (take_list_length vec (pos + 1)) (\<lambda>(sub_length, pos).
     rbind (if current_k_type = 0 \<and> sub_length = 0 then Inr ([], pos)
            else if current_k_type = 10 then take_bytes sub_length vec pos
            else Inl (NotSupportedKMixedListErr 10 current_k_type)) (\<lambda>(payload, pos).
     if \<not> list_all (\<lambda>b. b < 128) payload \<and> \<not> utf8_valid payload then Inr None
     else if values_len \<ge> 4294967296 then Inl DeserializationErr
     else rbind (char_rows n vec pos (values_len + length payload)) (\<lambda>r.
       Inr (map_option (\<lambda>(rows, pos). (payload # rows, pos)) r)))))"

definition decode_char_rows :: "bytes \<Rightarrow> nat \<Rightarrow> nat \<Rightarrow> bytes list option xresult" where
  "decode_char_rows vec pos len =
     rbind (char_rows len vec pos 0) (\<lambda>r. case r of
       None \<Rightarrow> Inr None
     | Some (rows, pos) \<Rightarrow> if pos \<noteq> length vec then Inl DeserializationErr else Inr (Some rows))"

record nested_state =
  n_pos :: nat
  n_offsets :: "nat list"
  n_values :: bytes
  n_symbols :: "bytes list"

primrec take_nested_symbols ::
  "nat \<Rightarrow> bytes \<Rightarrow> symbol_encoding \<Rightarrow> nested_state \<Rightarrow> nested_state xresult" where
  "take_nested_symbols 0 vec encoding st = Inr st"
| "take_nested_symbols (Suc n) vec encoding st =
     rbind (take_utf8_until_nul vec (n_pos st) encoding) (\<lambda>(symbol, pos).
     take_nested_symbols n vec encoding (st\<lparr>n_pos := pos, n_symbols := n_symbols st @ [symbol]\<rparr>))"

text \<open>One element of a nested list whose first element has type \<open>k_type\<close>.\<close>

definition nested_row :: "bytes \<Rightarrow> symbol_encoding \<Rightarrow> byte \<Rightarrow> nested_state \<Rightarrow> nested_state xresult" where
  "nested_row vec encoding k_type st =
     rbind (ok_or (get_at vec (n_pos st)) DeserializationErr) (\<lambda>current_k_type.
     rbind (take_list_length vec (n_pos st + 1)) (\<lambda>(sub_length, pos).
     if current_k_type = 0 \<and> sub_length \<noteq> 0 then Inl (NotSupportedKMixedListErr k_type current_k_type)
     else if current_k_type \<noteq> 0 \<and> current_k_type \<noteq> k_type then Inl (NotSupportedKMixedListErr k_type current_k_type)
     else
       let next_offset = last (n_offsets st) + sub_length in
       if next_offset \<ge> 2147483648 then Inl DeserializationErr
       else
         let st = st\<lparr>n_pos := pos, n_offsets := n_offsets st @ [next_offset]\<rparr> in
         if current_k_type = 0 then Inr st
         else if k_type = 11 then take_nested_symbols sub_length vec encoding st
         else rbind (ok_or (checked_mul sub_length (K_TYPE_SIZE ! unat k_type)) DeserializationErr) (\<lambda>payload_length.
           rbind (take_bytes payload_length vec (n_pos st)) (\<lambda>(payload, pos).
           Inr (st\<lparr>n_pos := pos, n_values := n_values st @ payload\<rparr>)))))"

text \<open>The child values of a nested list.\<close>

definition nested_child :: "byte \<Rightarrow> bytes \<Rightarrow> bytes list \<Rightarrow> column xresult" where
  "nested_child k_type values symbols =
     (if k_type = 1 then rbind (decode_booleans values) (\<lambda>vs. Inr (BooleanCol vs))
      else if k_type = 4 then Inr (UInt8Col (map Some values))
      else if k_type = 5 then rbind (decode_wire_numbers values) (\<lambda>vs. Inr (Int16Col (nulls (\<lambda>v. v \<noteq> I16_MIN) vs)))
      else if k_type = 6 then rbind (decode_wire_numbers values) (\<lambda>vs. Inr (Int32Col (nulls (\<lambda>v. v \<noteq> I32_MIN) vs)))
      else if k_type = 7 then rbind (decode_wire_numbers values) (\<lambda>vs. Inr (Int64Col (nulls (\<lambda>v. v \<noteq> I64_MIN) vs)))
      else if k_type = 8 then
        rbind (decode_wire_numbers values) (\<lambda>vs. Inr (Float32Col (nulls (\<lambda>v. \<not> f32_is_nan v) vs)))
      else if k_type = 9 then
        rbind (decode_wire_numbers values) (\<lambda>vs. Inr (Float64Col (nulls (\<lambda>v. \<not> f64_is_nan v) vs)))
      else if k_type = 11 then Inr (CategoricalCol (map Some symbols))
      else if k_type = 12 then
        rbind (decode_wire_numbers values) (\<lambda>vs. rbind (rmap decode_timestamp vs) (\<lambda>vs.
        Inr (DatetimeCol Nanoseconds (nulls (\<lambda>v. v \<noteq> I64_MIN) vs))))
      else Inl (NotSupportedKNestedListErr k_type))"

text \<open>The rows of a nested character list that has a row which is not UTF-8 on its own.\<close>

definition nested_char_rows :: "symbol_encoding \<Rightarrow> bytes \<Rightarrow> nat list \<Rightarrow> bytes list xresult" where
  "nested_char_rows encoding values boundaries =
     rbind (case validate_nested_char values boundaries of
              Inr _ \<Rightarrow> Inr (values, boundaries)
            | Inl e \<Rightarrow> if encoding = Strict then Inl e else transcode_nested_char_lossy values boundaries)
       (\<lambda>(values, boundaries).
     rmap (\<lambda>(start, end). ok_or (get_range values start end) Panicked) (windows2 boundaries))"

definition deserialize_nested_rows :: "bytes \<Rightarrow> symbol_encoding \<Rightarrow> byte \<Rightarrow> nat \<Rightarrow> nat \<Rightarrow> k xresult" where
  "deserialize_nested_rows vec encoding k_type len pos =
     rbind (rfold (\<lambda>_ st. nested_row vec encoding k_type st) (replicate len ())
       \<lparr>n_pos = pos, n_offsets = [0], n_values = [], n_symbols = []\<rparr>) (\<lambda>st.
     if n_pos st \<noteq> length vec then Inl DeserializationErr
     else if k_type = 10 then
       rbind (nested_char_rows encoding (n_values st) (n_offsets st)) (\<lambda>rows.
       Inr (named_series k_type (StringCol (map Some rows))))
     else rbind (nested_child k_type (n_values st) (n_symbols st)) (\<lambda>child.
       Inr (named_series k_type (ListCol (replicate len True) (map int (n_offsets st)) child))))"

definition deserialize_nested_array :: "bytes \<Rightarrow> symbol_encoding \<Rightarrow> k xresult" where
  "deserialize_nested_array vec encoding =
     rbind (take_list_length vec 0) (\<lambda>(len, pos).
     if len = 0 then (if pos \<noteq> length vec then Inl DeserializationErr else new_empty_series 0)
     else rbind (ok_or (get_at vec pos) DeserializationErr) (\<lambda>k_type.
     if \<not> nestable_type k_type then Inl (NotSupportedKNestedListErr k_type)
     else rbind (if k_type = 11 then Inr 0
                 else ok_or (Option.bind (checked_mul len 6) (\<lambda>headers. checked_sub (length vec - pos) headers))
                        DeserializationErr) (\<lambda>payload_capacity.
     if k_type = 10 then
       rbind (decode_char_rows vec pos len) (\<lambda>r. case r of
         Some rows \<Rightarrow> Inr (named_series k_type (StringCol (map Some rows)))
       | None \<Rightarrow> deserialize_nested_rows vec encoding k_type len pos)
     else deserialize_nested_rows vec encoding k_type len pos)))"

section \<open>Lists\<close>

definition deserialize_series :: "bytes \<Rightarrow> byte \<Rightarrow> bool \<Rightarrow> symbol_encoding \<Rightarrow> k xresult" where
  "deserialize_series vec k_type as_column encoding =
     (if unat k_type \<ge> length K_TYPE_SIZE then Inl (NotSupportedKListErr k_type)
      else rbind (take_list_length vec 0) (\<lambda>(len, pos).
      if len = 0 then
        (if pos \<noteq> length vec then Inl DeserializationErr
         else if k_type = 10 \<and> \<not> as_column then Inr (KCharVector []) else new_empty_series k_type)
      else rbind (ok_or (get_from vec pos) DeserializationErr) (\<lambda>array_vec.
      rbind (if k_type \<noteq> 0 \<and> k_type \<noteq> 11 then
               rbind (ok_or (checked_mul len (K_TYPE_SIZE ! unat k_type)) DeserializationErr) (\<lambda>expected_length.
               if length array_vec \<noteq> expected_length then Inl DeserializationErr else Inr ())
             else Inr ()) (\<lambda>_.
      if k_type = 0 then deserialize_nested_array vec encoding
      else if k_type = 10 then
        (if as_column then rbind (decode_char_column array_vec encoding) (\<lambda>vs. Inr (named_series k_type (StringCol vs)))
         else Inr (KCharVector array_vec))
      else if k_type = 11 then
        rbind (decode_utf8 array_vec encoding) (\<lambda>text.
        rbind (decode_symbols text len) (\<lambda>symbols.
        Inr (named_series k_type (if as_column then CategoricalCol (map Some symbols) else StringCol (map Some symbols)))))
      else rbind (decode_fixed_column k_type array_vec) (\<lambda>c. Inr (named_series k_type c))))))"

section \<open>Tables\<close>

text \<open>The payloads of the columns: type byte and bytes, one after the other.\<close>

primrec table_columns :: "nat \<Rightarrow> bytes \<Rightarrow> nat \<Rightarrow> ((byte \<times> bytes) list \<times> nat) xresult" where
  "table_columns 0 vec pos = Inr ([], pos)"
| "table_columns (Suc n) vec pos =
     rbind (index_at vec pos) (\<lambda>k_type.
     rbind (calculate_array_end_index vec (pos + 1) k_type) (\<lambda>end_pos.
     rbind (ok_or (get_range vec (pos + 1) end_pos) Panicked) (\<lambda>payload.
     rbind (table_columns n vec end_pos) (\<lambda>(columns, pos). Inr ((k_type, payload) # columns, pos)))))"

text \<open>The strings of a column, \<open>series.str()\<close>.\<close>

fun column_strings :: "column \<Rightarrow> bytes list option" where
  "column_strings (StringCol vs) = Some (map (unwrap_or []) vs)"
| "column_strings _ = None"

definition decode_column :: "symbol_encoding \<Rightarrow> byte \<times> bytes \<Rightarrow> series xresult" where
  "decode_column encoding c = rbind (deserialize_series (snd c) (fst c) True encoding) series_of_k"

definition rename_columns :: "series list \<Rightarrow> bytes list \<Rightarrow> series list" where
  "rename_columns columns names = map (\<lambda>(c, n). c\<lparr>s_name := n\<rparr>) (zip columns names)"

definition deserialize_table ::
  "externals \<Rightarrow> bytes \<Rightarrow> symbol_encoding \<Rightarrow> nat \<Rightarrow> (k \<times> nat) xresult" where
  "deserialize_table ext vec encoding pos =
     (let pos = pos + 3 in
      rbind (calculate_array_end_index vec pos 11) (\<lambda>end_pos.
      rbind (ok_or (get_range vec pos end_pos) Panicked) (\<lambda>name_bytes.
      rbind (deserialize_series name_bytes 11 False encoding) (\<lambda>v.
      rbind (case v of KSeries s \<Rightarrow> ok_or (column_strings (s_data s)) Panicked | _ \<Rightarrow> Inl DeserializationErr) (\<lambda>symbols.
      rbind (table_columns (length symbols) vec (end_pos + 6)) (\<lambda>(vectors, pos).
      rbind (rmap (decode_column encoding) vectors) (\<lambda>columns.
      let frame_columns = rename_columns columns symbols in
      if frame_ok ext frame_columns then Inr (KDataFrame frame_columns, pos) else Inl DeserializationErr)))))))"

section \<open>Dictionaries\<close>

text \<open>The elements of a dictionary's value list.\<close>

fun dictionary_values :: "externals \<Rightarrow> k \<Rightarrow> k list xresult" where
  "dictionary_values ext (KSeries s) = rmap (try_from_any_value ext) (column_iter (s_data s))"
| "dictionary_values ext (KMixedList vs) = Inr vs"
| "dictionary_values ext (KCharVector cs) = Inr (map KChar cs)"
| "dictionary_values ext _ = Inl DeserializationErr"

fun dictionary_values_len :: "k \<Rightarrow> nat xresult" where
  "dictionary_values_len (KSeries s) = Inr (series_len s)"
| "dictionary_values_len (KMixedList vs) = Inr (length vs)"
| "dictionary_values_len (KCharVector cs) = Inr (length cs)"
| "dictionary_values_len _ = Inl DeserializationErr"

text \<open>The rows of a categorical column, \<open>keys.cat32()\<close>.\<close>

fun column_categories :: "column \<Rightarrow> bytes list xresult" where
  "column_categories (CategoricalCol vs) = Inr (map (unwrap_or []) vs)"
| "column_categories _ = Inl DeserializationErr"

definition insert_entries :: "(bytes \<times> k) list \<Rightarrow> (bytes \<times> k) list xresult" where
  "insert_entries entries =
     rfold (\<lambda>(key, value) dict.
       if key \<in> fst ` set dict then Inl DeserializationErr else Inr (dict @ [(key, value)])) entries []"

text \<open>The keys of a symbol dictionary, from the byte after the key type.\<close>

definition dictionary_keys :: "bytes \<Rightarrow> symbol_encoding \<Rightarrow> byte \<Rightarrow> nat \<Rightarrow> (series \<times> nat) xresult" where
  "dictionary_keys vec encoding key_type pos =
     (if key_type = 11 then
        rbind (calculate_array_end_index vec pos 11) (\<lambda>end_pos.
        rbind (ok_or (get_range vec pos end_pos) Panicked) (\<lambda>key_bytes.
        rbind (deserialize_series key_bytes 11 True encoding) (\<lambda>v.
        rbind (series_of_k v) (\<lambda>keys. Inr (keys, end_pos)))))
      else
        rbind (take_list_length vec pos) (\<lambda>(len, pos).
        if len = 0 then rbind (new_empty_series 11) (\<lambda>v. rbind (series_of_k v) (\<lambda>keys. Inr (keys, pos)))
        else Inl Err))"

definition deserialize_dictionary ::
  "externals \<Rightarrow> (bool \<Rightarrow> nat \<Rightarrow> (k \<times> nat) xresult) \<Rightarrow> bytes \<Rightarrow> bool \<Rightarrow> symbol_encoding \<Rightarrow> nat \<Rightarrow> (k \<times> nat) xresult" where
  "deserialize_dictionary ext rec vec is_column encoding pos =
     rbind (ok_or (get_at vec pos) DeserializationErr) (\<lambda>key_type.
     if key_type = 98 then
       rbind (rec True pos) (\<lambda>(key, pos).
       rbind (data_frame_of_k key) (\<lambda>key_df.
       rbind (rec True pos) (\<lambda>(value, pos).
       rbind (data_frame_of_k value) (\<lambda>value_df.
       if hstack_ok ext key_df value_df then Inr (KDataFrame (key_df @ value_df), pos) else Inl Err))))
     else if key_type = 11 \<or> key_type = 0 then
       rbind (dictionary_keys vec encoding key_type (pos + 1)) (\<lambda>(keys, pos).
       rbind (ok_or (get_at vec pos) DeserializationErr) (\<lambda>value_type.
       if value_type > 19 then Inl Err
       else rbind (rec is_column pos) (\<lambda>(values, pos).
         rbind (column_categories (s_data keys)) (\<lambda>names.
         rbind (dictionary_values_len values) (\<lambda>value_length.
         if length names \<noteq> value_length then Inl DeserializationErr
         else rbind (dictionary_values ext values) (\<lambda>elements.
           rbind (insert_entries (zip names elements)) (\<lambda>dict.
           Inr (KDict dict, pos))))))))
     else Inl Err)"

section \<open>Values\<close>

primrec deserialize_values ::
  "(nat \<Rightarrow> (k \<times> nat) xresult) \<Rightarrow> nat \<Rightarrow> nat \<Rightarrow> (k list \<times> nat) xresult" where
  "deserialize_values rec 0 pos = Inr ([], pos)"
| "deserialize_values rec (Suc n) pos =
     rbind (rec pos) (\<lambda>(v, pos).
     rbind (deserialize_values rec n pos) (\<lambda>(vs, pos). Inr (v # vs, pos)))"

definition deserialize_mixed_list ::
  "(bool \<Rightarrow> nat \<Rightarrow> (k \<times> nat) xresult) \<Rightarrow> bytes \<Rightarrow> nat \<Rightarrow> (k \<times> nat) xresult" where
  "deserialize_mixed_list rec vec pos =
     rbind (take_bytes 1 vec pos) (\<lambda>(_, pos).
     rbind (take_bytes 4 vec pos) (\<lambda>(raw_length, pos).
     rbind (ok_or (usize_of_int (le_i32 raw_length)) DeserializationErr) (\<lambda>len.
     if len > (length vec - pos) div 2 then Inl DeserializationErr
     else rbind (deserialize_values (rec False) len pos) (\<lambda>(res, pos). Inr (KMixedList res, pos)))))"

definition deserialize_list ::
  "(bool \<Rightarrow> nat \<Rightarrow> (k \<times> nat) xresult) \<Rightarrow> bytes \<Rightarrow> bool \<Rightarrow> symbol_encoding \<Rightarrow> byte \<Rightarrow> nat \<Rightarrow> (k \<times> nat) xresult" where
  "deserialize_list rec vec is_column encoding k_type pos =
     (case calculate_array_end_index vec pos k_type of
        Inl e \<Rightarrow> if e = Panicked then Inl e
                 else if \<not> is_column \<and> k_type = 0 then deserialize_mixed_list rec vec pos else Inl e
      | Inr end_pos \<Rightarrow>
          rbind (ok_or (get_range vec pos end_pos) Panicked) (\<lambda>payload.
          rbind (deserialize_series payload k_type (k_type \<noteq> 10) encoding) (\<lambda>v. Inr (v, end_pos))))"

lemma deserialize_rec_cong [fundef_cong]:
  "(\<And>c p. rec c p = rec' c p) \<Longrightarrow> vec = vec' \<Longrightarrow> c = c' \<Longrightarrow> e = e' \<Longrightarrow> k = k' \<Longrightarrow> p = p' \<Longrightarrow>
     deserialize_list rec vec c e k p = deserialize_list rec' vec' c' e' k' p'"
  "(\<And>c p. rec c p = rec' c p) \<Longrightarrow> ext = ext' \<Longrightarrow> vec = vec' \<Longrightarrow> c = c' \<Longrightarrow> e = e' \<Longrightarrow> p = p' \<Longrightarrow>
     deserialize_dictionary ext rec vec c e p = deserialize_dictionary ext' rec' vec' c' e' p'"
  by (auto intro!: arg_cong [where f = "\<lambda>r. deserialize_list r _ _ _ _ _"]
      arg_cong [where f = "\<lambda>r. deserialize_dictionary _ r _ _ _ _"] ext)

function deserialize_unchecked ::
  "externals \<Rightarrow> bytes \<Rightarrow> symbol_encoding \<Rightarrow> nat \<Rightarrow> bool \<Rightarrow> nat \<Rightarrow> (k \<times> nat) xresult" where
  "deserialize_unchecked ext vec encoding depth is_column pos =
     (if depth > MAX_VALUE_DEPTH then Inl DeserializationErr
      else rbind (ok_or (get_at vec pos) DeserializationErr) (\<lambda>k_type.
        let start_pos = pos + 1 in
        if k_type \<ge> 237 then deserialize_atom ext vec encoding k_type start_pos
        else if k_type \<le> 19 then
          deserialize_list (\<lambda>c p. deserialize_unchecked ext vec encoding (depth + 1) c p)
            vec is_column encoding k_type start_pos
        else if k_type = 99 then
          deserialize_dictionary ext (\<lambda>c p. deserialize_unchecked ext vec encoding (depth + 1) c p)
            vec is_column encoding start_pos
        else if k_type = 98 then deserialize_table ext vec encoding start_pos
        else if k_type = 100 then deserialize_lambda vec start_pos encoding
        else if 101 \<le> k_type \<and> k_type \<le> 103 then deserialize_operator vec k_type start_pos
        else if k_type = 128 then
          rbind (take_utf8_until_nul vec start_pos Lossy) (\<lambda>(message, _). Inl (ServerErr message))
        else Inl (NotSupportedKTypeErr k_type)))"
  by pat_completeness auto
termination
  by (relation "measure (\<lambda>(ext, vec, encoding, depth, is_column, pos). MAX_VALUE_DEPTH + 1 - depth)") auto

declare deserialize_unchecked.simps [simp del]

definition deserialize :: "externals \<Rightarrow> bytes \<Rightarrow> symbol_encoding \<Rightarrow> k xresult" where
  "deserialize ext vec encoding =
     (case deserialize_unchecked ext vec encoding 0 False 0 of
        Inr (value, pos) \<Rightarrow> if pos = length vec then Inr value else Inl DeserializationErr
      | Inl Panicked \<Rightarrow> Inl DeserializationErr
      | Inl e \<Rightarrow> Inl e)"

end
