(* ===== verification/KRoundTrip.thy ===== *)
theory KRoundTrip
  imports KLenCorrect KDeserialize
begin

text \<open>
  What the native serializer writes, the native deserializer reads back: columns of every type,
  tables, atoms and nested values. The columns and values that survive are those without the values
  q keeps for its nulls and infinities and without nulls where q has none.
\<close>

section \<open>Numbers\<close>

lemma of_le_le_word [simp]:
  fixes w :: "'a::len word"
  assumes "8 dvd LENGTH('a)"
  shows "of_le (le_word w) = w"
proof -
  obtain k where k: "LENGTH('a) = 8 * k" using assms by blast
  have "unat w < 256 ^ k" using unsigned_less [of w] k by (simp add: power_mult)
  then show ?thesis by (simp add: of_le_def le_word_def k le_nat_le_bytes_exact)
qed

lemma of_le_le_int:
  assumes "LENGTH('a::len) = 8 * w"
  shows "(of_le (le_int w i) :: 'a word) = word_of_int i"
proof -
  have p: "(256 :: int) ^ w = 2 ^ LENGTH('a)" using assms by (simp add: power_mult)
  have "nat (i mod 256 ^ w) < 256 ^ w" by (simp add: nat_less_iff)
  then have "of_le (le_int w i) = (of_nat (nat (i mod 256 ^ w)) :: 'a word)"
    by (simp add: of_le_def le_int_def le_nat_le_bytes_exact)
  also have "\<dots> = word_of_int (i mod 256 ^ w)" by simp
  also have "\<dots> = word_of_int i" unfolding p by (simp add: word_of_int_eq_iff flip: take_bit_eq_mod)
  finally show ?thesis .
qed

lemma sint_word_of_int:
  assumes "- (2 ^ (LENGTH('a::len) - 1)) \<le> i" "i < 2 ^ (LENGTH('a) - 1)"
  shows "sint (word_of_int i :: 'a word) = i"
  using assms by (simp add: signed_of_int signed_take_bit_int_eq_self)

lemma le_nat_le_int: "le_nat (le_int w i) = nat (i mod 256 ^ w)"
  by (simp add: le_int_def le_nat_le_bytes_exact nat_less_iff)

lemma mod_negative: "- m \<le> i \<Longrightarrow> i < 0 \<Longrightarrow> i mod m = i + (m :: int)"
  using mod_add_self2 [of i m] mod_pos_pos_trivial [of "i + m" m] by simp

lemma le_i32_le_int: "-2147483648 \<le> i \<Longrightarrow> i < 2147483648 \<Longrightarrow> le_i32 (le_int 4 i) = i"
  using mod_negative [of 4294967296 i] by (cases "0 \<le> i") (auto simp: le_i32_def Let_def le_nat_le_int)

lemma le_i64_le_int: "-9223372036854775808 \<le> i \<Longrightarrow> i < 9223372036854775808 \<Longrightarrow> le_i64 (le_int 8 i) = i"
  using mod_negative [of 18446744073709551616 i] by (cases "0 \<le> i") (auto simp: le_i64_def Let_def le_nat_le_int)

lemma checked_i32_Some: "checked_i32 i = Some j \<longleftrightarrow> -2147483648 \<le> i \<and> i < 2147483648 \<and> j = i"
  by (auto simp: checked_i32_def)

lemma checked_i64_Some: "checked_i64 i = Some j \<longleftrightarrow> -9223372036854775808 \<le> i \<and> i < 9223372036854775808 \<and> j = i"
  by (auto simp: checked_i64_def)

lemma wire_chunks_concat:
  "0 < w \<Longrightarrow> (\<And>x. x \<in> set xs \<Longrightarrow> length (f x) = w) \<Longrightarrow> wire_chunks w (concat (map f xs)) = map f xs"
  by (induction xs) (auto simp: wire_chunks.simps)

text \<open>What is written number by number is read back number by number.\<close>

lemma decode_wire_numbers_concat:
  assumes "\<And>x. x \<in> set xs \<Longrightarrow> length (f x) = LENGTH('a::len) div 8" "0 < LENGTH('a) div 8"
  shows "(decode_wire_numbers (concat (map f xs)) :: 'a word list xresult) = Inr (map (\<lambda>x. of_le (f x)) xs)"
  using wire_chunks_concat [of "LENGTH('a) div 8" xs f] assms length_concat_map_const [of xs f "LENGTH('a) div 8"]
  by (simp add: decode_wire_numbers_def Let_def)

lemma decode_write_wire_numbers:
  fixes null_value :: "'a::len word"
  assumes "8 dvd LENGTH('a)"
  shows "decode_wire_numbers (write_wire_numbers null_value vs) = Inr (map (unwrap_or null_value) vs)"
proof -
  obtain k where k: "LENGTH('a) = 8 * k" using assms by blast
  have "0 < LENGTH('a)" by simp
  then have "0 < LENGTH('a) div 8" using k by simp
  then show ?thesis unfolding write_wire_numbers_def
    using decode_wire_numbers_concat [of vs "\<lambda>v. le_word (unwrap_or null_value v)", where 'a = 'a] assms
    by (simp add: length_le_word)
qed

section \<open>List headers\<close>

lemma take_list_length_append:
  assumes "n < 2147483648" "length pre + 5 < usize_limit"
  shows "take_list_length (pre @ a # le_bytes 4 n @ rest) (length pre) = Inr (n, length pre + 5)"
proof -
  have "get_range (pre @ a # le_bytes 4 n @ rest) (length pre) (length pre + 5) = Some (a # le_bytes 4 n)"
    by (simp add: get_range_def del: le_bytes_numeral)
  moreover have "usize_of_int (le_i32 (le_bytes 4 n)) = Some n"
    using assms(1) by (subst usize_of_int_le_i32) (simp_all add: le_nat_le_bytes del: le_bytes_numeral)
  ultimately show ?thesis using assms(2)
    by (simp add: take_list_length_def checked_add_def del: le_bytes_numeral)
qed


definition list_wire :: "nat \<Rightarrow> bytes \<Rightarrow> bytes" where
  "list_wire n body = 0 # le_bytes 4 n @ body"

lemma length_list_wire [simp]: "length (list_wire n body) = 5 + length body"
  by (simp add: list_wire_def del: le_bytes_numeral)

lemma take_list_length_wire:
  assumes "n < 2147483648" "length pre + 5 < usize_limit"
  shows "take_list_length (pre @ list_wire n body @ post) (length pre) = Inr (n, length pre + 5)"
  using take_list_length_append [OF assms, of 0 "body @ post"] by (simp add: list_wire_def del: le_bytes_numeral)

lemma take_list_length_wire0:
  "n < 2147483648 \<Longrightarrow> take_list_length (list_wire n body) 0 = Inr (n, 5)"
  using take_list_length_wire [of n "[]" body "[]"] by simp

lemma get_from_wire: "get_from (list_wire n body) 5 = Some body"
  by (simp add: list_wire_def get_from_def)

definition fixed_type :: "byte \<Rightarrow> bool" where
  "fixed_type tb \<longleftrightarrow> tb \<in> {1, 2, 4, 5, 6, 7, 8, 9, 12, 14, 15, 16, 17, 18, 19}"

lemma fixed_type_facts:
  assumes "fixed_type tb"
  shows "unat tb < length K_TYPE_SIZE" "0 < K_TYPE_SIZE ! unat tb" "K_TYPE_SIZE ! unat tb \<le> 16"
    "tb \<noteq> 0" "tb \<noteq> 10" "tb \<noteq> 11" "1 \<le> tb" "tb \<le> 19"
  using assms by (auto simp: fixed_type_def K_TYPE_SIZE_def word_le_nat_alt)

lemma deserialize_fixed:
  assumes tb: "fixed_type tb" and n: "0 < n" "n < 2147483648" and body: "length body = n * K_TYPE_SIZE ! unat tb"
  shows "deserialize_series (list_wire n body) tb True enc = rbind (decode_fixed_column tb body) (\<lambda>c. Inr (named_series tb c))"
proof -
  note t = fixed_type_facts [OF tb]
  have "n * K_TYPE_SIZE ! unat tb \<le> 2147483648 * 16" using n(2) t(3) by (intro mult_mono) auto
  then have "checked_mul n (K_TYPE_SIZE ! unat tb) = Some (length body)" using body by (simp add: checked_mul_def)
  then show ?thesis
    using t n by (simp add: deserialize_series_def take_list_length_wire0 get_from_wire)
qed

lemma deserialize_empty:
  assumes "unat tb < 20"
  shows "deserialize_series (list_wire 0 []) tb True enc = new_empty_series tb"
  using assms by (simp add: deserialize_series_def take_list_length_wire0 K_TYPE_SIZE_def)

lemma fixed_end:
  assumes tb: "fixed_type tb" and n: "n < 2147483648" and body: "length body = n * K_TYPE_SIZE ! unat tb"
    and lim: "length (pre @ list_wire n body @ post) < usize_limit"
  shows "calculate_array_end_index (pre @ list_wire n body @ post) (length pre) tb = Inr (length pre + 5 + length body)"
proof -
  note t = fixed_type_facts [OF tb]
  have "n * K_TYPE_SIZE ! unat tb \<le> 2147483648 * 16" using n t(3) by (intro mult_mono) auto
  then have m: "checked_mul n (K_TYPE_SIZE ! unat tb) = Some (length body)" using body by (simp add: checked_mul_def)
  have l: "length pre + 5 < usize_limit" "length pre + 5 + length body < usize_limit" using lim by auto
  show ?thesis
    using t m l take_list_length_wire [OF n l(1), of body post]
    by (simp add: calculate_array_end_index_def list_scan_new_def advance_def scan_header_def advance_body_def
        saturating_add_def checked_add_def Let_def)
qed


section \<open>Symbol lists\<close>

definition symbol_bytes :: "bytes list \<Rightarrow> bytes" where
  "symbol_bytes syms = concat (map (\<lambda>s. s @ [0]) syms)"

lemma symbol_bytes_simps [simp]:
  "symbol_bytes [] = []" "symbol_bytes (s # syms) = s @ 0 # symbol_bytes syms"
  by (simp_all add: symbol_bytes_def)

lemma scan_symbols_wire:
  "\<forall>s\<in>set syms. 0 \<notin> set s \<Longrightarrow>
     scan_symbols (pre @ symbol_bytes syms @ post) t (length syms) (length pre)
       = Inr (Complete (length pre + length (symbol_bytes syms)), length pre + length (symbol_bytes syms), 0)"
proof (induction syms arbitrary: pre)
  case (Cons s syms)
  then show ?case using Cons.IH [of "pre @ s @ [0]"] by (simp add: get_from_def)
qed simp

lemma split_symbols_wire:
  "\<forall>s\<in>set syms. 0 \<notin> set s \<Longrightarrow>
     split_symbols (length syms) (pre @ symbol_bytes syms) (length pre)
       = Inr (syms, length (pre @ symbol_bytes syms))"
proof (induction syms arbitrary: pre)
  case (Cons s syms)
  then show ?case using Cons.IH [of "pre @ s @ [0]"] by (simp add: get_from_def)
qed simp

lemma decode_symbols_wire:
  "\<forall>s\<in>set syms. 0 \<notin> set s \<Longrightarrow> decode_symbols (symbol_bytes syms) (length syms) = Inr syms"
  using split_symbols_wire [of syms "[]"] by (simp add: decode_symbols_def check_symbol_list_consumed_def)

lemma decode_utf8_symbols:
  "\<forall>s\<in>set syms. utf8_valid s \<Longrightarrow> decode_utf8 (symbol_bytes syms) enc = Inr (symbol_bytes syms)"
proof -
  assume "\<forall>s\<in>set syms. utf8_valid s"
  then have "utf8_valid (symbol_bytes syms)" by (induction syms) (simp_all add: utf8_valid_nul_split)
  then show ?thesis by (simp add: decode_utf8_def)
qed

definition symbols_ok :: "bytes list \<Rightarrow> bool" where
  "symbols_ok syms \<longleftrightarrow> list_all (\<lambda>s. 0 \<notin> set s \<and> utf8_valid s) syms"

lemma deserialize_symbols:
  assumes "symbols_ok syms" "syms \<noteq> []" "length syms < 2147483648"
  shows "deserialize_series (list_wire (length syms) (symbol_bytes syms)) 11 as_column enc
    = Inr (named_series 11 (if as_column then CategoricalCol (map Some syms) else StringCol (map Some syms)))"
  using assms decode_symbols_wire [of syms] decode_utf8_symbols [of syms enc]
  by (simp add: deserialize_series_def take_list_length_wire0 get_from_wire K_TYPE_SIZE_def symbols_ok_def list_all_iff)

lemma symbols_end:
  assumes "symbols_ok syms" "length syms < 2147483648"
    and lim: "length (pre @ list_wire (length syms) (symbol_bytes syms) @ post) < usize_limit"
  shows "calculate_array_end_index (pre @ list_wire (length syms) (symbol_bytes syms) @ post) (length pre) 11
    = Inr (length pre + 5 + length (symbol_bytes syms))"
proof -
  let ?hd = "pre @ 0 # le_bytes 4 (length syms)"
  have e: "pre @ list_wire (length syms) (symbol_bytes syms) @ post = ?hd @ symbol_bytes syms @ post"
    by (simp add: list_wire_def del: le_bytes_numeral)
  have l: "length pre + 5 < usize_limit" using lim by simp
  have "length ?hd = length pre + 5" by (simp del: le_bytes_numeral)
  then have "scan_symbols (pre @ list_wire (length syms) (symbol_bytes syms) @ post) t (length syms) (length pre + 5)
      = Inr (Complete (length pre + 5 + length (symbol_bytes syms)), length pre + 5 + length (symbol_bytes syms), 0)" for t
    using scan_symbols_wire [of syms ?hd post t] assms(1) unfolding e by (simp add: symbols_ok_def list_all_iff del: le_bytes_numeral)
  then show ?thesis
    using l take_list_length_wire [OF assms(2) l, of "symbol_bytes syms" post]
    by (simp add: calculate_array_end_index_def list_scan_new_def advance_def scan_header_def advance_body_def
        saturating_add_def Let_def)
qed

section \<open>Nested lists\<close>

text \<open>The elements of a nested list of fixed-width values: counts and payloads.\<close>

definition nested_wire :: "byte \<Rightarrow> (nat \<times> bytes) list \<Rightarrow> bytes" where
  "nested_wire t es = concat (map (\<lambda>(m, p). t # list_wire m p) es)"

lemma nested_wire_simps [simp]:
  "nested_wire t [] = []" "nested_wire t ((m, p) # es) = t # list_wire m p @ nested_wire t es"
  by (simp_all add: nested_wire_def)

definition elements_ok :: "byte \<Rightarrow> (nat \<times> bytes) list \<Rightarrow> bool" where
  "elements_ok t es \<longleftrightarrow> nestable_type t \<and> t \<noteq> 11
     \<and> (\<forall>(m, p)\<in>set es. m < 2147483648 \<and> length p = m * K_TYPE_SIZE ! unat t)"

lemma nestable_size: "nestable_type t \<Longrightarrow> t \<noteq> 0 \<and> (t \<noteq> 11 \<longrightarrow> 0 < K_TYPE_SIZE ! unat t) \<and> K_TYPE_SIZE ! unat t \<le> 8 \<and> unat t < 20"
  by (auto simp: nestable_type_def K_TYPE_SIZE_def)

lemma element_mul:
  assumes "elements_ok t es" "(m, p) \<in> set es"
  shows "checked_mul m (K_TYPE_SIZE ! unat t) = Some (length p)"
proof -
  have "m * K_TYPE_SIZE ! unat t \<le> 2147483648 * 8"
    using assms nestable_size [of t] by (intro mult_mono) (auto simp: elements_ok_def)
  then show ?thesis using assms by (auto simp: checked_mul_def elements_ok_def)
qed

lemma advance_nested_wire:
  "elements_ok t es \<Longrightarrow> length (pre @ nested_wire t es @ post) < usize_limit \<Longrightarrow>
   ls_pos s = length pre \<Longrightarrow> child_type s = None \<or> child_type s = Some t \<Longrightarrow> child_symbols_left s = 0 \<Longrightarrow>
   \<exists>s'. advance_nested (pre @ nested_wire t es @ post) (length (pre @ nested_wire t es @ post)) (length es) s
     = Inr (Complete (length pre + length (nested_wire t es)), s')"
proof (induction es arbitrary: pre s)
  case Nil
  then show ?case by (simp add: advance_nested.simps)
next
  case (Cons e es)
  obtain m p where e: "e = (m, p)" by fastforce
  let ?vec = "pre @ nested_wire t (e # es) @ post"
  let ?pre = "pre @ t # list_wire m p"
  have vec: "?vec = ?pre @ nested_wire t es @ post" by (simp add: e)
  have ok: "elements_ok t es" "t \<noteq> 0" "nestable_type t" "t \<noteq> 11" "m < 2147483648"
    using Cons.prems(1) nestable_size [of t] by (auto simp: elements_ok_def e)
  have mul: "checked_mul m (K_TYPE_SIZE ! unat t) = Some (length p)"
    by (rule element_mul [OF Cons.prems(1)]) (simp add: e)
  have lim: "length ?pre \<le> length ?vec" "length ?vec < usize_limit" using Cons.prems(2) by (simp_all add: e)
  have lp: "length ?pre = length pre + 6 + length p" by simp
  have hd: "index_at ?vec (length pre) = Inr t" by (simp add: index_at_def get_at_def e nth_append)
  have tl: "take_list_length ?vec (length pre + 1) = Inr (m, length pre + 6)"
    using take_list_length_wire [of m "pre @ [t]" p "nested_wire t es @ post"] ok(5) lim lp by (simp add: e)
  let ?s = "s\<lparr>child_type := Some t, ls_pos := length ?pre\<rparr>"
  have "next_element ?vec (length ?vec) (Suc (length es)) s = Inr (Row ?s)"
    using lim lp hd tl mul ok Cons.prems(3,4)
    by (auto simp: next_element_def element_header_def element_payload_def saturating_add_def checked_add_def Let_def
        simp del: nested_wire_simps length_append)
  then have "advance_nested ?vec (length ?vec) (Suc (length es)) s = advance_nested ?vec (length ?vec) (length es) ?s"
    using Cons.prems(5) by (subst advance_nested.simps) (simp del: length_append)
  then show ?case
    using Cons.IH [OF ok(1), of ?pre ?s] lim(2) Cons.prems(5) vec by (simp add: e add.assoc)
qed


lemma length_nested_wire: "6 * length es \<le> length (nested_wire t es)"
  by (induction es) auto

lemma nested_end:
  assumes ok: "elements_ok t es" "length es < 2147483648"
    and lim: "length (pre @ list_wire (length es) (nested_wire t es) @ post) < usize_limit"
  shows "calculate_array_end_index (pre @ list_wire (length es) (nested_wire t es) @ post) (length pre) 0
    = Inr (length pre + 5 + length (nested_wire t es))"
proof -
  let ?hd = "pre @ 0 # le_bytes 4 (length es)" and ?vec = "pre @ list_wire (length es) (nested_wire t es) @ post"
  have e: "?vec = ?hd @ nested_wire t es @ post"
    by (simp add: list_wire_def del: le_bytes_numeral)
  have l: "length pre + 5 < usize_limit" "saturating_add (length pre) 5 = length pre + 5"
    using lim by (simp_all add: saturating_add_def)
  have h: "length ?hd = length pre + 5" by (simp del: le_bytes_numeral)
  let ?s = "\<lparr>ls_k_type = 0, ls_pos = length pre + 5, rows_left = Some (length es), child_type = None, child_symbols_left = 0\<rparr>"
  obtain s' where "advance_nested ?vec (length ?vec) (length es) ?s = Inr (Complete (length pre + 5 + length (nested_wire t es)), s')"
    using advance_nested_wire [OF ok(1), of ?hd post ?s] lim h unfolding e by (auto simp del: le_bytes_numeral length_append)
  then show ?thesis
    using l take_list_length_wire [OF ok(2) l(1), of "nested_wire t es" post]
    by (simp add: calculate_array_end_index_def list_scan_new_def advance_def scan_header_def advance_body_def
        saturating_add_def Let_def del: length_append) simp
qed

text \<open>Rows of characters.\<close>

definition char_elements :: "bytes list \<Rightarrow> (nat \<times> bytes) list" where
  "char_elements rows = map (\<lambda>r. (length r, r)) rows"

lemma char_rows_wire:
  "\<forall>r\<in>set rows. utf8_valid r \<and> length r < 2147483648 \<Longrightarrow> length (pre @ nested_wire 10 (char_elements rows)) < usize_limit \<Longrightarrow>
   n + length (concat rows) < 4294967296 \<Longrightarrow>
   char_rows (length rows) (pre @ nested_wire 10 (char_elements rows)) (length pre) n
     = Inr (Some (rows, length (pre @ nested_wire 10 (char_elements rows))))"
proof (induction rows arbitrary: pre n)
  case (Cons r rows)
  let ?rest = "nested_wire 10 (char_elements rows)" and ?pre = "pre @ 10 # list_wire (length r) r"
  have lim: "length pre + 6 + length r + length ?rest < usize_limit"
    using Cons.prems(2) by (simp add: char_elements_def)
  have vec: "pre @ nested_wire 10 (char_elements (r # rows)) = ?pre @ ?rest"
    "pre @ nested_wire 10 (char_elements (r # rows)) = (pre @ [10]) @ list_wire (length r) r @ ?rest"
    by (simp_all add: char_elements_def)
  have hd: "get_at (pre @ nested_wire 10 (char_elements (r # rows))) (length pre) = Some 10"
    by (simp add: get_at_def nth_append char_elements_def)
  have tl: "take_list_length (pre @ nested_wire 10 (char_elements (r # rows))) (length pre + 1) = Inr (length r, length pre + 6)"
    using take_list_length_wire [of "length r" "pre @ [10]" r ?rest] Cons.prems(1) lim unfolding vec(2) by simp
  have tk: "take_bytes (length r) (pre @ nested_wire 10 (char_elements (r # rows))) (length pre + 6) = Inr (r, length ?pre)"
  proof -
    have "pre @ nested_wire 10 (char_elements (r # rows)) = (pre @ [10, 0] @ le_bytes 4 (length r)) @ r @ ?rest"
      by (simp add: char_elements_def list_wire_def del: le_bytes_numeral)
    moreover have "length (pre @ [10, 0] @ le_bytes 4 (length r)) = length pre + 6" by (simp del: le_bytes_numeral)
    ultimately have "get_range (pre @ nested_wire 10 (char_elements (r # rows))) (length pre + 6) (length pre + 6 + length r) = Some r"
      by (metis get_range_append)
    then show ?thesis using lim by (simp add: take_bytes_def checked_add_def)
  qed
  have "char_rows (length rows) (?pre @ ?rest) (length ?pre) (n + length r) = Inr (Some (rows, length (?pre @ ?rest)))"
    using Cons.prems lim by (intro Cons.IH) auto
  then show ?case
    using hd tl tk Cons.prems(1,3) unfolding length_Cons char_rows.simps vec(1) by simp
qed (simp add: char_elements_def)


text \<open>The offsets after the first of a nested list whose first element starts at \<open>k\<close>.\<close>

primrec next_offsets :: "nat \<Rightarrow> nat list \<Rightarrow> nat list" where
  "next_offsets k [] = []"
| "next_offsets k (m # ms) = (k + m) # next_offsets (k + m) ms"

lemma nested_rows_wire:
  "elements_ok t es \<Longrightarrow> length (pre @ nested_wire t es) < usize_limit \<Longrightarrow> n_pos st = length pre \<Longrightarrow>
   last (n_offsets st) + sum_list (map fst es) < 2147483648 \<Longrightarrow>
   rfold (\<lambda>_ st. nested_row (pre @ nested_wire t es) enc t st) (replicate (length es) ()) st
     = Inr (st\<lparr>n_pos := length (pre @ nested_wire t es),
               n_offsets := n_offsets st @ next_offsets (last (n_offsets st)) (map fst es),
               n_values := n_values st @ concat (map snd es)\<rparr>)"
proof (induction es arbitrary: pre st)
  case (Cons e es)
  obtain m p where e: "e = (m, p)" by fastforce
  let ?vec = "pre @ nested_wire t (e # es)" and ?pre = "pre @ t # list_wire m p" and ?rest = "nested_wire t es"
  have vec: "?vec = ?pre @ ?rest" by (simp add: e)
  have ok: "elements_ok t es" "t \<noteq> 0" "t \<noteq> 11" "m < 2147483648"
    using Cons.prems(1) nestable_size [of t] by (auto simp: elements_ok_def e)
  have mul: "checked_mul m (K_TYPE_SIZE ! unat t) = Some (length p)"
    by (rule element_mul [OF Cons.prems(1)]) (simp add: e)
  have lim: "length pre + 6 + length p + length ?rest < usize_limit" using Cons.prems(2) by (simp add: e)
  have hd: "get_at ?vec (length pre) = Some t" by (simp add: get_at_def e nth_append)
  have tl: "take_list_length ?vec (length pre + 1) = Inr (m, length pre + 6)"
    using take_list_length_wire [of m "pre @ [t]" p ?rest] ok(4) lim by (simp add: e)
  have tk: "take_bytes (length p) ?vec (length pre + 6) = Inr (p, length ?pre)"
  proof -
    have "?vec = (pre @ [t, 0] @ le_bytes 4 m) @ p @ ?rest" by (simp add: e list_wire_def del: le_bytes_numeral)
    moreover have "length (pre @ [t, 0] @ le_bytes 4 m) = length pre + 6" by (simp del: le_bytes_numeral)
    ultimately have "get_range ?vec (length pre + 6) (length pre + 6 + length p) = Some p" by (metis get_range_append)
    then show ?thesis using lim by (simp add: take_bytes_def checked_add_def)
  qed
  let ?st = "st\<lparr>n_pos := length ?pre, n_offsets := n_offsets st @ [last (n_offsets st) + m], n_values := n_values st @ p\<rparr>"
  have "nested_row ?vec enc t st = Inr ?st"
    using hd tl tk mul ok Cons.prems(3,4)
    by (simp add: nested_row_def Let_def e del: length_append nested_wire_simps)
  moreover have "rfold (\<lambda>_ st. nested_row (?pre @ ?rest) enc t st) (replicate (length es) ()) ?st
     = Inr (?st\<lparr>n_pos := length (?pre @ ?rest), n_offsets := n_offsets ?st @ next_offsets (last (n_offsets ?st)) (map fst es),
               n_values := n_values ?st @ concat (map snd es)\<rparr>)"
    using ok(1) lim Cons.prems(4) by (intro Cons.IH) (auto simp: e)
  ultimately show ?case unfolding vec by (simp add: e)
qed (cases st, simp)

text \<open>A nested list decodes to a string column or to a list column.\<close>

lemma nested_array_start:
  assumes "elements_ok t es" "es \<noteq> []" "length es < 2147483648" "length (nested_wire t es) + 16 < usize_limit"
  shows "take_list_length (list_wire (length es) (nested_wire t es)) 0 = Inr (length es, 5)"
    "get_at (list_wire (length es) (nested_wire t es)) 5 = Some t"
    "Option.bind (checked_mul (length es) 6) (\<lambda>headers. checked_sub (length (list_wire (length es) (nested_wire t es)) - 5) headers)
       = Some (length (nested_wire t es) - 6 * length es)"
proof -
  show "take_list_length (list_wire (length es) (nested_wire t es)) 0 = Inr (length es, 5)"
    using assms(3) by (rule take_list_length_wire0)
  obtain m p es' where es: "es = (m, p) # es'" using assms(2) by (metis list.exhaust prod.collapse)
  have "list_wire (length es) (nested_wire t es) ! 5 = t" by (simp add: es list_wire_def)
  then show "get_at (list_wire (length es) (nested_wire t es)) 5 = Some t" by (simp add: get_at_def es)
  show "Option.bind (checked_mul (length es) 6) (\<lambda>headers. checked_sub (length (list_wire (length es) (nested_wire t es)) - 5) headers)
       = Some (length (nested_wire t es) - 6 * length es)"
    using length_nested_wire [of es t] assms(3) by (simp add: checked_mul_def checked_sub_def mult.commute)
qed

lemma deserialize_nested_series:
  assumes "n < 2147483648" "0 < n"
  shows "deserialize_series (list_wire n body) 0 True enc = deserialize_nested_array (list_wire n body) enc"
  using assms by (simp add: deserialize_series_def take_list_length_wire0 get_from_wire K_TYPE_SIZE_def)

lemma deserialize_strings:
  assumes rows: "\<forall>r\<in>set rows. utf8_valid r \<and> length r < 2147483648" "rows \<noteq> []" "length rows < 2147483648"
    and size: "length (concat rows) < 4294967296" "length (nested_wire 10 (char_elements rows)) + 16 < usize_limit"
  shows "deserialize_series (list_wire (length rows) (nested_wire 10 (char_elements rows))) 0 True enc
    = Inr (named_series 10 (StringCol (map Some rows)))"
proof -
  let ?es = "char_elements rows"
  have es: "elements_ok 10 ?es" "?es \<noteq> []" "length ?es = length rows"
    using rows by (auto simp: elements_ok_def char_elements_def nestable_type_def K_TYPE_SIZE_def)
  note st = nested_array_start [OF es(1,2), unfolded es(3), OF rows(3) size(2)]
  have e: "list_wire (length rows) (nested_wire 10 ?es) = (0 # le_bytes 4 (length rows)) @ nested_wire 10 ?es"
    by (simp add: list_wire_def del: le_bytes_numeral)
  have "char_rows (length rows) (list_wire (length rows) (nested_wire 10 ?es)) 5 0
      = Inr (Some (rows, length (list_wire (length rows) (nested_wire 10 ?es))))"
    using char_rows_wire [OF rows(1), of "0 # le_bytes 4 (length rows)" 0] size unfolding e
    by (simp del: le_bytes_numeral)
  then have "decode_char_rows (list_wire (length rows) (nested_wire 10 ?es)) 5 (length rows) = Inr (Some rows)"
    by (simp add: decode_char_rows_def)
  then show ?thesis
    using st rows(2,3) deserialize_nested_series [of "length rows"]
    by (simp add: deserialize_nested_array_def nestable_type_def)
qed

lemma deserialize_nested_lists:
  assumes es: "elements_ok t es" "es \<noteq> []" "length es < 2147483648" "t \<noteq> 10"
    and size: "sum_list (map fst es) < 2147483648" "length (nested_wire t es) + 16 < usize_limit"
  shows "deserialize_series (list_wire (length es) (nested_wire t es)) 0 True enc
    = rbind (nested_child t (concat (map snd es)) []) (\<lambda>child.
        Inr (named_series t (ListCol (replicate (length es) True) (map int (0 # next_offsets 0 (map fst es))) child)))"
proof -
  note st = nested_array_start [OF es(1-3) size(2)]
  have e: "list_wire (length es) (nested_wire t es) = (0 # le_bytes 4 (length es)) @ nested_wire t es"
    by (simp add: list_wire_def del: le_bytes_numeral)
  let ?vec = "list_wire (length es) (nested_wire t es)"
  have r: "rfold (\<lambda>_ st. nested_row ?vec enc t st) (replicate (length es) ())
       \<lparr>n_pos = 5, n_offsets = [0], n_values = [], n_symbols = []\<rparr>
     = Inr \<lparr>n_pos = length ?vec, n_offsets = 0 # next_offsets 0 (map fst es), n_values = concat (map snd es), n_symbols = []\<rparr>"
    using nested_rows_wire [OF es(1), of "0 # le_bytes 4 (length es)" "\<lparr>n_pos = 5, n_offsets = [0], n_values = [], n_symbols = []\<rparr>" enc] size
    unfolding e by (simp del: le_bytes_numeral)
  have "nestable_type t" "t \<noteq> 11" using es(1) by (auto simp: elements_ok_def)
  then show ?thesis
    using st es(2-4) r deserialize_nested_series [of "length es"]
    by (simp add: deserialize_nested_array_def deserialize_nested_rows_def)
qed


section \<open>Columns\<close>

text \<open>The wire form of a column: it decodes to the column, and a scan finds its end in any buffer.\<close>

definition column_wire :: "symbol_encoding \<Rightarrow> column \<Rightarrow> byte \<Rightarrow> bytes \<Rightarrow> bool" where
  "column_wire enc c tb w \<longleftrightarrow> tb \<le> 19 \<and> tb \<noteq> 10
     \<and> (\<exists>name. deserialize_series w tb True enc = Inr (KSeries \<lparr>s_name = name, s_data = c\<rparr>))
     \<and> (\<forall>pre post. length (pre @ w @ post) < usize_limit \<longrightarrow>
          calculate_array_end_index (pre @ w @ post) (length pre) tb = Inr (length pre + length w))"

lemma fixed_wire:
  assumes tb: "fixed_type tb" and n: "n < 2147483648" and body: "length body = n * K_TYPE_SIZE ! unat tb"
    and c: "n \<noteq> 0 \<Longrightarrow> decode_fixed_column tb body = Inr c" "n = 0 \<Longrightarrow> new_empty_series tb = Inr (named_series tb c)"
  shows "column_wire enc c tb (list_wire n body)"
proof -
  note t = fixed_type_facts [OF tb]
  have "\<exists>name. deserialize_series (list_wire n body) tb True enc = Inr (KSeries \<lparr>s_name = name, s_data = c\<rparr>)"
  proof (cases "n = 0")
    case True
    then show ?thesis using body c(2) deserialize_empty [of tb enc] t(1) by (simp add: named_series_def K_TYPE_SIZE_def)
  next
    case False
    then show ?thesis using deserialize_fixed [OF tb _ n body, of enc] c(1) by (simp add: named_series_def)
  qed
  then show ?thesis using t fixed_end [OF tb n body] by (auto simp: column_wire_def)
qed

text \<open>Nulls are written as the null of the type and read back as nulls.\<close>

lemma nulls_round_trip:
  assumes "\<And>v. Some v \<in> set vs \<Longrightarrow> valid v" "\<not> valid null_value"
  shows "nulls valid (map (unwrap_or null_value) vs) = vs"
  using assms by (induction vs) (auto simp: nulls_def unwrap_or_def split: option.splits)

lemma length_write_numbers:
  "length (write_wire_numbers (null_value :: 'a::len word) vs) = length vs * (LENGTH('a) div 8)"
  using length_write_wire_numbers [of null_value vs] by (simp add: mult.commute)

definition all_some :: "('a \<Rightarrow> bool) \<Rightarrow> 'a option list \<Rightarrow> bool" where
  "all_some P vs \<longleftrightarrow> (\<forall>v. Some v \<in> set vs \<longrightarrow> P v)"

lemma present: "None \<notin> set vs \<Longrightarrow> x \<in> set vs \<Longrightarrow> \<exists>y. x = Some y"
  by (cases x) auto

lemma booleans_back: "None \<notin> set vs \<Longrightarrow> decode_booleans (map (\<lambda>v. bool_byte (unwrap_or False v)) vs) = Inr vs"
proof -
  assume n: "None \<notin> set vs"
  have "\<not> list_ex (\<lambda>v. v > 1) (map (\<lambda>v. bool_byte (unwrap_or False v)) vs)"
    by (auto simp: list_ex_iff bool_byte_def)
  moreover have "map (\<lambda>v. Some (v = 1)) (map (\<lambda>v. bool_byte (unwrap_or False v)) vs) = vs"
    unfolding map_map by (rule map_idI) (use n in \<open>auto simp: bool_byte_def unwrap_or_def split: option.splits dest: present\<close>)
  ultimately show ?thesis by (simp add: decode_booleans_def del: map_map)
qed

lemma somes_back: "None \<notin> set vs \<Longrightarrow> map Some (map (unwrap_or d) vs) = vs"
  unfolding map_map by (rule map_idI) (auto simp: unwrap_or_def split: option.splits dest: present)

text \<open>Numbers written through a checked conversion, read back through its inverse.\<close>

lemma try_write_back:
  assumes w: "try_write_wire_numbers w f null_value vs = Inr bs" "LENGTH('a::len) = 8 * w" "0 < w"
    and inv: "\<And>v i. Some v \<in> set vs \<Longrightarrow> f v = Inr i \<Longrightarrow> g (word_of_int i :: 'a word) = Inr (h (Some v))"
    and null: "g (word_of_int null_value) = Inr (h None)"
  shows "length bs = w * length vs" "rbind (decode_wire_numbers bs) (rmap g) = Inr (map h vs)"
proof -
  obtain ns where ns: "rmap (\<lambda>v. case v of None \<Rightarrow> Inr null_value | Some x \<Rightarrow> f x) vs = Inr ns" "bs = concat (map (le_int w) ns)"
    using w(1) by (auto simp: try_write_wire_numbers_def rbind_Inr_iff)
  have l2: "list_all2 (\<lambda>v n. (case v of None \<Rightarrow> Inr null_value | Some x \<Rightarrow> f x) = Inr n) vs ns"
    using ns(1) by (simp add: rmap_Inr_iff)
  then show "length bs = w * length vs"
    unfolding ns(2) by (subst length_concat_map_const [where w = w]) (auto dest: list_all2_lengthD)
  have d: "(decode_wire_numbers bs :: 'a word list xresult) = Inr (map (\<lambda>n. of_le (le_int w n)) ns)"
    unfolding ns(2) using w(2,3) by (intro decode_wire_numbers_concat) auto
  have "list_all2 (\<lambda>x y. g x = Inr y) (map (\<lambda>n. of_le (le_int w n)) ns) (map h vs)"
    unfolding list_all2_conv_all_nth
  proof safe
    show "length (map (\<lambda>n. of_le (le_int w n) :: 'a word) ns) = length (map h vs)" using l2 by (simp add: list_all2_lengthD)
    fix i assume i: "i < length (map (\<lambda>n. of_le (le_int w n) :: 'a word) ns)"
    then have iv: "i < length vs" using l2 by (simp add: list_all2_lengthD)
    have n: "(case vs ! i of None \<Rightarrow> Inr null_value | Some x \<Rightarrow> f x) = Inr (ns ! i)"
      using l2 iv by (simp add: list_all2_conv_all_nth)
    show "g (map (\<lambda>n. of_le (le_int w n)) ns ! i) = Inr (map h vs ! i)"
    proof (cases "vs ! i")
      case None
      then show ?thesis using n i iv null by (simp add: of_le_le_int [OF w(2)])
    next
      case (Some v)
      then have "Some v \<in> set vs" using iv by (metis nth_mem)
      then show ?thesis using n i iv Some inv by (simp add: of_le_le_int [OF w(2)])
    qed
  qed
  then show "rbind (decode_wire_numbers bs) (rmap g) = Inr (map h vs)" using d by (simp add: rmap_Inr_iff)
qed


text \<open>
  The columns that survive a round trip: values that are not one of q's nulls or infinities, no null
  where q has none, text that is UTF-8, nanosecond times, and list columns without unused child values.
\<close>

fun child_normal :: "column \<Rightarrow> bool" where
  "child_normal (BooleanCol vs) \<longleftrightarrow> None \<notin> set vs"
| "child_normal (UInt8Col vs) \<longleftrightarrow> None \<notin> set vs"
| "child_normal (Int16Col vs) \<longleftrightarrow> Some I16_MIN \<notin> set vs"
| "child_normal (Int32Col vs) \<longleftrightarrow> Some I32_MIN \<notin> set vs"
| "child_normal (Int64Col vs) \<longleftrightarrow> Some I64_MIN \<notin> set vs"
| "child_normal (Float32Col vs) \<longleftrightarrow> all_some (\<lambda>v. \<not> f32_is_nan v) vs"
| "child_normal (Float64Col vs) \<longleftrightarrow> all_some (\<lambda>v. \<not> f64_is_nan v) vs"
| "child_normal _ \<longleftrightarrow> False"

fun column_normal :: "column \<Rightarrow> bool" where
  "column_normal (BooleanCol vs) \<longleftrightarrow> None \<notin> set vs"
| "column_normal (UInt8Col vs) \<longleftrightarrow> vs \<noteq> [] \<and> None \<notin> set vs"
| "column_normal (Int16Col vs) \<longleftrightarrow> all_some finite_i16 vs"
| "column_normal (Int32Col vs) \<longleftrightarrow> all_some finite_i32 vs"
| "column_normal (Int64Col vs) \<longleftrightarrow> all_some finite_i64 vs"
| "column_normal (Float32Col vs) \<longleftrightarrow> all_some (\<lambda>v. \<not> f32_is_nan v) vs"
| "column_normal (Float64Col vs) \<longleftrightarrow> all_some (\<lambda>v. \<not> f64_is_nan v) vs"
| "column_normal (StringCol vs) \<longleftrightarrow> vs \<noteq> [] \<and> None \<notin> set vs \<and> all_some utf8_valid vs
     \<and> length (concat (map (unwrap_or []) vs)) < 4294967296"
| "column_normal (BinaryCol vs) \<longleftrightarrow> None \<notin> set vs"
| "column_normal (CategoricalCol vs) \<longleftrightarrow> None \<notin> set vs \<and> all_some utf8_valid vs"
| "column_normal (DateCol vs) \<longleftrightarrow> all_some (\<lambda>d. sint d - 10957 \<noteq> -2147483648) vs"
| "column_normal (DatetimeCol u vs) \<longleftrightarrow> u = Nanoseconds"
| "column_normal (DurationCol u vs) \<longleftrightarrow> u = Nanoseconds \<and> Some I64_MIN \<notin> set vs"
| "column_normal (TimeCol vs) \<longleftrightarrow> True"
| "column_normal (ListCol rows offsets child) \<longleftrightarrow> rows \<noteq> [] \<and> False \<notin> set rows \<and> child_normal child
     \<and> hd offsets = 0 \<and> last offsets = int (column_len child) \<and> last offsets < 2147483648"
| "column_normal (NullCol n) \<longleftrightarrow> n = 0"
| "column_normal _ \<longleftrightarrow> False"

lemma decode_numbers_back:
  fixes null_value :: "'a::len word"
  assumes "8 dvd LENGTH('a)" "all_some valid vs" "\<not> valid null_value"
  shows "rbind (decode_wire_numbers (write_wire_numbers null_value vs)) (\<lambda>ns. Inr (C (nulls valid ns))) = Inr (C vs)"
  using decode_write_wire_numbers [OF assms(1), of null_value vs] nulls_round_trip [of vs valid null_value] assms(2,3)
  by (simp add: all_some_def)

lemma not_finite [simp]: "\<not> finite_i16 I16_MIN" "\<not> finite_i32 I32_MIN" "\<not> finite_i64 I64_MIN"
  "f32_is_nan F32_NAN" "f64_is_nan F64_NAN"
  by (simp_all add: finite_i16_def finite_i32_def finite_i64_def f32_is_nan_def f64_is_nan_def F32_NAN_def F64_NAN_def)

lemma serialize_series_into_wire:
  assumes "serialize_series_into \<lparr>s_name = n, s_data = c\<rparr> = Inr bs"
  shows "\<exists>tb body. serialize_column c = Inr (tb, body) \<and> bs = tb # list_wire (column_len c) body \<and> column_len c < 2147483648"
  using assms by (auto simp: serialize_series_into_def Let_def series_len_def list_wire_def rbind_Inr_iff not_less
      split: if_splits simp del: le_bytes_numeral)

lemma date_back:
  "ok_or (checked_i32 (sint (v :: 32 word) - 10957)) NotAbleToSerializeErr = Inr i \<Longrightarrow> sint v - 10957 \<noteq> -2147483648 \<Longrightarrow>
     decode_date (word_of_int i) = Inr (Some v)"
proof -
  assume a: "ok_or (checked_i32 (sint v - 10957)) NotAbleToSerializeErr = Inr i" "sint v - 10957 \<noteq> -2147483648"
  then have i: "i = sint v - 10957" "-2147483648 < i" "i < 2147483648" by (auto simp: ok_or_Inr_iff checked_i32_Some)
  then have s: "sint (word_of_int i :: 32 word) = i" by (intro sint_word_of_int) simp_all
  have "sint I32_MIN = -2147483648" by (simp add: I32_MIN_def)
  then have "(word_of_int i :: 32 word) \<noteq> I32_MIN" using s i by force
  moreover have "-2147483648 \<le> sint v" "sint v < 2147483648"
    using sint_ge [of v] sint_lt [of v] by simp_all
  ultimately show ?thesis using s i by (simp add: decode_date_def checked_i32_def)
qed

lemma timestamp_back:
  assumes "q_timestamp_nanoseconds (sint (v :: 64 word)) = Inr i"
  shows "decode_timestamp (word_of_int i) = Inr v" "v \<noteq> I64_MIN"
proof -
  have i: "i = sint v - NANOS_DIFF" "-9223372036854775807 < i" "i < 9223372036854775807"
    using assms by (auto simp: q_timestamp_nanoseconds_def checked_i64_def split: if_splits)
  then have s: "sint (word_of_int i :: 64 word) = i" by (intro sint_word_of_int) simp_all
  have m: "sint I64_MIN = -9223372036854775808" by (simp add: I64_MIN_def)
  then have "(word_of_int i :: 64 word) \<noteq> I64_MIN" using s i by force
  moreover have b: "-9223372036854775808 \<le> sint v" "sint v < 9223372036854775808"
    using sint_ge [of v] sint_lt [of v] by simp_all
  ultimately show "decode_timestamp (word_of_int i) = Inr v"
    using s i by (simp add: decode_timestamp_def unix_timestamp_nanoseconds_def checked_i64_def)
  show "v \<noteq> I64_MIN" using m i b by (auto simp: NANOS_DIFF_def)
qed

lemma time_back:
  assumes "0 \<le> sint (v :: 64 word)" "sint v < 86400000000000" "sint v mod 1000000 = 0"
    "ok_or (checked_i32 (sint v div 1000000)) NotAbleToSerializeErr = Inr i"
  shows "decode_time 1000000 (word_of_int i) = Inr (Some v)"
proof -
  have i: "i = sint v div 1000000" "0 \<le> i" "i < 2147483648"
    using assms by (auto simp: ok_or_Inr_iff checked_i32_Some)
  then have s: "sint (word_of_int i :: 32 word) = i" by (intro sint_word_of_int) simp_all
  have "sint I32_MIN = -2147483648" by (simp add: I32_MIN_def)
  then have "(word_of_int i :: 32 word) \<noteq> I32_MIN" using s i by force
  moreover have "i * 1000000 = sint v" using i(1) assms(3) div_mult_mod_eq [of "sint v" 1000000] by simp
  ultimately show ?thesis using s i assms by (simp add: decode_time_def checked_i64_def NANOS_PER_DAY_def)
qed

lemma null_words [simp]: "(- 2147483648 :: 32 word) = I32_MIN" "(- 9223372036854775808 :: 64 word) = I64_MIN"
  by (simp_all add: I32_MIN_def I64_MIN_def)

lemma decode_null [simp]: "decode_date I32_MIN = Inr None" "decode_time m I32_MIN = Inr None" "decode_timestamp I64_MIN = Inr I64_MIN"
  by (simp_all add: decode_date_def decode_time_def decode_timestamp_def)

lemma validated_times:
  "validate_q_time_series vs = Inr () \<Longrightarrow> Some v \<in> set vs \<Longrightarrow>
     0 \<le> sint v \<and> sint v < 86400000000000 \<and> sint v mod 1000000 = 0"
  unfolding validate_q_time_series_def by (drule rfold_unit_all [of _ _ v]) (auto simp: set_flatten split: if_splits)

lemma temporal_back:
  assumes "rbind (decode_wire_numbers bs) (rmap g) = Inr us" "C us = c"
  shows "rbind (decode_wire_numbers bs) (\<lambda>vs. rbind (rmap g vs) (\<lambda>vs. Inr (C vs))) = Inr c"
  using assms by (auto simp: rbind_Inr_iff)

lemma guids_back:
  assumes "validate_guid_series vs = Inr ()" "None \<notin> set vs"
  shows "length (concat (map (unwrap_or (replicate 16 0)) vs)) = length vs * 16"
    "map Some (wire_chunks 16 (concat (map (unwrap_or (replicate 16 0)) vs))) = vs"
proof -
  have l: "length (unwrap_or (replicate 16 0) v) = 16" if v: "v \<in> set vs" for v
  proof -
    obtain g where "v = Some g" using present [OF assms(2) v] by blast
    then show ?thesis using assms(1) v by (auto simp: validate_guid_series_def list_ex_iff set_flatten unwrap_or_def split: if_splits)
  qed
  show "length (concat (map (unwrap_or (replicate 16 0)) vs)) = length vs * 16"
    using length_concat_map_const [of vs "unwrap_or (replicate 16 0)", OF l] by simp
  show "map Some (wire_chunks 16 (concat (map (unwrap_or (replicate 16 0)) vs))) = vs"
    using wire_chunks_concat [of 16 vs "unwrap_or (replicate 16 0)", OF _ l] somes_back [OF assms(2)] by simp
qed

lemma fixed_type_simps [simp]:
  "fixed_type 1" "fixed_type 2" "fixed_type 4" "fixed_type 5" "fixed_type 6" "fixed_type 7" "fixed_type 8" "fixed_type 9"
  "fixed_type 12" "fixed_type 14" "fixed_type 16" "fixed_type 19"
  by (simp_all add: fixed_type_def)

lemma K_TYPE_SIZE_nth [simp]:
  "K_TYPE_SIZE ! 1 = 1" "K_TYPE_SIZE ! Suc 0 = 1" "K_TYPE_SIZE ! 2 = 16" "K_TYPE_SIZE ! 4 = 1" "K_TYPE_SIZE ! 5 = 2" "K_TYPE_SIZE ! 6 = 4"
  "K_TYPE_SIZE ! 7 = 8" "K_TYPE_SIZE ! 8 = 4" "K_TYPE_SIZE ! 9 = 8" "K_TYPE_SIZE ! 12 = 8" "K_TYPE_SIZE ! 14 = 4"
  "K_TYPE_SIZE ! 16 = 8" "K_TYPE_SIZE ! 19 = 4" "K_TYPE_SIZE ! 10 = 1"
  by (simp_all add: K_TYPE_SIZE_def)

text \<open>The columns of times.\<close>

lemma date_column_wire:
  assumes "serialize_date_column vs = Inr (tb, body)" "column_normal (DateCol vs)" "length vs < 2147483648"
  shows "column_wire enc (DateCol vs) tb (list_wire (length vs) body)"
proof -
  obtain bs where bs: "try_write_wire_numbers 4 (\<lambda>value. ok_or (checked_i32 (sint value - 10957)) NotAbleToSerializeErr)
     (-2147483648) vs = Inr bs" "tb = 14" "body = bs" using assms(1) by (auto simp: rbind_Inr_iff)
  note b = try_write_back [OF bs(1), where g = decode_date and h = id]
  have "length bs = 4 * length vs" "rbind (decode_wire_numbers bs) (rmap decode_date) = Inr vs"
    using b assms(2) date_back by (auto simp: all_some_def)
  then show ?thesis using bs(2,3) assms(3)
    by (auto intro!: fixed_wire temporal_back [where C = DateCol] simp: decode_fixed_column_def new_empty_series_def)
qed

lemma time_column_wire:
  assumes "serialize_time_column vs = Inr (tb, body)" "length vs < 2147483648"
  shows "column_wire enc (TimeCol vs) tb (list_wire (length vs) body)"
proof -
  obtain bs where bs: "try_write_wire_numbers 4 (\<lambda>value. ok_or (checked_i32 (sint value div 1000000)) NotAbleToSerializeErr)
     (-2147483648) vs = Inr bs" "tb = 19" "body = bs" "validate_q_time_series vs = Inr ()"
    using assms(1) by (auto simp: rbind_Inr_iff)
  note b = try_write_back [OF bs(1), where g = "decode_time 1000000" and h = id]
  have "length bs = 4 * length vs" "rbind (decode_wire_numbers bs) (rmap (decode_time 1000000)) = Inr vs"
    using b validated_times [OF bs(4)] time_back by auto
  then show ?thesis using bs(2,3) assms(2)
    by (auto intro!: fixed_wire temporal_back [where C = TimeCol] simp: decode_fixed_column_def new_empty_series_def)
qed

lemma datetime_column_wire:
  assumes "serialize_datetime_column Nanoseconds vs = Inr (tb, body)" "length vs < 2147483648"
  shows "column_wire enc (DatetimeCol Nanoseconds vs) tb (list_wire (length vs) body)"
proof -
  let ?f = "\<lambda>value. rbind (ok_or (checked_i64 (sint value)) NotAbleToSerializeErr) q_timestamp_nanoseconds"
  obtain bs where bs: "try_write_wire_numbers 8 ?f (-9223372036854775808) vs = Inr bs" "tb = 12" "body = bs"
    using assms(1) by (auto simp: rbind_Inr_iff unit_multiplier_def)
  have f: "q_timestamp_nanoseconds (sint v) = Inr i" if "?f v = Inr i" for v :: "64 word" and i
    using that by (auto simp: rbind_Inr_iff ok_or_Inr_iff checked_i64_Some)
  note b = try_write_back [OF bs(1), where g = decode_timestamp and h = "unwrap_or I64_MIN"]
  have l: "length bs = 8 * length vs"
    and d: "rbind (decode_wire_numbers bs) (rmap decode_timestamp) = Inr (map (unwrap_or I64_MIN) vs)"
    using b timestamp_back(1) [OF f] by (auto simp: unwrap_or_def)
  have "\<exists>i. ?f v = Inr i" if v: "Some v \<in> set vs" for v
  proof -
    obtain ns where "rmap (\<lambda>v. case v of None \<Rightarrow> Inr (-9223372036854775808) | Some x \<Rightarrow> ?f x) vs = Inr ns"
      using bs(1) by (auto simp: try_write_wire_numbers_def rbind_Inr_iff)
    then show ?thesis using v by (force simp: rmap_Inr_iff list_all2_conv_all_nth in_set_conv_nth)
  qed
  then have "v \<noteq> I64_MIN" if "Some v \<in> set vs" for v using that f timestamp_back(2) by blast
  then have "nulls (\<lambda>v. v \<noteq> I64_MIN) (map (unwrap_or I64_MIN) vs) = vs" by (intro nulls_round_trip) auto
  then show ?thesis using bs(2,3) assms(2) l temporal_back [OF d, of "\<lambda>vs. DatetimeCol Nanoseconds (nulls (\<lambda>v. v \<noteq> I64_MIN) vs)"]
    by (intro fixed_wire) (auto simp: decode_fixed_column_def new_empty_series_def)
qed

lemma duration_column_wire:
  assumes "serialize_duration_column Nanoseconds vs = Inr (tb, body)" "Some I64_MIN \<notin> set vs" "length vs < 2147483648"
  shows "column_wire enc (DurationCol Nanoseconds vs) tb (list_wire (length vs) body)"
proof -
  let ?f = "\<lambda>value. ok_or (checked_i64 (sint value)) NotAbleToSerializeErr"
  obtain bs where bs: "try_write_wire_numbers 8 ?f (-9223372036854775808) vs = Inr bs" "tb = 16" "body = bs"
    using assms(1) by (auto simp: rbind_Inr_iff unit_multiplier_def)
  note b = try_write_back [OF bs(1), where g = Inr and h = "unwrap_or I64_MIN"]
  have l: "length bs = 8 * length vs"
    and d: "rbind (decode_wire_numbers bs) (rmap Inr) = Inr (map (unwrap_or I64_MIN) vs)"
    using b by (auto simp: unwrap_or_def ok_or_Inr_iff checked_i64_Some)
  have "rmap Inr xs = (Inr xs :: 64 word list xresult)" for xs by (induction xs) auto
  then have "decode_wire_numbers bs = Inr (map (unwrap_or I64_MIN) vs)" using d by (simp add: rbind_Inr_iff)
  moreover have "nulls (\<lambda>v. v \<noteq> I64_MIN) (map (unwrap_or I64_MIN) vs) = vs"
    using assms(2) by (intro nulls_round_trip) auto
  ultimately show ?thesis using bs(2,3) assms(3) l
    by (intro fixed_wire) (auto simp: decode_fixed_column_def new_empty_series_def)
qed

text \<open>A column of fixed-width values.\<close>

lemma fixed_column_wire:
  assumes "serialize_column c = Inr (tb, body)" "column_normal c" "column_len c < 2147483648" "fixed_type tb"
  shows "column_wire enc c tb (list_wire (column_len c) body)"
proof -
  note numbers = length_write_numbers decode_numbers_back all_some_def
  show ?thesis
  proof (cases c)
    case (BooleanCol vs)
    then show ?thesis using assms booleans_back [of vs]
      by (auto intro!: fixed_wire simp: decode_fixed_column_def new_empty_series_def)
  next
    case (UInt8Col vs)
    then show ?thesis using assms somes_back [of vs 0]
      by (auto intro!: fixed_wire simp: decode_fixed_column_def new_empty_series_def)
  next
    case (Int16Col vs)
    then show ?thesis using assms
      by (auto intro!: fixed_wire simp: decode_fixed_column_def new_empty_series_def numbers)
  next
    case (Int32Col vs)
    then show ?thesis using assms
      by (auto intro!: fixed_wire simp: decode_fixed_column_def new_empty_series_def numbers)
  next
    case (Int64Col vs)
    then show ?thesis using assms
      by (auto intro!: fixed_wire simp: decode_fixed_column_def new_empty_series_def numbers)
  next
    case (Float32Col vs)
    then show ?thesis using assms
      by (auto intro!: fixed_wire simp: decode_fixed_column_def new_empty_series_def numbers)
  next
    case (Float64Col vs)
    then show ?thesis using assms
      by (auto intro!: fixed_wire simp: decode_fixed_column_def new_empty_series_def numbers)
  next
    case (BinaryCol vs)
    then show ?thesis using assms guids_back [of vs]
      by (auto intro!: fixed_wire simp: decode_fixed_column_def new_empty_series_def rbind_Inr_iff)
  next
    case (DateCol vs)
    then show ?thesis using assms date_column_wire by simp
  next
    case (DatetimeCol u vs)
    then show ?thesis using assms datetime_column_wire by simp
  next
    case (DurationCol u vs)
    then show ?thesis using assms duration_column_wire by simp
  next
    case (TimeCol vs)
    then show ?thesis using assms time_column_wire by simp
  qed (use assms in \<open>auto simp: rbind_Inr_iff fixed_type_def split: if_splits\<close>)
qed

text \<open>Columns of strings, symbols and lists.\<close>

lemma strings_written:
  "None \<notin> set vs \<Longrightarrow> write_strings vs = Inr bs \<Longrightarrow>
     bs = nested_wire 10 (char_elements (map (unwrap_or []) vs)) \<and> (\<forall>r\<in>set (map (unwrap_or []) vs). length r < 2147483648)"
proof (induction vs arbitrary: bs)
  case (Cons v vs)
  then obtain s bs' where "v = Some s" "write_strings vs = Inr bs'" "bs = [10, 0] @ le_bytes 4 (length s) @ s @ bs'" "length s < 2147483648"
    by (cases v) (auto simp: write_strings_def rbind_Inr_iff q_list_length_def split: if_splits simp del: le_bytes_numeral)
  then show ?case using Cons by (simp add: char_elements_def list_wire_def unwrap_or_def del: le_bytes_numeral)
qed (simp add: write_strings_def char_elements_def)

lemma string_column_wire:
  assumes "write_strings vs = Inr bs" "column_normal (StringCol vs)" "length vs < 2147483648" "length bs + 16 < usize_limit"
  shows "column_wire enc (StringCol vs) 0 (list_wire (length vs) bs)"
proof -
  let ?rows = "map (unwrap_or []) vs"
  have n: "vs \<noteq> []" "None \<notin> set vs" "all_some utf8_valid vs" "length (concat ?rows) < 4294967296" using assms(2) by auto
  note w = strings_written [OF n(2) assms(1)]
  have u: "\<forall>r\<in>set ?rows. utf8_valid r \<and> length r < 2147483648"
    using w n(2,3) by (auto simp: all_some_def unwrap_or_def split: option.splits)
  have es: "elements_ok 10 (char_elements ?rows)" "length (char_elements ?rows) = length vs"
    using u by (auto simp: elements_ok_def char_elements_def nestable_type_def)
  show ?thesis
    using deserialize_strings [OF u, of enc] nested_end [OF es(1)] es(2) w n assms(3,4) somes_back [OF n(2), of "[]"]
    by (auto simp: column_wire_def named_series_def)
qed

lemma symbols_written:
  "None \<notin> set vs \<Longrightarrow> write_symbols vs = Inr bs \<Longrightarrow>
     bs = symbol_bytes (map (unwrap_or []) vs) \<and> (\<forall>r\<in>set (map (unwrap_or []) vs). 0 \<notin> set r)"
proof (induction vs arbitrary: bs)
  case (Cons v vs)
  then obtain s bs' where "v = Some s" "write_symbols vs = Inr bs'" "bs = s @ [0] @ bs'" "0 \<notin> set s"
    by (cases v) (auto simp: write_symbols_def rbind_Inr_iff validate_q_symbol_def split: if_splits)
  then show ?case using Cons by (simp add: unwrap_or_def)
qed (simp add: write_symbols_def)

lemma categorical_column_wire:
  assumes "write_symbols vs = Inr bs" "column_normal (CategoricalCol vs)" "length vs < 2147483648"
  shows "column_wire enc (CategoricalCol vs) 11 (list_wire (length vs) bs)"
proof -
  let ?rows = "map (unwrap_or []) vs"
  have n: "None \<notin> set vs" "all_some utf8_valid vs" using assms(2) by auto
  note w = symbols_written [OF n(1) assms(1)]
  have ok: "symbols_ok ?rows"
    using w n by (auto simp: all_some_def unwrap_or_def symbols_ok_def list_all_iff split: option.splits)
  have "\<exists>name. deserialize_series (list_wire (length vs) bs) 11 True enc = Inr (KSeries \<lparr>s_name = name, s_data = CategoricalCol vs\<rparr>)"
  proof (cases "vs = []")
    case True
    then show ?thesis using w deserialize_empty [of 11 enc] by (simp add: new_empty_series_def named_series_def)
  next
    case False
    then show ?thesis using deserialize_symbols [OF ok, of True enc] w assms(3) somes_back [OF n(1), of "[]"]
      by (simp add: named_series_def)
  qed
  then show ?thesis using symbols_end [OF ok] w assms(3) by (simp add: column_wire_def)
qed

text \<open>The rows of a list column, each with its number of values and their bytes.\<close>

definition row_elements :: "('a list \<Rightarrow> bytes) \<Rightarrow> 'a list \<Rightarrow> int list \<Rightarrow> (nat \<times> bytes) list" where
  "row_elements f vs offsets = map (\<lambda>(a, b). (nat b - nat a, f (take (nat b - nat a) (drop (nat a) vs)))) (windows2 offsets)"

lemma row_elements_simps [simp]:
  "row_elements f vs [a] = []"
  "row_elements f vs (a # b # xs) = (nat b - nat a, f (take (nat b - nat a) (drop (nat a) vs))) # row_elements f vs (b # xs)"
  by (simp_all add: row_elements_def)

lemma length_row_elements: "length (row_elements f vs offsets) = length offsets - 1"
proof -
  have "length (windows2 offsets) = length offsets - 1" for offsets :: "int list" by (induction offsets rule: windows2.induct) auto
  then show ?thesis by (simp add: row_elements_def)
qed

lemma row_elements_offsets:
  assumes "sorted offsets" "offsets \<noteq> []" "0 \<le> hd offsets"
  shows "next_offsets (nat (hd offsets)) (map fst (row_elements f vs offsets)) = map nat (tl offsets)"
    "sum_list (map fst (row_elements f vs offsets)) = nat (last offsets) - nat (hd offsets)"
  using assms
proof (induction offsets rule: windows2.induct)
  case (1 a b xs)
  {
    case 1 then show ?case using "1.IH" by (auto simp: nat_le_iff)
  next
    case 2
    then have "nat b \<le> nat (last (b # xs))" by (intro nat_mono) (auto simp: sorted_wrt.simps)
    then show ?case using "1.IH" 2 by (auto simp: nat_le_iff)
  }
qed (auto)

lemma row_elements_payload:
  assumes "sorted offsets" "offsets \<noteq> []" "0 \<le> hd offsets"
    and f: "f [] = []" "\<And>xs ys. f (xs @ ys) = f xs @ f ys"
  shows "concat (map snd (row_elements f vs offsets)) = f (take (nat (last offsets) - nat (hd offsets)) (drop (nat (hd offsets)) vs))"
  using assms(1-3)
proof (induction offsets rule: windows2.induct)
  case (1 a b xs)
  have o: "nat a \<le> nat b" "nat b \<le> nat (last (b # xs))" using 1 by (auto intro!: nat_mono simp: sorted_wrt.simps)
  let ?l = "nat (last (b # xs))"
  have "take (?l - nat a) (drop (nat a) vs) = take (nat b - nat a) (drop (nat a) vs) @ take (?l - nat b) (drop (nat b) vs)"
    using o take_add [of "nat b - nat a" "?l - nat b" "drop (nat a) vs"] by (simp add: add.commute)
  moreover have "concat (map snd (row_elements f vs (b # xs))) = f (take (?l - nat b) (drop (nat b) vs))"
    using 1 by simp
  ultimately show ?case using f(2) by simp
qed (auto simp: f)

lemma rmap_nested_rows:
  assumes "\<And>a b. (a, b) \<in> set (windows2 offsets) \<Longrightarrow>
     g (a, b) = Inr (t # list_wire (nat b - nat a) (f (take (nat b - nat a) (drop (nat a) vs))))"
  shows "rmap g (windows2 offsets) = Inr (map (\<lambda>(m, p). t # list_wire m p) (row_elements f vs offsets))"
proof -
  have "g (windows2 offsets ! i) = Inr (map (\<lambda>(m, p). t # list_wire m p) (row_elements f vs offsets) ! i)"
    if "i < length (windows2 offsets)" for i
    using that assms nth_mem [OF that] by (cases "windows2 offsets ! i") (simp add: row_elements_def)
  then show ?thesis unfolding rmap_Inr_iff by (simp add: list_all2_conv_all_nth row_elements_def)
qed

text \<open>Both writers of list columns write the rows one after the other.\<close>

lemma nested_numbers_written:
  assumes wf: "column_wf (ListCol rows offsets child)" and vs: "length vs = column_len child"
  shows "write_nested_wire_lists t d vs offsets = Inr (nested_wire t (row_elements (write_wire_numbers d) vs offsets))"
proof -
  have "rbind (row_range (a, b)) (\<lambda>(start, end).
       rbind (ok_or (get_range vs start end) NotAbleToSerializeErr) (\<lambda>nested_values.
       rbind (q_list_length (length nested_values)) (\<lambda>len.
       Inr ([t, 0] @ len @ write_wire_numbers d nested_values))))
     = Inr (t # list_wire (nat b - nat a) (write_wire_numbers d (take (nat b - nat a) (drop (nat a) vs))))"
    if ab: "(a, b) \<in> set (windows2 offsets)" for a b
  proof -
    note o = list_offsets [OF wf ab]
    have "min (column_len child - nat a) (nat (b - a)) = nat (b - a)"
      using diff_le_mono [OF o(3), of "nat a"] o(4) by simp
    then show ?thesis using o vs by (simp add: get_range_def q_list_length_ok list_wire_def del: le_bytes_numeral)
  qed
  from rmap_nested_rows [OF this] show ?thesis by (simp add: write_nested_wire_lists_def nested_wire_def)
qed

lemma boolean_rows_written:
  assumes wf: "column_wf (ListCol rows offsets child)" and vs: "length vs = column_len child"
  shows "write_boolean_lists vs offsets = Inr (nested_wire 1 (row_elements (map (\<lambda>v. bool_byte (unwrap_or False v))) vs offsets))"
proof -
  have "rbind (row_range (a, b)) (\<lambda>(start_offset, end_offset).
       rbind (ok_or (checked_sub end_offset start_offset) Panicked) (\<lambda>n.
       rbind (q_list_length n) (\<lambda>len.
       Inr ([1, 0] @ len @ map (get_bool vs) [start_offset..<end_offset]))))
     = Inr (1 # list_wire (nat b - nat a) (map (\<lambda>v. bool_byte (unwrap_or False v)) (take (nat b - nat a) (drop (nat a) vs))))"
    if ab: "(a, b) \<in> set (windows2 offsets)" for a b
  proof -
    note o = list_offsets [OF wf ab]
    have "map (get_bool vs) [nat a..<nat b] = map (\<lambda>v. bool_byte (unwrap_or False v)) (take (nat b - nat a) (drop (nat a) vs))"
      using o(2,3) vs by (intro nth_equalityI) (auto simp: get_bool_def get_at_def)
    then show ?thesis using o vs by (simp add: checked_sub_def q_list_length_ok list_wire_def del: le_bytes_numeral)
  qed
  from rmap_nested_rows [OF this] show ?thesis by (simp add: write_boolean_lists_def nested_wire_def)
qed

text \<open>A list column whose rows are written by \<open>f\<close> and whose child is read back from \<open>f\<close> of all its values.\<close>

lemma all_valid_rows: "False \<notin> set rows \<Longrightarrow> replicate (length rows) True = rows"
  by (induction rows) auto

lemma list_column_wire:
  assumes wf: "column_wf (ListCol rows offsets child)" and vs: "length vs = column_len child"
    and n: "column_normal (ListCol rows offsets child)" "length rows < 2147483648"
    and t: "nestable_type t" "t \<noteq> 11" "t \<noteq> 10"
    and f: "f [] = []" "\<And>xs ys. f (xs @ ys) = f xs @ f ys" "\<And>xs. length (f xs) = length xs * K_TYPE_SIZE ! unat t"
    and child: "nested_child t (f vs) [] = Inr child"
    and size: "length (nested_wire t (row_elements f vs offsets)) + 16 < usize_limit"
  shows "column_wire enc (ListCol rows offsets child) 0 (list_wire (length rows) (nested_wire t (row_elements f vs offsets)))"
proof -
  let ?es = "row_elements f vs offsets"
  have o: "sorted offsets" "offsets \<noteq> []" "hd offsets = 0" "last offsets = int (column_len child)" "last offsets < 2147483648"
    "rows = replicate (length rows) True" "rows \<noteq> []"
    using wf n by (auto simp: all_valid_rows)
  have l: "length ?es = length rows" using wf by (simp add: length_row_elements)
  have "min (column_len child - nat a) (nat b - nat a) = nat b - nat a" if "(a, b) \<in> set (windows2 offsets)" for a b
    using diff_le_mono [OF list_offsets(3) [OF wf that], of "nat a"] by simp
  then have es: "elements_ok t ?es" unfolding elements_ok_def row_elements_def
    using t list_offsets [OF wf] vs by (auto simp: f(3))
  have offs: "map int (0 # next_offsets 0 (map fst ?es)) = offsets"
    using row_elements_offsets(1) [OF o(1,2), of f vs] o(1-3)
    by (cases offsets) (auto intro!: map_idI simp: map_idI)
  have p: "concat (map snd ?es) = f vs" "sum_list (map fst ?es) < 2147483648"
    using row_elements_payload [OF o(1,2) _ f(1,2)] row_elements_offsets(2) [OF o(1,2), of f vs] o(3-5) vs by auto
  have ne: "?es \<noteq> []" using l o(7) by auto
  show ?thesis
    using deserialize_nested_lists [OF es ne _ t(3) p(2) size, of enc] nested_end [OF es] l n(2) p(1) child o(6) offs
    by (simp add: column_wire_def named_series_def)
qed

lemma write_wire_numbers_append: "write_wire_numbers d [] = []" "write_wire_numbers d (xs @ ys) = write_wire_numbers d xs @ write_wire_numbers d ys"
  by (simp_all add: write_wire_numbers_def)

lemma all_some_ne: "Some x \<notin> set vs \<Longrightarrow> all_some (\<lambda>v. v \<noteq> x) vs"
  by (auto simp: all_some_def)

lemma write_wire_bytes: "write_wire_numbers (d :: byte) vs = map (unwrap_or d) vs"
  by (induction vs) (simp_all add: write_wire_numbers_def le_word_def)

lemma nested_list_column_wire:
  assumes wf: "column_wf (ListCol rows offsets child)" "column_normal (ListCol rows offsets child)" "length rows < 2147483648"
    and bs: "write_list_child child offsets = Inr bs" "length bs + 16 < usize_limit"
  shows "column_wire enc (ListCol rows offsets child) 0 (list_wire (length rows) bs)"
proof -
  note rule = list_column_wire [OF wf(1) _ wf(2,3)]
  note defs = nestable_type_def nested_child_def write_wire_numbers_append length_write_numbers decode_numbers_back all_some_ne
  show ?thesis
  proof (cases child)
    case (BooleanCol vs)
    then show ?thesis
      using rule [of vs 1 "map (\<lambda>v. bool_byte (unwrap_or False v))"] boolean_rows_written [OF wf(1), of vs] bs wf(2) booleans_back [of vs]
      by (simp add: defs)
  next
    case (UInt8Col vs)
    then show ?thesis
      using rule [of vs 4 "write_wire_numbers 0"] nested_numbers_written [OF wf(1), of vs 4 0] bs wf(2) somes_back [of vs 0]
      by (simp add: defs write_wire_bytes)
  next
    case (Int16Col vs)
    then show ?thesis
      using rule [of vs 5 "write_wire_numbers I16_MIN"] nested_numbers_written [OF wf(1), of vs 5 I16_MIN] bs wf(2)
      by (simp add: defs)
  next
    case (Int32Col vs)
    then show ?thesis
      using rule [of vs 6 "write_wire_numbers I32_MIN"] nested_numbers_written [OF wf(1), of vs 6 I32_MIN] bs wf(2)
      by (simp add: defs)
  next
    case (Int64Col vs)
    then show ?thesis
      using rule [of vs 7 "write_wire_numbers I64_MIN"] nested_numbers_written [OF wf(1), of vs 7 I64_MIN] bs wf(2)
      by (simp add: defs)
  next
    case (Float32Col vs)
    then show ?thesis
      using rule [of vs 8 "write_wire_numbers F32_NAN"] nested_numbers_written [OF wf(1), of vs 8 F32_NAN] bs wf(2)
      by (simp add: defs)
  next
    case (Float64Col vs)
    then show ?thesis
      using rule [of vs 9 "write_wire_numbers F64_NAN"] nested_numbers_written [OF wf(1), of vs 9 F64_NAN] bs wf(2)
      by (simp add: defs)
  qed (use wf in auto)
qed

text \<open>Every column the serializer accepts is written in its wire form.\<close>

lemma column_written:
  assumes "serialize_series_into \<lparr>s_name = n, s_data = c\<rparr> = Inr bs" "column_normal c" "column_wf c" "length bs + 16 < usize_limit"
  shows "\<exists>tb w. bs = tb # w \<and> column_wire enc c tb w"
proof -
  obtain tb body where b: "serialize_column c = Inr (tb, body)" "bs = tb # list_wire (column_len c) body" "column_len c < 2147483648"
    using serialize_series_into_wire [OF assms(1)] by blast
  have "column_wire enc c tb (list_wire (column_len c) body)"
  proof (cases c)
    case (StringCol vs)
    then show ?thesis using b assms string_column_wire [of vs body enc] by (auto simp: rbind_Inr_iff)
  next
    case (CategoricalCol vs)
    then show ?thesis using b assms categorical_column_wire [of vs body enc] by (auto simp: rbind_Inr_iff)
  next
    case (ListCol rows offsets child)
    then show ?thesis using b assms nested_list_column_wire [of rows offsets child body enc]
      by (auto simp: rbind_Inr_iff split: if_splits simp del: column_normal.simps column_wf.simps)
  next
    case (NullCol m)
    then have "body = []" "tb = 0" "m = 0" using b assms(2) by auto
    moreover have "elements_ok 1 []" by (simp add: elements_ok_def nestable_type_def)
    ultimately show ?thesis using NullCol deserialize_empty [of 0 enc] nested_end [of 1 "[]"]
      by (simp add: column_wire_def new_empty_series_def named_series_def)
  qed (use b assms fixed_column_wire [OF b(1) assms(2) b(3)] in \<open>auto simp: rbind_Inr_iff split: if_splits\<close>)
  then show ?thesis using b(2) by blast
qed

end
