(* ===== verification/SymbolCache.thy ===== *)
theory SymbolCache
  imports KRoundTrip
begin

text \<open>
  Symbol columns as category ids: the interner that decodes a symbol list (\<open>SymbolInterner\<close> and
  \<open>decode_symbol_column\<close> of \<open>crates/xqdb/src/serde6.rs\<close>) and the cached lookup that resolves the ids
  when a column is measured and serialized (\<open>SymbolLookup\<close> and \<open>for_each_category\<close> of \<open>types.rs\<close>).

  The rest of the development shows a categorical column by the symbols of its rows. Here the column
  is what the code has, ids in the global mapping of the frame library, and the two caches are shown
  to be transparent: the ids stand for the symbols the list holds, and resolving them writes and
  measures the column as the model with symbols does.
\<close>

section \<open>The global mapping\<close>

text \<open>
  The mapping is library code and shared by all threads. Its state is an argument; what other threads
  insert is part of the state's own behaviour, since nothing but the laws below is relied on.
\<close>

record 'm category_mapping =
  insert_cat :: "bytes \<Rightarrow> 'm \<Rightarrow> 32 word option \<times> 'm"
  cat_to_str :: "'m \<Rightarrow> 32 word \<Rightarrow> bytes option"

text \<open>The laws: an insertion returns the id of the symbol and never changes what an id stands for.\<close>

definition mapping_grows :: "'m category_mapping \<Rightarrow> 'm \<Rightarrow> 'm \<Rightarrow> bool" where
  "mapping_grows cm m m' \<longleftrightarrow> (\<forall>c s. cat_to_str cm m c = Some s \<longrightarrow> cat_to_str cm m' c = Some s)"

definition mapping_laws :: "'m category_mapping \<Rightarrow> bool" where
  "mapping_laws cm \<longleftrightarrow> (\<forall>s m. case insert_cat cm s m of (r, m') \<Rightarrow>
     mapping_grows cm m m' \<and> (\<forall>c. r = Some c \<longrightarrow> cat_to_str cm m' c = Some s))"

section \<open>The interner\<close>

record symbol_interner =
  si_last :: "(bytes \<times> 32 word) option"
  si_short :: "64 word \<rightharpoonup> 32 word"
  si_long :: "bytes \<rightharpoonup> 32 word"

definition interner_new :: symbol_interner where
  "interner_new = \<lparr>si_last = None, si_short = Map.empty, si_long = Map.empty\<rparr>"

definition insert_global_category :: "'m category_mapping \<Rightarrow> bytes \<Rightarrow> 'm \<Rightarrow> 32 word xresult \<times> 'm" where
  "insert_global_category cm symbol m =
     (case insert_cat cm symbol m of (r, m') \<Rightarrow> (ok_or r DeserializationErr, m'))"

text \<open>The key of a symbol of at most eight bytes: its bytes in a word, padded with zeros.\<close>

definition symbol_word :: "bytes \<Rightarrow> 64 word" where
  "symbol_word symbol = of_le (symbol @ replicate (8 - length symbol) 0)"

definition category_miss ::
  "'m category_mapping \<Rightarrow> bytes \<Rightarrow> symbol_interner \<Rightarrow> 'm \<Rightarrow> 32 word xresult \<times> symbol_interner \<times> 'm" where
  "category_miss cm symbol si m =
     (if length symbol \<le> 8 then
        (case si_short si (symbol_word symbol) of
           Some cat \<Rightarrow> (Inr cat, si\<lparr>si_last := Some (symbol, cat)\<rparr>, m)
         | None \<Rightarrow>
             (case insert_global_category cm symbol m of
                (Inl e, m') \<Rightarrow> (Inl e, si, m')
              | (Inr cat, m') \<Rightarrow>
                  (Inr cat, si\<lparr>si_last := Some (symbol, cat), si_short := (si_short si)(symbol_word symbol \<mapsto> cat)\<rparr>, m')))
      else
        (case si_long si symbol of
           Some cat \<Rightarrow> (Inr cat, si\<lparr>si_last := Some (symbol, cat)\<rparr>, m)
         | None \<Rightarrow>
             (case insert_global_category cm symbol m of
                (Inl e, m') \<Rightarrow> (Inl e, si, m')
              | (Inr cat, m') \<Rightarrow>
                  (Inr cat, si\<lparr>si_last := Some (symbol, cat), si_long := (si_long si)(symbol \<mapsto> cat)\<rparr>, m'))))"

definition category ::
  "'m category_mapping \<Rightarrow> bytes \<Rightarrow> symbol_interner \<Rightarrow> 'm \<Rightarrow> 32 word xresult \<times> symbol_interner \<times> 'm" where
  "category cm symbol si m =
     (case si_last si of
        Some (previous, cat) \<Rightarrow> if previous = symbol then (Inr cat, si, m) else category_miss cm symbol si m
      | None \<Rightarrow> category_miss cm symbol si m)"

primrec intern_symbols ::
  "'m category_mapping \<Rightarrow> nat \<Rightarrow> bytes \<Rightarrow> nat \<Rightarrow> 32 word list \<Rightarrow> symbol_interner \<Rightarrow> 'm \<Rightarrow> (32 word list \<times> nat) xresult \<times> 'm" where
  "intern_symbols cm 0 payload cursor categories si m = (Inr (categories, cursor), m)"
| "intern_symbols cm (Suc n) payload cursor categories si m =
     (case rbind (ok_or (get_from payload cursor) Panicked) (\<lambda>tail.
           rbind (ok_or (memchr0 tail) DeserializationErr) (\<lambda>terminator. Inr (take terminator tail, terminator))) of
        Inl e \<Rightarrow> (Inl e, m)
      | Inr (symbol, terminator) \<Rightarrow>
          (case category cm symbol si m of
             (Inl e, si', m') \<Rightarrow> (Inl e, m')
           | (Inr cat, si', m') \<Rightarrow> intern_symbols cm n payload (cursor + terminator + 1) (categories @ [cat]) si' m'))"

definition decode_symbol_column :: "'m category_mapping \<Rightarrow> bytes \<Rightarrow> nat \<Rightarrow> 'm \<Rightarrow> 32 word list xresult \<times> 'm" where
  "decode_symbol_column cm payload len m =
     (case intern_symbols cm len payload 0 [] interner_new m of
        (Inl e, m') \<Rightarrow> (Inl e, m')
      | (Inr (categories, cursor), m') \<Rightarrow>
          (rbind (check_symbol_list_consumed payload cursor) (\<lambda>_. Inr categories), m'))"

section \<open>The lookup\<close>

definition SLOTS :: nat where "SLOTS = 256"

type_synonym symbol_lookup = "(32 word \<times> bytes) option list"

definition lookup_new :: symbol_lookup where
  "lookup_new = replicate SLOTS None"

definition resolve :: "(32 word \<Rightarrow> bytes option) \<Rightarrow> 32 word \<Rightarrow> symbol_lookup \<Rightarrow> (bytes \<times> symbol_lookup) xresult" where
  "resolve mapping cat slots =
     (let slot = unat cat mod SLOTS;
          miss = rbind (ok_or (mapping cat) NotAbleToSerializeErr) (\<lambda>symbol.
                 rbind (validate_q_symbol symbol) (\<lambda>_. Inr (symbol, slots[slot := Some (cat, symbol)])))
      in case slots ! slot of
           Some (cached, symbol) \<Rightarrow> if cached = cat then Inr (symbol, slots) else miss
         | None \<Rightarrow> miss)"

text \<open>A chunk of the physical column: its ids, and which of its rows are not null when any is.\<close>

type_synonym category_chunk = "32 word list \<times> bool list option"

definition chunk_rows :: "category_chunk \<Rightarrow> 32 word option list" where
  "chunk_rows chunk = (case chunk of (ids, validity) \<Rightarrow>
     case validity of
       None \<Rightarrow> map Some ids
     | Some vs \<Rightarrow> map (\<lambda>(c, valid). if valid then Some c else None) (zip ids vs))"

definition for_each_category :: "category_chunk list \<Rightarrow> (32 word option \<Rightarrow> 's \<Rightarrow> 's xresult) \<Rightarrow> 's \<Rightarrow> 's xresult" where
  "for_each_category chunks visit = rfold (\<lambda>chunk. rfold visit (chunk_rows chunk)) chunks"

definition write_categories :: "(32 word \<Rightarrow> bytes option) \<Rightarrow> category_chunk list \<Rightarrow> bytes xresult" where
  "write_categories mapping chunks =
     rbind (for_each_category chunks
       (\<lambda>row (vec, symbols).
          rbind (case row of
                   Some c \<Rightarrow> rbind (resolve mapping c symbols) (\<lambda>(symbol, symbols). Inr (vec @ symbol, symbols))
                 | None \<Rightarrow> Inr (vec, symbols)) (\<lambda>(vec, symbols). Inr (vec @ [0], symbols)))
       ([], lookup_new)) (\<lambda>(vec, _). Inr vec)"

definition categories_len :: "(32 word \<Rightarrow> bytes option) \<Rightarrow> category_chunk list \<Rightarrow> nat xresult" where
  "categories_len mapping chunks =
     rbind (checked_q_count (sum_list (map (\<lambda>chunk. length (chunk_rows chunk)) chunks))) (\<lambda>_.
     rbind (for_each_category chunks
       (\<lambda>row (total, symbols).
          rbind (case row of
                   Some c \<Rightarrow> rbind (resolve mapping c symbols) (\<lambda>(symbol, symbols). Inr (length symbol, symbols))
                 | None \<Rightarrow> Inr (0, symbols)) (\<lambda>(symbol_length, symbols).
          rbind (ok_or (Option.bind (checked_add total symbol_length) (\<lambda>l. checked_add l 1)) OverLengthErr) (\<lambda>total.
          Inr (total, symbols))))
       (6, lookup_new)) (\<lambda>(total, _). Inr total))"

section \<open>Keys of short symbols\<close>

text \<open>Symbols hold no zero byte, so padding with zeros keeps them apart.\<close>

lemma padded_inj:
  assumes "0 \<notin> set s" "0 \<notin> set t" "s @ replicate m 0 = t @ replicate n (0 :: byte)"
  shows "s = t"
proof -
  have "takeWhile (\<lambda>b. b \<noteq> 0) (u @ replicate k 0) = u" if "0 \<notin> set u" for u :: bytes and k
    using that by (subst takeWhile_append2) auto
  then show ?thesis using assms by metis
qed

lemma symbol_word_inj:
  assumes "length s \<le> 8" "length t \<le> 8" "0 \<notin> set s" "0 \<notin> set t" "symbol_word s = symbol_word t"
  shows "s = t"
proof -
  have *: "le_bytes 8 (unat (symbol_word u)) = u @ replicate (8 - length u) 0" if "length u \<le> 8" for u
    using that le_bytes_le_nat [of "u @ replicate (8 - length u) 0"] le_nat_less [of "u @ replicate (8 - length u) 0"]
    by (simp add: symbol_word_def of_le_def unat_of_nat take_bit_nat_eq_self del: le_bytes_numeral)
  show ?thesis using * [OF assms(1)] * [OF assms(2)] assms(3-5) padded_inj by metis
qed

section \<open>The interner is transparent\<close>

definition interner_ok :: "'m category_mapping \<Rightarrow> 'm \<Rightarrow> symbol_interner \<Rightarrow> bool" where
  "interner_ok cm m si \<longleftrightarrow>
     (\<forall>s c. si_last si = Some (s, c) \<longrightarrow> cat_to_str cm m c = Some s)
     \<and> (\<forall>s c. length s \<le> 8 \<longrightarrow> 0 \<notin> set s \<longrightarrow> si_short si (symbol_word s) = Some c \<longrightarrow> cat_to_str cm m c = Some s)
     \<and> (\<forall>s c. si_long si s = Some c \<longrightarrow> cat_to_str cm m c = Some s)"

lemma mapping_grows_refl [simp]: "mapping_grows cm m m"
  by (simp add: mapping_grows_def)

lemma mapping_grows_trans: "mapping_grows cm m m' \<Longrightarrow> mapping_grows cm m' m'' \<Longrightarrow> mapping_grows cm m m''"
  by (simp add: mapping_grows_def)

lemma insert_global_category_grows:
  assumes "mapping_laws cm" "insert_global_category cm s m = (r, m')"
  shows "mapping_grows cm m m'" "r = Inr c \<Longrightarrow> cat_to_str cm m' c = Some s"
  using assms by (auto simp: mapping_laws_def insert_global_category_def result_simps split: prod.splits)

lemma interner_ok_grows: "interner_ok cm m si \<Longrightarrow> mapping_grows cm m m' \<Longrightarrow> interner_ok cm m' si"
  unfolding interner_ok_def mapping_grows_def by blast

lemma interner_ok_last: "interner_ok cm m si \<Longrightarrow> cat_to_str cm m c = Some s \<Longrightarrow> interner_ok cm m (si\<lparr>si_last := Some (s, c)\<rparr>)"
  by (simp add: interner_ok_def)

lemma interner_ok_short:
  assumes "interner_ok cm m si" "cat_to_str cm m c = Some s" "length s \<le> 8" "0 \<notin> set s"
  shows "interner_ok cm m (si\<lparr>si_last := Some (s, c), si_short := (si_short si)(symbol_word s \<mapsto> c)\<rparr>)"
  using assms symbol_word_inj by (fastforce simp: interner_ok_def)

lemma interner_ok_long:
  assumes "interner_ok cm m si" "cat_to_str cm m c = Some s"
  shows "interner_ok cm m (si\<lparr>si_last := Some (s, c), si_long := (si_long si)(s \<mapsto> c)\<rparr>)"
  using assms by (simp add: interner_ok_def)

lemma category_miss_ok:
  assumes "mapping_laws cm" "interner_ok cm m si" "0 \<notin> set s" "category_miss cm s si m = (r, si', m')"
  shows "mapping_grows cm m m' \<and> interner_ok cm m' si' \<and> (\<forall>c. r = Inr c \<longrightarrow> cat_to_str cm m' c = Some s)"
proof -
  obtain i n where i: "insert_global_category cm s m = (i, n)" by (cases "insert_global_category cm s m")
  note grows = insert_global_category_grows [OF assms(1) i]
  note kept = interner_ok_grows [OF assms(2) grows(1)]
  have known: "cat_to_str cm m c = Some s" if "length s \<le> 8 \<and> si_short si (symbol_word s) = Some c \<or> si_long si s = Some c" for c
    using that assms(2,3) by (auto simp: interner_ok_def)
  show ?thesis
    using assms(3,4) i grows kept known assms(2)
    by (auto simp: category_miss_def intro: interner_ok_last interner_ok_short interner_ok_long
      split: if_splits option.splits sum.splits)
qed

lemma category_ok:
  assumes "mapping_laws cm" "interner_ok cm m si" "0 \<notin> set s" "category cm s si m = (r, si', m')"
  shows "mapping_grows cm m m' \<and> interner_ok cm m' si' \<and> (\<forall>c. r = Inr c \<longrightarrow> cat_to_str cm m' c = Some s)"
proof (cases "\<exists>c. si_last si = Some (s, c)")
  case True
  then show ?thesis using assms(2,4) by (auto simp: category_def interner_ok_def)
next
  case False
  then have "category cm s si m = category_miss cm s si m"
    by (auto simp: category_def split: option.splits)
  then show ?thesis using category_miss_ok assms by metis
qed

lemma category_total:
  assumes "\<forall>s m. fst (insert_cat cm s m) \<noteq> None"
  shows "\<exists>c si' m'. category cm s si m = (Inr c, si', m')"
proof -
  have "\<exists>c m'. insert_global_category cm s m = (Inr c, m')"
    using assms [rule_format, of s m] by (auto simp: insert_global_category_def split: prod.splits)
  then show ?thesis
    by (auto simp: category_def category_miss_def split: option.splits)
qed

lemma intern_symbols_correct:
  assumes "mapping_laws cm" "interner_ok cm m si" "intern_symbols cm n payload cursor cats si m = (Inr (ids, e), m')"
  shows "mapping_grows cm m m'
    \<and> (\<exists>new syms. ids = cats @ new \<and> split_symbols n payload cursor = Inr (syms, e) \<and> map (cat_to_str cm m') new = map Some syms)"
  using assms(2,3)
proof (induction n arbitrary: cursor cats si m)
  case (Suc n)
  obtain tail k where t: "get_from payload cursor = Some tail" "memchr0 tail = Some k"
    using Suc.prems(2) by (cases "get_from payload cursor"; cases "memchr0 (the (get_from payload cursor))") auto
  obtain c si' m1 where c: "category cm (take k tail) si m = (Inr c, si', m1)"
      "intern_symbols cm n payload (cursor + k + 1) (cats @ [c]) si' m1 = (Inr (ids, e), m')"
    using Suc.prems(2) t by (auto split: prod.splits sum.splits)
  have ok: "mapping_grows cm m m1" "interner_ok cm m1 si'" "cat_to_str cm m1 c = Some (take k tail)"
    using category_ok [OF assms(1) Suc.prems(1) _ c(1)] t(2) by (auto simp: memchr0_Some)
  obtain new syms where n: "mapping_grows cm m1 m'" "ids = cats @ c # new" "split_symbols n payload (cursor + k + 1) = Inr (syms, e)"
      "map (cat_to_str cm m') new = map Some syms"
    using Suc.IH [OF ok(2) c(2)] by auto
  have "cat_to_str cm m' c = Some (take k tail)" using ok(3) n(1) by (simp add: mapping_grows_def)
  then show ?case using n t mapping_grows_trans [OF ok(1) n(1)] by auto
qed simp

lemma intern_symbols_total:
  assumes "\<forall>s m. fst (insert_cat cm s m) \<noteq> None" "split_symbols n payload cursor = Inr (syms, e)"
  shows "\<exists>ids m'. intern_symbols cm n payload cursor cats si m = (Inr (ids, e), m')"
  using assms(2)
proof (induction n arbitrary: cursor cats si m syms)
  case (Suc n)
  obtain tail k syms' where t: "get_from payload cursor = Some tail" "memchr0 tail = Some k"
      "split_symbols n payload (cursor + k + 1) = Inr (syms', e)"
    using Suc.prems by (auto simp: result_simps)
  obtain c si' m1 where "category cm (take k tail) si m = (Inr c, si', m1)" using category_total [OF assms(1)] by metis
  then show ?case using t Suc.IH [OF t(3)] by simp
qed simp

lemma decode_symbol_column_correct:
  assumes "mapping_laws cm" "decode_symbol_column cm payload n m = (Inr ids, m')"
  shows "mapping_grows cm m m' \<and> (\<exists>syms. decode_symbols payload n = Inr syms \<and> map (cat_to_str cm m') ids = map Some syms)"
proof -
  have new: "interner_ok cm m interner_new" by (simp add: interner_ok_def interner_new_def)
  obtain e where e: "intern_symbols cm n payload 0 [] interner_new m = (Inr (ids, e), m')"
      "check_symbol_list_consumed payload e = Inr ()"
    using assms(2) by (auto simp: decode_symbol_column_def rbind_Inr_iff split: prod.splits sum.splits)
  then show ?thesis using intern_symbols_correct [OF assms(1) new e(1)] by (auto simp: decode_symbols_def)
qed

lemma decode_symbol_column_total:
  assumes "\<forall>s m. fst (insert_cat cm s m) \<noteq> None" "decode_symbols payload n = Inr syms"
  shows "\<exists>ids m'. decode_symbol_column cm payload n m = (Inr ids, m')"
proof -
  obtain e where e: "split_symbols n payload 0 = Inr (syms, e)" "check_symbol_list_consumed payload e = Inr ()"
    using assms(2) by (auto simp: decode_symbols_def rbind_Inr_iff)
  then show ?thesis using intern_symbols_total [OF assms(1) e(1), of "[]" interner_new m]
    by (auto simp: decode_symbol_column_def)
qed

section \<open>The lookup is transparent\<close>

definition slots_ok :: "(32 word \<Rightarrow> bytes option) \<Rightarrow> symbol_lookup \<Rightarrow> bool" where
  "slots_ok mapping slots \<longleftrightarrow> length slots = SLOTS
     \<and> (\<forall>i < SLOTS. \<forall>c s. slots ! i = Some (c, s) \<longrightarrow> mapping c = Some s \<and> 0 \<notin> set s)"

lemma lookup_new_ok [simp]: "slots_ok mapping lookup_new"
  by (simp add: slots_ok_def lookup_new_def)

lemma resolve_exact:
  assumes "slots_ok mapping slots" "mapping c = Some s"
  shows "if 0 \<in> set s then resolve mapping c slots = Inl NotAbleToSerializeErr
    else \<exists>slots'. resolve mapping c slots = Inr (s, slots') \<and> slots_ok mapping slots'"
proof -
  let ?i = "unat c mod SLOTS"
  have i: "?i < SLOTS" by (simp add: SLOTS_def)
  have hit: "t = s \<and> 0 \<notin> set s" if "slots ! ?i = Some (c, t)" for t using assms that i by (auto simp: slots_ok_def)
  have kept: "slots_ok mapping (slots[?i := Some (c, s)])" if "0 \<notin> set s"
    using assms that by (auto simp: slots_ok_def nth_list_update)
  show ?thesis
    using hit kept assms by (auto simp: resolve_def Let_def validate_q_symbol_def split: option.splits)
qed

lemma for_each_category_rows: "for_each_category chunks visit s = rfold visit (concat (map chunk_rows chunks)) s"
  by (induction chunks arbitrary: s) (auto simp: for_each_category_def rfold_append intro: rbind_cong)

lemma write_rows:
  assumes "slots_ok mapping slots" "\<forall>c. Some c \<in> set rows \<longrightarrow> mapping c \<noteq> None"
  shows "rbind (rfold (\<lambda>row (vec, symbols).
          rbind (case row of
                   Some c \<Rightarrow> rbind (resolve mapping c symbols) (\<lambda>(symbol, symbols). Inr (vec @ symbol, symbols))
                 | None \<Rightarrow> Inr (vec, symbols)) (\<lambda>(vec, symbols). Inr (vec @ [0], symbols))) rows (vec, slots)) (\<lambda>(vec, _). Inr vec)
    = rbind (write_symbols (map (map_option (the \<circ> mapping)) rows)) (\<lambda>out. Inr (vec @ out))"
  using assms
proof (induction rows arbitrary: vec slots)
  case (Cons row rows)
  have rest: "\<forall>c. Some c \<in> set rows \<longrightarrow> mapping c \<noteq> None" using Cons.prems(2) by simp
  show ?case
  proof (cases row)
    case None
    then show ?thesis using Cons.IH [OF Cons.prems(1) rest] by (simp add: write_symbols_def rbind_assoc)
  next
    case (Some c)
    then obtain s where s: "mapping c = Some s" using Cons.prems(2) by auto
    show ?thesis
    proof (cases "0 \<in> set s")
      case True
      then show ?thesis using resolve_exact [OF Cons.prems(1) s] Some s by (simp add: write_symbols_def validate_q_symbol_def)
    next
      case False
      then obtain slots' where r: "resolve mapping c slots = Inr (s, slots')" "slots_ok mapping slots'"
        using resolve_exact [OF Cons.prems(1) s] by auto
      then show ?thesis using False Cons.IH [OF r(2) rest] Some s
        by (simp add: write_symbols_def validate_q_symbol_def rbind_assoc)
    qed
  qed
qed (simp add: write_symbols_def)

lemma len_rows:
  assumes "slots_ok mapping slots" "\<forall>c. Some c \<in> set rows \<longrightarrow> mapping c \<noteq> None"
  shows "rbind (rfold (\<lambda>row (total, symbols).
          rbind (case row of
                   Some c \<Rightarrow> rbind (resolve mapping c symbols) (\<lambda>(symbol, symbols). Inr (length symbol, symbols))
                 | None \<Rightarrow> Inr (0, symbols)) (\<lambda>(symbol_length, symbols).
          rbind (ok_or (Option.bind (checked_add total symbol_length) (\<lambda>l. checked_add l 1)) OverLengthErr) (\<lambda>total.
          Inr (total, symbols)))) rows (start, slots)) (\<lambda>(total, _). Inr total)
    = rfold (\<lambda>category total.
       rbind (case category of
                Some symbol \<Rightarrow> rbind (validate_q_symbol symbol) (\<lambda>_. Inr (length symbol))
              | None \<Rightarrow> Inr 0) (\<lambda>symbol_length.
       ok_or (Option.bind (checked_add total symbol_length) (\<lambda>l. checked_add l 1)) OverLengthErr))
       (map (map_option (the \<circ> mapping)) rows) start"
  using assms
proof (induction rows arbitrary: start slots)
  case (Cons row rows)
  have rest: "\<forall>c. Some c \<in> set rows \<longrightarrow> mapping c \<noteq> None" using Cons.prems(2) by simp
  show ?case
  proof (cases row)
    case None
    then show ?thesis using Cons.IH [OF Cons.prems(1) rest] by (simp add: rbind_assoc cong: rbind_cong)
  next
    case (Some c)
    then obtain s where s: "mapping c = Some s" using Cons.prems(2) by auto
    show ?thesis
    proof (cases "0 \<in> set s")
      case True
      then show ?thesis using resolve_exact [OF Cons.prems(1) s] Some s by (simp add: validate_q_symbol_def)
    next
      case False
      then obtain slots' where r: "resolve mapping c slots = Inr (s, slots')" "slots_ok mapping slots'"
        using resolve_exact [OF Cons.prems(1) s] by auto
      then show ?thesis using False Cons.IH [OF r(2) rest] Some s
        by (simp add: validate_q_symbol_def rbind_assoc cong: rbind_cong)
    qed
  qed
qed simp

lemma rbind_Inr_right: "rbind r Inr = r"
  by (cases r) simp_all

lemma write_categories_exact:
  assumes "\<forall>c. Some c \<in> set (concat (map chunk_rows chunks)) \<longrightarrow> mapping c \<noteq> None"
  shows "write_categories mapping chunks = write_symbols (map (map_option (the \<circ> mapping)) (concat (map chunk_rows chunks)))"
  using write_rows [OF lookup_new_ok assms, of "[]"] unfolding write_categories_def for_each_category_rows
  by (simp add: rbind_Inr_right)

lemma categories_len_exact:
  assumes "\<forall>c. Some c \<in> set (concat (map chunk_rows chunks)) \<longrightarrow> mapping c \<noteq> None"
  shows "categories_len mapping chunks = categorical_len (map (map_option (the \<circ> mapping)) (concat (map chunk_rows chunks)))"
  using len_rows [OF lookup_new_ok assms, of 6] unfolding categories_len_def categorical_len_def for_each_category_rows
  by (simp add: length_concat o_def)

text \<open>
  C8: the caches of symbol columns are transparent. When a symbol list is decoded to category ids, the
  list is a valid one and the ids stand for its symbols in the shared mapping, although most of them
  were never looked up there; and whenever such a column is measured and serialized later, in whatever
  chunks the library keeps it and whatever was inserted into the mapping since, the cached lookup gives
  the size and the bytes of the column of these symbols.
\<close>
theorem symbol_caches_transparent:
  assumes "mapping_laws cm" "decode_symbol_column cm payload n m = (Inr ids, m')" "mapping_grows cm m' m''"
    and "concat (map chunk_rows chunks) = map Some ids"
  shows "\<exists>syms. decode_symbols payload n = Inr syms \<and> map (cat_to_str cm m') ids = map Some syms
    \<and> write_categories (cat_to_str cm m'') chunks = write_symbols (map Some syms)
    \<and> categories_len (cat_to_str cm m'') chunks = categorical_len (map Some syms)"
proof -
  obtain syms where s: "decode_symbols payload n = Inr syms" "map (cat_to_str cm m') ids = map Some syms"
    using decode_symbol_column_correct [OF assms(1,2)] by blast
  have "cat_to_str cm m'' c = cat_to_str cm m' c" if "c \<in> set ids" for c
  proof -
    have "cat_to_str cm m' c \<in> set (map Some syms)" using s(2) that by (metis image_eqI list.set_map)
    then show ?thesis using assms(3) by (auto simp: mapping_grows_def)
  qed
  then have later: "map (cat_to_str cm m'') ids = map Some syms" using s(2) by (simp cong: map_cong)
  then have rows: "map (map_option (the \<circ> cat_to_str cm m'')) (map Some ids) = map Some syms"
    by (auto simp: o_def list_eq_iff_nth_eq dest!: map_eq_imp_length_eq)
  have "\<forall>c. Some c \<in> set (concat (map chunk_rows chunks)) \<longrightarrow> cat_to_str cm m'' c \<noteq> None"
    using later assms(4) by (metis (no_types, lifting) ex_map_conv image_iff list.set_map option.inject option.distinct(1))
  then show ?thesis using write_categories_exact categories_len_exact s assms(4) rows by metis
qed

text \<open>A mapping that numbers the symbols in the order of their insertion.\<close>

definition example_mapping :: "bytes list category_mapping" where
  "example_mapping =
     \<lparr>insert_cat = (\<lambda>s m. case index_of s m of
          Some i \<Rightarrow> (if i < 4294967296 then Some (of_nat i) else None, m)
        | None \<Rightarrow> if length m < 4294967296 then (Some (of_nat (length m)), m @ [s]) else (None, m)),
      cat_to_str = (\<lambda>m c. if unat c < length m then Some (m ! unat c) else None)\<rparr>"

lemma example_mapping_laws: "mapping_laws example_mapping"
proof -
  have u: "unat (of_nat i :: 32 word) = i" if "i < 4294967296" for i
    using that by (simp add: unat_of_nat take_bit_nat_eq_self)
  show ?thesis
    by (auto simp: mapping_laws_def mapping_grows_def example_mapping_def u nth_append dest: index_of_Some split: option.splits)
qed

theorem symbol_caches_transparent_witness:
  "\<exists>syms. decode_symbols [97, 0, 98, 0, 97, 0] 3 = Inr syms
    \<and> write_categories (cat_to_str example_mapping [[97], [98], [99]]) [([0, 1], None), ([0], Some [True])] = write_symbols (map Some syms)"
proof -
  have d: "decode_symbol_column example_mapping [97, 0, 98, 0, 97, 0] 3 [] = (Inr [0, 1, 0], [[97], [98]])"
    by (simp add: decode_symbol_column_def numeral_3_eq_3 get_from_def category_def category_miss_def interner_new_def
      insert_global_category_def example_mapping_def symbol_word_def of_le_def check_symbol_list_consumed_def)
  moreover have "mapping_grows example_mapping [[97], [98]] [[97], [98], [99]]"
    by (auto simp: mapping_grows_def example_mapping_def less_Suc_eq)
  moreover have "concat (map chunk_rows [([0, 1], None), ([0], Some [True])]) = map Some [0, 1, 0]"
    by (simp add: chunk_rows_def)
  ultimately show ?thesis using symbol_caches_transparent [OF example_mapping_laws] by blast
qed

end
