(* ===== verification/NetStream.thy ===== *)
theory NetStream
  imports Errors
begin

text \<open>
  The receiving side of a socket as the sequence of what its \<open>read\<close> calls meet: chunks of bytes and
  failures; an empty chunk and the end of the sequence are the end of the stream. The readers of the
  Rust library that the client uses (\<open>read\<close>, \<open>read_exact\<close>, \<open>take(n).read_to_end\<close>) retry interrupted
  calls as documented, and are shown to deliver the bytes that arrive before the stream ends.
\<close>

datatype read_event = Chunk bytes | ReadFail io_kind

type_synonym stream = "read_event list"

fun stream_read :: "nat \<Rightarrow> stream \<Rightarrow> (io_kind + bytes) \<times> stream" where
  "stream_read n [] = (Inr [], [])"
| "stream_read n (Chunk bs # s) =
     (if n < length bs then (Inr (take n bs), Chunk (drop n bs) # s) else (Inr bs, s))"
| "stream_read n (ReadFail e # s) = (Inl e, s)"

lemma stream_read_size:
  "stream_read n s = (r, s') \<Longrightarrow> length s' \<le> length s \<and> (\<forall>e. r = Inl e \<longrightarrow> length s' < length s)"
  by (induction n s rule: stream_read.induct) (auto split: if_splits)

lemma stream_read_count: "stream_read n s = (Inr bs, s') \<Longrightarrow> length bs \<le> n"
  by (induction n s rule: stream_read.induct) (auto split: if_splits)

text \<open>One \<open>read\<close> into a region of \<open>n\<close> bytes, repeated while it is interrupted.\<close>

fun read_retry :: "nat \<Rightarrow> stream \<Rightarrow> (io_kind + bytes) \<times> stream" where
  "read_retry n (ReadFail Interrupted # s) = read_retry n s"
| "read_retry n s = stream_read n s"

lemma read_retry_size:
  "read_retry n s = (r, s') \<Longrightarrow> length s' \<le> length s"
  by (induction n s rule: read_retry.induct) (auto dest: stream_read_size split: if_splits)

lemma read_retry_count: "read_retry n s = (Inr bs, s') \<Longrightarrow> length bs \<le> n"
  by (induction n s rule: read_retry.induct) (auto split: if_splits)

text \<open>\<open>take(n).read_to_end\<close>: the bytes read, and the error that stopped it, if any.\<close>

function read_to_limit :: "nat \<Rightarrow> stream \<Rightarrow> io_kind option \<times> bytes \<times> stream" where
  "read_to_limit n s =
     (if n = 0 then (None, [], s)
      else case read_retry n s of
        (Inl e, s') \<Rightarrow> (Some e, [], s')
      | (Inr bs, s') \<Rightarrow>
          if bs = [] then (None, [], s')
          else case read_to_limit (n - length bs) s' of (e, rest, s'') \<Rightarrow> (e, bs @ rest, s''))"
  by pat_completeness auto
termination
  by (relation "measure fst") auto

declare read_to_limit.simps [simp del]

definition read_exact :: "nat \<Rightarrow> stream \<Rightarrow> bytes xresult \<times> stream" where
  "read_exact n s =
     (case read_to_limit n s of
        (Some e, _, s') \<Rightarrow> (Inl (IOError e), s')
      | (None, bs, s') \<Rightarrow> if length bs = n then (Inr bs, s') else (Inl (IOError UnexpectedEof), s'))"

section \<open>What arrives\<close>

text \<open>The bytes that arrive before the stream ends or fails, and how it ends.\<close>

fun delivered :: "stream \<Rightarrow> bytes" where
  "delivered [] = []"
| "delivered (Chunk bs # s) = (if bs = [] then [] else bs @ delivered s)"
| "delivered (ReadFail e # s) = (if e = Interrupted then delivered s else [])"

fun ending :: "stream \<Rightarrow> io_kind option" where
  "ending [] = None"
| "ending (Chunk bs # s) = (if bs = [] then None else ending s)"
| "ending (ReadFail e # s) = (if e = Interrupted then ending s else Some e)"

lemma read_retry_delivered:
  assumes "0 < n"
  shows "case read_retry n s of
      (Inl e, s') \<Rightarrow> delivered s = [] \<and> ending s = Some e
    | (Inr bs, s') \<Rightarrow> (if bs = [] then delivered s = [] \<and> ending s = None
        else delivered s = bs @ delivered s' \<and> ending s' = ending s)"
  using assms
  by (induction n s rule: read_retry.induct) (auto split: prod.splits sum.splits simp flip: append_assoc)

lemma read_to_limit_delivered:
  "case read_to_limit n s of (e, bs, s') \<Rightarrow>
     bs = take n (delivered s)
     \<and> (n \<le> length (delivered s) \<longrightarrow> e = None \<and> delivered s' = drop n (delivered s) \<and> ending s' = ending s)
     \<and> (length (delivered s) < n \<longrightarrow> e = ending s)"
proof (induction n s rule: read_to_limit.induct)
  case (1 n s)
  show ?case
  proof (cases "n = 0")
    case True
    then show ?thesis by (simp add: read_to_limit.simps [of 0 s])
  next
    case n: False
    note r = read_retry_delivered [of n s]
    show ?thesis
    proof (cases "read_retry n s")
      case (Pair x s')
      show ?thesis
      proof (cases x)
        case (Inl e)
        then show ?thesis using r n Pair by (simp add: read_to_limit.simps [of n s])
      next
        case (Inr bs)
        show ?thesis
        proof (cases "bs = []")
          case True
          then show ?thesis using r n Pair Inr by (simp add: read_to_limit.simps [of n s])
        next
          case False
          then have d: "delivered s = bs @ delivered s'" "ending s' = ending s" using r n Pair Inr by auto
          have l: "length bs \<le> n" using read_retry_count [of n s bs s'] Pair Inr by simp
          obtain e rest s'' where rest: "read_to_limit (n - length bs) s' = (e, rest, s'')"
            by (cases "read_to_limit (n - length bs) s'") auto
          then have "read_to_limit n s = (e, bs @ rest, s'')"
            using n Pair Inr False by (simp add: read_to_limit.simps [of n s])
          then show ?thesis using 1 [OF n Pair [symmetric] Inr False] rest d l by auto
        qed
      qed
    qed
  qed
qed

lemma read_exact_delivered:
  "n \<le> length (delivered s) \<Longrightarrow>
     \<exists>s'. read_exact n s = (Inr (take n (delivered s)), s') \<and> delivered s' = drop n (delivered s) \<and> ending s' = ending s"
  using read_to_limit_delivered [of n s] by (auto simp: read_exact_def split: prod.splits option.splits)

lemma read_exact_short:
  "length (delivered s) < n \<Longrightarrow>
     \<exists>s'. read_exact n s = (Inl (IOError (case ending s of Some e \<Rightarrow> e | None \<Rightarrow> UnexpectedEof)), s')"
  using read_to_limit_delivered [of n s] by (auto simp: read_exact_def split: prod.splits option.splits)

end
