(* ===== verification/Pipeline.thy ===== *)
theory Pipeline
  imports KDeserialize ListScanCorrect NetStream
begin

text \<open>
  Decoding a table while its frame arrives (\<open>crates/xqdb/src/pipeline.rs\<close>). The reader appends what the
  socket delivers and publishes the count; the scanner walks the columns over what has been
  published and hands every complete column to a decode task; the results arrive in any order.
  The scanner's observations and the order of arrival are arguments of the model.
\<close>

definition TABLE_PREAMBLE :: nat where "TABLE_PREAMBLE = 4"
definition COLUMN_LIST_HEADER :: nat where "COLUMN_LIST_HEADER = 6"
definition TABLE_TYPE :: byte where "TABLE_TYPE = 98"

definition parser_panic :: xqdb_error where
  "parser_panic = DeserializationErr"

text \<open>
  The reading loop: its outcome, the counts it publishes, the bytes it writes behind the first
  \<open>received\<close> ones, and what is left of the stream.
\<close>

function read_remaining :: "nat \<Rightarrow> nat \<Rightarrow> stream \<Rightarrow> unit xresult \<times> nat list \<times> bytes \<times> stream" where
  "read_remaining total_len received s =
     (if received < total_len then
        case stream_read (total_len - received) s of
          (Inr bs, s') \<Rightarrow>
            if bs = [] then (Inl receipt_failed, [], [], s')
            else (case read_remaining total_len (received + length bs) s' of (r, published, rest, s'') \<Rightarrow>
              (r, (received + length bs) # published, bs @ rest, s''))
        | (Inl e, s') \<Rightarrow>
            if e = Interrupted then read_remaining total_len received s'
            else (Inl (IOError e), [], [], s')
      else (Inr (), [], [], s))"
  by pat_completeness auto
termination
proof (relation "measure (\<lambda>(t, r, s). (t - r) + length s)", goal_cases)
  case (3 t r s x s' bs)
  then have "length bs \<le> t - r" "length s' \<le> length s" "bs \<noteq> []"
    using stream_read_count [of "t - r" s bs s'] stream_read_size [of "t - r" s x s'] by auto
  then show ?case using 3(1) by (cases bs) auto
next
  case (2 t r s x s' e)
  then show ?case using stream_read_size [of "t - r" s x s'] by auto
qed simp

declare read_remaining.simps [simp del]

text \<open>The columns after the names: the jobs spawned, and the position after the last column.\<close>

primrec scan_column_list ::
  "nat \<Rightarrow> bytes \<Rightarrow> nat \<Rightarrow> progress \<Rightarrow> (byte \<times> bytes) list \<times> (nat \<times> progress) xresult" where
  "scan_column_list 0 body pos p = ([], Inr (pos, p))"
| "scan_column_list (Suc n) body pos p =
     (case rbind (wait_for (length body) (saturating_add pos 1) p) (\<lambda>(count, p).
           rbind (index_at (take count body) pos) (\<lambda>k_type.
           rbind (rbind (list_scan_new k_type (pos + 1)) (\<lambda>s. scan_to_end body s p)) (\<lambda>(end, p).
           rbind (wait_for (length body) end p) (\<lambda>(count, p).
           rbind (ok_or (get_range (take count body) (pos + 1) end) Panicked) (\<lambda>column.
           Inr ((k_type, column), end, p)))))) of
        Inl e \<Rightarrow> ([], Inl e)
      | Inr (job, end, p) \<Rightarrow>
          (case scan_column_list n body end p of (jobs, r) \<Rightarrow> (job # jobs, r)))"

definition scan_names :: "bytes \<Rightarrow> symbol_encoding \<Rightarrow> progress \<Rightarrow> (bytes list \<times> nat \<times> progress) xresult" where
  "scan_names body encoding p =
     rbind (rbind (list_scan_new 11 TABLE_PREAMBLE) (\<lambda>s. scan_to_end body s p)) (\<lambda>(names_end, p).
     rbind (wait_for (length body) names_end p) (\<lambda>(count, p).
     rbind (ok_or (get_range (take count body) TABLE_PREAMBLE names_end) Panicked) (\<lambda>name_bytes.
     rbind (deserialize_series name_bytes 11 False encoding) (\<lambda>v.
     rbind (case v of KSeries s \<Rightarrow> ok_or (column_strings (s_data s)) DeserializationErr
            | _ \<Rightarrow> Inl DeserializationErr) (\<lambda>names.
     rbind (ok_or (checked_add names_end COLUMN_LIST_HEADER) DeserializationErr) (\<lambda>pos.
     Inr (names, pos, p)))))))"

definition scan_columns ::
  "bytes \<Rightarrow> symbol_encoding \<Rightarrow> progress \<Rightarrow> (byte \<times> bytes) list \<times> bytes list xresult" where
  "scan_columns body encoding p =
     (case scan_names body encoding p of
        Inl e \<Rightarrow> ([], Inl e)
      | Inr (names, pos, p) \<Rightarrow>
          (case scan_column_list (length names) body pos p of (jobs, r) \<Rightarrow>
             (jobs, rbind r (\<lambda>(pos, p).
                rbind (wait_for (length body) (length body) p) (\<lambda>_.
                if pos \<noteq> length body then Inl DeserializationErr else Inr names)))))"

text \<open>The results in the order they arrived: the first error, or the columns in their places.\<close>

definition collect_columns :: "nat \<Rightarrow> nat list \<Rightarrow> series xresult list \<Rightarrow> series option list xresult" where
  "collect_columns n order decoded =
     rfold (\<lambda>index columns. rbind (decoded ! index) (\<lambda>c. Inr (columns[index := Some c]))) order (replicate n None)"

definition assemble_frame :: "externals \<Rightarrow> bytes list \<Rightarrow> series option list \<Rightarrow> k xresult" where
  "assemble_frame ext names columns =
     rbind (rmap (\<lambda>(column, name). case column of
              None \<Rightarrow> Inl parser_panic
            | Some c \<Rightarrow> Inr (c\<lparr>s_name := name\<rparr>)) (zip columns names)) (\<lambda>frame_columns.
     if frame_ok ext frame_columns then Inr (KDataFrame frame_columns) else Inl DeserializationErr)"

text \<open>The decode outcome once the frame has been read completely.\<close>

definition pipelined_decode ::
  "externals \<Rightarrow> symbol_encoding \<Rightarrow> progress \<Rightarrow> (nat \<Rightarrow> nat list) \<Rightarrow> bytes \<Rightarrow> k xresult" where
  "pipelined_decode ext encoding p arrival body =
     (case scan_columns body encoding p of (jobs, names) \<Rightarrow>
        let decoded = map (decode_column encoding) jobs in
        if names = Inl Panicked \<or> Inl Panicked \<in> set decoded then Inl parser_panic
        else rbind names (\<lambda>names.
          rbind (collect_columns (length names) (arrival (length jobs)) decoded) (\<lambda>columns.
          assemble_frame ext names columns)))"

definition receive_table ::
  "externals \<Rightarrow> nat list \<Rightarrow> (nat \<Rightarrow> nat list) \<Rightarrow> stream \<Rightarrow> bytes \<Rightarrow> nat \<Rightarrow> symbol_encoding
     \<Rightarrow> k xresult xresult \<times> stream" where
  "receive_table ext counts arrival s buffer body_length encoding =
     (case read_remaining body_length (length buffer) s of (io_result, published, rest, s') \<Rightarrow>
        (rbind io_result (\<lambda>_.
           Inr (pipelined_decode ext encoding (counts, True) arrival (buffer @ rest))), s'))"

section \<open>Reading the rest of the frame\<close>

lemma read_remaining_delivered:
  "received \<le> total_len \<Longrightarrow> total_len - received \<le> length (delivered s) \<Longrightarrow>
     \<exists>published s'. read_remaining total_len received s
       = (Inr (), published, take (total_len - received) (delivered s), s')
       \<and> delivered s' = drop (total_len - received) (delivered s)
       \<and> sorted published \<and> (\<forall>c\<in>set published. received < c \<and> c \<le> total_len)"
proof (induction total_len received s rule: read_remaining.induct)
  case (1 t r s)
  show ?case
  proof (cases "r < t")
    case False
    then show ?thesis using 1(3) by (simp add: read_remaining.simps [of t t s])
  next
    case True
    obtain x s' where x: "stream_read (t - r) s = (x, s')" by fastforce
    have n: "0 < t - r" using True by simp
    show ?thesis
    proof (cases x)
      case (Inl e)
      then have "s = ReadFail e # s'" using x by (cases "(t - r, s)" rule: stream_read.cases) (auto split: if_splits)
      then have e: "e = Interrupted" "delivered s = delivered s'" using 1(4) n by (auto split: if_splits)
      then have "read_remaining t r s = read_remaining t r s'"
        using True x Inl by (simp add: read_remaining.simps [of t r s])
      then show ?thesis using 1(1) [OF True x [symmetric] Inl e(1)] 1(3,4) e(2) by simp
    next
      case (Inr bs)
      have s: "\<exists>cs s0. s = Chunk cs # s0"
        using x Inr 1(4) n by (cases "(t - r, s)" rule: stream_read.cases) (auto split: if_splits)
      then have bs: "bs \<noteq> []" "delivered s = bs @ delivered s'" "length bs \<le> t - r"
        using x Inr 1(4) n by (auto split: if_splits)
      have "read_remaining t r s = (case read_remaining t (r + length bs) s' of (a, published, rest, s'') \<Rightarrow>
          (a, (r + length bs) # published, bs @ rest, s''))"
        using True x Inr bs(1) by (simp add: read_remaining.simps [of t r s])
      moreover have "r + length bs \<le> t" "t - (r + length bs) \<le> length (delivered s')"
        using bs(2,3) True 1(4) by auto
      moreover obtain published s'' where "read_remaining t (r + length bs) s'
          = (Inr (), published, take (t - (r + length bs)) (delivered s'), s'')"
        "delivered s'' = drop (t - (r + length bs)) (delivered s')" "sorted published"
        "\<forall>c\<in>set published. r + length bs < c \<and> c \<le> t"
        using 1(2) [OF True x [symmetric] Inr bs(1) calculation(2,3)] by blast
      moreover have "take (t - r) (delivered s) = bs @ take (t - (r + length bs)) (delivered s')"
        "drop (t - r) (delivered s) = drop (t - (r + length bs)) (delivered s')"
        using bs(2,3) by simp_all
      moreover have "0 < length bs" using bs(1) by simp
      ultimately show ?thesis using bs(3) by auto
    qed
  qed
qed

end
