(* ===== verification/PipelineCorrect.thy ===== *)
theory PipelineCorrect
  imports Pipeline
begin

text \<open>
  The pipelined decoder and the decoder of complete frames agree on every table, for every
  interleaving of the reader, the scanner and the decode tasks.
\<close>

section \<open>Agreement with the decoder of complete frames\<close>

lemma wait_for_ok:
  assumes "progress_ok t l p" "l \<le> t" "needed \<le> t"
  obtains c p' where "wait_for t needed p = Inr (c, p')" "needed \<le> c" "c \<le> t" "progress_ok t c p'"
  using next_count_ok [OF assms(1,3,2)] that assms(3) by (auto simp: wait_for_def)

lemma wait_for_beyond: "t < needed \<Longrightarrow> wait_for t needed p = Inl DeserializationErr"
  by (simp add: wait_for_def)

lemma get_range_take: "j \<le> c \<Longrightarrow> get_range (take c xs) i j = get_range xs i j"
  by (auto simp: get_range_def take_drop)

lemma index_at_take: "i < c \<Longrightarrow> index_at (take c xs) i = index_at xs i"
  by (simp add: index_at_def get_at_def)

text \<open>One column, as \<open>table_columns\<close> and as the scanner find it.\<close>

definition one_column :: "bytes \<Rightarrow> nat \<Rightarrow> ((byte \<times> bytes) \<times> nat) xresult" where
  "one_column body pos =
     rbind (index_at body pos) (\<lambda>k_type.
     rbind (calculate_array_end_index body (pos + 1) k_type) (\<lambda>end_pos.
     rbind (ok_or (get_range body (pos + 1) end_pos) Panicked) (\<lambda>payload.
     Inr ((k_type, payload), end_pos))))"

definition scan_one_column :: "bytes \<Rightarrow> nat \<Rightarrow> progress \<Rightarrow> ((byte \<times> bytes) \<times> nat \<times> progress) xresult" where
  "scan_one_column body pos p =
     rbind (wait_for (length body) (saturating_add pos 1) p) (\<lambda>(count, p).
     rbind (index_at (take count body) pos) (\<lambda>k_type.
     rbind (rbind (list_scan_new k_type (pos + 1)) (\<lambda>s. scan_to_end body s p)) (\<lambda>(end, p).
     rbind (wait_for (length body) end p) (\<lambda>(count, p).
     rbind (ok_or (get_range (take count body) (pos + 1) end) Panicked) (\<lambda>column.
     Inr ((k_type, column), end, p))))))"

lemma scan_one_column_agrees:
  assumes len: "length body < usize_limit - 16" and p: "progress_ok (length body) l p" "l \<le> length body"
  shows "case one_column body pos of
      Inl e \<Rightarrow> \<exists>e'. scan_one_column body pos p = Inl e'
    | Inr (job, end) \<Rightarrow> \<exists>p' c. scan_one_column body pos p = Inr (job, end, p')
        \<and> c \<le> length body \<and> progress_ok (length body) c p'"
proof (cases "pos < length body")
  case False
  then have "scan_one_column body pos p = Inl DeserializationErr"
    using len by (simp add: scan_one_column_def wait_for_def saturating_small)
  then show ?thesis using False by (simp add: one_column_def index_at_def get_at_def)
next
  case True
  have sat: "saturating_add pos 1 = pos + 1" using True len by (simp add: saturating_add_def)
  obtain c p1 where w: "wait_for (length body) (pos + 1) p = Inr (c, p1)" "pos + 1 \<le> c" "c \<le> length body"
    "progress_ok (length body) c p1"
    using wait_for_ok [OF p, of "pos + 1"] True by auto
  let ?k = "body ! pos"
  have k: "index_at body pos = Inr ?k" "index_at (take c body) pos = Inr ?k"
    using True w(2) by (simp_all add: index_at_def get_at_def)
  have scan: "scan_one_column body pos p =
      rbind (rbind (list_scan_new ?k (pos + 1)) (\<lambda>s. scan_to_end body s p1)) (\<lambda>(end, p).
      rbind (wait_for (length body) end p) (\<lambda>(count, p).
      rbind (ok_or (get_range (take count body) (pos + 1) end) Panicked) (\<lambda>column.
      Inr ((?k, column), end, p))))"
    using w(1) k sat by (simp add: scan_one_column_def)
  note full = scan_to_end_full [OF len w(4,3), where start_pos = "pos + 1" and k_type = ?k]
  show ?thesis
  proof (cases "calculate_array_end_index body (pos + 1) ?k")
    case (Inl e)
    then show ?thesis using full scan k by (simp add: one_column_def scans_to_def)
  next
    case (Inr z)
    then obtain d p2 where d: "rbind (list_scan_new ?k (pos + 1)) (\<lambda>s. scan_to_end body s p1) = Inr (z, p2)"
      "d \<le> length body" "progress_ok (length body) d p2"
      using full by (auto simp: scans_to_def)
    show ?thesis
    proof (cases "z \<le> length body")
      case False
      then show ?thesis using scan d(1) k Inr by (simp add: one_column_def wait_for_def get_range_def)
    next
      case z: True
      then obtain e p3 where e: "wait_for (length body) z p2 = Inr (e, p3)" "z \<le> e" "e \<le> length body"
        "progress_ok (length body) e p3"
        using wait_for_ok [OF d(3,2)] by blast
      then show ?thesis using scan d(1) k Inr
        by (cases "get_range body (pos + 1) z") (auto simp: one_column_def get_range_take)
    qed
  qed
qed

lemma scan_column_list_agrees:
  assumes len: "length body < usize_limit - 16"
  shows "progress_ok (length body) l p \<Longrightarrow> l \<le> length body \<Longrightarrow>
    (case table_columns n body pos of
      Inl e \<Rightarrow> \<exists>jobs e'. scan_column_list n body pos p = (jobs, Inl e')
    | Inr (jobs, end) \<Rightarrow> \<exists>p' c. scan_column_list n body pos p = (jobs, Inr (end, p'))
        \<and> c \<le> length body \<and> progress_ok (length body) c p')"
proof (induction n arbitrary: pos p l)
  case 0
  then show ?case by auto
next
  case (Suc n)
  have t: "table_columns (Suc n) body pos = rbind (one_column body pos) (\<lambda>(job, end_pos).
      rbind (table_columns n body end_pos) (\<lambda>(jobs, pos). Inr (job # jobs, pos)))"
    by (cases "index_at body pos") (simp_all add: one_column_def rbind_assoc)
  have s: "scan_column_list (Suc n) body pos p = (case scan_one_column body pos p of
        Inl e \<Rightarrow> ([], Inl e)
      | Inr (job, end, p) \<Rightarrow> (case scan_column_list n body end p of (jobs, r) \<Rightarrow> (job # jobs, r)))"
    by (simp add: scan_one_column_def)
  note one = scan_one_column_agrees [OF len Suc.prems, of pos]
  show ?case
  proof (cases "one_column body pos")
    case (Inl e)
    then show ?thesis using one t s by auto
  next
    case (Inr y)
    obtain job e where y: "y = (job, e)" by (cases y)
    then obtain p' c where c: "scan_one_column body pos p = Inr (job, e, p')" "c \<le> length body"
      "progress_ok (length body) c p'"
      using one Inr by auto
    from Suc.IH [OF c(3,2), of e] show ?thesis using t s Inr y c(1)
      by (cases "table_columns n body e") (auto split: prod.splits)
  qed
qed

text \<open>The names of a table, as the decoder of complete frames reads them.\<close>

definition table_names :: "bytes \<Rightarrow> symbol_encoding \<Rightarrow> (bytes list \<times> nat) xresult" where
  "table_names body encoding =
     rbind (calculate_array_end_index body 4 11) (\<lambda>end_pos.
     rbind (ok_or (get_range body 4 end_pos) Panicked) (\<lambda>name_bytes.
     rbind (deserialize_series name_bytes 11 False encoding) (\<lambda>v.
     rbind (case v of KSeries s \<Rightarrow> ok_or (column_strings (s_data s)) Panicked | _ \<Rightarrow> Inl DeserializationErr) (\<lambda>symbols.
     Inr (symbols, end_pos + 6)))))"

lemma scan_names_agrees:
  assumes len: "length body < usize_limit - 16" and p: "progress_ok (length body) l p" "l \<le> length body"
  shows "case table_names body encoding of
      Inl e \<Rightarrow> \<exists>e'. scan_names body encoding p = Inl e'
    | Inr (names, pos) \<Rightarrow> \<exists>p' c. scan_names body encoding p = Inr (names, pos, p')
        \<and> c \<le> length body \<and> progress_ok (length body) c p'"
proof -
  note full = scan_to_end_full [OF len p, where start_pos = 4 and k_type = 11]
  show ?thesis
  proof (cases "calculate_array_end_index body 4 11")
    case (Inl e)
    then show ?thesis using full by (simp add: table_names_def scan_names_def TABLE_PREAMBLE_def scans_to_def)
  next
    case (Inr z)
    then obtain d p2 where d: "rbind (list_scan_new 11 4) (\<lambda>s. scan_to_end body s p) = Inr (z, p2)"
      "d \<le> length body" "progress_ok (length body) d p2"
      using full by (auto simp: scans_to_def)
    show ?thesis
    proof (cases "z \<le> length body")
      case False
      then show ?thesis using d(1) Inr
        by (simp add: table_names_def scan_names_def TABLE_PREAMBLE_def wait_for_def get_range_def)
    next
      case z: True
      then obtain e p3 where e: "wait_for (length body) z p2 = Inr (e, p3)" "z \<le> e" "e \<le> length body"
        "progress_ok (length body) e p3"
        using wait_for_ok [OF d(3,2)] by blast
      have add: "checked_add z 6 = Some (z + 6)" using z len by (simp add: checked_add_def)
      have s: "scan_names body encoding p =
          rbind (ok_or (get_range body 4 z) Panicked) (\<lambda>name_bytes.
          rbind (deserialize_series name_bytes 11 False encoding) (\<lambda>v.
          rbind (case v of KSeries s \<Rightarrow> ok_or (column_strings (s_data s)) DeserializationErr
                 | _ \<Rightarrow> Inl DeserializationErr) (\<lambda>names. Inr (names, z + 6, p3))))"
        using d(1) e(1,2) add by (simp add: scan_names_def TABLE_PREAMBLE_def COLUMN_LIST_HEADER_def get_range_take)
      have t: "table_names body encoding =
          rbind (ok_or (get_range body 4 z) Panicked) (\<lambda>name_bytes.
          rbind (deserialize_series name_bytes 11 False encoding) (\<lambda>v.
          rbind (case v of KSeries s \<Rightarrow> ok_or (column_strings (s_data s)) Panicked
                 | _ \<Rightarrow> Inl DeserializationErr) (\<lambda>names. Inr (names, z + 6))))"
        using Inr by (simp add: table_names_def)
      show ?thesis
      proof (cases "get_range body 4 z")
        case None
        then show ?thesis using s t by simp
      next
        case (Some nb)
        show ?thesis
        proof (cases "deserialize_series nb 11 False encoding")
          case (Inl x)
          then show ?thesis using s t Some by simp
        next
          case (Inr v)
          then show ?thesis using s t Some e(3,4)
            by (cases v; (cases "column_strings (s_data (case v of KSeries s \<Rightarrow> s))")?) auto
        qed
      qed
    qed
  qed
qed


lemma collect_loop:
  assumes "\<forall>i\<in>set order. i < length xs"
  shows "rfold (\<lambda>index columns. rbind (decoded ! index) (\<lambda>c. Inr (columns[index := Some c]))) order xs = Inr ys \<longleftrightarrow>
     (\<forall>i\<in>set order. \<exists>c. decoded ! i = Inr c) \<and>
     ys = map (\<lambda>i. if i \<in> set order then Some (projr (decoded ! i)) else xs ! i) [0..<length xs]"
  using assms
proof (induction order arbitrary: xs)
  case Nil
  then show ?case by (auto simp: map_nth)
next
  case (Cons i order)
  show ?case
  proof (cases "decoded ! i")
    case (Inl e)
    then show ?thesis by simp
  next
    case (Inr c)
    have m: "map (\<lambda>j. if j \<in> set order then Some (projr (decoded ! j)) else xs[i := Some c] ! j) [0..<length xs]
        = map (\<lambda>j. if j \<in> set (i # order) then Some (projr (decoded ! j)) else xs ! j) [0..<length xs]"
      using Inr by (auto simp: nth_list_update)
    have ih: "rfold (\<lambda>index columns. rbind (decoded ! index) (\<lambda>c. Inr (columns[index := Some c]))) order (xs[i := Some c]) = Inr ys
        \<longleftrightarrow> (\<forall>i\<in>set order. \<exists>c. decoded ! i = Inr c) \<and>
          ys = map (\<lambda>j. if j \<in> set order then Some (projr (decoded ! j)) else xs[i := Some c] ! j) [0..<length xs]"
      using Cons.IH [of "xs[i := Some c]"] Cons.prems by simp
    show ?thesis unfolding rfold.simps Inr rbind.simps ih m using Inr by (auto simp del: map_eq_conv)
  qed
qed

lemma collect_columns_all:
  assumes "set order = {..<n}" "length decoded = n"
  shows "collect_columns n order decoded = Inr ys \<longleftrightarrow>
    (\<exists>cs. decoded = map Inr cs \<and> ys = map Some cs)"
proof
  assume "collect_columns n order decoded = Inr ys"
  then have all: "\<forall>i<n. \<exists>c. decoded ! i = Inr c" and ys: "ys = map (\<lambda>i. Some (projr (decoded ! i))) [0..<n]"
    unfolding collect_columns_def using assms(1) by (subst (asm) collect_loop; force)+
  have "decoded = map Inr (map (\<lambda>i. projr (decoded ! i)) [0..<n])"
  proof (rule nth_equalityI)
    fix i assume "i < length decoded"
    then obtain c where "decoded ! i = Inr c" using all assms(2) by auto
    then show "decoded ! i = map Inr (map (\<lambda>i. projr (decoded ! i)) [0..<n]) ! i"
      using \<open>i < length decoded\<close> assms(2) by simp
  qed (simp add: assms(2))
  then show "\<exists>cs. decoded = map Inr cs \<and> ys = map Some cs"
    using ys by (intro exI [of _ "map (\<lambda>i. projr (decoded ! i)) [0..<n]"]) simp
next
  assume "\<exists>cs. decoded = map Inr cs \<and> ys = map Some cs"
  then obtain cs where cs: "decoded = map Inr cs" "ys = map Some cs" by blast
  then have n: "length cs = n" using assms(2) by simp
  have "map Some cs = map (\<lambda>i. if i \<in> set order then Some (projr (decoded ! i)) else replicate n None ! i)
      [0..<length (replicate n None :: series option list)]"
    by (rule nth_equalityI) (use n cs(1) assms(1) in auto)
  moreover have "\<forall>i\<in>set order. \<exists>c. decoded ! i = Inr c" using n cs(1) assms(1) by simp
  moreover have "\<forall>i\<in>set order. i < length (replicate n None :: series option list)" using assms(1) by simp
  ultimately show "collect_columns n order decoded = Inr ys"
    unfolding collect_columns_def cs(2) by (subst collect_loop) blast+
qed

lemma rmap_map_Inr: "rmap f xs = Inr ys \<longleftrightarrow> map f xs = map Inr ys"
proof (induction xs arbitrary: ys)
  case (Cons x xs)
  then show ?case by (cases ys) (auto simp: rbind_Inr_iff)
qed auto

lemma assemble_frame_columns:
  "assemble_frame ext names (map Some cs) =
     (if frame_ok ext (rename_columns cs names) then Inr (KDataFrame (rename_columns cs names)) else Inl DeserializationErr)"
proof -
  have "rmap (\<lambda>(column, name). case column of None \<Rightarrow> Inl parser_panic | Some c \<Rightarrow> Inr (c\<lparr>s_name := name\<rparr>)) (zip (map Some cs) names)
      = Inr (rename_columns cs names)"
    unfolding rename_columns_def
    by (induction cs names rule: list_induct2') simp_all
  then show ?thesis by (simp add: assemble_frame_def)
qed

lemma table_columns_length: "table_columns n body pos = Inr (jobs, e) \<Longrightarrow> length jobs = n"
proof (induction n arbitrary: pos jobs e)
  case (Suc n)
  then show ?case by (auto simp: rbind_Inr_iff rbind_pair_iff)
qed simp

lemma deserialize_table_parts:
  "deserialize_table ext body encoding 1 =
     rbind (table_names body encoding) (\<lambda>(names, pos).
     rbind (table_columns (length names) body pos) (\<lambda>(vectors, pos).
     rbind (rmap (decode_column encoding) vectors) (\<lambda>columns.
     if frame_ok ext (rename_columns columns names)
     then Inr (KDataFrame (rename_columns columns names), pos) else Inl DeserializationErr)))"
  by (simp add: deserialize_table_def table_names_def rbind_assoc Let_def)

lemma deserialize_table_body:
  assumes "body \<noteq> []" "hd body = TABLE_TYPE"
  shows "deserialize ext body encoding = Inr v \<longleftrightarrow> deserialize_table ext body encoding 1 = Inr (v, length body)"
proof -
  have "deserialize_unchecked ext body encoding 0 False 0 = deserialize_table ext body encoding 1"
    using assms unfolding deserialize_unchecked.simps [of ext body encoding 0]
    by (simp add: MAX_VALUE_DEPTH_def get_at_def TABLE_TYPE_def hd_conv_nth)
  then show ?thesis
    by (cases "deserialize_table ext body encoding 1") (auto simp: deserialize_def split: xqdb_error.splits if_split_asm)
qed

lemma pipelined_decode_agrees:
  assumes len: "length body < usize_limit - 16" and body: "body \<noteq> []" "hd body = TABLE_TYPE"
    and p: "progress_ok (length body) l p" "l \<le> length body" and arrival: "\<And>n. set (arrival n) = {..<n}"
  shows "pipelined_decode ext encoding p arrival body = Inr v \<longleftrightarrow> deserialize ext body encoding = Inr v"
proof -
  note names = scan_names_agrees [OF len p, of encoding]
  show ?thesis
  proof (cases "table_names body encoding")
    case (Inl e)
    then show ?thesis using names
      unfolding deserialize_table_body [OF body] deserialize_table_parts
      by (auto simp: pipelined_decode_def scan_columns_def parser_panic_def split: if_split_asm)
  next
    case (Inr y)
    obtain ns pos where y: "y = (ns, pos)" by (cases y)
    obtain p1 c1 where p1: "scan_names body encoding p = Inr (ns, pos, p1)" "c1 \<le> length body"
      "progress_ok (length body) c1 p1"
      using names Inr y by auto
    note cols = scan_column_list_agrees [OF len p1(3,2), of "length ns" pos]
    show ?thesis
    proof (cases "table_columns (length ns) body pos")
      case (Inl e)
      then show ?thesis using cols p1(1) Inr y
        unfolding deserialize_table_body [OF body] deserialize_table_parts
        by (auto simp: pipelined_decode_def scan_columns_def parser_panic_def split: if_split_asm)
    next
      case Inr2: (Inr z)
      obtain jobs e where z: "z = (jobs, e)" by (cases z)
      obtain p2 c2 where p2: "scan_column_list (length ns) body pos p1 = (jobs, Inr (e, p2))" "c2 \<le> length body"
        "progress_ok (length body) c2 p2"
        using cols Inr2 z by auto
      obtain c3 p3 where w: "wait_for (length body) (length body) p2 = Inr (c3, p3)"
        using wait_for_ok [OF p2(3,2) order.refl] by blast
      have scan: "scan_columns body encoding p = (jobs, if e \<noteq> length body then Inl DeserializationErr else Inr ns)"
        using p1(1) p2(1) w by (simp add: scan_columns_def)
      have n: "length jobs = length ns" using table_columns_length Inr2 z by blast
      note collect = collect_columns_all [of "arrival (length jobs)" "length ns" "map (decode_column encoding) jobs"]
      have ok: "Inl Panicked \<notin> set (map (decode_column encoding) jobs)"
        if "map (decode_column encoding) jobs = map Inr cs" for cs
        unfolding that by auto
      have "pipelined_decode ext encoding p arrival body = Inr v \<longleftrightarrow>
          e = length body \<and> (\<exists>cs. map (decode_column encoding) jobs = map Inr cs
            \<and> assemble_frame ext ns (map Some cs) = Inr v)"
        unfolding pipelined_decode_def scan prod.case Let_def
        using collect arrival n ok
        by (cases "e = length body") (auto simp: rbind_Inr_iff parser_panic_def simp del: set_map)
      moreover have "deserialize ext body encoding = Inr v \<longleftrightarrow>
          e = length body \<and> (\<exists>cs. map (decode_column encoding) jobs = map Inr cs
            \<and> assemble_frame ext ns (map Some cs) = Inr v)"
        unfolding deserialize_table_body [OF body] deserialize_table_parts assemble_frame_columns
        using Inr y Inr2 z by (auto simp: rbind_Inr_iff rmap_map_Inr split: if_splits)
      ultimately show ?thesis by simp
    qed
  qed
qed

lemma receive_table_agrees:
  assumes "buffer \<noteq> []" "hd buffer = TABLE_TYPE" "length buffer \<le> body_length" "body_length < usize_limit - 16"
    and "body_length - length buffer \<le> length (delivered s)"
    and "sorted counts" "\<forall>c\<in>set counts. c \<le> body_length" "\<forall>n. set (arrival n) = {..<n}"
  shows "\<exists>r s'. receive_table ext counts arrival s buffer body_length encoding = (Inr r, s')
    \<and> delivered s' = drop (body_length - length buffer) (delivered s)
    \<and> (\<forall>v. r = Inr v \<longleftrightarrow>
         deserialize ext (buffer @ take (body_length - length buffer) (delivered s)) encoding = Inr v)"
proof -
  let ?body = "buffer @ take (body_length - length buffer) (delivered s)"
  have l: "length ?body = body_length" using assms(3,5) by simp
  obtain published s' where r: "read_remaining body_length (length buffer) s
      = (Inr (), published, take (body_length - length buffer) (delivered s), s')"
    "delivered s' = drop (body_length - length buffer) (delivered s)"
    using read_remaining_delivered [OF assms(3,5)] by blast
  have "pipelined_decode ext encoding (counts, True) arrival ?body = Inr v \<longleftrightarrow> deserialize ext ?body encoding = Inr v" for v
    by (rule pipelined_decode_agrees [where l = 0]) (use assms l in \<open>auto simp: progress_ok_def\<close>)
  then show ?thesis using r by (simp add: receive_table_def)
qed

text \<open>
  C9: a table received through the pipeline, column by column while its frame arrives, is the table
  that decoding the complete frame gives: for every way the bytes are split and delays are
  interleaved, whatever counts the scanner observes and in whatever order the columns finish, the
  pipeline yields a table exactly when the decoder does, and the same one, and it consumes exactly
  the frame.
\<close>
theorem pipelined_table_is_decoded_table:
  assumes "buffer \<noteq> []" "hd buffer = TABLE_TYPE" "length buffer \<le> body_length" "body_length < usize_limit - 16"
    and "body_length - length buffer \<le> length (delivered s)"
    and "sorted counts" "\<forall>c\<in>set counts. c \<le> body_length" "\<forall>n. set (arrival n) = {..<n}"
  shows "\<exists>r s'. receive_table ext counts arrival s buffer body_length encoding = (Inr r, s')
    \<and> delivered s' = drop (body_length - length buffer) (delivered s)
    \<and> (\<forall>v. r = Inr v \<longleftrightarrow>
         deserialize ext (buffer @ take (body_length - length buffer) (delivered s)) encoding = Inr v)"
  using receive_table_agrees [OF assms] .

theorem pipelined_table_is_decoded_table_witness:
  "\<exists>r s'. receive_table \<lparr>from_num_days = Some, from_ymd = \<lambda>_ _. None, frame_ok = \<lambda>_. True, hstack_ok = \<lambda>_ _. True\<rparr>
      [5, 9] (\<lambda>n. rev [0..<n])
      [Chunk [0, 1, 0, 0, 0], ReadFail Interrupted, Chunk [97, 0, 0, 0, 1, 0, 0, 0, 5, 0, 1, 0, 0, 0, 7, 0, 200]]
      [98, 0, 99, 11] 25 Strict = (Inr r, s')
    \<and> delivered s' = [200]
    \<and> (\<forall>v. r = Inr v \<longleftrightarrow>
         deserialize \<lparr>from_num_days = Some, from_ymd = \<lambda>_ _. None, frame_ok = \<lambda>_. True, hstack_ok = \<lambda>_ _. True\<rparr>
           [98, 0, 99, 11, 0, 1, 0, 0, 0, 97, 0, 0, 0, 1, 0, 0, 0, 5, 0, 1, 0, 0, 0, 7, 0] Strict = Inr v)"
  using pipelined_table_is_decoded_table [of "[98, 0, 99, 11]" 25
      "[Chunk [0, 1, 0, 0, 0], ReadFail Interrupted, Chunk [97, 0, 0, 0, 1, 0, 0, 0, 5, 0, 1, 0, 0, 0, 7, 0, 200]]"
      "[5, 9]" "\<lambda>n. rev [0..<n]"
      "\<lparr>from_num_days = Some, from_ymd = \<lambda>_ _. None, frame_ok = \<lambda>_. True, hstack_ok = \<lambda>_ _. True\<rparr>" Strict]
  by (simp add: TABLE_TYPE_def atLeast0LessThan)

end
