(* ===== verification/Receive.thy ===== *)
theory Receive
  imports Frame Pipeline
begin

text \<open>
  Receiving one IPC frame (\<open>crates/xqdb/src/connector.rs\<close>): the buffer that grows only with what the
  peer delivers (\<open>read_message_body\<close>), the reader of a frame (\<open>read_ipc_body\<close>) and the decoding of its
  body. A buffer is its bytes and its capacity; a reservation gives exactly the capacity asked for,
  and allocation is taken to succeed.
\<close>

section \<open>Buffers\<close>

record vec =
  vbytes :: bytes
  vcap :: nat

definition empty_vec :: vec where
  "empty_vec = \<lparr>vbytes = [], vcap = 0\<rparr>"

definition INITIAL_BODY_RESERVATION :: nat where "INITIAL_BODY_RESERVATION = 33554432"
definition BODY_RESERVATION_FACTOR :: nat where "BODY_RESERVATION_FACTOR = 8"
definition MAX_RETAINED_BUFFER_BYTES :: nat where "MAX_RETAINED_BUFFER_BYTES = 268435456"
definition PIPELINE_MIN_BODY_BYTES :: nat where "PIPELINE_MIN_BODY_BYTES = 262144"

definition try_reserve_exact :: "nat \<Rightarrow> vec \<Rightarrow> vec" where
  "try_reserve_exact additional v = v\<lparr>vcap := max (vcap v) (length (vbytes v) + additional)\<rparr>"

definition reserve_buffer :: "vec \<Rightarrow> nat \<Rightarrow> vec" where
  "reserve_buffer buffer len =
     (if vcap buffer \<ge> len then buffer else (try_reserve_exact len buffer)\<lparr>vbytes := []\<rparr>)"

definition release_oversized_buffer :: "vec \<Rightarrow> vec" where
  "release_oversized_buffer buffer = (if vcap buffer > MAX_RETAINED_BUFFER_BYTES then empty_vec else buffer)"

definition clear :: "vec \<Rightarrow> vec" where
  "clear v = v\<lparr>vbytes := []\<rparr>"

definition extend_from_slice :: "bytes \<Rightarrow> vec \<Rightarrow> vec" where
  "extend_from_slice bs v = \<lparr>vbytes = vbytes v @ bs, vcap = max (vcap v) (length (vbytes v @ bs))\<rparr>"

text \<open>The growth step of the reading loop: a full buffer is extended, never beyond the body.\<close>

definition grow_body :: "nat \<Rightarrow> vec \<Rightarrow> vec" where
  "grow_body body_length body =
     (if length (vbytes body) = vcap body
      then let target = min body_length (saturating_mul (vcap body) BODY_RESERVATION_FACTOR)
           in try_reserve_exact (target - length (vbytes body)) body
      else body)"

lemma vbytes_simps [simp]:
  "vbytes (grow_body n v) = vbytes v" "vbytes (try_reserve_exact n v) = vbytes v"
  "vbytes (extend_from_slice bs v) = vbytes v @ bs" "vbytes (clear v) = []"
  by (simp_all add: grow_body_def try_reserve_exact_def extend_from_slice_def clear_def Let_def)

lemma read_to_limit_count: "read_to_limit n s = (e, bs, s') \<Longrightarrow> length bs \<le> n"
  using read_to_limit_delivered [of n s] by auto

function read_message_body :: "nat \<Rightarrow> vec \<Rightarrow> stream \<Rightarrow> unit xresult \<times> vec \<times> stream" where
  "read_message_body body_length body s =
     (if length (vbytes body) < body_length then
        let body = grow_body body_length body;
            owed = body_length - length (vbytes body);
            spare = min (vcap body - length (vbytes body)) owed
        in (case read_to_limit spare s of
             (Some e, bs, s') \<Rightarrow> (Inl (IOError e), extend_from_slice bs body, s')
           | (None, bs, s') \<Rightarrow>
               if bs = [] then (Inl (IOError UnexpectedEof), body, s')
               else read_message_body body_length (extend_from_slice bs body) s')
      else (Inr (), body, s))"
  by pat_completeness auto
termination
proof (relation "measure (\<lambda>(n, body, s). n - length (vbytes body))", goal_cases)
  case (2 n body s body' owed spare e y bs s')
  then have "vbytes body' = vbytes body" "0 < length bs" by simp_all
  then show ?case using 2(1) by (simp del: length_greater_0_conv)
qed simp

declare read_message_body.simps [simp del]

text \<open>One read into the spare capacity.\<close>

definition read_some :: "stream \<Rightarrow> vec \<Rightarrow> nat \<Rightarrow> unit xresult \<times> vec \<times> stream" where
  "read_some s buffer body_length =
     (let filled = length (vbytes buffer);
          want = min (vcap buffer - filled) (body_length - filled)
      in case read_retry want s of
           (Inr bs, s') \<Rightarrow>
             if bs = [] then (Inl (IOError UnexpectedEof), buffer, s')
             else (Inr (), buffer\<lparr>vbytes := vbytes buffer @ bs\<rparr>, s')
         | (Inl e, s') \<Rightarrow> (Inl (IOError e), buffer, s'))"

section \<open>One frame\<close>

datatype ipc_body = Retained | Decompressed bytes | Decoded "k xresult"

text \<open>
  What a thread scheduler decides while a table of a given length is received: the byte counts the
  scanner observes and the order in which a number of columns finish; see \<open>receive_table\<close>.
\<close>

record schedule =
  observed :: "nat \<Rightarrow> nat list"
  arrival :: "nat \<Rightarrow> nat list"

text \<open>The lengths a header announces: the body and its decompressed-length prefix.\<close>

definition frame_lengths :: "parsed_ipc_header \<Rightarrow> nat option \<Rightarrow> (nat \<times> nat) xresult" where
  "frame_lengths header max_message_bytes =
     rbind (checked_body_length (total_length header)) (\<lambda>body_length.
     rbind (if compression_mode header = 0
            then rbind (enforce_message_bound (total_length header) max_message_bytes) (\<lambda>_. Inr 0)
            else if compression_mode header = 1 then Inr 4
            else if compression_mode header = 2 then Inr 8
            else Inl Panicked) (\<lambda>prefix_length.
     if prefix_length > body_length then Inl DeserializationErr else Inr (body_length, prefix_length)))"

definition check_prefix :: "parsed_ipc_header \<Rightarrow> bytes \<Rightarrow> nat option \<Rightarrow> unit xresult" where
  "check_prefix header prefix max_message_bytes =
     rbind (compressed_message_length prefix (compression_mode header)) (\<lambda>(decompressed_length, _).
     rbind (enforce_message_bound decompressed_length max_message_bytes) (\<lambda>_.
     enforce_compressed_physical_bound (total_length header) decompressed_length (length prefix)))"

text \<open>The rest of a body that is not pipelined.\<close>

definition read_whole_body ::
  "parsed_ipc_header \<Rightarrow> nat option \<Rightarrow> nat \<Rightarrow> vec \<Rightarrow> stream \<Rightarrow> (msg_type \<times> ipc_body) xresult \<times> vec \<times> stream" where
  "read_whole_body header max_message_bytes body_length buffer s =
     (case read_message_body body_length buffer s of
        (Inl e, buffer, s') \<Rightarrow> (Inl e, buffer, s')
      | (Inr _, buffer, s') \<Rightarrow>
          (rbind (prepare_ipc_body header (vbytes buffer) max_message_bytes) (\<lambda>(kind, body).
             Inr (kind, if compression_mode header = 0 then Retained else Decompressed body)), buffer, s'))"

text \<open>The rest of a frame after its header and prefix have been read and checked.\<close>

definition read_framed_body ::
  "externals \<Rightarrow> schedule \<Rightarrow> parsed_ipc_header \<Rightarrow> nat option \<Rightarrow> nat \<Rightarrow> bytes \<Rightarrow> stream \<Rightarrow> vec \<Rightarrow> symbol_encoding option
     \<Rightarrow> (msg_type \<times> ipc_body) xresult \<times> vec \<times> stream" where
  "read_framed_body ext sched header max_message_bytes body_length prefix s buffer pipeline =
     (let buffer = extend_from_slice prefix
            (reserve_buffer (clear buffer) (max (min body_length INITIAL_BODY_RESERVATION) (length prefix)));
          pipelined = (pipeline \<noteq> None \<and> length prefix = 0 \<and> body_length \<ge> PIPELINE_MIN_BODY_BYTES
                       \<and> vcap buffer \<ge> body_length)
      in if pipelined then
           (case read_some s buffer body_length of
              (Inl e, buffer, s') \<Rightarrow> (Inl e, buffer, s')
            | (Inr _, buffer, s') \<Rightarrow>
                if hd (vbytes buffer) = TABLE_TYPE \<and> length (vbytes buffer) < body_length then
                  (case message_type (message_kind header) of
                     Inl e \<Rightarrow> (Inl e, buffer, s')
                   | Inr kind \<Rightarrow>
                       (case receive_table ext (observed sched body_length) (arrival sched) s' (vbytes buffer) body_length (the pipeline) of
                          (Inl e, s'') \<Rightarrow> (Inl e, buffer, s'')
                        | (Inr decoded, s'') \<Rightarrow> (Inr (kind, Decoded decoded), buffer, s'')))
                else read_whole_body header max_message_bytes body_length buffer s')
         else read_whole_body header max_message_bytes body_length buffer s)"

definition read_ipc_body ::
  "externals \<Rightarrow> schedule \<Rightarrow> stream \<Rightarrow> nat option \<Rightarrow> vec \<Rightarrow> symbol_encoding option
     \<Rightarrow> (msg_type \<times> ipc_body) xresult \<times> vec \<times> stream" where
  "read_ipc_body ext sched s max_message_bytes buffer pipeline =
     (case read_exact IPC_HEADER_LENGTH s of
        (Inl e, s) \<Rightarrow> (Inl e, buffer, s)
      | (Inr header_bytes, s) \<Rightarrow>
          (case rbind (parse_ipc_header header_bytes) (\<lambda>header.
                rbind (frame_lengths header max_message_bytes) (\<lambda>lengths. Inr (header, lengths))) of
             Inl e \<Rightarrow> (Inl e, buffer, s)
           | Inr (header, body_length, prefix_length) \<Rightarrow>
               if prefix_length > 0 then
                 (case read_exact prefix_length s of
                    (Inl e, s) \<Rightarrow> (Inl e, buffer, s)
                  | (Inr prefix, s) \<Rightarrow>
                      (case check_prefix header prefix max_message_bytes of
                         Inl e \<Rightarrow> (Inl e, buffer, s)
                       | Inr _ \<Rightarrow> read_framed_body ext sched header max_message_bytes body_length prefix s buffer pipeline))
               else read_framed_body ext sched header max_message_bytes body_length [] s buffer pipeline))"

section \<open>From a body to a value\<close>

definition decode_value_body :: "externals \<Rightarrow> bytes \<Rightarrow> symbol_encoding \<Rightarrow> value_mode \<Rightarrow> k xresult" where
  "decode_value_body ext body encoding mode =
     (case mode of
        Native \<Rightarrow> deserialize ext body encoding
      | Lossless \<Rightarrow> rbind (from_bytes body) (\<lambda>v. Inr (KQValue v)))"

definition deserialize_ipc_frame ::
  "externals \<Rightarrow> bytes \<Rightarrow> symbol_encoding \<Rightarrow> value_mode \<Rightarrow> (msg_type \<times> k) xresult" where
  "deserialize_ipc_frame ext frame encoding mode =
     rbind (split_ipc_frame frame) (\<lambda>(kind, body).
     rbind (decode_value_body ext body encoding mode) (\<lambda>v. Inr (kind, v)))"

end
