(* ===== verification/Connector.thy ===== *)
theory Connector
  imports Receive Abort
begin

text \<open>
  The connection of \<open>crates/xqdb/src/connector.rs\<close>: its settings, opening and authentication, sending
  a request, receiving frames, the queue of notifications and the end of an operation. An open
  connection is what its reads will meet, the outcomes of its writes and the bytes written so far.
  Name resolution, sockets, the TLS library, the clock and the thread scheduler are parameters
  (\<open>network\<close>). Other threads can abort an operation through the handle; the network says how many
  aborts happen before the operation attaches its socket and how many between then and its end.
\<close>

section \<open>Settings and state\<close>

type_synonym duration = nat

datatype compression_policy = Auto | On | Off

record connector_settings =
  value_mode :: QTypes.value_mode
  compression :: compression_policy
  compression_threshold :: nat
  connect_timeout :: "duration option"
  read_timeout :: "duration option"
  write_timeout :: "duration option"
  max_message_bytes :: "nat option"
  max_pending_notifications :: nat
  tls_ca :: "bytes option"
  tls_cert :: "bytes option"
  tls_key :: "bytes option"
  tls_server_name :: "bytes option"

definition default_settings :: connector_settings where
  "default_settings =
     \<lparr>value_mode = Native, compression = Auto, compression_threshold = 10000000,
      connect_timeout = None, read_timeout = None, write_timeout = None, max_message_bytes = None,
      max_pending_notifications = 1024, tls_ca = None, tls_cert = None, tls_key = None,
      tls_server_name = None\<rparr>"

text \<open>
  An open connection. The outcome of a \<open>write_all\<close> is \<open>None\<close> for success, or how many bytes were
  written before which error.
\<close>

record connection =
  incoming :: stream
  write_faults :: "(nat \<times> io_kind) option list"
  sent :: bytes

definition write_all :: "bytes \<Rightarrow> connection \<Rightarrow> io_kind option \<times> connection" where
  "write_all bs c =
     (case write_faults c of
        Some (n, e) # rest \<Rightarrow> (Some e, c\<lparr>write_faults := rest, sent := sent c @ take n bs\<rparr>)
      | None # rest \<Rightarrow> (None, c\<lparr>write_faults := rest, sent := sent c @ bs\<rparr>)
      | [] \<Rightarrow> (None, c\<lparr>sent := sent c @ bs\<rparr>))"

record connector =
  enable_tls :: bool
  is_local :: bool
  port :: "16 word"
  version :: byte
  host :: bytes
  user :: bytes
  password :: bytes
  timeout :: duration
  symbol_encoding :: Utf8.symbol_encoding
  stream :: "connection option"
  tcp_stream :: "socket option"
  abort_world :: Abort.abort_world
  settings :: connector_settings
  pending_notifications :: "k xresult list"
  receive_buffer :: vec
  send_buffer :: vec

definition LOCALHOST :: bytes where "LOCALHOST = ascii ''127.0.0.1''"

definition connector_new :: "bytes \<Rightarrow> 16 word \<Rightarrow> bytes \<Rightarrow> bytes \<Rightarrow> bool \<Rightarrow> nat \<Rightarrow> byte \<Rightarrow> connector" where
  "connector_new h p u pw tls seconds v =
     (let h = (if h = [] then LOCALHOST else h) in
      \<lparr>enable_tls = tls, is_local = (h = LOCALHOST \<or> h = ascii ''localhost''), port = p, version = v,
       host = h, user = u, password = pw, timeout = seconds * 1000000000, symbol_encoding = Strict,
       stream = None, tcp_stream = None,
       abort_world = \<lparr>handle = default_abort_state, shut = []\<rparr>, settings = default_settings,
       pending_notifications = [], receive_buffer = empty_vec, send_buffer = empty_vec\<rparr>)"

section \<open>The network\<close>

datatype socket_option = NoDelay | ReceiveBuffer | ReadTimeout "duration option" | WriteTimeout "duration option"

text \<open>
  What the connection is given: the decoder's parameters and the scheduler for every frame, the
  operating system's answers (\<open>None\<close> is success), and the TLS library.
\<close>

record network =
  net_ext :: externals
  net_schedule :: "NetStream.stream \<Rightarrow> schedule"
  net_shutdown :: "socket \<Rightarrow> io_kind option"
  net_resolve :: "bytes \<Rightarrow> 16 word \<Rightarrow> io_kind + nat list"
  net_connect :: "nat \<Rightarrow> duration option \<Rightarrow> io_kind + socket \<times> connection"
  net_elapsed :: "nat \<Rightarrow> duration"
  net_option :: "socket \<Rightarrow> socket_option \<Rightarrow> io_kind option"
  net_server_name :: "bytes \<Rightarrow> unit xresult"
  net_client_config :: "connector_settings \<Rightarrow> unit xresult"
  net_tls :: "connector_settings \<Rightarrow> bytes \<Rightarrow> connection \<Rightarrow> connection xresult"
  aborts_before :: nat
  aborts_during :: nat

definition io_unit :: "io_kind option \<Rightarrow> unit xresult" where
  "io_unit r = (case r of None \<Rightarrow> Inr () | Some e \<Rightarrow> Inl (IOError e))"

definition effective_socket_timeout :: "duration option \<Rightarrow> duration \<Rightarrow> duration option" where
  "effective_socket_timeout configured fallback =
     (let t = (case configured of Some t \<Rightarrow> t | None \<Rightarrow> fallback) in if t = 0 then None else Some t)"

text \<open>The addresses are tried in order; \<open>i\<close> counts the readings of the clock.\<close>

fun connect_to_addresses ::
  "network \<Rightarrow> duration \<Rightarrow> nat \<Rightarrow> io_kind option \<Rightarrow> nat list \<Rightarrow> io_kind + socket \<times> connection" where
  "connect_to_addresses net limit i last_error [] =
     Inl (case last_error of Some e \<Rightarrow> e | None \<Rightarrow> AddrNotAvailable)"
| "connect_to_addresses net limit i last_error (address # addresses) =
     (if limit = 0 then
        (case net_connect net address None of
           Inr c \<Rightarrow> Inr c
         | Inl e \<Rightarrow> connect_to_addresses net limit (i + 1) (Some e) addresses)
      else if net_elapsed net i \<ge> limit then Inl TimedOut
      else
        (case net_connect net address (Some (limit - net_elapsed net i)) of
           Inr c \<Rightarrow> Inr c
         | Inl e \<Rightarrow> connect_to_addresses net limit (i + 1) (Some e) addresses))"

section \<open>Configuration and authentication\<close>

definition server_name :: "connector_settings \<Rightarrow> bytes \<Rightarrow> bytes" where
  "server_name st h = (case tls_server_name st of Some n \<Rightarrow> n | None \<Rightarrow> h)"

definition configure :: "network \<Rightarrow> connector_settings \<Rightarrow> connector \<Rightarrow> unit xresult \<times> connector" where
  "configure net st c =
     (if stream c \<noteq> None then (Inl Err, c)
      else if max_pending_notifications st = 0 then (Inl Err, c)
      else if (tls_ca st \<noteq> None \<or> tls_cert st \<noteq> None \<or> tls_key st \<noteq> None \<or> tls_server_name st \<noteq> None)
              \<and> \<not> enable_tls c then (Inl Err, c)
      else if (tls_cert st \<noteq> None) \<noteq> (tls_key st \<noteq> None) then (Inl Err, c)
      else
        (case if enable_tls c
              then rbind (net_server_name net (server_name st (host c))) (\<lambda>_. net_client_config net st)
              else Inr () of
           Inl e \<Rightarrow> (Inl e, c)
         | Inr _ \<Rightarrow> (Inr (), c\<lparr>settings := st\<rparr>)))"

definition credential :: "connector \<Rightarrow> bytes" where
  "credential c = user c @ [58] @ password c @ [version c, 0]"

definition auth :: "connector \<Rightarrow> connection \<Rightarrow> unit xresult \<times> connection" where
  "auth c q_stream =
     (case Option.bind (checked_add (length (user c)) (length (password c))) (\<lambda>l. checked_add l 3) of
        None \<Rightarrow> (Inl Err, q_stream)
      | Some _ \<Rightarrow>
          (case write_all (credential c) q_stream of
             (Some e, q) \<Rightarrow> (Inl (IOError e), q)
           | (None, q) \<Rightarrow>
               (case stream_read 1 (incoming q) of
                  (Inl e, s) \<Rightarrow> (Inl (IOError e), q\<lparr>incoming := s\<rparr>)
                | (Inr support_version, s) \<Rightarrow>
                    (if length support_version = 1
                     then if support_version ! 0 \<ge> 1 then Inr () else Inl VersionErr
                     else Inl AuthErr, q\<lparr>incoming := s\<rparr>))))"

section \<open>Ending an operation\<close>

definition disconnect_after_protocol_error :: "connector \<Rightarrow> connector" where
  "disconnect_after_protocol_error c =
     c\<lparr>receive_buffer := empty_vec,
       abort_world := (case tcp_stream c of
           Some s \<Rightarrow> (abort_world c)\<lparr>shut := shut (abort_world c) @ [s]\<rparr> | None \<Rightarrow> abort_world c),
       tcp_stream := None, stream := None\<rparr>"

definition aborted_by :: "network \<Rightarrow> nat \<Rightarrow> Abort.abort_world \<Rightarrow> Abort.abort_world" where
  "aborted_by net n w = abort_run (net_shutdown net) (replicate n EAbort) w"

definition operation_aborted_error :: xqdb_error where
  "operation_aborted_error = IOError Interrupted"

definition finish_operation :: "network \<Rightarrow> 64 word \<Rightarrow> 'a xresult \<times> connector \<Rightarrow> 'a xresult \<times> connector" where
  "finish_operation net active_io rc =
     (let (result, c) = rc;
          (aborted, w) = finish active_io (aborted_by net (aborts_during net) (abort_world c));
          c = c\<lparr>abort_world := w\<rparr>
      in if aborted then (Inl operation_aborted_error, disconnect_after_protocol_error c) else (result, c))"

definition attach_tcp :: "network \<Rightarrow> 64 word \<Rightarrow> socket \<Rightarrow> connector \<Rightarrow> bool \<times> connector" where
  "attach_tcp net active_io s c =
     (let (ok, w) = attach_stream active_io s (aborted_by net (aborts_before net) (abort_world c))
      in (ok, c\<lparr>abort_world := w\<rparr>))"

text \<open>The start of an operation: it is registered and its socket attached, if there is one.\<close>

definition begin_with_stream :: "network \<Rightarrow> connector \<Rightarrow> 64 word \<times> connector" where
  "begin_with_stream net c =
     (let (active_io, w) = begin_operation (abort_world c);
          c = c\<lparr>abort_world := w\<rparr>
      in (active_io, case tcp_stream c of Some s \<Rightarrow> snd (attach_tcp net active_io s c) | None \<Rightarrow> c))"

section \<open>Opening\<close>

definition install_authenticated_stream :: "connection \<Rightarrow> connector \<Rightarrow> unit xresult \<times> connector" where
  "install_authenticated_stream q c =
     (case auth c q of
        (Inl e, _) \<Rightarrow> (Inl e, c)
      | (Inr _, q) \<Rightarrow> (Inr (), c\<lparr>stream := Some q\<rparr>))"

definition configure_socket :: "network \<Rightarrow> connector \<Rightarrow> socket \<Rightarrow> unit xresult" where
  "configure_socket net c s =
     rbind (io_unit (net_option net s NoDelay)) (\<lambda>_.
     rbind (io_unit (net_option net s ReceiveBuffer)) (\<lambda>_.
     rbind (io_unit (net_option net s
       (ReadTimeout (effective_socket_timeout (read_timeout (settings c)) (timeout c))))) (\<lambda>_.
     io_unit (net_option net s
       (WriteTimeout (effective_socket_timeout (write_timeout (settings c)) (timeout c)))))))"

text \<open>Everything before the new socket is attached: the TLS settings, the address and the socket.\<close>

definition open_socket :: "network \<Rightarrow> connector \<Rightarrow> (socket \<times> connection) xresult" where
  "open_socket net c =
     rbind (if enable_tls c
            then rbind (net_server_name net (server_name (settings c) (host c))) (\<lambda>_.
                 net_client_config net (settings c))
            else Inr ()) (\<lambda>_.
     rbind (case net_resolve net (host c) (port c) of
              Inl e \<Rightarrow> Inl (IOError e)
            | Inr addresses \<Rightarrow> if addresses = [] then Inl FailedToConnectErr else Inr addresses) (\<lambda>addresses.
     rbind (case connect_to_addresses net
                   (case connect_timeout (settings c) of Some t \<Rightarrow> t | None \<Rightarrow> timeout c) 0 None addresses of
              Inl e \<Rightarrow> Inl (IOError e)
            | Inr q \<Rightarrow> Inr q) (\<lambda>(s, q).
     rbind (configure_socket net c s) (\<lambda>_. Inr (s, q)))))"

text \<open>The handshake on an attached socket: on an error it is shut, otherwise it becomes the connection.\<close>

definition establish :: "network \<Rightarrow> socket \<Rightarrow> connection \<Rightarrow> connector \<Rightarrow> unit xresult \<times> connector" where
  "establish net s q c =
     (case (case if enable_tls c
                 then net_tls net (settings c) (server_name (settings c) (host c)) q else Inr q of
              Inl e \<Rightarrow> (Inl e, c)
            | Inr q \<Rightarrow> install_authenticated_stream q c) of
        (Inl e, c) \<Rightarrow>
          (Inl e, c\<lparr>stream := None, abort_world := (abort_world c)\<lparr>shut := shut (abort_world c) @ [s]\<rparr>\<rparr>)
      | (Inr _, c) \<Rightarrow> (Inr (), c\<lparr>tcp_stream := Some s\<rparr>))"

definition connect_inner :: "network \<Rightarrow> 64 word \<Rightarrow> connector \<Rightarrow> unit xresult \<times> connector" where
  "connect_inner net active_io c =
     (if stream c \<noteq> None then
        (Inr (), case tcp_stream c of Some s \<Rightarrow> snd (attach_tcp net active_io s c) | None \<Rightarrow> c)
      else
        (case open_socket net c of
           Inl e \<Rightarrow> (Inl e, c)
         | Inr (s, q) \<Rightarrow>
             (case attach_tcp net active_io s c of (ok, c) \<Rightarrow>
                if \<not> ok then (Inl operation_aborted_error, c) else establish net s q c)))"

definition connect :: "network \<Rightarrow> connector \<Rightarrow> unit xresult \<times> connector" where
  "connect net c =
     (let (active_io, w) = begin_operation (abort_world c)
      in finish_operation net active_io (connect_inner net active_io (c\<lparr>abort_world := w\<rparr>)))"

definition shutdown :: "network \<Rightarrow> connector \<Rightarrow> unit xresult \<times> connector" where
  "shutdown net c =
     (if stream c = None then (Inl NotConnectedErr, c)
      else
        (case tcp_stream c of
           Some s \<Rightarrow>
             (case net_shutdown net s of
                None \<Rightarrow> Inr ()
              | Some NotConnected \<Rightarrow> Inr ()
              | Some e \<Rightarrow> Inl (IOError e),
              c\<lparr>tcp_stream := None, stream := None,
                abort_world := (abort_world c)\<lparr>shut := shut (abort_world c) @ [s]\<rparr>\<rparr>)
         | None \<Rightarrow> (Inr (), c\<lparr>tcp_stream := None, stream := None\<rparr>)))"

section \<open>Sending\<close>

text \<open>\<open>str::trim\<close>: the characters with the Unicode property White_Space, in UTF-8.\<close>

definition WHITE_SPACE :: "bytes list" where
  "WHITE_SPACE =
     [[9], [10], [11], [12], [13], [32], [194, 133], [194, 160], [225, 154, 128],
      [226, 128, 128], [226, 128, 129], [226, 128, 130], [226, 128, 131], [226, 128, 132],
      [226, 128, 133], [226, 128, 134], [226, 128, 135], [226, 128, 136], [226, 128, 137],
      [226, 128, 138], [226, 128, 168], [226, 128, 169], [226, 128, 175], [226, 129, 159],
      [227, 128, 128]]"

function trim_front :: "bytes list \<Rightarrow> bytes \<Rightarrow> bytes" where
  "trim_front chars s =
     (case find (\<lambda>w. w \<noteq> [] \<and> take (length w) s = w) chars of
        None \<Rightarrow> s
      | Some w \<Rightarrow> trim_front chars (drop (length w) s))"
  by pat_completeness auto
termination
proof (relation "measure (\<lambda>(chars, s). length s)", goal_cases)
  case (2 chars s w)
  then have "w \<noteq> []" "take (length w) s = w" by (auto simp: find_Some_iff)
  then have "0 < length w" "0 < length s" by auto
  then show ?case by (simp del: length_greater_0_conv)
qed simp

declare trim_front.simps [simp del]

definition trim :: "bytes \<Rightarrow> bytes" where
  "trim s = rev (trim_front (map rev WHITE_SPACE) (rev (trim_front WHITE_SPACE s)))"

definition is_lambda_expr :: "bytes \<Rightarrow> bool" where
  "is_lambda_expr expr \<longleftrightarrow> expr \<noteq> [] \<and> hd expr = 123 \<and> last expr = 125"

text \<open>The length of a request's body and whether its expression is sent as a lambda.\<close>

definition request_length :: "bytes \<Rightarrow> k list \<Rightarrow> (nat \<times> bool) xresult" where
  "request_length expr args =
     (if args = [] then
        rbind (ok_or (checked_add 6 (length expr)) Err) (\<lambda>n. Inr (n, False))
      else
        let is_lambda = is_lambda_expr expr in
        rbind (ok_or (Option.bind (checked_add 12 (if is_lambda then 2 else 0)) (\<lambda>n. checked_add n (length expr))) Err)
          (\<lambda>n.
        rbind (rfold (\<lambda>v n. rbind (j6_len v) (\<lambda>m. ok_or (checked_add n m) Err)) args n) (\<lambda>n.
        Inr (n, is_lambda))))"

definition request_body :: "bytes \<Rightarrow> nat \<Rightarrow> bool \<Rightarrow> k list \<Rightarrow> bytes xresult" where
  "request_body expr expression_length is_lambda args =
     (if args = [] then Inr ([10, 0] @ le_bytes 4 expression_length @ expr)
      else
        rbind (checked_q_count (length args + 1)) (\<lambda>argument_count.
        rbind (rmap serialize_into args) (\<lambda>values.
        Inr ([0, 0] @ le_bytes 4 argument_count @ (if is_lambda then [100, 0] else [])
             @ [10, 0] @ le_bytes 4 expression_length @ expr @ concat values))))"

definition should_compress :: "connector \<Rightarrow> nat \<Rightarrow> bool" where
  "should_compress c total_len =
     (case compression (settings c) of
        On \<Rightarrow> True
      | Off \<Rightarrow> False
      | Auto \<Rightarrow> \<not> is_local c \<and> total_len \<ge> compression_threshold (settings c))"

text \<open>\<open>compress\<close> returns its argument or a buffer of half its length, shrunk to what was written.\<close>

definition compress_buffer :: "vec \<Rightarrow> vec xresult" where
  "compress_buffer v =
     rbind (compress (vbytes v)) (\<lambda>bs.
     Inr (if bs = vbytes v then v else \<lparr>vbytes = bs, vcap = length (vbytes v) div 2\<rparr>))"

text \<open>The lengths a request declares, computed before any byte is written.\<close>

definition request_plan :: "bytes \<Rightarrow> k list \<Rightarrow> (nat \<times> bool \<times> nat \<times> byte \<times> nat) xresult" where
  "request_plan expr args =
     rbind (checked_q_count (length expr)) (\<lambda>expression_length.
     rbind (request_length expr args) (\<lambda>(body_length, is_lambda).
     rbind (checked_outgoing_message_length body_length) (\<lambda>(total_len, high_byte, low_length).
     Inr (expression_length, is_lambda, total_len, high_byte, low_length))))"

text \<open>The frame written into the reused buffer, compressed when the policy asks for it.\<close>

definition build_payload ::
  "connector \<Rightarrow> msg_type \<Rightarrow> bytes \<Rightarrow> k list \<Rightarrow> nat \<times> bool \<times> nat \<times> byte \<times> nat \<Rightarrow> vec xresult" where
  "build_payload c kind expr args plan =
     (case plan of (expression_length, is_lambda, total_len, high_byte, low_length) \<Rightarrow>
        let frame = reserve_buffer (clear (send_buffer c)) total_len in
        rbind (request_body expr expression_length is_lambda args) (\<lambda>body.
        let frame = extend_from_slice (ipc_header kind (high_byte, low_length) @ body) frame in
        if length (vbytes frame) \<noteq> total_len then Inl Err
        else if should_compress c total_len then compress_buffer frame else Inr frame))"

definition transmit :: "vec \<Rightarrow> connector \<Rightarrow> unit xresult \<times> connector" where
  "transmit payload c =
     (case stream c of
        None \<Rightarrow> (Inl NotConnectedErr, c)
      | Some q \<Rightarrow>
          (case write_all (vbytes payload) q of (r, q) \<Rightarrow>
             let c = c\<lparr>stream := Some q, send_buffer := release_oversized_buffer payload\<rparr>
             in (case r of
                   Some e \<Rightarrow> (Inl (IOError e), disconnect_after_protocol_error c)
                 | None \<Rightarrow> (Inr (), c))))"

definition send_inner :: "msg_type \<Rightarrow> bytes \<Rightarrow> k list \<Rightarrow> connector \<Rightarrow> unit xresult \<times> connector" where
  "send_inner kind expr args c =
     (if version c > 6 \<or> stream c = None then (Inl NotConnectedErr, c)
      else if length args > 8 then (Inl TooManyArgumentErr, c)
      else
        (case request_plan (trim expr) args of
           Inl e \<Rightarrow> (Inl e, c)
         | Inr plan \<Rightarrow>
             (case build_payload c kind (trim expr) args plan of
                Inl e \<Rightarrow> (Inl e, c\<lparr>send_buffer := empty_vec\<rparr>)
              | Inr payload \<Rightarrow> transmit payload (c\<lparr>send_buffer := empty_vec\<rparr>))))"

definition send :: "network \<Rightarrow> msg_type \<Rightarrow> bytes \<Rightarrow> k list \<Rightarrow> connector \<Rightarrow> unit xresult \<times> connector" where
  "send net kind expr args c =
     (let (active_io, c) = begin_with_stream net c
      in finish_operation net active_io (send_inner kind expr args c))"

section \<open>Receiving\<close>

definition read_next_frame :: "network \<Rightarrow> connector \<Rightarrow> (msg_type \<times> ipc_body) xresult \<times> connector" where
  "read_next_frame net c =
     (if version c > 6 then (Inl NotConnectedErr, c)
      else
        (case stream c of
           None \<Rightarrow> (Inl NotConnectedErr, c)
         | Some q \<Rightarrow>
             (case read_ipc_body (net_ext net) (net_schedule net (incoming q)) (incoming q)
                     (max_message_bytes (settings c)) (receive_buffer c)
                     (if value_mode (settings c) = Native then Some (symbol_encoding c) else None) of
                (framing_result, buffer, s) \<Rightarrow>
                  let c = c\<lparr>stream := Some (q\<lparr>incoming := s\<rparr>), receive_buffer := buffer\<rparr>
                  in (case framing_result of
                        Inl e \<Rightarrow> (Inl e, disconnect_after_protocol_error c)
                      | Inr (kind, body) \<Rightarrow>
                          if kind = Sync then (Inl Err, disconnect_after_protocol_error c)
                          else (Inr (kind, body), c)))))"

definition decode_frame_body :: "network \<Rightarrow> ipc_body \<Rightarrow> connector \<Rightarrow> k xresult \<times> connector" where
  "decode_frame_body net body c =
     (let mode = value_mode (settings c);
          decode = (\<lambda>bs. decode_value_body (net_ext net) bs (symbol_encoding c) mode);
          (v, c) = (case body of
              Retained \<Rightarrow>
                (decode (vbytes (receive_buffer c)),
                 if mode = Lossless then c\<lparr>receive_buffer := empty_vec\<rparr> else c)
            | Decompressed bs \<Rightarrow> (decode bs, c)
            | Decoded r \<Rightarrow> (r, c))
      in (v, c\<lparr>receive_buffer := release_oversized_buffer (receive_buffer c)\<rparr>))"

definition receive_inner :: "network \<Rightarrow> connector \<Rightarrow> k xresult \<times> connector" where
  "receive_inner net c =
     (case read_next_frame net c of
        (Inl e, c) \<Rightarrow> (Inl e, c)
      | (Inr (_, body), c) \<Rightarrow> decode_frame_body net body c)"

definition receive :: "network \<Rightarrow> connector \<Rightarrow> k xresult \<times> connector" where
  "receive net c =
     (case pending_notifications c of
        notification # rest \<Rightarrow> (notification, c\<lparr>pending_notifications := rest\<rparr>)
      | [] \<Rightarrow>
          let (active_io, c) = begin_with_stream net c
          in finish_operation net active_io (receive_inner net c))"

section \<open>Executing\<close>

lemma read_next_frame_frame:
  "read_next_frame net c = (r, c') \<Longrightarrow>
     settings c' = settings c \<and> pending_notifications c' = pending_notifications c"
  by (auto simp: read_next_frame_def disconnect_after_protocol_error_def Let_def
      split: if_splits option.splits prod.splits sum.splits)

lemma decode_frame_body_frame:
  "decode_frame_body net body c = (r, c') \<Longrightarrow>
     settings c' = settings c \<and> pending_notifications c' = pending_notifications c"
  by (auto simp: decode_frame_body_def Let_def split: ipc_body.splits if_splits)

text \<open>The loop of \<open>execute_inner\<close>: notifications are queued until the response arrives.\<close>

function await_response :: "network \<Rightarrow> connector \<Rightarrow> k xresult \<times> connector" where
  "await_response net c =
     (case read_next_frame net c of
        (Inl e, c) \<Rightarrow> (Inl e, c)
      | (Inr (kind, body), c) \<Rightarrow>
          (case kind of
             Response \<Rightarrow> decode_frame_body net body c
           | Async \<Rightarrow>
               if length (pending_notifications c) \<ge> max_pending_notifications (settings c)
               then (Inl Err, disconnect_after_protocol_error c)
               else
                 (case decode_frame_body net body c of (notification, c) \<Rightarrow>
                    await_response net (c\<lparr>pending_notifications := pending_notifications c @ [notification]\<rparr>))
           | Sync \<Rightarrow> (Inl Panicked, c)))"
  by pat_completeness auto
termination
  by (relation "measure (\<lambda>(net, c). max_pending_notifications (settings c) - length (pending_notifications c))")
    (auto dest!: read_next_frame_frame [OF sym] decode_frame_body_frame [OF sym])

declare await_response.simps [simp del]

definition execute_inner :: "network \<Rightarrow> 64 word \<Rightarrow> bytes \<Rightarrow> k list \<Rightarrow> connector \<Rightarrow> k xresult \<times> connector" where
  "execute_inner net active_io expr args c =
     (case if stream c = None then connect_inner net active_io c else (Inr (), c) of
        (Inl e, c) \<Rightarrow> (Inl e, c)
      | (Inr _, c) \<Rightarrow>
          (case send_inner Sync expr args c of
             (Inl e, c) \<Rightarrow> (Inl e, c)
           | (Inr _, c) \<Rightarrow> await_response net c))"

definition execute :: "network \<Rightarrow> bytes \<Rightarrow> k list \<Rightarrow> connector \<Rightarrow> k xresult \<times> connector" where
  "execute net expr args c =
     (let (active_io, c) = begin_with_stream net c
      in finish_operation net active_io (execute_inner net active_io expr args c))"

definition execute_async_inner :: "network \<Rightarrow> 64 word \<Rightarrow> bytes \<Rightarrow> k list \<Rightarrow> connector \<Rightarrow> unit xresult \<times> connector" where
  "execute_async_inner net active_io expr args c =
     (if stream c = None then
        (case connect_inner net active_io c of
           (Inl e, c) \<Rightarrow> (Inl e, c)
         | (Inr _, c) \<Rightarrow> send_inner Async expr args c)
      else send_inner Async expr args c)"

definition execute_async :: "network \<Rightarrow> bytes \<Rightarrow> k list \<Rightarrow> connector \<Rightarrow> unit xresult \<times> connector" where
  "execute_async net expr args c =
     (let (active_io, c) = begin_with_stream net c
      in finish_operation net active_io (execute_async_inner net active_io expr args c))"

definition drop_connector :: "connector \<Rightarrow> connector" where
  "drop_connector c = disconnect_after_protocol_error c"

end
