(* ===== verification/ReceiveCorrect.thy ===== *)
theory ReceiveCorrect
  imports Receive PipelineCorrect
begin

text \<open>
  What receiving a frame guarantees: the buffer of a body grows with the bytes that arrive and never
  past the announced length, and a frame that the stream delivers in any fragmentation is received
  as the frame that the checks on its complete bytes accept.
\<close>

section \<open>Reading a body\<close>

definition vec_wf :: "vec \<Rightarrow> bool" where
  "vec_wf v \<longleftrightarrow> length (vbytes v) \<le> vcap v"

lemma grow_body_wf:
  assumes "vec_wf v" "length (vbytes v) < n"
  shows "vec_wf (grow_body n v)" "vcap v \<le> vcap (grow_body n v)"
    "vcap (grow_body n v) \<le> max (vcap v) (8 * length (vbytes v))"
    "vcap (grow_body n v) \<le> max (vcap v) n"
  using assms by (auto simp: vec_wf_def grow_body_def try_reserve_exact_def Let_def saturating_mul_def
      BODY_RESERVATION_FACTOR_def)

lemma grow_body_room:
  assumes "vec_wf v" "0 < vcap v" "length (vbytes v) < n" "n < usize_limit"
  shows "length (vbytes v) < vcap (grow_body n v)"
  using assms by (auto simp: vec_wf_def grow_body_def try_reserve_exact_def Let_def saturating_mul_def
      BODY_RESERVATION_FACTOR_def)

lemma extend_wf: "vec_wf v \<Longrightarrow> length (vbytes v) + length bs \<le> vcap v \<Longrightarrow>
  vec_wf (extend_from_slice bs v) \<and> vcap (extend_from_slice bs v) = vcap v"
  by (simp add: vec_wf_def extend_from_slice_def)

text \<open>
  At every exit of the loop the capacity is within eight times the bytes received, or what it was.
\<close>

lemma read_message_body_bounds:
  "vec_wf v \<Longrightarrow> read_message_body n v s = (r, v', s') \<Longrightarrow>
     vec_wf v' \<and> vcap v' \<le> max (vcap v) (8 * length (vbytes v')) \<and> vcap v' \<le> max (vcap v) n
     \<and> (\<exists>bs. vbytes v' = vbytes v @ bs)"
proof (induction n v s arbitrary: r v' s' rule: read_message_body.induct)
  case (1 n v s)
  show ?case
  proof (cases "length (vbytes v) < n")
    case False
    then show ?thesis using 1(2,3) by (simp add: read_message_body.simps [of n v s])
  next
    case True
    let ?v = "grow_body n v"
    let ?spare = "min (vcap ?v - length (vbytes ?v)) (n - length (vbytes ?v))"
    note g = grow_body_wf [OF 1(2) True]
    obtain e bs t where rd: "read_to_limit ?spare s = (e, bs, t)" by (cases "read_to_limit ?spare s") auto
    have l: "length (vbytes v) + length bs \<le> vcap ?v"
      using read_to_limit_count [OF rd] g(1) by (auto simp: vec_wf_def)
    note x = extend_wf [OF g(1), of bs]
    show ?thesis
    proof (cases "e = None \<and> bs \<noteq> []")
      case False
      then have "v' = extend_from_slice bs ?v \<or> v' = ?v"
        using 1(3) True rd by (cases e) (auto simp: read_message_body.simps [of n v s] Let_def split: if_splits)
      then show ?thesis using g x l by auto
    next
      case e: True
      then have "read_message_body n (extend_from_slice bs ?v) t = (r, v', s')"
        using 1(3) True rd by (simp add: read_message_body.simps [of n v s] Let_def)
      then have "vec_wf v' \<and> vcap v' \<le> max (vcap (extend_from_slice bs ?v)) (8 * length (vbytes v'))
          \<and> vcap v' \<le> max (vcap (extend_from_slice bs ?v)) n
          \<and> (\<exists>cs. vbytes v' = vbytes (extend_from_slice bs ?v) @ cs)"
        using 1(1) [OF True refl refl refl rd [symmetric] _ refl] x l e by auto
      then show ?thesis using g x l by auto
    qed
  qed
qed

lemma read_message_body_delivered:
  "vec_wf v \<Longrightarrow> 0 < vcap v \<Longrightarrow> n < usize_limit \<Longrightarrow> length (vbytes v) \<le> n \<Longrightarrow> n - length (vbytes v) \<le> length (delivered s) \<Longrightarrow>
   \<exists>v' s'. read_message_body n v s = (Inr (), v', s')
     \<and> vbytes v' = vbytes v @ take (n - length (vbytes v)) (delivered s)
     \<and> delivered s' = drop (n - length (vbytes v)) (delivered s) \<and> ending s' = ending s"
proof (induction n v s rule: read_message_body.induct)
  case (1 n v s)
  show ?case
  proof (cases "length (vbytes v) < n")
    case False
    then show ?thesis using 1(5) by (simp add: read_message_body.simps [of n v s])
  next
    case True
    let ?v = "grow_body n v"
    define sp where "sp = min (vcap ?v - length (vbytes ?v)) (n - length (vbytes ?v))"
    note g = grow_body_wf [OF 1(2) True] grow_body_room [OF 1(2,3) True 1(4)]
    obtain e bs t where rd: "read_to_limit sp s = (e, bs, t)" by (cases "read_to_limit sp s") auto
    have sp: "0 < sp" "sp \<le> n - length (vbytes v)" "sp \<le> vcap ?v - length (vbytes v)"
      using g True by (auto simp: sp_def)
    then have "sp \<le> length (delivered s)" using 1(6) by simp
    then have b: "e = None" "bs = take sp (delivered s)" "delivered t = drop sp (delivered s)"
      "ending t = ending s" "length bs = sp" "bs \<noteq> []"
      using read_to_limit_delivered [of sp s] rd sp(1) by auto
    have x: "vec_wf (extend_from_slice bs ?v)" "vcap (extend_from_slice bs ?v) = vcap ?v"
      using extend_wf [OF g(1), of bs] b(5) sp(3) g(5) by auto
    have "read_message_body n v s = read_message_body n (extend_from_slice bs ?v) t"
      using True rd b(1,6) by (simp add: read_message_body.simps [of n v s] Let_def sp_def)
    moreover have i: "length (vbytes (extend_from_slice bs ?v)) \<le> n"
      "n - length (vbytes (extend_from_slice bs ?v)) \<le> length (delivered t)" "0 < vcap (extend_from_slice bs ?v)"
      using b(3,5) 1(6) True g(5) x(2) sp(2) by auto
    moreover obtain v' s' where "read_message_body n (extend_from_slice bs ?v) t = (Inr (), v', s')"
      "vbytes v' = (vbytes v @ bs) @ take (n - length (vbytes v @ bs)) (delivered t)"
      "delivered s' = drop (n - length (vbytes v @ bs)) (delivered t)" "ending s' = ending t"
      using 1(1) [OF True refl refl refl rd [symmetric, unfolded sp_def] b(1) refl b(6) x(1) i(3) 1(4) i(1,2)]
      by (elim exE conjE) simp
    moreover have "bs @ take (n - length (vbytes v @ bs)) (delivered t) = take (n - length (vbytes v)) (delivered s)"
      "drop (n - length (vbytes v @ bs)) (delivered t) = drop (n - length (vbytes v)) (delivered s)"
    proof -
      obtain m where m: "n - length (vbytes v) = sp + m" using sp(2) by (metis le_iff_add)
      then have "n - length (vbytes v @ bs) = m" using b(5) by simp
      then show "bs @ take (n - length (vbytes v @ bs)) (delivered t) = take (n - length (vbytes v)) (delivered s)"
        "drop (n - length (vbytes v @ bs)) (delivered t) = drop (n - length (vbytes v)) (delivered s)"
        unfolding m b(2,3) by (simp_all only: take_add drop_drop add.commute [of m])
    qed
    ultimately show ?thesis using b(4) by simp
  qed
qed

section \<open>Reading a frame\<close>

lemma reserve_buffer_wf:
  "vec_wf (reserve_buffer (clear v) n) \<and> vbytes (reserve_buffer (clear v) n) = [] \<and> n \<le> vcap (reserve_buffer (clear v) n)"
  by (auto simp: vec_wf_def reserve_buffer_def clear_def try_reserve_exact_def)

definition frame_buffer :: "vec \<Rightarrow> nat \<Rightarrow> bytes \<Rightarrow> vec" where
  "frame_buffer v n prefix =
     extend_from_slice prefix (reserve_buffer (clear v) (max (min n INITIAL_BODY_RESERVATION) (length prefix)))"

lemma frame_buffer_wf:
  assumes "0 < n"
  shows "vec_wf (frame_buffer v n prefix)" "vbytes (frame_buffer v n prefix) = prefix" "0 < vcap (frame_buffer v n prefix)"
proof -
  let ?m = "max (min n INITIAL_BODY_RESERVATION) (length prefix)"
  note r = reserve_buffer_wf [of v ?m]
  have "0 < min n INITIAL_BODY_RESERVATION" using assms by (simp add: INITIAL_BODY_RESERVATION_def)
  then have "0 < vcap (reserve_buffer (clear v) ?m)" using r by linarith
  then show "vec_wf (frame_buffer v n prefix)" "vbytes (frame_buffer v n prefix) = prefix" "0 < vcap (frame_buffer v n prefix)"
    using r extend_wf [of "reserve_buffer (clear v) ?m" prefix] by (auto simp: frame_buffer_def)
qed

text \<open>What the body of a received frame denotes.\<close>

fun body_is :: "externals \<Rightarrow> symbol_encoding option \<Rightarrow> vec \<Rightarrow> bytes \<Rightarrow> ipc_body \<Rightarrow> bool" where
  "body_is ext pipeline v body Retained \<longleftrightarrow> vbytes v = body"
| "body_is ext pipeline v body (Decompressed d) \<longleftrightarrow> d = body"
| "body_is ext pipeline v body (Decoded r) \<longleftrightarrow>
     (\<exists>encoding. pipeline = Some encoding \<and> (\<forall>x. r = Inr x \<longleftrightarrow> deserialize ext body encoding = Inr x))"

definition schedule_ok :: "schedule \<Rightarrow> bool" where
  "schedule_ok sched \<longleftrightarrow> (\<forall>n. sorted (observed sched n) \<and> (\<forall>c\<in>set (observed sched n). c \<le> n))
     \<and> (\<forall>m. set (arrival sched m) = {..<m})"

lemma prepare_ipc_body_InrD:
  assumes "prepare_ipc_body h raw m = Inr (kind, body)"
  shows "message_type (message_kind h) = Inr kind" "compression_mode h = 0 \<Longrightarrow> body = raw"
    "checked_body_length (total_length h) = Inr (length raw)"
    "compression_mode h = 0 \<Longrightarrow> enforce_message_bound (total_length h) m = Inr ()"
    "compression_mode h \<noteq> 0 \<Longrightarrow> decompress_ipc_body h raw m = Inr body"
  using assms by (auto simp: prepare_ipc_body_def rbind_Inr_iff split: if_splits)

text \<open>The plain path: the body is read to its end and prepared.\<close>

lemma read_plain_body:
  assumes v: "vec_wf v" "0 < vcap v" "length (vbytes v) \<le> length raw" and raw: "length raw < usize_limit"
    and d: "delivered s = drop (length (vbytes v)) raw @ rest" and p: "vbytes v = take (length (vbytes v)) raw"
    and prep: "prepare_ipc_body h raw m = Inr (kind, body)"
  shows "\<exists>b v' s'. read_whole_body h m (length raw) v s = (Inr (kind, b), v', s') \<and> delivered s' = rest \<and> body_is ext pipe v' body b"
proof -
  have l: "length raw - length (vbytes v) \<le> length (delivered s)" using d by simp
  have "vbytes v @ take (length raw - length (vbytes v)) (delivered s) = raw"
  proof -
    have "take (length raw - length (vbytes v)) (delivered s) = drop (length (vbytes v)) raw" using d by simp
    then show ?thesis using p by (metis append_take_drop_id)
  qed
  moreover have "drop (length raw - length (vbytes v)) (delivered s) = rest" using d by simp
  ultimately obtain v' s' where r: "read_message_body (length raw) v s = (Inr (), v', s')" "vbytes v' = raw" "delivered s' = rest"
    using read_message_body_delivered [OF v(1,2) raw v(3) l] by auto
  then show ?thesis using prep prepare_ipc_body_InrD(2) [OF prep] by (auto simp: read_whole_body_def)
qed

lemma read_framed_body_ok:
  assumes raw: "2 \<le> length raw" "length raw < usize_limit - 16"
    and prefix: "prefix = take (length prefix) raw" "length prefix \<le> length raw"
    and d: "delivered s = drop (length prefix) raw @ rest"
    and prep: "prepare_ipc_body h raw m = Inr (kind, body)" and mode: "prefix = [] \<Longrightarrow> compression_mode h = 0"
    and sched: "schedule_ok sched"
  shows "\<exists>b v' s'. read_framed_body ext sched h m (length raw) prefix s v pipe = (Inr (kind, b), v', s')
    \<and> delivered s' = rest \<and> body_is ext pipe v' body b"
proof -
  let ?b = "frame_buffer v (length raw) prefix"
  let ?rest = "read_whole_body h m (length raw)"
  let ?pipelined = "pipe \<noteq> None \<and> length prefix = 0 \<and> length raw \<ge> PIPELINE_MIN_BODY_BYTES \<and> vcap ?b \<ge> length raw"
  have pos: "0 < length raw" using raw(1) by linarith
  note b = frame_buffer_wf [OF pos, of v prefix]
  have lim: "length raw < usize_limit" using raw(2) by simp
  show ?thesis
  proof (cases ?pipelined)
    case False
    then have "read_framed_body ext sched h m (length raw) prefix s v pipe = ?rest ?b s"
      unfolding read_framed_body_def Let_def frame_buffer_def by auto
    moreover have "\<exists>x v' s'. ?rest ?b s = (Inr (kind, x), v', s') \<and> delivered s' = rest \<and> body_is ext pipe v' body x"
      using b prefix d by (intro read_plain_body [OF _ _ _ lim _ _ prep]) auto
    ultimately show ?thesis by simp
  next
    case True
    then obtain encoding where enc: "pipe = Some encoding" and p0: "prefix = []" and cap: "length raw \<le> vcap ?b" by auto
    have body: "body = raw" by (rule prepare_ipc_body_InrD(2) [OF prep mode [OF p0]])
    have want: "min (vcap ?b - length (vbytes ?b)) (length raw - length (vbytes ?b)) = length raw"
      using cap b(2) p0 by simp
    have dr: "delivered s = raw @ rest" "raw \<noteq> []" using d p0 raw(1) by auto
    obtain x s1 where rd: "read_retry (length raw) s = (x, s1)" by fastforce
    from read_retry_delivered [OF pos, of s] rd dr obtain bs where bs: "x = Inr bs" "bs \<noteq> []"
      "delivered s = bs @ delivered s1" "length bs \<le> length raw"
      using read_retry_count [of "length raw" s] by (cases x) (auto split: if_splits)
    have raw_bs: "bs = take (length bs) raw" "delivered s1 = drop (length bs) raw @ rest"
    proof -
      have "bs @ delivered s1 = raw @ rest" using bs(3) dr(1) by simp
      then have "bs = take (length bs) (raw @ rest)" "delivered s1 = drop (length bs) (raw @ rest)"
        by (metis append_eq_conv_conj)+
      then show "bs = take (length bs) raw" "delivered s1 = drop (length bs) raw @ rest" using bs(4) by simp_all
    qed
    let ?b1 = "?b\<lparr>vbytes := bs\<rparr>"
    have b1: "vec_wf ?b1" "0 < vcap ?b1" "vbytes ?b1 = bs" using cap bs(4) b(3) by (auto simp: vec_wf_def)
    have some: "read_some s ?b (length raw) = (Inr (), ?b1, s1)"
      unfolding read_some_def Let_def want rd using bs(1,2) b(2) p0 by simp
    have the_pipe: "the pipe = encoding" using enc by simp
    have run: "read_framed_body ext sched h m (length raw) prefix s v pipe =
       (if hd bs = TABLE_TYPE \<and> length bs < length raw then
          (case message_type (message_kind h) of
             Inl e \<Rightarrow> (Inl e, ?b1, s1)
           | Inr kind \<Rightarrow>
               (case receive_table ext (observed sched (length raw)) (arrival sched) s1 bs (length raw) encoding of
                  (Inl e, s'') \<Rightarrow> (Inl e, ?b1, s'')
                | (Inr decoded, s'') \<Rightarrow> (Inr (kind, Decoded decoded), ?b1, s'')))
        else ?rest ?b1 s1)"
      unfolding read_framed_body_def Let_def frame_buffer_def [symmetric] if_P [OF True] some
        the_pipe sum.case prod.case b1(3) ..
    show ?thesis
    proof (cases "hd bs = TABLE_TYPE \<and> length bs < length raw")
      case False
      have "\<exists>x v' s'. ?rest ?b1 s1 = (Inr (kind, x), v', s') \<and> delivered s' = rest \<and> body_is ext pipe v' body x"
        using b1 bs(4) raw_bs by (intro read_plain_body [OF _ _ _ lim _ _ prep]) auto
      then show ?thesis unfolding run if_not_P [OF False] .
    next
      case table: True
      have "message_type (message_kind h) = Inr kind" by (rule prepare_ipc_body_InrD(1) [OF prep])
      moreover have "bs @ take (length raw - length bs) (delivered s1) = raw"
        using raw_bs by simp (metis append_take_drop_id)
      moreover have "drop (length raw - length bs) (delivered s1) = rest" using raw_bs(2) by simp
      ultimately show ?thesis
        using receive_table_agrees [of bs "length raw" s1 "observed sched (length raw)" "arrival sched" ext encoding]
          table bs(2) raw(2) raw_bs(2) sched body enc
        unfolding run schedule_ok_def by fastforce
    qed
  qed
qed

text \<open>The checks made on the prefix alone are those made later on the whole body.\<close>

lemma check_prefix_of_body:
  assumes prep: "prepare_ipc_body h raw m = Inr (kind, body)" and mode: "compression_mode h \<in> {1, 2}"
  defines "p \<equiv> (if compression_mode h = 1 then 4 else 8 :: nat)"
  shows "p \<le> length raw" "check_prefix h (take p raw) m = Inr ()"
proof -
  have "compression_mode h \<noteq> 0" using mode by auto
  note d = prepare_ipc_body_InrD(5) [OF prep this]
  then show l: "p \<le> length raw"
    using mode by (auto simp: decompress_ipc_body_def compressed_message_length_def get_range_def p_def
        ok_or_def split: if_splits option.splits)
  have "compressed_message_length (take p raw) (compression_mode h) = compressed_message_length raw (compression_mode h)"
    using mode l by (auto simp: compressed_message_length_def get_range_def p_def min_def)
  moreover have "snd n = length (take p raw)" if "compressed_message_length raw (compression_mode h) = Inr n" for n
    using that mode l by (auto simp: compressed_message_length_def get_range_def p_def split: if_splits)
  ultimately show "check_prefix h (take p raw) m = Inr ()"
    using d by (auto simp: check_prefix_def decompress_ipc_body_def rbind_Inr_iff rbind_pair_iff)
qed

lemma frame_lengths_of_body:
  assumes "prepare_ipc_body h raw m = Inr (kind, body)" "compression_mode h \<in> {0, 1, 2}"
  shows "frame_lengths h m = Inr (length raw, if compression_mode h = 0 then 0 else if compression_mode h = 1 then 4 else 8)"
  using prepare_ipc_body_InrD [OF assms(1)] check_prefix_of_body [OF assms(1)] assms(2)
  by (auto simp: frame_lengths_def)

lemma byte_le_2: "(b :: byte) \<le> 2 \<Longrightarrow> b \<in> {0, 1, 2}"
  by (auto simp: word_unat_eq_iff word_le_nat_alt)

lemma read_ipc_body_ok:
  assumes d: "delivered s = frame @ rest" and h: "parse_ipc_header (take 8 frame) = Inr h"
    and prep: "prepare_ipc_body h (drop 8 frame) m = Inr (kind, body)"
    and sched: "schedule_ok sched"
  shows "\<exists>b v' s'. read_ipc_body ext sched s m v pipe = (Inr (kind, b), v', s')
    \<and> delivered s' = rest \<and> body_is ext pipe v' body b"
proof -
  let ?raw = "drop 8 frame"
  let ?p = "if compression_mode h = 0 then 0 else if compression_mode h = 1 then 4 else 8 :: nat"
  have hd: "8 \<le> length frame" "compression_mode h \<le> 2" "total_length h < 1099511627776"
    using h header_length_less [of "take 8 frame"] unfolding parse_ipc_header_Inr by auto
  have mode: "compression_mode h \<in> {0, 1, 2}" using byte_le_2 [OF hd(2)] .
  have l: "2 \<le> length ?raw" "length ?raw < usize_limit - 16"
    using prepare_ipc_body_InrD(3) [OF prep] hd(3) by (auto simp: checked_body_length_Inr)
  obtain s1 where s1: "read_exact IPC_HEADER_LENGTH s = (Inr (take 8 frame), s1)" "delivered s1 = ?raw @ rest"
    using read_exact_delivered [of 8 s] d hd(1) by (auto simp: IPC_HEADER_LENGTH_def)
  note fl = frame_lengths_of_body [OF prep mode]
  have framed: "\<exists>b v' s'. read_framed_body ext sched h m (length ?raw) (take ?p ?raw) t v pipe = (Inr (kind, b), v', s')
      \<and> delivered s' = rest \<and> body_is ext pipe v' body b"
    if "delivered t = drop ?p ?raw @ rest" "?p \<le> length ?raw" for t
    using that sched l hd(1) by (intro read_framed_body_ok [OF l _ _ _ prep]) (auto split: if_splits)
  show ?thesis
  proof (cases "compression_mode h = 0")
    case True
    then show ?thesis using framed [of s1] s1 h fl by (auto simp: read_ipc_body_def)
  next
    case False
    then have "compression_mode h \<in> {1, 2}" using mode by auto
    note p = check_prefix_of_body [OF prep this]
    then have pl: "?p \<le> length ?raw" "check_prefix h (take ?p ?raw) m = Inr ()" using False by auto
    obtain s2 where "read_exact ?p s1 = (Inr (take ?p ?raw), s2)" "delivered s2 = drop ?p ?raw @ rest"
      using read_exact_delivered [of ?p s1] s1(2) pl(1) by auto
    then show ?thesis using framed [of s2] s1 h fl pl False by (auto simp: read_ipc_body_def)
  qed
qed

section \<open>Properties\<close>

text \<open>
  C10: a frame is received whole, whatever the fragmentation. When the stream delivers a frame that
  the framing checks accept, in any split into reads and with any interruptions, reading it returns
  the message type and the body that the checks on the complete frame give: kept in the retained
  buffer when it is not compressed, decompressed when it is, or already decoded to the value that
  the decoder gives for it when it was pipelined; the bytes after the frame stay in the stream.
\<close>
theorem received_frame_is_prepared_frame:
  assumes "delivered s = frame @ rest" "parse_ipc_header (take 8 frame) = Inr h"
    and "prepare_ipc_body h (drop 8 frame) limit = Inr (kind, body)"
    and "schedule_ok sched"
  shows "\<exists>b v' s'. read_ipc_body ext sched s limit v pipe = (Inr (kind, b), v', s')
    \<and> delivered s' = rest \<and> body_is ext pipe v' body b"
  using read_ipc_body_ok [OF assms] .

theorem received_frame_is_prepared_frame_witness:
  "\<exists>b v' s'. read_ipc_body \<lparr>from_num_days = Some, from_ymd = \<lambda>_ _. None, frame_ok = \<lambda>_. True, hstack_ok = \<lambda>_ _. True\<rparr>
      \<lparr>observed = (\<lambda>_. []), arrival = \<lambda>n. [0..<n]\<rparr>
      [Chunk [1, 2, 0], ReadFail Interrupted, Chunk [0, 10, 0, 0], Chunk [0, 255], Chunk [1, 77]] (Some 20) empty_vec None
      = (Inr (Response, b), v', s')
    \<and> delivered s' = [77]
    \<and> body_is \<lparr>from_num_days = Some, from_ymd = \<lambda>_ _. None, frame_ok = \<lambda>_. True, hstack_ok = \<lambda>_ _. True\<rparr> None v' [255, 1] b"
  using received_frame_is_prepared_frame [of
      "[Chunk [1, 2, 0], ReadFail Interrupted, Chunk [0, 10, 0, 0], Chunk [0, 255], Chunk [1, 77]]"
      "[1, 2, 0, 0, 10, 0, 0, 0, 255, 1]" "[77]"
      "\<lparr>message_kind = 2, compression_mode = 0, total_length = 10\<rparr>" "Some 20" Response "[255, 1]"
      "\<lparr>observed = (\<lambda>_. []), arrival = \<lambda>n. [0..<n]\<rparr>"]
  by (simp add: schedule_ok_def atLeast0LessThan parse_ipc_header_def frame_consts message_type_def checked_add_def
      checked_body_length_def checked_sub_def prepare_ipc_body_def enforce_message_bound_def)



end
