(* ===== verification/ConnectorCorrect.thy ===== *)
theory ConnectorCorrect
  imports Connector ReceiveCorrect KLenCorrect
begin

text \<open>
  What a connection guarantees: the invariant of its state under every operation, network behaviour
  and abort; that a request leaves as one frame; that an execution returns the response to its
  request and keeps the notifications that came before it; that an abort or a framing error ends
  the connection; and in which order addresses are tried.
\<close>

section \<open>Aborts\<close>

lemma aborted_by_active: "is_active i (aborted_by net n w) \<longleftrightarrow> is_active i w \<and> n = 0"
  by (auto simp: aborted_by_def run_active)

lemma aborted_by_0 [simp]: "aborted_by net 0 w = w"
  by (simp add: aborted_by_def abort_run_def)

lemma shut_active [simp]: "is_active i (w\<lparr>shut := x\<rparr>) \<longleftrightarrow> is_active i w"
  by (simp add: is_active_def)

lemma attach_stream_active: "is_active j (snd (attach_stream i s w)) \<longleftrightarrow> is_active j w"
  using step_active [of j sd "EAttach i s" w] by simp

lemma attach_stream_ok: "fst (attach_stream i s w) \<longleftrightarrow> is_active i w"
proof (cases "active_operation (handle w)")
  case (Some a)
  then show ?thesis by (cases a) (auto simp: attach_stream_def is_active_def)
qed (auto simp: attach_stream_def is_active_def)

lemma attach_tcp_result:
  assumes "attach_tcp net i s c = (ok, c')"
  shows "ok \<longleftrightarrow> is_active i (abort_world c) \<and> aborts_before net = 0"
    "is_active j (abort_world c') \<longleftrightarrow> is_active j (abort_world c) \<and> aborts_before net = 0"
    "c' = c\<lparr>abort_world := abort_world c'\<rparr>"
  using assms attach_stream_ok [of i s "aborted_by net (aborts_before net) (abort_world c)"]
    attach_stream_active [of j i s "aborted_by net (aborts_before net) (abort_world c)"]
  by (auto simp: attach_tcp_def aborted_by_active split: prod.splits)

lemma disconnect_simps [simp]:
  "stream (disconnect_after_protocol_error c) = None" "tcp_stream (disconnect_after_protocol_error c) = None"
  "settings (disconnect_after_protocol_error c) = settings c"
  "pending_notifications (disconnect_after_protocol_error c) = pending_notifications c"
  "receive_buffer (disconnect_after_protocol_error c) = empty_vec"
  "send_buffer (disconnect_after_protocol_error c) = send_buffer c"
  "is_active i (abort_world (disconnect_after_protocol_error c)) \<longleftrightarrow> is_active i (abort_world c)"
  by (simp_all add: disconnect_after_protocol_error_def split: option.split)

lemma finish_operation_result:
  "finish_operation net i (r, c) = (r', c') \<Longrightarrow>
     (if is_active i (abort_world c) \<and> aborts_during net = 0
      then r' = r \<and> (\<exists>w. c' = c\<lparr>abort_world := w\<rparr>)
      else r' = Inl operation_aborted_error \<and> (\<exists>w. c' = disconnect_after_protocol_error (c\<lparr>abort_world := w\<rparr>)))"
  using finish_active [of i "aborted_by net (aborts_during net) (abort_world c)"]
  by (auto simp: finish_operation_def Let_def aborted_by_active split: prod.splits if_splits)

section \<open>The invariant\<close>

definition retained :: "vec \<Rightarrow> bool" where
  "retained v \<longleftrightarrow> vec_wf v \<and> vcap v \<le> MAX_RETAINED_BUFFER_BYTES"

definition conn_inv :: "nat \<Rightarrow> connector \<Rightarrow> bool" where
  "conn_inv m c \<longleftrightarrow> (stream c = None \<longleftrightarrow> tcp_stream c = None)
     \<and> length (pending_notifications c) \<le> m
     \<and> 0 < max_pending_notifications (settings c) \<and> max_pending_notifications (settings c) \<le> m
     \<and> retained (receive_buffer c) \<and> retained (send_buffer c)"

lemma retained_empty [simp]: "retained empty_vec"
  by (simp add: retained_def vec_wf_def empty_vec_def)

lemma retained_release: "vec_wf v \<Longrightarrow> retained (release_oversized_buffer v)"
  using retained_empty by (auto simp: release_oversized_buffer_def retained_def)

lemma conn_inv_disconnect: "conn_inv m c \<Longrightarrow> conn_inv m (disconnect_after_protocol_error c)"
  by (simp add: conn_inv_def)

lemma conn_inv_abort_world [simp]: "conn_inv m (c\<lparr>abort_world := w\<rparr>) \<longleftrightarrow> conn_inv m c"
  by (simp add: conn_inv_def)

text \<open>What an operation owes while it runs: the invariant and no registration of its own.\<close>

locale io_operation =
  fixes inner :: "network \<Rightarrow> 64 word \<Rightarrow> connector \<Rightarrow> 'a xresult \<times> connector"
  assumes inner_inv: "conn_inv m c \<Longrightarrow> inner net i c = (r, c') \<Longrightarrow> conn_inv m c'"
    and inner_active: "conn_inv m c \<Longrightarrow> inner net i c = (r, c') \<Longrightarrow> is_active j (abort_world c') \<Longrightarrow> is_active j (abort_world c)"
begin

lemma finished_inv:
  assumes "conn_inv m c" "finish_operation net i (inner net i c) = (r, c')"
  shows "conn_inv m c'"
proof -
  obtain x d where x: "inner net i c = (x, d)" by fastforce
  have "conn_inv m d" by (rule inner_inv [OF assms(1) x])
  then show ?thesis
    using finish_operation_result [OF assms(2) [unfolded x]]
    by (auto split: if_splits intro: conn_inv_disconnect)
qed

lemma aborted_disconnects:
  assumes "conn_inv m c" "finish_operation net i (inner net i c) = (r, c')"
    and "0 < aborts_during net \<or> \<not> is_active i (abort_world c)"
  shows "r = Inl (IOError Interrupted) \<and> stream c' = None \<and> tcp_stream c' = None"
proof -
  obtain x d where x: "inner net i c = (x, d)" by fastforce
  have "\<not> (is_active i (abort_world d) \<and> aborts_during net = 0)"
    using assms(3) inner_active [OF assms(1) x] by auto
  then show ?thesis
    using finish_operation_result [OF assms(2) [unfolded x]] by (auto simp: operation_aborted_error_def)
qed

end

section \<open>Every operation keeps the contract\<close>

lemma reserve_wf: "vec_wf (extend_from_slice bs (reserve_buffer (clear v) n))"
  using reserve_buffer_wf [of v n] by (auto simp: vec_wf_def extend_from_slice_def)

lemma compress_buffer_wf:
  assumes "vec_wf v" "compress_buffer v = Inr p" "length (vbytes v) < usize_limit"
  shows "vec_wf p"
proof (cases "length (vbytes v) < 2000")
  case True
  then show ?thesis using assms by (auto simp: compress_buffer_def compress_def rbind_Inr_iff)
next
  case False
  then have len: "2000 \<le> length (vbytes v)" by simp
  obtain bs where bs: "compress (vbytes v) = Inr bs" "p = (if bs = vbytes v then v else \<lparr>vbytes = bs, vcap = length (vbytes v) div 2\<rparr>)"
    using assms(2) by (auto simp: compress_buffer_def rbind_Inr_iff)
  have "bs = vbytes v \<or> length bs \<le> length (vbytes v) div 2"
    using compress_large [OF len assms(3)] bs(1) by auto
  then show ?thesis using assms(1) bs(2) by (auto simp: vec_wf_def)
qed

lemma request_plan_total:
  "request_plan expr args = Inr (el, lam, total_len, hl) \<Longrightarrow> total_len < 1099511627776"
  by (auto simp: request_plan_def rbind_Inr_iff rbind_pair_iff checked_outgoing_message_length_def ipc_length_header_Inr)

lemma build_payload_wf:
  assumes "build_payload c kind expr args plan = Inr p" "request_plan expr args = Inr plan"
  shows "vec_wf p"
proof -
  obtain el lam n hb lo where plan: "plan = (el, lam, n, hb, lo)" by (cases plan)
  then obtain body frame where f: "frame = extend_from_slice (ipc_header kind (hb, lo) @ body) (reserve_buffer (clear (send_buffer c)) n)"
    "length (vbytes frame) = n" "(if should_compress c n then compress_buffer frame else Inr frame) = Inr p"
    using assms(1) by (auto simp: build_payload_def Let_def rbind_Inr_iff split: if_splits)
  have wf: "vec_wf frame" unfolding f(1) by (rule reserve_wf)
  have "n < usize_limit" using request_plan_total assms(2) unfolding plan by fastforce
  then have lim: "length (vbytes frame) < usize_limit" using f(2) by simp
  show ?thesis using f(3) wf compress_buffer_wf [OF wf _ lim] by (auto split: if_splits)
qed

lemma transmit_inv:
  assumes "conn_inv m c" "vec_wf p" "transmit p c = (r, c')"
  shows "conn_inv m c'" "is_active j (abort_world c') \<longleftrightarrow> is_active j (abort_world c)"
  using assms retained_release [OF assms(2)]
  by (auto simp: transmit_def Let_def conn_inv_def split: option.splits prod.splits)

lemma transmit_active:
  "transmit p c = (r, c') \<Longrightarrow> is_active j (abort_world c') \<longleftrightarrow> is_active j (abort_world c)"
  by (auto simp: transmit_def Let_def split: option.splits prod.splits)

lemma send_inner_inv: "conn_inv m c \<Longrightarrow> send_inner kind expr args c = (r, c') \<Longrightarrow> conn_inv m c'"
proof -
  assume inv: "conn_inv m c" and run: "send_inner kind expr args c = (r, c')"
  have e: "conn_inv m (c\<lparr>send_buffer := empty_vec\<rparr>)" using inv by (simp add: conn_inv_def)
  show "conn_inv m c'"
    using run inv e
    by (auto simp: send_inner_def split: if_splits sum.splits intro: transmit_inv(1) [OF e] build_payload_wf)
qed

lemma send_inner_active:
  "send_inner kind expr args c = (r, c') \<Longrightarrow> is_active j (abort_world c') \<longleftrightarrow> is_active j (abort_world c)"
  using transmit_active [where c = "c\<lparr>send_buffer := empty_vec\<rparr>"]
  by (auto simp: send_inner_def split: if_splits sum.splits)

interpretation sending: io_operation "\<lambda>net i c. send_inner kind expr args c" for kind expr args
  by unfold_locales (blast intro: send_inner_inv, simp add: send_inner_active)

lemma establish_inv:
  assumes "conn_inv m c" "stream c = None" "establish net s q c = (r, c')"
  shows "conn_inv m c'"
  using assms by (auto simp: establish_def install_authenticated_stream_def conn_inv_def
      split: if_splits sum.splits prod.splits)

lemma establish_active:
  "establish net s q c = (r, c') \<Longrightarrow> is_active j (abort_world c') \<longleftrightarrow> is_active j (abort_world c)"
  by (auto simp: establish_def install_authenticated_stream_def split: if_splits sum.splits prod.splits)

lemma attach_tcp_snd [simp]:
  "conn_inv m (snd (attach_tcp net i s c)) \<longleftrightarrow> conn_inv m c" "stream (snd (attach_tcp net i s c)) = stream c"
  "is_active j (abort_world (snd (attach_tcp net i s c))) \<longleftrightarrow> is_active j (abort_world c) \<and> aborts_before net = 0"
  by (simp_all add: attach_tcp_def case_prod_beta Let_def attach_stream_active aborted_by_active)

lemma connect_inner_inv:
  assumes inv: "conn_inv m c" and run: "connect_inner net i c = (r, c')"
  shows "conn_inv m c'"
proof (cases "stream c")
  case (Some q)
  then show ?thesis using assms by (auto simp: connect_inner_def split: option.splits)
next
  case None
  have "establish net s q (snd (attach_tcp net i s c)) = (r, c') \<Longrightarrow> conn_inv m c'" for s q
    using inv None establish_inv [of m "snd (attach_tcp net i s c)"] by simp
  then show ?thesis using run inv None
    by (auto simp: connect_inner_def case_prod_beta split: if_splits sum.splits)
qed

lemma connect_inner_active:
  assumes "connect_inner net i c = (r, c')" "is_active j (abort_world c')"
  shows "is_active j (abort_world c)"
  using assms
  by (auto simp: connect_inner_def case_prod_beta establish_active
      split: if_splits sum.splits option.splits)

interpretation connecting: io_operation connect_inner
  by unfold_locales (auto intro: connect_inner_inv connect_inner_active)

lemma read_ipc_body_wf:
  assumes "vec_wf v" "read_ipc_body ext sched s limit v pipe = (r, v', s')"
  shows "vec_wf v'"
proof -
  have some: "vec_wf b'" if "vec_wf b" "read_some s b n = (r, b', s')" for s b n r b' s'
    using that read_retry_count [of "min (vcap b - length (vbytes b)) (n - length (vbytes b))" s]
    by (auto simp: read_some_def Let_def vec_wf_def split: prod.splits sum.splits if_splits)
  have framed: "vec_wf b'" if "read_framed_body ext sched h limit n prefix t b pipe = (x, b', t')" for h n prefix t b x b' t'
  proof -
    let ?b = "extend_from_slice prefix (reserve_buffer (clear b) (max (min n INITIAL_BODY_RESERVATION) (length prefix)))"
    have wf: "vec_wf ?b" by (rule reserve_wf)
    have body: "vec_wf b2" if "vec_wf b1" "read_whole_body h limit n b1 t = (y, b2, t2)" for b1 t y b2 t2
      using that read_message_body_bounds [OF that(1)]
      by (auto simp: read_whole_body_def split: prod.splits sum.splits)
    show ?thesis
      using that wf unfolding read_framed_body_def Let_def
      by (auto split: if_splits prod.splits sum.splits dest: some body)
  qed
  show ?thesis
    using assms framed by (auto simp: read_ipc_body_def split: prod.splits sum.splits if_splits)
qed

lemma read_next_frame_inv:
  assumes inv: "conn_inv m c" and run: "read_next_frame net c = (r, c')"
  shows "case r of Inl e \<Rightarrow> conn_inv m c'
    | Inr _ \<Rightarrow> vec_wf (receive_buffer c') \<and> conn_inv m (c'\<lparr>receive_buffer := empty_vec\<rparr>)"
proof -
  have wf: "vec_wf (receive_buffer c)" using inv by (simp add: conn_inv_def retained_def)
  show ?thesis
    using inv run read_ipc_body_wf [OF wf]
    by (auto simp: read_next_frame_def conn_inv_def Let_def split: if_splits prod.splits sum.splits option.splits)
qed

lemma read_next_frame_active:
  "read_next_frame net c = (r, c') \<Longrightarrow> is_active j (abort_world c') \<longleftrightarrow> is_active j (abort_world c)"
  by (auto simp: read_next_frame_def Let_def split: if_splits prod.splits sum.splits option.splits)

lemma decode_frame_body_inv:
  assumes "decode_frame_body net body c = (r, c')" "vec_wf (receive_buffer c)" "conn_inv m (c\<lparr>receive_buffer := empty_vec\<rparr>)"
  shows "conn_inv m c'" "is_active j (abort_world c') \<longleftrightarrow> is_active j (abort_world c)"
  using assms retained_release [OF assms(2)] retained_release [of empty_vec] retained_empty
  by (auto simp: decode_frame_body_def conn_inv_def retained_def Let_def split: ipc_body.splits if_splits)

lemma decode_frame_body_active:
  "decode_frame_body net body c = (r, c') \<Longrightarrow> is_active j (abort_world c') \<longleftrightarrow> is_active j (abort_world c)"
  by (auto simp: decode_frame_body_def Let_def split: ipc_body.splits if_splits)

lemma receive_inner_inv:
  assumes inv: "conn_inv m c" and run: "receive_inner net c = (r, c')"
  shows "conn_inv m c'"
proof -
  obtain x d where x: "read_next_frame net c = (x, d)" by fastforce
  show ?thesis
    using run x read_next_frame_inv [OF inv x] decode_frame_body_inv(1)
    by (auto simp: receive_inner_def split: prod.splits sum.splits)
qed

lemma receive_inner_active:
  "receive_inner net c = (r, c') \<Longrightarrow> is_active j (abort_world c') \<longleftrightarrow> is_active j (abort_world c)"
  by (auto simp: receive_inner_def read_next_frame_active decode_frame_body_active split: prod.splits sum.splits)

interpretation receiving: io_operation "\<lambda>net i c. receive_inner net c"
  by unfold_locales (blast intro: receive_inner_inv, simp add: receive_inner_active)

text \<open>The loop of an execution keeps the contract and the bound of the notification queue.\<close>

lemma await_response_inv:
  "conn_inv m c \<Longrightarrow> await_response net c = (r, c') \<Longrightarrow>
     conn_inv m c' \<and> (is_active j (abort_world c') \<longleftrightarrow> is_active j (abort_world c))
     \<and> settings c' = settings c
     \<and> length (pending_notifications c') \<le> max (length (pending_notifications c)) (max_pending_notifications (settings c))"
proof (induction net c arbitrary: r c' rule: await_response.induct)
  case (1 net c)
  obtain x d where x: "read_next_frame net c = (x, d)" by fastforce
  note inv = read_next_frame_inv [OF 1(2) x] and act = read_next_frame_active [OF x]
    and fr = read_next_frame_frame [OF x]
  show ?case
  proof (cases x)
    case (Inl e)
    then show ?thesis using 1(3) x inv act fr by (simp add: await_response.simps [of net c])
  next
    case (Inr p)
    obtain kind body where p: "p = (kind, body)" by fastforce
    have wf: "vec_wf (receive_buffer d)" "conn_inv m (d\<lparr>receive_buffer := empty_vec\<rparr>)" using inv Inr by auto
    obtain v e where v: "decode_frame_body net body d = (v, e)" by fastforce
    note dec = decode_frame_body_inv [OF v wf] and fr' = decode_frame_body_frame [OF v]
    show ?thesis
    proof (cases kind)
      case Async
      show ?thesis
      proof (cases "length (pending_notifications d) \<ge> max_pending_notifications (settings d)")
        case True
        then have "c' = disconnect_after_protocol_error d"
          using 1(3) x Inr p Async by (simp add: await_response.simps [of net c])
        then show ?thesis using wf act fr by (auto simp: conn_inv_def)
      next
        case False
        let ?e = "e\<lparr>pending_notifications := pending_notifications e @ [v]\<rparr>"
        have "await_response net ?e = (r, c')"
          using 1(3) x Inr p Async False v by (simp add: await_response.simps [of net c])
        moreover have "conn_inv m ?e" using dec(1) False fr fr' by (auto simp: conn_inv_def)
        ultimately have "conn_inv m c' \<and> (is_active j (abort_world c') \<longleftrightarrow> is_active j (abort_world ?e))
            \<and> settings c' = settings ?e
            \<and> length (pending_notifications c') \<le> max (length (pending_notifications ?e)) (max_pending_notifications (settings ?e))"
          using 1(1) [OF x [symmetric] Inr p [symmetric] Async False v [symmetric]] by blast
        then show ?thesis using dec(2) act fr fr' False by auto
      qed
    next
      case Sync
      then have False using x Inr p
        by (auto simp: read_next_frame_def Let_def split: if_splits prod.splits sum.splits option.splits)
      then show ?thesis ..
    next
      case Response
      then have "(r, c') = (v, e)" using 1(3) x Inr p v by (simp add: await_response.simps [of net c])
      then show ?thesis using dec act fr fr' by simp
    qed
  qed
qed

lemma execute_inner_inv:
  assumes inv: "conn_inv m c" and run: "execute_inner net i expr args c = (r, c')"
  shows "conn_inv m c'" "is_active j (abort_world c') \<Longrightarrow> is_active j (abort_world c)"
proof -
  obtain x d where x: "(if stream c = None then connect_inner net i c else (Inr (), c)) = (x, d)" by fastforce
  have d: "conn_inv m d" "is_active j (abort_world d) \<Longrightarrow> is_active j (abort_world c)"
    using x inv connect_inner_inv [OF inv] connect_inner_active by (auto split: if_splits)
  obtain y e where y: "send_inner Sync expr args d = (y, e)" by fastforce
  have e: "conn_inv m e" "is_active j (abort_world e) \<longleftrightarrow> is_active j (abort_world d)"
    using send_inner_inv [OF d(1) y] send_inner_active [OF y] by auto
  have "conn_inv m c' \<and> (is_active j (abort_world c') \<longrightarrow> is_active j (abort_world c))"
    using run x y d e await_response_inv [OF e(1), of net r c' j]
    by (auto simp: execute_inner_def split: sum.splits)
  then show "conn_inv m c'" "is_active j (abort_world c') \<Longrightarrow> is_active j (abort_world c)" by auto
qed

interpretation executing: io_operation "\<lambda>net i c. execute_inner net i expr args c" for expr args
  by unfold_locales (blast intro: execute_inner_inv)+

lemma execute_async_inner_inv:
  assumes inv: "conn_inv m c" and run: "execute_async_inner net i expr args c = (r, c')"
  shows "conn_inv m c'" "is_active j (abort_world c') \<Longrightarrow> is_active j (abort_world c)"
proof -
  obtain x d where x: "(if stream c = None then connect_inner net i c else (Inr (), c)) = (x, d)" by fastforce
  have d: "conn_inv m d" "is_active j (abort_world d) \<Longrightarrow> is_active j (abort_world c)"
    using x inv connect_inner_inv [OF inv] connect_inner_active by (auto split: if_splits)
  have "conn_inv m c' \<and> (is_active j (abort_world c') \<longrightarrow> is_active j (abort_world c))"
    using run x d send_inner_inv [OF d(1), of Async expr args r c'] send_inner_active [of Async expr args d r c' j]
    by (auto simp: execute_async_inner_def split: if_splits sum.splits)
  then show "conn_inv m c'" "is_active j (abort_world c') \<Longrightarrow> is_active j (abort_world c)" by auto
qed

interpretation executing_async: io_operation "\<lambda>net i c. execute_async_inner net i expr args c" for expr args
  by unfold_locales (blast intro: execute_async_inner_inv)+

section \<open>Whole operations\<close>

lemma begin_with_stream_facts:
  assumes "begin_with_stream net c = (i, c')"
  shows "conn_inv m c' \<longleftrightarrow> conn_inv m c" "is_active i (abort_world c') \<longleftrightarrow> tcp_stream c = None \<or> aborts_before net = 0"
    "stream c' = stream c" "pending_notifications c' = pending_notifications c" "settings c' = settings c"
    "version c' = version c" "symbol_encoding c' = symbol_encoding c" "send_buffer c' = send_buffer c"
    "receive_buffer c' = receive_buffer c" "is_local c' = is_local c"
  using assms begin_active [of "abort_world c"]
  by (auto simp: begin_with_stream_def Let_def attach_tcp_def attach_stream_active aborted_by_active case_prod_beta
      split: option.splits)

text \<open>The states a connector can reach, with the largest notification limit configured so far.\<close>

inductive conn_reachable :: "nat \<Rightarrow> connector \<Rightarrow> bool" where
  created: "conn_reachable 1024 (connector_new h p u pw tls secs v)"
| configured: "conn_reachable m c \<Longrightarrow> configure net st c = (r, c') \<Longrightarrow>
    conn_reachable (max m (max_pending_notifications st)) c'"
| connected: "conn_reachable m c \<Longrightarrow> connect net c = (r, c') \<Longrightarrow> conn_reachable m c'"
| sent_message: "conn_reachable m c \<Longrightarrow> send net kind expr args c = (r, c') \<Longrightarrow> conn_reachable m c'"
| received: "conn_reachable m c \<Longrightarrow> receive net c = (v, c') \<Longrightarrow> conn_reachable m c'"
| executed: "conn_reachable m c \<Longrightarrow> execute net expr args c = (v, c') \<Longrightarrow> conn_reachable m c'"
| executed_async: "conn_reachable m c \<Longrightarrow> execute_async net expr args c = (r, c') \<Longrightarrow> conn_reachable m c'"
| shut_down: "conn_reachable m c \<Longrightarrow> shutdown net c = (r, c') \<Longrightarrow> conn_reachable m c'"

lemma conn_inv_mono: "conn_inv m c \<Longrightarrow> m \<le> n \<Longrightarrow> conn_inv n c"
  by (auto simp: conn_inv_def)

lemma configure_inv:
  "conn_inv m c \<Longrightarrow> configure net st c = (r, c') \<Longrightarrow> conn_inv (max m (max_pending_notifications st)) c'"
  by (auto simp: configure_def split: if_splits sum.splits intro: conn_inv_mono) (auto simp: conn_inv_def)

lemma connect_inv: "conn_inv m c \<Longrightarrow> connect net c = (r, c') \<Longrightarrow> conn_inv m c'"
  using connecting.finished_inv [of m "c\<lparr>abort_world := snd (begin_operation (abort_world c))\<rparr>" net]
  by (simp add: connect_def Let_def case_prod_beta)

lemma send_inv: "conn_inv m c \<Longrightarrow> send net kind expr args c = (r, c') \<Longrightarrow> conn_inv m c'"
  using sending.finished_inv begin_with_stream_facts(1)
  by (fastforce simp: send_def Let_def split: prod.splits)

lemma receive_inv:
  assumes "conn_inv m c" "receive net c = (r, c')"
  shows "conn_inv m c'"
proof (cases "pending_notifications c")
  case Nil
  then show ?thesis using assms receiving.finished_inv begin_with_stream_facts(1)
    by (fastforce simp: receive_def Let_def split: prod.splits)
next
  case (Cons n rest)
  then show ?thesis using assms by (auto simp: receive_def conn_inv_def)
qed

lemma execute_inv: "conn_inv m c \<Longrightarrow> execute net expr args c = (r, c') \<Longrightarrow> conn_inv m c'"
  using executing.finished_inv begin_with_stream_facts(1)
  by (fastforce simp: execute_def Let_def split: prod.splits)

lemma execute_async_inv: "conn_inv m c \<Longrightarrow> execute_async net expr args c = (r, c') \<Longrightarrow> conn_inv m c'"
  using executing_async.finished_inv begin_with_stream_facts(1)
  by (fastforce simp: execute_async_def Let_def split: prod.splits)

lemma shutdown_inv: "conn_inv m c \<Longrightarrow> shutdown net c = (r, c') \<Longrightarrow> conn_inv m c'"
  by (auto simp: shutdown_def conn_inv_def split: if_splits option.splits)

lemma conn_reachable_inv: "conn_reachable m c \<Longrightarrow> conn_inv m c"
proof (induction rule: conn_reachable.induct)
  case (created h p u pw tls secs v)
  show ?case by (simp add: connector_new_def conn_inv_def default_settings_def Let_def)
qed (blast intro: configure_inv connect_inv send_inv receive_inv execute_inv execute_async_inv shutdown_inv)+

section \<open>A request on the wire\<close>

lemma args_size:
  "list_all k_wf args \<Longrightarrow> rfold (\<lambda>v n. rbind (j6_len v) (\<lambda>m. ok_or (checked_add n m) Err)) args acc = Inr n \<Longrightarrow>
     \<exists>vals. rmap serialize_into args = Inr vals \<and> acc + length (concat vals) = n"
proof (induction args arbitrary: acc)
  case (Cons v args)
  then obtain m where m: "j6_len v = Inr m"
    "rfold (\<lambda>v n. rbind (j6_len v) (\<lambda>m. ok_or (checked_add n m) Err)) args (acc + m) = Inr n"
    by (auto simp: rbind_Inr_iff ok_or_Inr_iff checked_add_Some)
  obtain bs where "serialize_into v = Inr bs" "length bs = m"
    using value_size [of v 0 m] Cons.prems(1) m(1) by (auto simp: j6_len_def)
  then show ?case using Cons.IH [OF _ m(2)] Cons.prems(1) by auto
qed simp

lemma request_body_size:
  assumes "list_all k_wf args" "length args \<le> 8" "request_length expr args = Inr (n, lam)"
  shows "\<exists>body. request_body expr el lam args = Inr body \<and> length body = n"
proof (cases "args = []")
  case True
  then show ?thesis using assms(3)
    by (auto simp: request_length_def request_body_def rbind_Inr_iff ok_or_Inr_iff checked_add_Some)
next
  case False
  let ?base = "12 + (if lam then 2 else 0) + length expr"
  from False assms(3) have r: "rfold (\<lambda>v n. rbind (j6_len v) (\<lambda>m. ok_or (checked_add n m) Err)) args ?base = Inr n"
    by (auto simp: request_length_def Let_def rbind_Inr_iff ok_or_Inr_iff bind_eq_Some_conv checked_add_Some)
  obtain vals where "rmap serialize_into args = Inr vals" "?base + length (concat vals) = n"
    using args_size [OF assms(1) r] by blast
  then show ?thesis using False assms(2)
    by (auto simp: request_body_def checked_q_count_def rbind_Inr_iff)
qed

lemma request_plan_facts:
  assumes "request_plan expr args = Inr plan"
  shows "\<exists>lam n hb lo. plan = (length expr, lam, n + 8, hb, lo) \<and> request_length expr args = Inr (n, lam)
    \<and> ipc_length_header (n + 8) = Inr (hb, lo)"
  using assms
  by (auto simp: request_plan_def rbind_Inr_iff rbind_pair_iff checked_outgoing_message_length_def ok_or_Inr_iff
      checked_add_Some IPC_HEADER_LENGTH_def checked_q_count_def split: if_splits)

lemma request_body_min: "request_body expr el lam args = Inr body \<Longrightarrow> 2 \<le> length body"
  by (auto simp: request_body_def rbind_Inr_iff split: if_splits simp del: le_bytes_numeral)

lemma header_is_frame:
  assumes "ipc_length_header (length body + 8) = Inr (hb, lo)"
  shows "ipc_header kind (hb, lo) @ body = ipc_frame kind body" "length body + 8 < 1099511627776"
  using assms by (auto simp: ipc_length_header_Inr ipc_header_def ipc_frame_def le_bytes_4_mod simp del: le_bytes_numeral)

text \<open>The payload of a request is one frame that carries it, compressed or not.\<close>

lemma build_payload_ok:
  assumes wf: "list_all k_wf args" "length args \<le> 8" and plan: "request_plan expr args = Inr plan"
  shows "\<exists>payload body lam. build_payload c kind expr args plan = Inr payload
    \<and> request_body expr (length expr) lam args = Inr body \<and> request_length expr args = Inr (length body, lam)
    \<and> split_ipc_frame (vbytes payload) = Inr (kind, body)"
proof -
  obtain lam n hb lo where p: "plan = (length expr, lam, n + 8, hb, lo)" "request_length expr args = Inr (n, lam)"
    "ipc_length_header (n + 8) = Inr (hb, lo)"
    using request_plan_facts [OF plan] by blast
  obtain body where body: "request_body expr (length expr) lam args = Inr body" "length body = n"
    using request_body_size [OF wf p(2)] by blast
  note min = request_body_min [OF body(1)]
  have f: "ipc_header kind (hb, lo) @ body = ipc_frame kind body" "length body + 8 < 1099511627776"
    using header_is_frame p(3) body(2) by auto
  let ?v = "extend_from_slice (ipc_frame kind body) (reserve_buffer (clear (send_buffer c)) (n + 8))"
  have v: "vbytes ?v = ipc_frame kind body" using reserve_buffer_wf by simp
  have len: "length (ipc_frame kind body) = n + 8" using body(2) by (simp add: ipc_frame_def del: le_bytes_numeral)
  have run: "build_payload c kind expr args plan = (if should_compress c (n + 8) then compress_buffer ?v else Inr ?v)"
    using p(1) body f(1) v len by (simp add: build_payload_def Let_def del: vbytes_simps)
  show ?thesis
  proof (cases "should_compress c (n + 8)")
    case False
    then show ?thesis using run v body split_plain_frame [OF min f(2), of kind] p(2) by auto
  next
    case True
    obtain bs where bs: "compress (ipc_frame kind body) = Inr bs"
      using compress_total [of "ipc_frame kind body"] len f(2) body(2) by auto
    then have "split_ipc_frame bs = Inr (kind, body)" by (rule split_compressed_frame [OF min f(2)])
    then show ?thesis using run v body True bs p(2) by (auto simp: compress_buffer_def)
  qed
qed

lemma write_all_ok:
  assumes "write_faults q = [] \<or> hd (write_faults q) = None"
  shows "\<exists>q'. write_all bs q = (None, q') \<and> sent q' = sent q @ bs \<and> incoming q' = incoming q"
  using assms by (auto simp: write_all_def split: list.splits option.splits)

lemma send_inner_ok:
  assumes "version c \<le> 6" "stream c = Some q" "list_all k_wf args" "length args \<le> 8"
    and "request_plan (trim expr) args = Inr plan" "write_faults q = [] \<or> hd (write_faults q) = None"
  shows "\<exists>payload body lam q' v. send_inner kind expr args c = (Inr (), c\<lparr>stream := Some q', send_buffer := v\<rparr>)
    \<and> request_body (trim expr) (length (trim expr)) lam args = Inr body
    \<and> request_length (trim expr) args = Inr (length body, lam)
    \<and> split_ipc_frame payload = Inr (kind, body) \<and> sent q' = sent q @ payload \<and> incoming q' = incoming q"
proof -
  obtain payload body lam where p: "build_payload c kind (trim expr) args plan = Inr payload"
    "request_body (trim expr) (length (trim expr)) lam args = Inr body"
    "request_length (trim expr) args = Inr (length body, lam)" "split_ipc_frame (vbytes payload) = Inr (kind, body)"
    using build_payload_ok [OF assms(3-5)] by blast
  obtain q' where q: "write_all (vbytes payload) q = (None, q')" "sent q' = sent q @ vbytes payload" "incoming q' = incoming q"
    using write_all_ok [OF assms(6)] by blast
  have "send_inner kind expr args c
      = (Inr (), c\<lparr>stream := Some q', send_buffer := release_oversized_buffer payload\<rparr>)"
    using assms(1,2,4,5) p(1) q(1) by (simp add: send_inner_def transmit_def Let_def)
  then show ?thesis using p q by blast
qed

section \<open>Responses and notifications\<close>

text \<open>A frame that the framing checks accept under the connector's limit.\<close>

definition accepts :: "nat option \<Rightarrow> bytes \<Rightarrow> msg_type \<Rightarrow> bytes \<Rightarrow> bool" where
  "accepts limit frame kind body \<longleftrightarrow>
     (\<exists>h. parse_ipc_header (take 8 frame) = Inr h \<and> prepare_ipc_body h (drop 8 frame) limit = Inr (kind, body))"

text \<open>Two results with the same value, if any.\<close>

definition same_value :: "'a xresult \<Rightarrow> 'a xresult \<Rightarrow> bool" where
  "same_value r r' \<longleftrightarrow> (\<forall>x. r = Inr x \<longleftrightarrow> r' = Inr x)"

definition body_value :: "network \<Rightarrow> connector \<Rightarrow> bytes \<Rightarrow> k xresult" where
  "body_value net c body = decode_value_body (net_ext net) body (symbol_encoding c) (value_mode (settings c))"

definition network_ok :: "network \<Rightarrow> bool" where
  "network_ok net \<longleftrightarrow> (\<forall>s. schedule_ok (net_schedule net s))"

definition pipe_of :: "connector \<Rightarrow> Utf8.symbol_encoding option" where
  "pipe_of c = (if value_mode (settings c) = Native then Some (symbol_encoding c) else None)"

lemma pipe_of_update [simp]: "pipe_of (c\<lparr>stream := s, receive_buffer := v\<rparr>) = pipe_of c"
  by (simp add: pipe_of_def)

lemma read_next_frame_ok:
  assumes "version c \<le> 6" "stream c = Some q" "network_ok net" "delivered (incoming q) = frame @ rest"
    and "accepts (max_message_bytes (settings c)) frame kind body" "kind \<noteq> Sync"
  shows "\<exists>b v q'. read_next_frame net c = (Inr (kind, b), c\<lparr>stream := Some q', receive_buffer := v\<rparr>)
    \<and> delivered (incoming q') = rest \<and> sent q' = sent q
    \<and> body_is (net_ext net) (pipe_of c) v body b"
proof -
  obtain h where h: "parse_ipc_header (take 8 frame) = Inr h"
    "prepare_ipc_body h (drop 8 frame) (max_message_bytes (settings c)) = Inr (kind, body)"
    using assms(5) by (auto simp: accepts_def)
  have sched: "schedule_ok (net_schedule net (incoming q))" using assms(3) by (simp add: network_ok_def)
  let ?pipe = "pipe_of c"
  obtain b v s' where "read_ipc_body (net_ext net) (net_schedule net (incoming q)) (incoming q)
      (max_message_bytes (settings c)) (receive_buffer c) ?pipe = (Inr (kind, b), v, s')"
    "delivered s' = rest" "body_is (net_ext net) ?pipe v body b"
    using read_ipc_body_ok [OF assms(4) h sched] by blast
  then show ?thesis using assms(1,2,6)
    by (intro exI [of _ b] exI [of _ v] exI [of _ "q\<lparr>incoming := s'\<rparr>"]) (simp add: read_next_frame_def pipe_of_def Let_def)
qed

lemma decode_frame_body_ok:
  assumes "body_is (net_ext net) (pipe_of c)
      (receive_buffer c) body b"
  shows "\<exists>r v. decode_frame_body net b c = (r, c\<lparr>receive_buffer := v\<rparr>) \<and> same_value r (body_value net c body)"
  using assms
  by (cases b) (auto simp: decode_frame_body_def body_value_def decode_value_body_def same_value_def pipe_of_def Let_def
      split: if_splits)

lemma await_response_ok:
  assumes "version c \<le> 6" "stream c = Some q" "network_ok net"
    and "delivered (incoming q) = concat frames @ response @ rest"
    and "list_all2 (\<lambda>f b. accepts (max_message_bytes (settings c)) f Async b) frames bodies"
    and "accepts (max_message_bytes (settings c)) response Response body"
    and "length (pending_notifications c) + length frames \<le> max_pending_notifications (settings c)"
  shows "\<exists>r vals v q'. await_response net c =
      (r, c\<lparr>pending_notifications := pending_notifications c @ vals, receive_buffer := v, stream := Some q'\<rparr>)
    \<and> same_value r (body_value net c body) \<and> list_all2 (\<lambda>x b. same_value x (body_value net c b)) vals bodies
    \<and> delivered (incoming q') = rest \<and> sent q' = sent q"
  using assms
proof (induction frames arbitrary: c q bodies)
  case Nil
  obtain b v q' where b: "read_next_frame net c = (Inr (Response, b), c\<lparr>stream := Some q', receive_buffer := v\<rparr>)"
    "delivered (incoming q') = rest" "sent q' = sent q"
    "body_is (net_ext net) (pipe_of c) v body b"
    using read_next_frame_ok [OF Nil.prems(1-3), of response rest Response body] Nil.prems(4,6) by auto
  obtain r w where "decode_frame_body net b (c\<lparr>stream := Some q', receive_buffer := v\<rparr>)
      = (r, c\<lparr>stream := Some q', receive_buffer := w\<rparr>)" "same_value r (body_value net c body)"
    using decode_frame_body_ok [of net "c\<lparr>stream := Some q', receive_buffer := v\<rparr>" body b] b(4)
    by (auto simp: body_value_def)
  then show ?case using b Nil.prems(5)
    by (intro exI [of _ r] exI [of _ "[]"] exI [of _ w] exI [of _ q']) (simp add: await_response.simps [of net c])
next
  case (Cons f frames)
  obtain bd bodies' where bodies: "bodies = bd # bodies'" "accepts (max_message_bytes (settings c)) f Async bd"
    "list_all2 (\<lambda>f b. accepts (max_message_bytes (settings c)) f Async b) frames bodies'"
    using Cons.prems(5) by (auto simp: list_all2_Cons1)
  obtain b v q' where b: "read_next_frame net c = (Inr (Async, b), c\<lparr>stream := Some q', receive_buffer := v\<rparr>)"
    "delivered (incoming q') = concat frames @ response @ rest" "sent q' = sent q"
    "body_is (net_ext net) (pipe_of c) v bd b"
    using read_next_frame_ok [OF Cons.prems(1-3), of f "concat frames @ response @ rest" Async bd] Cons.prems(4) bodies(2)
    by auto
  obtain x w where x: "decode_frame_body net b (c\<lparr>stream := Some q', receive_buffer := v\<rparr>)
      = (x, c\<lparr>stream := Some q', receive_buffer := w\<rparr>)" "same_value x (body_value net c bd)"
    using decode_frame_body_ok [of net "c\<lparr>stream := Some q', receive_buffer := v\<rparr>" bd b] b(4)
    by (auto simp: body_value_def)
  let ?c = "c\<lparr>stream := Some q', receive_buffer := w, pending_notifications := pending_notifications c @ [x]\<rparr>"
  have step: "await_response net c = await_response net ?c"
    using b(1) x(1) Cons.prems(7) by (simp add: await_response.simps [of net c])
  obtain r vals v2 q2 where "await_response net ?c =
      (r, ?c\<lparr>pending_notifications := pending_notifications ?c @ vals, receive_buffer := v2, stream := Some q2\<rparr>)"
    "same_value r (body_value net c body)" "list_all2 (\<lambda>x b. same_value x (body_value net c b)) vals bodies'"
    "delivered (incoming q2) = rest" "sent q2 = sent q'"
    using Cons.IH [of ?c q' bodies'] Cons.prems(1,3,6,7) b(2) bodies(3)
    by (auto simp: body_value_def)
  then show ?case using step x(2) b(3) bodies(1)
    by (intro exI [of _ r] exI [of _ "x # vals"] exI [of _ v2] exI [of _ q2]) simp
qed

lemma finish_quiet:
  assumes "is_active i (abort_world c)" "aborts_during net = 0"
  shows "\<exists>w. finish_operation net i (r, c) = (r, c\<lparr>abort_world := w\<rparr>)"
proof -
  obtain r' c' where f: "finish_operation net i (r, c) = (r', c')" by fastforce
  then show ?thesis using finish_operation_result [OF f] assms by auto
qed

lemma begin_quiet:
  assumes "aborts_before net = 0"
  shows "\<exists>i w. begin_with_stream net c = (i, c\<lparr>abort_world := w\<rparr>) \<and> is_active i w"
proof -
  obtain i c' where b: "begin_with_stream net c = (i, c')" by fastforce
  then have "\<exists>w. c' = c\<lparr>abort_world := w\<rparr>"
    by (auto simp: begin_with_stream_def Let_def attach_tcp_def case_prod_beta split: option.splits)
  then show ?thesis using b begin_with_stream_facts(2) [OF b] assms by auto
qed

section \<open>Opening a connection\<close>

text \<open>The attempt at an address when the clock has been read \<open>i\<close> times.\<close>

definition attempt :: "network \<Rightarrow> duration \<Rightarrow> nat \<Rightarrow> nat \<Rightarrow> io_kind + socket \<times> connection" where
  "attempt net limit i address = net_connect net address (if limit = 0 then None else Some (limit - net_elapsed net i))"

lemma connect_first_success:
  "connect_to_addresses net limit i e addresses = Inr x \<longleftrightarrow>
     (\<exists>k < length addresses. attempt net limit (i + k) (addresses ! k) = Inr x
        \<and> (\<forall>j < k. \<exists>e. attempt net limit (i + j) (addresses ! j) = Inl e)
        \<and> (limit \<noteq> 0 \<longrightarrow> (\<forall>j \<le> k. net_elapsed net (i + j) < limit)))"
proof (induction net limit i e addresses rule: connect_to_addresses.induct)
  case (2 net limit i e address addresses)
  let ?P = "\<lambda>i as k. attempt net limit (i + k) (as ! k) = Inr x
        \<and> (\<forall>j < k. \<exists>e. attempt net limit (i + j) (as ! j) = Inl e)
        \<and> (limit \<noteq> 0 \<longrightarrow> (\<forall>j \<le> k. net_elapsed net (i + j) < limit))"
  let ?late = "limit \<noteq> 0 \<and> limit \<le> net_elapsed net i"
  have shift: "(\<exists>k < length (address # addresses). Q k) \<longleftrightarrow> Q 0 \<or> (\<exists>k < length addresses. Q (Suc k))" for Q
    using less_Suc_eq_0_disj by auto
  have zero: "?P i (address # addresses) 0 \<longleftrightarrow> attempt net limit i address = Inr x \<and> \<not> ?late"
    by (auto simp: not_le)
  have suc: "?P i (address # addresses) (Suc k) \<longleftrightarrow> (\<exists>e. attempt net limit i address = Inl e) \<and> \<not> ?late
      \<and> ?P (i + 1) addresses k" for k
    by (auto simp: All_less_Suc2 not_le simp flip: less_Suc_eq_le)
  have step: "connect_to_addresses net limit i e (address # addresses) =
     (if ?late then Inl TimedOut else case attempt net limit i address of Inr c \<Rightarrow> Inr c
      | Inl e \<Rightarrow> connect_to_addresses net limit (i + 1) (Some e) addresses)"
    by (auto simp: attempt_def split: sum.splits)
  show ?case
  proof (cases "attempt net limit i address")
    case (Inl e')
    have "connect_to_addresses net limit (i + 1) (Some e') addresses = Inr x
        \<longleftrightarrow> (\<exists>k < length addresses. ?P (i + 1) addresses k)" if "\<not> ?late"
      using 2 Inl that by (cases "limit = 0") (auto simp: attempt_def)
    then show ?thesis unfolding step shift zero suc using Inl by auto
  next
    case (Inr c)
    then show ?thesis unfolding step shift zero suc by auto
  qed
qed simp

text \<open>An open connection to a quiet server, as an example.\<close>

definition example_network :: network where
  "example_network =
     \<lparr>net_ext = \<lparr>from_num_days = Some, from_ymd = \<lambda>_ _. None, frame_ok = \<lambda>_. True, hstack_ok = \<lambda>_ _. True\<rparr>,
      net_schedule = \<lambda>_. \<lparr>observed = \<lambda>_. [], arrival = \<lambda>n. [0..<n]\<rparr>, net_shutdown = \<lambda>_. None,
      net_resolve = \<lambda>_ _. Inr [0], net_connect = \<lambda>_ _. Inl TimedOut, net_elapsed = \<lambda>_. 0,
      net_option = \<lambda>_ _. None, net_server_name = \<lambda>_. Inr (), net_client_config = \<lambda>_. Inr (),
      net_tls = \<lambda>_ _ q. Inr q, aborts_before = 0, aborts_during = 0\<rparr>"

definition example_connector :: "NetStream.stream \<Rightarrow> connector" where
  "example_connector s = (connector_new [] 5000 [] [] False 0 3)
     \<lparr>stream := Some \<lparr>incoming = s, write_faults = [], sent = []\<rparr>, tcp_stream := Some 1\<rparr>"

lemma example_ok:
  "network_ok example_network" "aborts_before example_network = 0" "aborts_during example_network = 0"
  "version (example_connector s) = 3" "pending_notifications (example_connector s) = []"
  "settings (example_connector s) = default_settings"
  "stream (example_connector s) = Some \<lparr>incoming = s, write_faults = [], sent = []\<rparr>"
  by (simp_all add: network_ok_def example_network_def schedule_ok_def atLeast0LessThan example_connector_def
      connector_new_def Let_def)

lemma example_request: "request_plan (trim [49, 43, 49]) [] = Inr (3, False, 17, 0, 17)"
  by (simp add: trim_def trim_front.simps WHITE_SPACE_def request_plan_def request_length_def checked_q_count_def
      checked_outgoing_message_length_def ipc_length_header_def checked_add_def frame_consts)

lemma example_frame:
  "accepts None [1, msg_type_code kind, 0, 0, 10, 0, 0, 0, 255, b] kind [255, b]"
  by (cases kind) (simp_all add: accepts_def parse_ipc_header_def prepare_ipc_body_def frame_consts message_type_def
      checked_add_def checked_sub_def checked_body_length_def enforce_message_bound_def)

section \<open>Properties\<close>

text \<open>
  C12: whatever operations are called, with whatever arguments, network behaviour, failures and
  aborts, a connector has a socket exactly when it has a connection, never queues more
  notifications than the largest limit it was configured with, and never keeps a receive or send
  buffer above the retention limit between operations.
\<close>
theorem connector_invariant:
  assumes "conn_reachable m c"
  shows "(stream c = None \<longleftrightarrow> tcp_stream c = None) \<and> length (pending_notifications c) \<le> m
    \<and> vcap (receive_buffer c) \<le> MAX_RETAINED_BUFFER_BYTES \<and> vcap (send_buffer c) \<le> MAX_RETAINED_BUFFER_BYTES"
  using conn_reachable_inv [OF assms] by (simp add: conn_inv_def retained_def)

theorem connector_invariant_witness:
  "length (pending_notifications (connector_new [] 5000 [] [] False 0 3)) \<le> 1024"
  using connector_invariant [OF conn_reachable.created [of "[]" 5000 "[]" "[]" False 0 3]] by blast



text \<open>
  C11: an execution returns the response to its request and keeps every notification that arrived
  before it. If the server sends some notification frames and then the response, in any
  fragmentation, and the queue has room for them, the execution writes its request as one
  synchronous frame, returns the value of the response's body, queues the values of the
  notifications behind the ones already queued, in the order they arrived, and leaves what
  follows the response unread.
\<close>
theorem execution_returns_its_response:
  assumes "version c \<le> 6" "stream c = Some q" "list_all k_wf args" "length args \<le> 8"
    and "request_plan (trim expr) args = Inr plan" "write_faults q = [] \<or> hd (write_faults q) = None"
    and "aborts_before net = 0" "aborts_during net = 0" "network_ok net"
    and "delivered (incoming q) = concat frames @ response @ rest"
    and "list_all2 (\<lambda>f b. accepts (max_message_bytes (settings c)) f Async b) frames bodies"
    and "accepts (max_message_bytes (settings c)) response Response body"
    and "length (pending_notifications c) + length frames \<le> max_pending_notifications (settings c)"
  shows "\<exists>r vals payload request q' c'. execute net expr args c = (r, c')
    \<and> same_value r (body_value net c body)
    \<and> pending_notifications c' = pending_notifications c @ vals
    \<and> list_all2 (\<lambda>x b. same_value x (body_value net c b)) vals bodies
    \<and> stream c' = Some q' \<and> delivered (incoming q') = rest
    \<and> sent q' = sent q @ payload \<and> split_ipc_frame payload = Inr (Sync, request)"
proof -
  obtain i w where b: "begin_with_stream net c = (i, c\<lparr>abort_world := w\<rparr>)" "is_active i w"
    using begin_quiet [OF assms(7)] by blast
  let ?c = "c\<lparr>abort_world := w\<rparr>"
  obtain payload request lam q1 v where s: "send_inner Sync expr args ?c = (Inr (), ?c\<lparr>stream := Some q1, send_buffer := v\<rparr>)"
    "split_ipc_frame payload = Inr (Sync, request)" "sent q1 = sent q @ payload" "incoming q1 = incoming q"
    using send_inner_ok [of ?c q args expr plan Sync] assms(1-6) by auto
  let ?d = "?c\<lparr>stream := Some q1, send_buffer := v\<rparr>"
  obtain r vals u q' where a: "await_response net ?d =
      (r, ?d\<lparr>pending_notifications := pending_notifications c @ vals, receive_buffer := u, stream := Some q'\<rparr>)"
    "same_value r (body_value net c body)" "list_all2 (\<lambda>x b. same_value x (body_value net c b)) vals bodies"
    "delivered (incoming q') = rest" "sent q' = sent q1"
    using await_response_ok [of ?d q1 net frames response rest bodies body] assms(1,9-13) s(4)
    by (auto simp: body_value_def)
  let ?e = "?d\<lparr>pending_notifications := pending_notifications c @ vals, receive_buffer := u, stream := Some q'\<rparr>"
  obtain w' where f: "finish_operation net i (r, ?e) = (r, ?e\<lparr>abort_world := w'\<rparr>)"
    using finish_quiet [of i ?e net r] b(2) assms(8) by auto
  have "execute_inner net i expr args ?c = (r, ?e)"
    using assms(2) s(1) a(1) by (simp add: execute_inner_def)
  then have run: "execute net expr args c = (r, ?e\<lparr>abort_world := w'\<rparr>)" using b(1) f by (simp add: execute_def)
  show ?thesis
    by (rule exI [of _ r], rule exI [of _ vals], rule exI [of _ payload], rule exI [of _ request], rule exI [of _ q'],
        rule exI [of _ "?e\<lparr>abort_world := w'\<rparr>"]) (simp add: run a s)
qed

theorem execution_returns_its_response_witness:
  "\<exists>r vals payload request q' c'.
     execute example_network [49, 43, 49] [] (example_connector
       [Chunk [1, 0, 0, 0, 10, 0, 0, 0], ReadFail Interrupted, Chunk [255, 1, 1, 2, 0], Chunk [0, 10, 0, 0, 0, 255, 0, 9]]) = (r, c')
     \<and> same_value r (body_value example_network (example_connector
         [Chunk [1, 0, 0, 0, 10, 0, 0, 0], ReadFail Interrupted, Chunk [255, 1, 1, 2, 0], Chunk [0, 10, 0, 0, 0, 255, 0, 9]]) [255, 0])
     \<and> length vals = 1 \<and> pending_notifications c' = vals \<and> stream c' = Some q' \<and> delivered (incoming q') = [9]
     \<and> sent q' = payload \<and> split_ipc_frame payload = Inr (Sync, request)"
proof -
  let ?s = "[Chunk [1, 0, 0, 0, 10, 0, 0, 0], ReadFail Interrupted, Chunk [255, 1, 1, 2, 0], Chunk [0, 10, 0, 0, 0, 255, 0, 9]] :: NetStream.stream"
  have d: "delivered (incoming \<lparr>incoming = ?s, write_faults = [], sent = []\<rparr>)
      = concat [[1, 0, 0, 0, 10, 0, 0, 0, 255, 1]] @ [1, 2, 0, 0, 10, 0, 0, 0, 255, 0] @ [9]" by simp
  show ?thesis
    using execution_returns_its_response [of "example_connector ?s" "\<lparr>incoming = ?s, write_faults = [], sent = []\<rparr>" "[]"
        "[49, 43, 49]" "(3, False, 17, 0, 17)" example_network, OF _ _ _ _ _ _ _ _ _ d, of "[[255, 1]]" "[255, 0]"]
      example_frame [of Async 1] example_frame [of Response 0]
    by (simp add: example_ok example_request default_settings_def list_all2_Cons2) (metis length_0_conv length_Suc_conv)
qed

text \<open>
  C14: an aborted operation is reported as interrupted and leaves the connector disconnected. If
  another thread aborts while an operation of a reachable connector performs its I/O, then
  whatever the operation itself achieved, it returns the interruption error, the connection is
  dropped, and nothing of its result is used.
\<close>
theorem aborted_operations_disconnect:
  assumes "conn_reachable m c" "0 < aborts_during net"
  shows "(connect net c = (r, c') \<longrightarrow> r = Inl (IOError Interrupted) \<and> stream c' = None)
    \<and> (send net kind expr args c = (r, c') \<longrightarrow> r = Inl (IOError Interrupted) \<and> stream c' = None)
    \<and> (execute_async net expr args c = (r, c') \<longrightarrow> r = Inl (IOError Interrupted) \<and> stream c' = None)
    \<and> (execute net expr args c = (v, c') \<longrightarrow> v = Inl (IOError Interrupted) \<and> stream c' = None)
    \<and> (pending_notifications c = [] \<longrightarrow> receive net c = (v, c') \<longrightarrow> v = Inl (IOError Interrupted) \<and> stream c' = None)"
proof -
  have inv: "conn_inv m c" by (rule conn_reachable_inv [OF assms(1)])
  obtain i d where b: "begin_with_stream net c = (i, d)" by fastforce
  have d: "conn_inv m d" using inv begin_with_stream_facts(1) [OF b] by simp
  have ab: "0 < aborts_during net \<or> \<not> is_active j w" for j w using assms(2) by simp
  let ?e = "c\<lparr>abort_world := snd (begin_operation (abort_world c))\<rparr>"
  have e: "conn_inv m ?e" using inv by simp
  show ?thesis
    using connecting.aborted_disconnects [OF e _ ab] sending.aborted_disconnects [OF d _ ab]
      executing_async.aborted_disconnects [OF d _ ab] executing.aborted_disconnects [OF d _ ab]
      receiving.aborted_disconnects [OF d _ ab] b
    by (simp add: connect_def send_def execute_async_def execute_def receive_def Let_def case_prod_beta)
qed

theorem aborted_operations_disconnect_witness:
  "fst (send (example_network\<lparr>aborts_during := 1\<rparr>) Async [49] [] (connector_new [] 5000 [] [] False 0 3)) = Inl (IOError Interrupted)"
proof -
  let ?c = "connector_new [] 5000 [] [] False 0 3" and ?net = "example_network\<lparr>aborts_during := 1\<rparr>"
  obtain r c' where x: "send ?net Async [49] [] ?c = (r, c')" by fastforce
  have "0 < aborts_during ?net" by simp
  from aborted_operations_disconnect [OF conn_reachable.created this] x show ?thesis by auto
qed

text \<open>
  The addresses of a host are tried in order: a connection is opened at an address exactly
  when every address before it failed, its own attempt succeeded, and the connection timeout, when
  there is one, had not yet run out at any of these attempts; each attempt gets only the time left.
\<close>
theorem first_reachable_address_wins:
  "connect_to_addresses net limit i e addresses = Inr x \<longleftrightarrow>
     (\<exists>k < length addresses. attempt net limit (i + k) (addresses ! k) = Inr x
        \<and> (\<forall>j < k. \<exists>e. attempt net limit (i + j) (addresses ! j) = Inl e)
        \<and> (limit \<noteq> 0 \<longrightarrow> (\<forall>j \<le> k. net_elapsed net (i + j) < limit)))"
  by (rule connect_first_success)

theorem first_reachable_address_wins_witness:
  "connect_to_addresses (example_network\<lparr>net_connect := \<lambda>a _. if a = 5 then Inr (1, \<lparr>incoming = [], write_faults = [], sent = []\<rparr>)
       else Inl TimedOut\<rparr>) 0 0 None [4, 5] = Inr (1, \<lparr>incoming = [], write_faults = [], sent = []\<rparr>)"
  unfolding first_reachable_address_wins by (intro exI [of _ 1]) (simp add: attempt_def)

text \<open>
  C15: a connection whose framing failed is never used again: whenever no whole, acceptable frame
  could be read (the stream ended or failed, the header, the lengths or the compressed data were
  refused, or the server sent a request of its own), the connector is disconnected with an empty
  receive buffer, and the only other error is not having been connected in the first place.
\<close>
theorem framing_errors_disconnect:
  assumes "read_next_frame net c = (Inl e, c')"
  shows "(e = NotConnectedErr \<and> c' = c \<and> (version c > 6 \<or> stream c = None))
    \<or> (stream c' = None \<and> tcp_stream c' = None \<and> receive_buffer c' = empty_vec
       \<and> pending_notifications c' = pending_notifications c)"
  using assms
  by (auto simp: read_next_frame_def Let_def split: if_splits prod.splits sum.splits option.splits)

theorem framing_errors_disconnect_witness:
  "stream (snd (read_next_frame example_network (example_connector [Chunk [0, 1]]))) = None"
proof -
  obtain r c' where x: "read_next_frame example_network (example_connector [Chunk [0, 1]]) = (r, c')" by fastforce
  then have "r = Inl (IOError UnexpectedEof)"
    by (simp add: read_next_frame_def example_ok read_ipc_body_def read_exact_def read_to_limit.simps
        IPC_HEADER_LENGTH_def Let_def split: prod.splits)
  then show ?thesis using framing_errors_disconnect [of example_network "example_connector [Chunk [0, 1]]"] x
    by (auto simp: example_ok)
qed

end
