(* ===== verification/KValueRoundTrip.thy ===== *)
theory KValueRoundTrip
  imports KRoundTrip
begin

text \<open>
  Round trips of whole values: every value that q can hold exactly is read back from the bytes the
  serializer writes for it. \<open>value_normal\<close> says which values those are, \<open>wire_depth\<close> how many levels the
  reader descends for one, \<open>plain\<close> removes what the wire does not carry.
\<close>

section \<open>Atoms\<close>

lemma take_bytes_at:
  assumes "length b = n" "length (pre @ t # b @ post) < usize_limit"
  shows "take_bytes n (pre @ t # b @ post) (length pre + 1) = Inr (b, length pre + 1 + n)"
proof -
  have "get_range ((pre @ [t]) @ b @ post) (length (pre @ [t])) (length (pre @ [t]) + length b) = Some b" by (rule get_range_append)
  then show ?thesis using assms by (simp add: take_bytes_def checked_add_def)
qed

lemma take_text_at:
  assumes "0 \<notin> set s" "utf8_valid s" "length (pre @ t # s @ 0 # post) < usize_limit"
  shows "take_utf8_until_nul (pre @ t # s @ 0 # post) (length pre + 1) enc = Inr (s, length pre + 2 + length s)"
proof -
  have "get_range ((pre @ [t]) @ s @ 0 # post) (length (pre @ [t])) (length (pre @ [t]) + length s) = Some s" by (rule get_range_append)
  then show ?thesis
    using assms by (simp add: take_utf8_until_nul_def take_until_nul_at_def get_from_def checked_add_def decode_utf8_def)
qed

text \<open>Values up to what the wire does not carry: the name of a series, and whether text is a string or a character vector.\<close>

function plain :: "k \<Rightarrow> k" where
  "plain v = (case v of
      KString s \<Rightarrow> KCharVector s
    | KSeries s \<Rightarrow> KSeries (s\<lparr>s_name := []\<rparr>)
    | KMixedList vs \<Rightarrow> KMixedList (map (\<lambda>x. plain x) vs)
    | KDict d \<Rightarrow> KDict (map (\<lambda>(key, x). (key, plain x)) d)
    | _ \<Rightarrow> v)"
  by pat_completeness auto
termination
proof (relation "measure size")
  fix v vs x assume "v = KMixedList vs" "x \<in> set vs"
  then show "(x, v) \<in> measure size" using k_size_members(1) by simp
next
  fix v d p key x assume "v = KDict d" "p \<in> set d" "(key, x) = p"
  then show "(x, v) \<in> measure size" using k_size_members(2) [of p d] by auto
qed auto

declare plain.simps [simp del]

lemma plain_simps [simp]:
  "plain (KMixedList vs) = KMixedList (map plain vs)"
  "plain (KDict d) = KDict (map (\<lambda>(key, x). (key, plain x)) d)"
  "plain (KSeries s) = KSeries (s\<lparr>s_name := []\<rparr>)" "plain (KString t) = KCharVector t" "plain (KCharVector t) = KCharVector t"
  by (simp_all add: plain.simps [of "KMixedList vs"] plain.simps [of "KDict d"] plain.simps [of "KSeries s"]
      plain.simps [of "KString t"] plain.simps [of "KCharVector t"])

definition reads :: "externals \<Rightarrow> symbol_encoding \<Rightarrow> nat \<Rightarrow> bytes \<Rightarrow> k \<Rightarrow> bool" where
  "reads ext enc depth bs v \<longleftrightarrow> (\<forall>pre post. length (pre @ bs @ post) < usize_limit \<longrightarrow>
     (\<exists>v'. deserialize_unchecked ext (pre @ bs @ post) enc depth False (length pre) = Inr (v', length pre + length bs)
        \<and> plain v' = plain v))"

text \<open>What follows a type byte.\<close>

definition dispatch :: "externals \<Rightarrow> symbol_encoding \<Rightarrow> nat \<Rightarrow> bytes \<Rightarrow> byte \<Rightarrow> nat \<Rightarrow> (k \<times> nat) xresult" where
  "dispatch ext enc depth vec t pos =
     (if t \<ge> 237 then deserialize_atom ext vec enc t pos
      else if t \<le> 19 then deserialize_list (\<lambda>c p. deserialize_unchecked ext vec enc (depth + 1) c p) vec False enc t pos
      else if t = 99 then deserialize_dictionary ext (\<lambda>c p. deserialize_unchecked ext vec enc (depth + 1) c p) vec False enc pos
      else if t = 98 then deserialize_table ext vec enc pos
      else if t = 100 then deserialize_lambda vec pos enc
      else deserialize_operator vec t pos)"

lemma readsI:
  assumes "depth \<le> MAX_VALUE_DEPTH"
    and "\<And>pre post. length (pre @ t # b @ post) < usize_limit \<Longrightarrow>
       \<exists>v'. dispatch ext enc depth (pre @ t # b @ post) t (length pre + 1) = Inr (v', length pre + 1 + length b)
         \<and> plain v' = plain v"
    and "t \<le> 19 \<or> 98 \<le> t \<and> t \<le> 103 \<or> 237 \<le> t"
  shows "reads ext enc depth (t # b) v"
  unfolding reads_def
proof (intro allI impI)
  fix pre post assume l: "length (pre @ (t # b) @ post) < usize_limit"
  have g: "get_at (pre @ t # b @ post) (length pre) = Some t" by (simp add: get_at_def nth_append)
  have t: "t \<noteq> 128" "\<not> 237 \<le> t \<Longrightarrow> \<not> t \<le> 19 \<Longrightarrow> t \<noteq> 99 \<Longrightarrow> t \<noteq> 98 \<Longrightarrow> t \<noteq> 100 \<Longrightarrow> 101 \<le> t \<and> t \<le> 103"
    using assms(3) by (auto simp: word_le_nat_alt word_unat_eq_iff)
  show "\<exists>v'. deserialize_unchecked ext (pre @ (t # b) @ post) enc depth False (length pre) = Inr (v', length pre + length (t # b))
        \<and> plain v' = plain v"
    using assms(2) [of pre post] l g assms(1) t
    by (subst deserialize_unchecked.simps) (auto split: if_splits simp: Let_def dispatch_def simp del: length_append)
qed


lemma reads_atom:
  assumes "depth \<le> MAX_VALUE_DEPTH" "237 \<le> t"
    and "\<And>pre post. length (pre @ t # b @ post) < usize_limit \<Longrightarrow>
       deserialize_atom ext (pre @ t # b @ post) enc t (length pre + 1) = Inr (v, length pre + 1 + length b)"
  shows "reads ext enc depth (t # b) v"
  using assms by (intro readsI) (auto simp: dispatch_def)

lemma reads_number:
  assumes "depth \<le> MAX_VALUE_DEPTH" "237 \<le> t" "length b = n"
    and "\<And>vec pos. take_bytes n vec pos = Inr (b, pos + n) \<Longrightarrow> deserialize_atom ext vec enc t pos = Inr (v, pos + n)"
  shows "reads ext enc depth (t # b) v"
proof (rule reads_atom [OF assms(1,2)])
  fix pre post assume "length (pre @ t # b @ post) < usize_limit"
  from assms(4) [OF take_bytes_at [OF assms(3) this]] assms(3)
  show "deserialize_atom ext (pre @ t # b @ post) enc t (length pre + 1) = Inr (v, length pre + 1 + length b)" by simp
qed

lemma reads_plain_atoms:
  assumes d: "depth \<le> MAX_VALUE_DEPTH"
  shows "reads ext enc depth [255, bool_byte b] (KBoolean b)"
    "length g = 16 \<Longrightarrow> reads ext enc depth (254 # g) (KGuid g)"
    "reads ext enc depth [252, c] (KU8 c)"
    "reads ext enc depth (251 # le_word i16) (KI16 i16)"
    "reads ext enc depth (250 # le_word i32) (KI32 i32)"
    "reads ext enc depth (249 # le_word i64) (KI64 i64)"
    "reads ext enc depth (248 # le_word f) (KF32 f)"
    "reads ext enc depth (247 # le_word g64) (KF64 g64)"
    "reads ext enc depth [246, c] (KChar c)"
proof -
  show "reads ext enc depth [255, bool_byte b] (KBoolean b)"
    by (rule reads_number [OF d, of _ _ 1]) (auto simp: deserialize_atom_def bool_byte_def)
  show "length g = 16 \<Longrightarrow> reads ext enc depth (254 # g) (KGuid g)"
    by (rule reads_number [OF d, of _ _ 16]) (auto simp: deserialize_atom_def)
  show "reads ext enc depth [252, c] (KU8 c)"
    by (rule reads_number [OF d, of _ _ 1]) (auto simp: deserialize_atom_def)
  show "reads ext enc depth (251 # le_word i16) (KI16 i16)"
    by (rule reads_number [OF d, of _ _ 2]) (auto simp: deserialize_atom_def length_le_word)
  show "reads ext enc depth (250 # le_word i32) (KI32 i32)"
    by (rule reads_number [OF d, of _ _ 4]) (auto simp: deserialize_atom_def length_le_word)
  show "reads ext enc depth (249 # le_word i64) (KI64 i64)"
    by (rule reads_number [OF d, of _ _ 8]) (auto simp: deserialize_atom_def length_le_word)
  show "reads ext enc depth (248 # le_word f) (KF32 f)"
    by (rule reads_number [OF d, of _ _ 4]) (auto simp: deserialize_atom_def length_le_word)
  show "reads ext enc depth (247 # le_word g64) (KF64 g64)"
    by (rule reads_number [OF d, of _ _ 8]) (auto simp: deserialize_atom_def length_le_word)
  show "reads ext enc depth [246, c] (KChar c)"
    by (rule reads_number [OF d, of _ _ 1]) (auto simp: deserialize_atom_def)
qed

lemma reads_symbol:
  assumes "depth \<le> MAX_VALUE_DEPTH" "0 \<notin> set s" "utf8_valid s"
  shows "reads ext enc depth (245 # s @ [0]) (KSymbol s)"
proof (rule reads_atom [OF assms(1)])
  fix pre post assume "length (pre @ 245 # (s @ [0]) @ post) < usize_limit"
  then show "deserialize_atom ext (pre @ 245 # (s @ [0]) @ post) enc 245 (length pre + 1) = Inr (KSymbol s, length pre + 1 + length (s @ [0]))"
    using take_text_at [OF assms(2,3), of pre 245 post enc] by (simp add: deserialize_atom_def)
qed simp

text \<open>Times.\<close>

lemma reads_datetime:
  assumes d: "depth \<le> MAX_VALUE_DEPTH" and q: "timestamp_nanos_opt t = Some u" "q_timestamp_nanoseconds u = Inr i"
  shows "reads ext enc depth (244 # le_int 8 i) (KDateTime t)"
proof -
  have i: "i = t - NANOS_DIFF" "-9223372036854775807 < i" "i < 9223372036854775807"
    and t: "-9223372036854775808 \<le> t" "t < 9223372036854775808"
    using q by (auto simp: q_timestamp_nanoseconds_def timestamp_nanos_opt_def checked_i64_def split: if_splits)
  have "sint (word_of_int i :: 64 word) = i" using i by (intro sint_word_of_int) simp_all
  moreover have "sint I64_MIN = -9223372036854775808" by (simp add: I64_MIN_def)
  ultimately have "(of_le (le_int 8 i) :: 64 word) \<noteq> I64_MIN" using i(2) by (force simp: of_le_le_int)
  moreover have "unix_timestamp_nanoseconds i = Inr t"
    using i t by (simp add: unix_timestamp_nanoseconds_def checked_i64_def)
  ultimately show ?thesis using i(2,3)
    by (intro reads_number [OF d, of _ _ 8]) (auto simp: deserialize_atom_def deserialize_temporal_atom_def le_i64_le_int)
qed

lemma reads_date:
  assumes d: "depth \<le> MAX_VALUE_DEPTH" and c: "checked_i32 (x - DAY_DIFF) = Some i" "checked_i32 x = Some x" "from_num_days ext x = Some x"
  shows "reads ext enc depth (242 # le_int 4 i) (KDate x)"
proof -
  have "i = x - DAY_DIFF" "-2147483648 \<le> i" "i < 2147483648" using c(1) by (auto simp: checked_i32_Some)
  then show ?thesis using c(2,3)
    by (intro reads_number [OF d, of _ _ 4]) (auto simp: deserialize_atom_def deserialize_temporal_atom_def le_i32_le_int)
qed

lemma reads_duration:
  assumes d: "depth \<le> MAX_VALUE_DEPTH" and c: "checked_i64 x = Some i"
  shows "reads ext enc depth (240 # le_int 8 i) (KDuration x)"
  using c by (intro reads_number [OF d, of _ _ 8])
    (auto simp: deserialize_atom_def deserialize_temporal_atom_def le_i64_le_int checked_i64_Some)

lemma reads_time:
  assumes d: "depth \<le> MAX_VALUE_DEPTH" and t: "secs < 86400" "nano < 1000000000" "nano mod 1000000 = 0"
  shows "reads ext enc depth (237 # le_int 4 (int (secs * 1000 + nano div 1000000))) (KTime secs nano)"
proof -
  let ?u = "int (secs * 1000 + nano div 1000000)"
  have n: "nano div 1000000 * 1000000 = nano" using t(3) div_mult_mod_eq [of nano 1000000] by simp
  have u: "?u * 1000000 = int (secs * 1000000000 + nano)"
  proof -
    have "(secs * 1000 + nano div 1000000) * 1000000 = secs * 1000000000 + nano" using n by (simp add: add_mult_distrib)
    from arg_cong [OF this, of int] show ?thesis unfolding of_nat_mult of_nat_numeral .
  qed
  have "?u * 1000000 < NANOS_PER_DAY" using u t by (simp add: NANOS_PER_DAY_def)
  moreover have "time_of_nanoseconds (?u * 1000000) = KTime secs nano"
    unfolding u time_of_nanoseconds_def using t(2) by (simp flip: of_nat_mod zdiv_int zmod_int)
  ultimately show ?thesis using t u
    by (intro reads_number [OF d, of _ _ 4])
      (auto simp: deserialize_atom_def deserialize_temporal_atom_def le_i32_le_int checked_i64_def time_multiplier_def Let_def NANOS_PER_DAY_def)
qed

section \<open>Text, series, operators and lambdas\<close>

lemma column_end:
  assumes "column_wire enc c tb w" "length (pre @ t # w @ post) < usize_limit"
  shows "calculate_array_end_index (pre @ t # w @ post) (length pre + 1) tb = Inr (length pre + 1 + length w)"
    "get_range (pre @ t # w @ post) (length pre + 1) (length pre + 1 + length w) = Some w"
proof -
  have "length ((pre @ [t]) @ w @ post) < usize_limit" using assms(2) by simp
  then have "calculate_array_end_index ((pre @ [t]) @ w @ post) (length (pre @ [t])) tb = Inr (length (pre @ [t]) + length w)"
    using assms(1) unfolding column_wire_def by blast
  then show "calculate_array_end_index (pre @ t # w @ post) (length pre + 1) tb = Inr (length pre + 1 + length w)" by simp
  have "get_range ((pre @ [t]) @ w @ post) (length (pre @ [t])) (length (pre @ [t]) + length w) = Some w" by (rule get_range_append)
  then show "get_range (pre @ t # w @ post) (length pre + 1) (length pre + 1 + length w) = Some w" by simp
qed

lemma reads_series:
  assumes d: "depth \<le> MAX_VALUE_DEPTH" and w: "column_wire enc c tb w"
  shows "reads ext enc depth (tb # w) (KSeries \<lparr>s_name = n, s_data = c\<rparr>)"
proof (rule readsI [OF d])
  have tb: "tb \<le> 19" "tb \<noteq> 10" using w by (auto simp: column_wire_def)
  then have tb': "\<not> 237 \<le> tb" by (simp add: word_le_nat_alt)
  show "tb \<le> 19 \<or> 98 \<le> tb \<and> tb \<le> 103 \<or> 237 \<le> tb" using tb by simp
  fix pre post assume l: "length (pre @ tb # w @ post) < usize_limit"
  obtain name where "deserialize_series w tb True enc = Inr (KSeries \<lparr>s_name = name, s_data = c\<rparr>)"
    using w by (auto simp: column_wire_def)
  then show "\<exists>v'. dispatch ext enc depth (pre @ tb # w @ post) tb (length pre + 1) = Inr (v', length pre + 1 + length w)
      \<and> plain v' = plain (KSeries \<lparr>s_name = n, s_data = c\<rparr>)"
    using column_end [OF w l] tb tb' by (simp add: dispatch_def deserialize_list_def)
qed

lemma char_vector_wire:
  assumes "length s < 2147483648" "length (pre @ list_wire (length s) s @ post) < usize_limit"
  shows "calculate_array_end_index (pre @ list_wire (length s) s @ post) (length pre) 10 = Inr (length pre + 5 + length s)"
    "deserialize_series (list_wire (length s) s) 10 False enc = Inr (KCharVector s)"
proof -
  have m: "checked_mul (length s) 1 = Some (length s)" "K_TYPE_SIZE ! 10 = 1" "length K_TYPE_SIZE = 20"
    using assms(1) by (simp_all add: checked_mul_def K_TYPE_SIZE_def)
  have l: "length pre + 5 < usize_limit" "length pre + 5 + length s < usize_limit" using assms(2) by auto
  show "calculate_array_end_index (pre @ list_wire (length s) s @ post) (length pre) 10 = Inr (length pre + 5 + length s)"
    using m l take_list_length_wire [OF assms(1) l(1), of s post]
    by (simp add: calculate_array_end_index_def list_scan_new_def advance_def scan_header_def advance_body_def
        saturating_add_def checked_add_def Let_def)
  show "deserialize_series (list_wire (length s) s) 10 False enc = Inr (KCharVector s)"
    using m assms(1) by (auto simp: deserialize_series_def take_list_length_wire0 get_from_wire)
qed

lemma reads_text:
  assumes d: "depth \<le> MAX_VALUE_DEPTH" and s: "length s < 2147483648"
  shows "reads ext enc depth (10 # list_wire (length s) s) (KCharVector s)"
proof (rule readsI [OF d])
  fix pre post assume l: "length (pre @ 10 # list_wire (length s) s @ post) < usize_limit"
  let ?w = "list_wire (length s) s"
  have "calculate_array_end_index (pre @ 10 # ?w @ post) (length pre + 1) 10 = Inr (length pre + 1 + length ?w)"
    using char_vector_wire(1) [OF s, of "pre @ [10]" post] l by simp
  moreover have "get_range ((pre @ [10]) @ ?w @ post) (length (pre @ [10])) (length (pre @ [10]) + length ?w) = Some ?w"
    by (rule get_range_append)
  ultimately show "\<exists>v'. dispatch ext enc depth (pre @ 10 # ?w @ post) 10 (length pre + 1) = Inr (v', length pre + 1 + length ?w)
      \<and> plain v' = plain (KCharVector s)"
    using char_vector_wire(2) [OF s, of "[]" "[]" enc] l s by (simp add: dispatch_def deserialize_list_def)
qed simp

lemma reads_operator:
  assumes d: "depth \<le> MAX_VALUE_DEPTH"
    and op: "qoperator_from_wire (fst (wire_value op)) (snd (wire_value op)) = Some op" "wire_value op \<noteq> (101, 0)"
  shows "reads ext enc depth [fst (wire_value op), snd (wire_value op)] (KOperator op)"
proof (rule readsI [OF d])
  let ?t = "fst (wire_value op)" and ?o = "snd (wire_value op)"
  have t: "?t \<in> {101, 102, 103}" using op(1) by (auto simp: qoperator_from_wire_def split: if_splits)
  then show "?t \<le> 19 \<or> 98 \<le> ?t \<and> ?t \<le> 103 \<or> 237 \<le> ?t" by auto
  fix pre post :: bytes
  have "get_at (pre @ ?t # [?o] @ post) (length pre + 1) = Some ?o" by (simp add: get_at_def nth_append)
  moreover have "\<not> (?t = 101 \<and> ?o = 0)" using op(2) by (metis prod.collapse)
  ultimately show "\<exists>v'. dispatch ext enc depth (pre @ ?t # [?o] @ post) ?t (length pre + 1) = Inr (v', length pre + 1 + length [?o])
      \<and> plain v' = plain (KOperator op)"
    using t op(1) by (auto simp: dispatch_def deserialize_operator_def)
qed

lemma reads_null: "depth \<le> MAX_VALUE_DEPTH \<Longrightarrow> reads ext enc depth [101, 0] KNull"
  by (rule readsI) (auto simp: dispatch_def deserialize_operator_def get_at_def nth_append)

lemma reads_lambda:
  assumes d: "depth \<le> MAX_VALUE_DEPTH" and l: "qlambda_with_context (source l) (lcontext l) = Inr l"
    and u: "utf8_valid (source l)" "utf8_valid (lcontext l)" "length (source l) < 2147483648"
  shows "reads ext enc depth (100 # lcontext l @ [0, 10, 0] @ le_bytes 4 (length (source l)) @ source l) (KLambda l)"
proof (rule readsI [OF d])
  let ?b = "lcontext l @ [0, 10, 0] @ le_bytes 4 (length (source l)) @ source l"
  let ?c = "length (lcontext l)" and ?s = "length (source l)"
  fix pre post assume lim: "length (pre @ 100 # ?b @ post) < usize_limit"
  let ?vec = "pre @ 100 # ?b @ post"
  have nul: "0 \<notin> set (lcontext l)" using l by (auto simp: qlambda_with_context_def split: if_splits)
  have c: "get_range ?vec (length pre + 1) (length pre + 1 + ?c) = Some (lcontext l)"
    using get_range_append [of "pre @ [100]" "lcontext l"] by simp
  have h: "get_range ?vec (length pre + 2 + ?c) (length pre + 8 + ?c) = Some ([10, 0] @ le_bytes 4 ?s)"
    using get_range_append [of "pre @ 100 # lcontext l @ [0]" "[10, 0] @ le_bytes 4 ?s" "source l @ post"]
    by (simp add: add.commute add.left_commute del: le_bytes_numeral)
  have s: "get_range ?vec (length pre + 8 + ?c) (length pre + 8 + ?c + ?s) = Some (source l)"
    using get_range_append [of "pre @ 100 # lcontext l @ [0, 10, 0] @ le_bytes 4 ?s" "source l" post]
    by (simp add: add.commute add.left_commute del: le_bytes_numeral)
  have f: "get_from ?vec (length pre + 1) = Some (?b @ post)" by (simp add: get_from_def del: le_bytes_numeral)
  have i: "usize_of_int (le_i32 (le_bytes 4 ?s)) = Some ?s"
    using u(3) by (subst usize_of_int_le_i32) (simp_all add: le_nat_le_bytes del: le_bytes_numeral)
  have "deserialize_lambda ?vec (length pre + 1) enc = Inr (KLambda l, length pre + 8 + ?c + ?s)"
    unfolding deserialize_lambda_def using c h s f i lim nul u l
    by (simp add: checked_add_def decode_utf8_def add.commute add.left_commute del: le_bytes_numeral)
  then show "\<exists>v'. dispatch ext enc depth ?vec 100 (length pre + 1) = Inr (v', length pre + 1 + length ?b) \<and> plain v' = plain (KLambda l)"
    by (simp add: dispatch_def del: le_bytes_numeral)
qed simp

section \<open>Tables\<close>

lemma symbol_names_written:
  "symbol_names names = Inr bs \<Longrightarrow> bs = symbol_bytes names \<and> (\<forall>s\<in>set names. 0 \<notin> set s)"
proof (induction names arbitrary: bs)
  case (Cons n names)
  then show ?case by (auto simp: symbol_names_def rbind_Inr_iff validate_q_symbol_def split: if_splits)
qed (simp add: symbol_names_def)

definition column_ok :: "series \<Rightarrow> bool" where
  "column_ok s \<longleftrightarrow> column_normal (s_data s) \<and> column_wf (s_data s) \<and> utf8_valid (s_name s)"

text \<open>Columns with their wire forms.\<close>

definition columns_wire :: "symbol_encoding \<Rightarrow> series list \<Rightarrow> (byte \<times> bytes) list \<Rightarrow> bool" where
  "columns_wire enc df ws \<longleftrightarrow> list_all2 (\<lambda>s (tb, w). column_wire enc (s_data s) tb w) df ws"

lemma columns_written:
  "rmap serialize_series_into df = Inr cs \<Longrightarrow> list_all column_ok df \<Longrightarrow> length (concat cs) + 16 < usize_limit \<Longrightarrow>
     \<exists>ws. columns_wire enc df ws \<and> concat cs = concat (map (\<lambda>(tb, w). tb # w) ws)"
proof (induction df arbitrary: cs)
  case (Cons s df)
  obtain b cs' where b: "serialize_series_into s = Inr b" "rmap serialize_series_into df = Inr cs'" "cs = b # cs'"
    using Cons.prems(1) by (auto simp: rbind_Inr_iff)
  obtain tb w where w: "b = tb # w" "column_wire enc (s_data s) tb w"
    using column_written [of "s_name s" "s_data s" b enc] b Cons.prems(2,3) by (cases s) (auto simp: column_ok_def)
  obtain ws where "columns_wire enc df ws" "concat cs' = concat (map (\<lambda>(tb, w). tb # w) ws)"
    using Cons.IH [OF b(2)] Cons.prems(2,3) b(3) by auto
  then show ?case using w b(3) by (intro exI [of _ "(tb, w) # ws"]) (simp add: columns_wire_def)
qed (auto simp: columns_wire_def)

lemma table_columns_wire:
  "columns_wire enc df ws \<Longrightarrow> length (pre @ concat (map (\<lambda>(tb, w). tb # w) ws) @ post) < usize_limit \<Longrightarrow>
     table_columns (length df) (pre @ concat (map (\<lambda>(tb, w). tb # w) ws) @ post) (length pre)
       = Inr (ws, length pre + length (concat (map (\<lambda>(tb, w). tb # w) ws)))"
proof (induction df arbitrary: ws pre)
  case (Cons s df)
  obtain tb w ws' where ws: "ws = (tb, w) # ws'" "column_wire enc (s_data s) tb w" "columns_wire enc df ws'"
    using Cons.prems(1) by (auto simp: columns_wire_def list_all2_Cons1)
  let ?rest = "concat (map (\<lambda>(tb, w). tb # w) ws') @ post"
  have "length (pre @ tb # w @ ?rest) < usize_limit" using Cons.prems(2) by (simp add: ws(1))
  from column_end [OF ws(2) this] Cons.IH [OF ws(3), of "pre @ tb # w"] Cons.prems(2)
  show ?case by (simp add: ws(1) index_at_def get_at_def nth_append)
qed (simp add: columns_wire_def)

lemma columns_back:
  "columns_wire enc df ws \<Longrightarrow>
     \<exists>cols. rmap (decode_column enc) ws = Inr cols \<and> rename_columns cols (map s_name df) = df"
proof (induction df arbitrary: ws)
  case (Cons s df)
  obtain tb w ws' where ws: "ws = (tb, w) # ws'" "column_wire enc (s_data s) tb w" "columns_wire enc df ws'"
    using Cons.prems(1) by (auto simp: columns_wire_def list_all2_Cons1)
  obtain cols where "rmap (decode_column enc) ws' = Inr cols" "rename_columns cols (map s_name df) = df"
    using Cons.IH [OF ws(3)] by blast
  moreover obtain name where "decode_column enc (tb, w) = Inr \<lparr>s_name = name, s_data = s_data s\<rparr>"
    using ws(2) by (auto simp: decode_column_def column_wire_def)
  ultimately show ?case by (simp add: ws(1) rename_columns_def)
qed (simp add: columns_wire_def rename_columns_def)

lemma table_from_parts:
  assumes "calculate_array_end_index vec (p + 3) 11 = Inr e" "get_range vec (p + 3) e = Some nw"
    "deserialize_series nw 11 False enc = Inr (named_series 11 (StringCol (map Some names)))"
    "table_columns (length names) vec (e + 6) = Inr (ws, q)" "rmap (decode_column enc) ws = Inr cols"
    "frame_ok ext (rename_columns cols names)"
  shows "deserialize_table ext vec enc p = Inr (KDataFrame (rename_columns cols names), q)"
  using assms by (simp add: deserialize_table_def named_series_def unwrap_or_def comp_def Let_def)

lemma reads_table:
  assumes d: "depth \<le> MAX_VALUE_DEPTH" and bs: "serialize_data_frame df = Inr bs" "length bs + 16 < usize_limit"
    and df: "df \<noteq> []" "list_all column_ok df" "frame_ok ext df"
  shows "reads ext enc depth bs (KDataFrame df)"
proof -
  let ?n = "length df" and ?names = "map s_name df"
  obtain ns cs where n: "?n < 2147483648" "symbol_names ?names = Inr ns" and cs: "rmap serialize_series_into df = Inr cs"
    and b: "bs = [98, 0, 99, 11, 0] @ le_bytes 4 ?n @ ns @ [0, 0] @ le_bytes 4 ?n @ concat cs"
    using bs(1)
    by (auto simp: serialize_data_frame_def rbind_Inr_iff checked_q_count_def split: if_splits simp del: le_bytes_numeral)
  note ns = symbol_names_written [OF n(2)]
  have "length (concat cs) + 16 < usize_limit" using bs(2) unfolding b by simp
  from columns_written [OF cs df(2) this, of enc] obtain ws
    where ws: "columns_wire enc df ws" "concat cs = concat (map (\<lambda>(tb, w). tb # w) ws)" by blast
  let ?nw = "list_wire ?n (symbol_bytes ?names)" and ?mid = "[0, 0] @ le_bytes 4 ?n"
  have b': "bs = 98 # [0, 99, 11] @ ?nw @ ?mid @ concat cs" by (simp add: b ns list_wire_def del: le_bytes_numeral)
  have ok: "symbols_ok ?names" using ns df(2) by (auto simp: symbols_ok_def list_all_iff column_ok_def)
  obtain cols where cols: "rmap (decode_column enc) ws = Inr cols" "rename_columns cols ?names = df"
    using columns_back [OF ws(1)] by blast
  show ?thesis unfolding b'
  proof (rule readsI [OF d])
    fix pre post assume l: "length (pre @ 98 # ([0, 99, 11] @ ?nw @ ?mid @ concat cs) @ post) < usize_limit"
    let ?vec = "pre @ 98 # ([0, 99, 11] @ ?nw @ ?mid @ concat cs) @ post" and ?e = "length pre + 1 + 3 + length ?nw"
    have v1: "?vec = (pre @ [98, 0, 99, 11]) @ ?nw @ ?mid @ concat cs @ post" by simp
    have v2: "?vec = (pre @ [98, 0, 99, 11] @ ?nw @ ?mid) @ concat (map (\<lambda>(tb, w). tb # w) ws) @ post" by (simp add: ws(2))
    have p1: "length (pre @ [98, 0, 99, 11]) = length pre + 1 + 3" by simp
    have p2: "length (pre @ [98, 0, 99, 11] @ ?nw @ ?mid) = ?e + 6" by (simp del: le_bytes_numeral)
    have "calculate_array_end_index ?vec (length pre + 1 + 3) 11 = Inr ?e"
      using symbols_end [OF ok, of "pre @ [98, 0, 99, 11]" "?mid @ concat cs @ post"] n(1) l unfolding v1 p1
      by (simp del: le_bytes_numeral)
    moreover have "get_range ?vec (length pre + 1 + 3) ?e = Some ?nw"
      using get_range_append [of "pre @ [98, 0, 99, 11]" ?nw "?mid @ concat cs @ post"] unfolding v1 p1 .
    moreover have "deserialize_series ?nw 11 False enc = Inr (named_series 11 (StringCol (map Some ?names)))"
      using deserialize_symbols [OF ok, of False enc] df(1) n(1) by simp
    moreover have "table_columns ?n ?vec (?e + 6) = Inr (ws, ?e + 6 + length (concat cs))"
      using table_columns_wire [OF ws(1), of "pre @ [98, 0, 99, 11] @ ?nw @ ?mid" post] l unfolding v2 p2
      by (simp add: ws(2) del: le_bytes_numeral)
    ultimately have "deserialize_table ext ?vec enc (length pre + 1) = Inr (KDataFrame df, ?e + 6 + length (concat cs))"
      using table_from_parts [of ?vec "length pre + 1" ?e ?nw enc ?names ws "?e + 6 + length (concat cs)" cols ext] cols df(3)
      by (simp del: le_bytes_numeral add_Suc_right)
    then show "\<exists>v'. dispatch ext enc depth ?vec 98 (length pre + 1)
        = Inr (v', length pre + 1 + length ([0, 99, 11] @ ?nw @ ?mid @ concat cs)) \<and> plain v' = plain (KDataFrame df)"
      by (simp add: dispatch_def del: le_bytes_numeral)
  qed simp
qed

section \<open>Mixed lists and dictionaries\<close>

lemma mixed_not_nested:
  assumes n: "0 < n" "n < 2147483648" and b: "\<not> nestable_type b" and l: "length (pre @ list_wire n (b # body) @ post) < usize_limit"
  shows "\<exists>e. calculate_array_end_index (pre @ list_wire n (b # body) @ post) (length pre) 0 = Inl e \<and> e \<noteq> Panicked"
proof -
  let ?vec = "pre @ list_wire n (b # body) @ post"
  have "?vec = (pre @ 0 # le_bytes 4 n) @ b # body @ post" by (simp add: list_wire_def del: le_bytes_numeral)
  moreover have "length (pre @ 0 # le_bytes 4 n) = length pre + 5" by (simp del: le_bytes_numeral)
  ultimately have "?vec ! (length pre + 5) = b" by (metis nth_append_length)
  then have ix: "index_at ?vec (length pre + 5) = Inr b" by (simp add: index_at_def get_at_def)
  let ?s = "\<lparr>ls_k_type = 0, ls_pos = length pre + 5, rows_left = Some n, child_type = None, child_symbols_left = 0\<rparr>"
  have "\<exists>e. next_element ?vec (length ?vec) n ?s = Inl e \<and> e \<noteq> Panicked"
    using ix b by (auto simp: next_element_def element_header_def incomplete_or_overrun_def Let_def simp del: length_append)
  then obtain e where "next_element ?vec (length ?vec) n ?s = Inl e" "e \<noteq> Panicked" by blast
  then have "advance_nested ?vec (length ?vec) n ?s = Inl e" using n(1) by (subst advance_nested.simps) (simp del: length_append)
  then have "calculate_array_end_index ?vec (length pre) 0 = Inl e"
    using take_list_length_wire [OF n(2), of pre "b # body" post] l
    by (simp add: calculate_array_end_index_def list_scan_new_def advance_def scan_header_def advance_body_def
        saturating_add_def Let_def del: length_append) (simp add: advance_body_def)
  then show ?thesis using \<open>e \<noteq> Panicked\<close> by blast
qed

lemma values_back:
  "list_all2 (reads ext enc depth) bss vs \<Longrightarrow> length (pre @ concat bss @ post) < usize_limit \<Longrightarrow>
     \<exists>vs'. deserialize_values (deserialize_unchecked ext (pre @ concat bss @ post) enc depth False) (length bss) (length pre)
         = Inr (vs', length pre + length (concat bss)) \<and> map plain vs' = map plain vs"
proof (induction bss vs arbitrary: pre rule: list_all2_induct)
  case (Cons b bss v vs)
  let ?vec = "pre @ concat (b # bss) @ post"
  obtain v' where v: "deserialize_unchecked ext ?vec enc depth False (length pre) = Inr (v', length pre + length b)" "plain v' = plain v"
    using Cons.hyps(1) Cons.prems unfolding reads_def by (metis append.assoc concat.simps(2))
  obtain vs' where "deserialize_values (deserialize_unchecked ext ((pre @ b) @ concat bss @ post) enc depth False) (length bss) (length (pre @ b))
         = Inr (vs', length (pre @ b) + length (concat bss))" "map plain vs' = map plain vs"
    using Cons.IH [of "pre @ b"] Cons.prems by auto
  then show ?case using v by simp
qed simp

lemma mixed_list_back:
  assumes bss: "list_all2 (reads ext enc (depth + 1)) bss vs" "length bss < 2147483648" "\<forall>b\<in>set bss. 2 \<le> length b"
    and l: "length (pre @ t # list_wire (length bss) (concat bss) @ post) < usize_limit"
  shows "\<exists>vs'. deserialize_mixed_list (\<lambda>c p. deserialize_unchecked ext (pre @ t # list_wire (length bss) (concat bss) @ post) enc (depth + 1) c p)
      (pre @ t # list_wire (length bss) (concat bss) @ post) (length pre + 1)
    = Inr (KMixedList vs', length pre + 1 + length (list_wire (length bss) (concat bss))) \<and> map plain vs' = map plain vs"
proof -
  let ?n = "length bss" and ?vec = "pre @ t # list_wire (length bss) (concat bss) @ post"
  have v: "?vec = pre @ t # [0] @ le_bytes 4 ?n @ concat bss @ post" "?vec = (pre @ [t]) @ 0 # le_bytes 4 ?n @ concat bss @ post"
    "?vec = (pre @ t # 0 # le_bytes 4 ?n) @ concat bss @ post"
    by (simp_all add: list_wire_def del: le_bytes_numeral)
  have l1: "length (pre @ t # [0] @ le_bytes 4 ?n @ concat bss @ post) < usize_limit" using l unfolding v(1) .
  have l2: "length ((pre @ [t]) @ 0 # le_bytes 4 ?n @ concat bss @ post) < usize_limit" using l unfolding v(2) .
  have t1: "take_bytes 1 ?vec (length pre + 1) = Inr ([0], length pre + 2)"
    unfolding v(1) using take_bytes_at [of "[0]" 1, OF _ l1] by simp
  have t4: "take_bytes 4 ?vec (length pre + 2) = Inr (le_bytes 4 ?n, length pre + 6)"
    unfolding v(2) using take_bytes_at [of "le_bytes 4 ?n" 4, OF _ l2] by (simp del: le_bytes_numeral)
  have i: "usize_of_int (le_i32 (le_bytes 4 ?n)) = Some ?n"
    using bss(2) by (subst usize_of_int_le_i32) (simp_all add: le_nat_le_bytes del: le_bytes_numeral)
  have "2 * length bss \<le> length (concat bss)" using bss(3) by (induction bss) auto
  then have c: "\<not> (length ?vec - (length pre + 6)) div 2 < ?n" by simp
  have p: "length (pre @ t # 0 # le_bytes 4 ?n) = length pre + 6" by (simp del: le_bytes_numeral)
  have l3: "length ((pre @ t # 0 # le_bytes 4 ?n) @ concat bss @ post) < usize_limit" using l unfolding v(3) .
  obtain vs' where "deserialize_values (deserialize_unchecked ext ?vec enc (depth + 1) False) ?n (length pre + 6)
         = Inr (vs', length pre + 6 + length (concat bss))" "map plain vs' = map plain vs"
    using values_back [OF bss(1) l3] unfolding v(3) [symmetric] p by blast
  then show ?thesis using t1 t4 i c by (simp add: deserialize_mixed_list_def del: le_bytes_numeral length_append)
qed

lemma mixed_list_at:
  assumes bss: "list_all2 (reads ext enc (depth + 1)) bss vs" "length bss < 2147483648" "\<forall>b\<in>set bss. 2 \<le> length b"
    and ne: "bss \<noteq> []" "\<not> nestable_type (hd (hd bss))"
    and l: "length (pre @ t # list_wire (length bss) (concat bss) @ post) < usize_limit"
  shows "\<exists>vs'. deserialize_list (\<lambda>c p. deserialize_unchecked ext (pre @ t # list_wire (length bss) (concat bss) @ post) enc (depth + 1) c p)
      (pre @ t # list_wire (length bss) (concat bss) @ post) False enc 0 (length pre + 1)
    = Inr (KMixedList vs', length pre + 1 + length (list_wire (length bss) (concat bss))) \<and> map plain vs' = map plain vs"
proof -
  obtain b bs bss' where b: "bss = (b # bs) # bss'"
  proof -
    obtain x bss' where "bss = x # bss'" using ne(1) by (cases bss) auto
    moreover from this obtain y ys where "x = y # ys" using bss(3) by (cases x) auto
    ultimately show thesis using that by blast
  qed
  let ?vec = "pre @ t # list_wire (length bss) (concat bss) @ post"
  have "\<exists>e. calculate_array_end_index ((pre @ [t]) @ list_wire (length bss) (b # bs @ concat bss') @ post) (length (pre @ [t])) 0 = Inl e \<and> e \<noteq> Panicked"
    using bss(2) ne(2) l by (intro mixed_not_nested) (auto simp: b)
  then obtain e where "calculate_array_end_index ?vec (length pre + 1) 0 = Inl e" "e \<noteq> Panicked" by (auto simp: b)
  then show ?thesis using mixed_list_back [OF bss l] by (simp add: deserialize_list_def del: length_append)
qed

lemma reads_mixed_list:
  assumes d: "depth \<le> MAX_VALUE_DEPTH"
    and bss: "list_all2 (reads ext enc (depth + 1)) bss vs" "length bss < 2147483648" "\<forall>b\<in>set bss. 2 \<le> length b"
      "bss \<noteq> []" "\<not> nestable_type (hd (hd bss))"
  shows "reads ext enc depth (0 # list_wire (length bss) (concat bss)) (KMixedList vs)"
proof (rule readsI [OF d])
  fix pre post assume "length (pre @ 0 # list_wire (length bss) (concat bss) @ post) < usize_limit"
  from mixed_list_at [OF bss this]
  show "\<exists>v'. dispatch ext enc depth (pre @ 0 # list_wire (length bss) (concat bss) @ post) 0 (length pre + 1)
      = Inr (v', length pre + 1 + length (list_wire (length bss) (concat bss))) \<and> plain v' = plain (KMixedList vs)"
    by (auto simp: dispatch_def simp del: length_append)
qed simp

lemma insert_distinct:
  "distinct (map fst (acc @ es)) \<Longrightarrow>
     rfold (\<lambda>(key, value) dict. if key \<in> fst ` set dict then Inl DeserializationErr else Inr (dict @ [(key, value)])) es acc
       = Inr (acc @ es)"
  by (induction es arbitrary: acc) auto

lemma insert_entries_distinct: "distinct (map fst es) \<Longrightarrow> insert_entries es = Inr es"
  using insert_distinct [of "[]" es] by (simp add: insert_entries_def)

lemma plain_mixed: "plain v' = KMixedList xs \<Longrightarrow> \<exists>vs'. v' = KMixedList vs' \<and> map plain vs' = xs"
  by (cases v') (auto simp: plain.simps)

lemma plain_series: "plain v' = KSeries s \<Longrightarrow> \<exists>s'. v' = KSeries s' \<and> s_data s' = s_data s"
  by (cases v') (auto simp: plain.simps)

text \<open>The values of a dictionary: a mixed list, or the empty list.\<close>

definition values_read :: "externals \<Rightarrow> symbol_encoding \<Rightarrow> nat \<Rightarrow> bytes list \<Rightarrow> k list \<Rightarrow> bool" where
  "values_read ext enc depth bss vs \<longleftrightarrow> list_all2 (reads ext enc (depth + 1)) bss vs \<and> length bss < 2147483648
     \<and> (\<forall>b\<in>set bss. 2 \<le> length b) \<and> (bss \<noteq> [] \<longrightarrow> \<not> nestable_type (hd (hd bss)))"

lemma dictionary_values_back:
  assumes d: "depth \<le> MAX_VALUE_DEPTH" and v: "values_read ext enc depth bss vs"
    and l: "length (pre @ (0 # list_wire (length bss) (concat bss)) @ post) < usize_limit"
  shows "\<exists>w vs'. deserialize_unchecked ext (pre @ (0 # list_wire (length bss) (concat bss)) @ post) enc depth False (length pre)
      = Inr (w, length pre + 6 + length (concat bss))
    \<and> dictionary_values_len w = Inr (length vs) \<and> dictionary_values ext w = Inr vs' \<and> map plain vs' = map plain vs"
proof (cases "bss = []")
  case True
  have "elements_ok 1 []" by (simp add: elements_ok_def nestable_type_def)
  then have "column_wire enc (NullCol 0) 0 (list_wire 0 [])"
    using deserialize_empty [of 0 enc] nested_end [of 1 "[]"]
    by (simp add: column_wire_def new_empty_series_def named_series_def)
  from reads_series [OF d this, of ext "[]"] l True
  obtain w where "deserialize_unchecked ext (pre @ (0 # list_wire 0 []) @ post) enc depth False (length pre) = Inr (w, length pre + 6)"
    "plain w = plain (KSeries \<lparr>s_name = [], s_data = NullCol 0\<rparr>)"
    unfolding reads_def by fastforce
  moreover from this(2) obtain s where "w = KSeries s" "s_data s = NullCol 0" using plain_series [of w] by fastforce
  ultimately show ?thesis using True v by (auto simp: values_read_def series_len_def)
next
  case False
  then have "reads ext enc depth (0 # list_wire (length bss) (concat bss)) (KMixedList vs)"
    using v by (intro reads_mixed_list [OF d]) (auto simp: values_read_def)
  then obtain w where w: "deserialize_unchecked ext (pre @ (0 # list_wire (length bss) (concat bss)) @ post) enc depth False (length pre)
      = Inr (w, length pre + 6 + length (concat bss))" "plain w = plain (KMixedList vs)"
    using l unfolding reads_def by fastforce
  then obtain vs' where "w = KMixedList vs'" "map plain vs' = map plain vs" using plain_mixed [of w] by auto
  then show ?thesis using w(1) by (auto dest: map_eq_imp_length_eq)
qed

lemma dictionary_from_parts:
  assumes "get_at vec p = Some 11" "calculate_array_end_index vec (p + 1) 11 = Inr e" "get_range vec (p + 1) e = Some kw"
    "\<exists>name. deserialize_series kw 11 True enc = Inr (KSeries \<lparr>s_name = name, s_data = CategoricalCol (map Some keys)\<rparr>)"
    "get_at vec e = Some 0" "rec False e = Inr (w, q)" "dictionary_values_len w = Inr (length keys)" "dictionary_values ext w = Inr vs"
    "insert_entries (zip keys vs) = Inr d"
  shows "deserialize_dictionary ext rec vec False enc p = Inr (KDict d, q)"
proof -
  have "\<exists>name. dictionary_keys vec enc 11 (p + 1) = Inr (\<lparr>s_name = name, s_data = CategoricalCol (map Some keys)\<rparr>, e)"
    using assms(2-4) by (auto simp: dictionary_keys_def)
  then show ?thesis using assms(1,5-9) by (auto simp: deserialize_dictionary_def unwrap_or_def comp_def)
qed

lemma reads_dict:
  assumes d: "depth < MAX_VALUE_DEPTH" and v: "values_read ext enc (depth + 1) bss vs"
    and keys: "symbols_ok keys" "distinct keys" "length keys = length bss" "length keys = length vs"
  shows "reads ext enc depth (99 # 11 # list_wire (length keys) (symbol_bytes keys) @ (0 # list_wire (length bss) (concat bss)))
    (KDict (zip keys vs))"
proof (rule readsI)
  let ?kw = "list_wire (length keys) (symbol_bytes keys)" and ?vw = "0 # list_wire (length bss) (concat bss)"
  fix pre post assume l: "length (pre @ 99 # (11 # ?kw @ ?vw) @ post) < usize_limit"
  let ?vec = "pre @ 99 # (11 # ?kw @ ?vw) @ post" and ?p = "length pre + 1 + 1" and ?e = "length pre + 1 + 1 + length ?kw"
  have n: "length keys < 2147483648" using v keys by (simp add: values_read_def)
  have v1: "?vec = (pre @ [99, 11]) @ ?kw @ ?vw @ post" and v2: "?vec = (pre @ [99, 11] @ ?kw) @ ?vw @ post" by simp_all
  have p1: "length (pre @ [99, 11]) = ?p" and p2: "length (pre @ [99, 11] @ ?kw) = ?e" by simp_all
  have k1: "calculate_array_end_index ?vec ?p 11 = Inr ?e"
    using symbols_end [OF keys(1) n, of "pre @ [99, 11]" "?vw @ post"] l unfolding v1 p1 by simp
  have k2: "get_range ?vec ?p ?e = Some ?kw"
    using get_range_append [of "pre @ [99, 11]" ?kw "?vw @ post"] unfolding v1 p1 .
  have k3: "\<exists>name. deserialize_series ?kw 11 True enc = Inr (KSeries \<lparr>s_name = name, s_data = CategoricalCol (map Some keys)\<rparr>)"
    using deserialize_symbols [OF keys(1) _ n, of True enc] deserialize_empty [of 11 enc]
    by (cases "keys = []") (simp_all add: new_empty_series_def named_series_def)
  have g: "get_at ?vec (length pre + 1) = Some 11" "get_at ?vec ?e = Some 0" by (simp_all add: get_at_def nth_append)
  have "depth + 1 \<le> MAX_VALUE_DEPTH" using d by simp
  from dictionary_values_back [OF this v, of "pre @ [99, 11] @ ?kw" post] l
  obtain w vs' where w: "deserialize_unchecked ext ?vec enc (depth + 1) False ?e = Inr (w, ?e + 6 + length (concat bss))"
    "dictionary_values_len w = Inr (length vs)" "dictionary_values ext w = Inr vs'" "map plain vs' = map plain vs"
    unfolding v2 p2 by (auto simp del: list_wire_def)
  have len: "length vs' = length keys" using w(4) keys(4) by (metis length_map)
  then have ins: "insert_entries (zip keys vs') = Inr (zip keys vs')" using keys(2) by (intro insert_entries_distinct) simp
  have dict: "map (\<lambda>(key, x). (key, plain x)) (zip keys vs') = map (\<lambda>(key, x). (key, plain x)) (zip keys vs)"
    unfolding zip_map2 [symmetric] w(4) ..
  have "deserialize_dictionary ext (\<lambda>c p. deserialize_unchecked ext ?vec enc (depth + 1) c p) ?vec False enc (length pre + 1)
      = Inr (KDict (zip keys vs'), ?e + 6 + length (concat bss))"
    by (rule dictionary_from_parts [where rec = "\<lambda>c p. deserialize_unchecked ext ?vec enc (depth + 1) c p",
          OF g(1) k1 k2 k3 g(2) w(1) _ w(3) ins]) (simp add: w(2) keys(4))
  then show "\<exists>v'. dispatch ext enc depth ?vec 99 (length pre + 1) = Inr (v', length pre + 1 + length (11 # ?kw @ ?vw))
      \<and> plain v' = plain (KDict (zip keys vs))"
    using dict by (simp add: dispatch_def)
qed (use d in simp_all)

section \<open>Values\<close>

text \<open>The type byte a value is written with is that of a list which nests.\<close>

definition starts_nested :: "k \<Rightarrow> bool" where
  "starts_nested v \<longleftrightarrow> (case serialize_into v of Inr (b # _) \<Rightarrow> nestable_type b | _ \<Rightarrow> False)"

text \<open>
  The values that survive a round trip: their columns do, text is UTF-8, dates and times are those of
  the calendar, operators and lambdas are ones the client makes, and a mixed list is not empty and does
  not begin like a nested list.
\<close>

function value_normal :: "externals \<Rightarrow> k \<Rightarrow> bool" where
  "value_normal ext v \<longleftrightarrow> (case v of
      KGuid g \<Rightarrow> length g = 16
    | KSymbol s \<Rightarrow> utf8_valid s
    | KDate d \<Rightarrow> checked_i32 d = Some d \<and> from_num_days ext d = Some d
    | KTime secs nano \<Rightarrow> secs < 86400 \<and> nano < 1000000000 \<and> nano mod 1000000 = 0
    | KSeries s \<Rightarrow> column_normal (s_data s) \<and> column_wf (s_data s)
    | KDataFrame df \<Rightarrow> df \<noteq> [] \<and> list_all column_ok df \<and> frame_ok ext df
    | KQValue _ \<Rightarrow> False
    | KOperator op \<Rightarrow> qoperator_from_wire (fst (wire_value op)) (snd (wire_value op)) = Some op \<and> wire_value op \<noteq> (101, 0)
    | KLambda l \<Rightarrow> qlambda_with_context (source l) (lcontext l) = Inr l \<and> utf8_valid (source l) \<and> utf8_valid (lcontext l)
    | KMixedList vs \<Rightarrow> vs \<noteq> [] \<and> \<not> starts_nested (hd vs) \<and> list_all (\<lambda>x. value_normal ext x) vs
    | KDict d \<Rightarrow> distinct (map fst d) \<and> list_all utf8_valid (map fst d) \<and> (d \<noteq> [] \<longrightarrow> \<not> starts_nested (snd (hd d)))
        \<and> list_all (\<lambda>(key, x). value_normal ext x) d
    | _ \<Rightarrow> True)"
  by pat_completeness auto
termination
proof (relation "measure (size \<circ> snd)")
  fix ext :: externals and v vs x assume "v = KMixedList vs" "x \<in> set vs"
  then show "((ext, x), ext, v) \<in> measure (size \<circ> snd)" using k_size_members(1) by simp
next
  fix ext :: externals and v d p key x assume "v = KDict d" "p \<in> set d" "(key, x) = p"
  then show "((ext, x), ext, v) \<in> measure (size \<circ> snd)" using k_size_members(2) [of p d] by auto
qed auto

declare value_normal.simps [simp del]

text \<open>The levels the reader descends: one for a mixed list, two for a dictionary.\<close>

function wire_depth :: "k \<Rightarrow> nat" where
  "wire_depth v = (case v of
      KMixedList vs \<Rightarrow> 1 + Max (set (0 # map (\<lambda>x. wire_depth x) vs))
    | KDict d \<Rightarrow> 2 + Max (set (0 # map (\<lambda>(key, x). wire_depth x) d))
    | _ \<Rightarrow> 0)"
  by pat_completeness auto
termination
proof (relation "measure size")
  fix v vs x assume "v = KMixedList vs" "x \<in> set vs"
  then show "(x, v) \<in> measure size" using k_size_members(1) by simp
next
  fix v d p key x assume "v = KDict d" "p \<in> set d" "(key, x) = p"
  then show "(x, v) \<in> measure size" using k_size_members(2) [of p d] by auto
qed auto

declare wire_depth.simps [simp del]

lemma wire_depth_members:
  "x \<in> set vs \<Longrightarrow> wire_depth x < wire_depth (KMixedList vs)"
  "p \<in> set d \<Longrightarrow> wire_depth (snd p) + 2 \<le> wire_depth (KDict d)" "2 \<le> wire_depth (KDict d)"
proof -
  show "x \<in> set vs \<Longrightarrow> wire_depth x < wire_depth (KMixedList vs)"
    by (subst (2) wire_depth.simps) (simp add: less_Suc_eq_le)
  show "p \<in> set d \<Longrightarrow> wire_depth (snd p) + 2 \<le> wire_depth (KDict d)"
    by (subst (2) wire_depth.simps) (force simp: split_def)
  show "2 \<le> wire_depth (KDict d)" by (subst wire_depth.simps) simp
qed

lemma reads_atom_value:
  assumes "serialize_into v = Inr bs" "value_normal ext v" "depth \<le> MAX_VALUE_DEPTH" "length bs + 16 < usize_limit"
    and "\<And>vs. v \<noteq> KMixedList vs" "\<And>d. v \<noteq> KDict d"
  shows "reads ext enc depth bs v \<and> 2 \<le> length bs"
proof -
  note s = assms(1) [unfolded serialize_into.simps [of v]] and n = assms(2) [unfolded value_normal.simps [of ext v]]
  show ?thesis
  proof (cases v)
    case (KSymbol t)
    then show ?thesis using s n reads_symbol [OF assms(3), of t] by (auto simp: rbind_Inr_iff validate_q_symbol_def split: if_splits)
  next
    case (KCharVector t)
    then show ?thesis using s reads_text [OF assms(3), of t]
      by (auto simp: rbind_Inr_iff q_list_length_def list_wire_def split: if_splits simp del: le_bytes_numeral)
  next
    case (KString t)
    then have "reads ext enc depth bs (KCharVector t) \<and> 2 \<le> length bs" using s reads_text [OF assms(3), of t]
      by (auto simp: rbind_Inr_iff q_list_length_def list_wire_def split: if_splits simp del: le_bytes_numeral)
    then show ?thesis using KString by (simp add: reads_def)
  next
    case (KDateTime t)
    then show ?thesis using s reads_datetime [OF assms(3)] by (auto simp: rbind_Inr_iff ok_or_Inr_iff)
  next
    case (KDate t)
    then show ?thesis using s n reads_date [OF assms(3)] by (auto simp: rbind_Inr_iff ok_or_Inr_iff)
  next
    case (KTime a b)
    then show ?thesis using s n reads_time [OF assms(3), of a b] by auto
  next
    case (KDuration t)
    then show ?thesis using s reads_duration [OF assms(3)] by (auto simp: rbind_Inr_iff ok_or_Inr_iff)
  next
    case (KSeries sr)
    then obtain tb w where w: "bs = tb # w" "column_wire enc (s_data sr) tb w"
      using s n column_written [of "s_name sr" "s_data sr" bs enc] assms(4) by (cases sr) auto
    moreover have "2 \<le> length bs" using s KSeries serialize_series_into_wire [of "s_name sr" "s_data sr" bs] by (cases sr) auto
    ultimately show ?thesis using KSeries reads_series [OF assms(3) w(2), of ext "s_name sr"] by (cases sr) auto
  next
    case (KDataFrame df)
    then show ?thesis using s n reads_table [OF assms(3)] assms(4)
      by (auto simp: serialize_data_frame_def rbind_Inr_iff simp del: le_bytes_numeral)
  next
    case (KOperator op)
    then show ?thesis using s n reads_operator [OF assms(3), of op] by auto
  next
    case (KLambda l)
    then show ?thesis using s n reads_lambda [OF assms(3), of l]
      by (auto simp: rbind_Inr_iff q_list_length_def split: if_splits simp del: le_bytes_numeral)
  next
    case KNull
    then show ?thesis using s reads_null [OF assms(3)] by auto
  qed (use s n reads_plain_atoms [OF assms(3)] assms(5,6) in \<open>auto simp: length_le_word\<close>)
qed

lemma element_size: "b \<in> set bss \<Longrightarrow> length b \<le> length (concat bss)"
  by (induction bss) auto

lemma first_byte:
  assumes "serialize_into v = Inr b" "2 \<le> length b"
  shows "starts_nested v \<longleftrightarrow> nestable_type (hd b)"
  using assms by (cases b) (auto simp: starts_nested_def)

text \<open>The elements of a list of values are read back when each is.\<close>

lemma elements_read:
  assumes "rmap serialize_into vs = Inr bss" "length (concat bss) + 16 < usize_limit" "length vs < 2147483648"
    and ih: "\<And>v b. v \<in> set vs \<Longrightarrow> serialize_into v = Inr b \<Longrightarrow> length b + 16 < usize_limit \<Longrightarrow>
       reads ext enc (depth + 1) b v \<and> 2 \<le> length b"
    and hd: "vs \<noteq> [] \<Longrightarrow> \<not> starts_nested (hd vs)"
  shows "values_read ext enc depth bss vs"
proof -
  have l2: "list_all2 (\<lambda>v b. serialize_into v = Inr b) vs bss" using assms(1) by (simp add: rmap_Inr_iff)
  have e: "reads ext enc (depth + 1) (bss ! i) (vs ! i) \<and> 2 \<le> length (bss ! i)" if "i < length vs" for i
  proof -
    have i: "i < length bss" "serialize_into (vs ! i) = Inr (bss ! i)" using l2 that by (auto simp: list_all2_conv_all_nth)
    then show ?thesis using ih [of "vs ! i" "bss ! i"] that element_size [of "bss ! i" bss] assms(2) by simp
  qed
  have len: "length bss = length vs" using l2 by (simp add: list_all2_lengthD)
  have "\<not> nestable_type (hd (hd bss))" if "bss \<noteq> []"
  proof -
    have ne: "vs \<noteq> []" and s: "serialize_into (hd vs) = Inr (hd bss)" using l2 that len by (cases vs; cases bss; simp)+
    have "2 \<le> length (hd bss)" using e [of 0] ne that by (simp add: hd_conv_nth)
    then show ?thesis using first_byte [OF s] hd [OF ne] by blast
  qed
  then show ?thesis using e len assms(3) by (auto simp: values_read_def list_all2_conv_all_nth in_set_conv_nth)
qed

lemma reads_mixed_value:
  assumes "serialize_into (KMixedList vs) = Inr bs" "value_normal ext (KMixedList vs)" "depth \<le> MAX_VALUE_DEPTH" "length bs + 16 < usize_limit"
    and ih: "\<And>v b. v \<in> set vs \<Longrightarrow> serialize_into v = Inr b \<Longrightarrow> value_normal ext v \<Longrightarrow> length b + 16 < usize_limit \<Longrightarrow>
       reads ext enc (depth + 1) b v \<and> 2 \<le> length b"
  shows "reads ext enc depth bs (KMixedList vs) \<and> 2 \<le> length bs"
proof -
  obtain bss where b: "length vs < 2147483648" "rmap serialize_into vs = Inr bss" "bs = 0 # list_wire (length vs) (concat bss)"
    using assms(1) by (auto simp: serialize_into.simps [of "KMixedList vs"] rbind_Inr_iff q_list_length_def list_wire_def
        split: if_splits simp del: le_bytes_numeral)
  have n: "vs \<noteq> []" "\<not> starts_nested (hd vs)" "list_all (value_normal ext) vs"
    using assms(2) by (simp_all add: value_normal.simps [of ext "KMixedList vs"])
  have "values_read ext enc depth bss vs"
    using n assms(4) b(3) by (intro elements_read [OF b(2) _ b(1)] ih) (auto simp: list_all_iff)
  moreover have "length bss = length vs" using b(2) by (auto simp: rmap_Inr_iff dest: list_all2_lengthD)
  ultimately show ?thesis
    using reads_mixed_list [OF assms(3), of ext enc bss vs] n(1) b(3) by (auto simp: values_read_def)
qed

lemma reads_dict_value:
  assumes "serialize_into (KDict dict) = Inr bs" "value_normal ext (KDict dict)" "depth < MAX_VALUE_DEPTH" "length bs + 16 < usize_limit"
    and ih: "\<And>v b. v \<in> set (map snd dict) \<Longrightarrow> serialize_into v = Inr b \<Longrightarrow> value_normal ext v \<Longrightarrow> length b + 16 < usize_limit \<Longrightarrow>
       reads ext enc (depth + 1 + 1) b v \<and> 2 \<le> length b"
  shows "reads ext enc depth bs (KDict dict) \<and> 2 \<le> length bs"
proof -
  let ?vs = "map snd dict" and ?keys = "map fst dict"
  obtain ns bss where b: "length dict < 2147483648" "symbol_names ?keys = Inr ns" "rmap (\<lambda>(key, x). serialize_into x) dict = Inr bss"
      "bs = [99, 11, 0] @ le_bytes 4 (length dict) @ ns @ [0, 0] @ le_bytes 4 (length dict) @ concat bss"
    using assms(1) by (auto simp: serialize_into.simps [of "KDict dict"] rbind_Inr_iff checked_q_count_def
        split: if_splits simp del: le_bytes_numeral)
  have r: "rmap serialize_into ?vs = Inr bss" using b(3) by (simp add: rmap_Inr_iff list_all2_map1 split_def)
  note ns = symbol_names_written [OF b(2)]
  have n: "distinct ?keys" "symbols_ok ?keys" "?vs \<noteq> [] \<Longrightarrow> \<not> starts_nested (hd ?vs)" "\<forall>x\<in>set ?vs. value_normal ext x"
    using assms(2) ns by (auto simp: value_normal.simps [of ext "KDict dict"] symbols_ok_def list_all_iff hd_map)
  have len: "length bss = length dict" using r by (auto simp: rmap_Inr_iff dest: list_all2_lengthD)
  have "length (concat bss) + 16 < usize_limit" using assms(4) unfolding b(4) by simp
  then have "values_read ext enc (depth + 1) bss ?vs"
    using n b(1) by (intro elements_read [OF r] ih) auto
  moreover have "bs = 99 # 11 # list_wire (length ?keys) (symbol_bytes ?keys) @ (0 # list_wire (length bss) (concat bss))"
    using b(4) ns len by (simp add: list_wire_def del: le_bytes_numeral)
  ultimately show ?thesis
    using reads_dict [OF assms(3), of ext enc bss ?vs ?keys] n len by (simp add: zip_map_fst_snd)
qed

lemma value_reads:
  assumes "serialize_into v = Inr bs" "value_normal ext v" "depth + wire_depth v \<le> MAX_VALUE_DEPTH" "length bs + 16 < usize_limit"
  shows "reads ext enc depth bs v \<and> 2 \<le> length bs"
  using assms
proof (induction v arbitrary: bs depth rule: measure_induct_rule [of size])
  case (less v)
  consider (mixed) vs where "v = KMixedList vs" | (dict) dict where "v = KDict dict"
    | (atom) "\<And>vs. v \<noteq> KMixedList vs" "\<And>d. v \<noteq> KDict d" by blast
  then show ?case
  proof cases
    case mixed
    have "reads ext enc (depth + 1) b x \<and> 2 \<le> length b"
      if "x \<in> set vs" "serialize_into x = Inr b" "value_normal ext x" "length b + 16 < usize_limit" for x b
      using that wire_depth_members(1) [OF that(1)] k_size_members(1) [OF that(1)] less.prems(3)
      by (intro less.IH) (auto simp: mixed)
    then show ?thesis using less.prems reads_mixed_value [of vs bs ext depth enc] by (simp add: mixed)
  next
    case dict
    have "reads ext enc (depth + 1 + 1) b x \<and> 2 \<le> length b"
      if x: "x \<in> set (map snd dict)" "serialize_into x = Inr b" "value_normal ext x" "length b + 16 < usize_limit" for x b
    proof -
      obtain p where p: "p \<in> set dict" "x = snd p" using x(1) by auto
      show ?thesis using x p(2) wire_depth_members(2) [OF p(1)] k_size_members(2) [OF p(1)] less.prems(3)
        by (intro less.IH) (auto simp: dict)
    qed
    then show ?thesis
      using less.prems reads_dict_value [of dict bs ext depth enc] wire_depth_members(3) [of dict] by (simp add: dict)
  next
    case atom
    then show ?thesis using reads_atom_value [OF less.prems(1,2) _ less.prems(4)] less.prems(3) by simp
  qed
qed

lemma value_decodes:
  assumes "serialize_into v = Inr bs" "value_normal ext v" "wire_depth v \<le> MAX_VALUE_DEPTH" "length bs + 16 < usize_limit"
  shows "2 \<le> length bs \<and> (\<exists>v'. deserialize ext bs enc = Inr v' \<and> plain v' = plain v)"
proof -
  from value_reads [OF assms(1,2), of 0 enc] assms(3,4)
  have r: "reads ext enc 0 bs v" "2 \<le> length bs" by simp_all
  then have "\<exists>v'. deserialize_unchecked ext ([] @ bs @ []) enc 0 False (length ([] :: bytes)) = Inr (v', length ([] :: bytes) + length bs)
      \<and> plain v' = plain v"
    using assms(4) unfolding reads_def by (metis (no_types, lifting) add_lessD1 append_Nil append_Nil2)
  then show ?thesis using r(2) by (auto simp: deserialize_def)
qed


definition example_externals :: externals where
  "example_externals = \<lparr>from_num_days = Some, from_ymd = (\<lambda>y m. None), frame_ok = (\<lambda>df. length df > 0), hstack_ok = (\<lambda>a b. True)\<rparr>"


lemma plain_frame: "plain v' = KDataFrame df \<Longrightarrow> v' = KDataFrame df"
  by (cases v') (auto simp: plain.simps)

text \<open>C7: A table whose columns q can hold exactly survives the round trip: the columns come back in their order
  with their names, types, values and nulls, provided the frame library accepts them as a frame.\<close>
theorem table_round_trip:
  assumes "serialize (KDataFrame df) = Inr bs" "df \<noteq> []" "list_all column_ok df" "frame_ok ext df" "length bs + 16 < usize_limit"
  shows "deserialize ext bs enc = Inr (KDataFrame df)"
proof -
  have "serialize_into (KDataFrame df) = Inr bs" using assms(1) by (auto simp: serialize_def rbind_Inr_iff)
  then have "serialize_data_frame df = Inr bs" by (simp add: serialize_into.simps [of "KDataFrame df"])
  then have "reads ext enc 0 bs (KDataFrame df)" using reads_table [of 0 df bs ext enc] assms by simp
  then have "\<exists>v'. deserialize_unchecked ext ([] @ bs @ []) enc 0 False (length ([] :: bytes)) = Inr (v', length ([] :: bytes) + length bs)
      \<and> plain v' = plain (KDataFrame df)"
    using assms(5) unfolding reads_def by (metis (no_types, lifting) add_lessD1 append_Nil append_Nil2)
  moreover have "plain (KDataFrame df) = KDataFrame df" by (simp add: plain.simps)
  ultimately show ?thesis using plain_frame by (auto simp: deserialize_def)
qed

theorem table_round_trip_witness:
  "deserialize example_externals
     ([98, 0, 99, 11, 0, 2, 0, 0, 0, 97, 0, 98, 0, 0, 0, 2, 0, 0, 0] @ [5, 0, 2, 0, 0, 0, 7, 0, 0, 128] @ [14, 0, 2, 0, 0, 0, 1, 0, 0, 0, 0, 0, 0, 128]) Strict
   = Inr (KDataFrame [\<lparr>s_name = [97], s_data = Int16Col [Some 7, None]\<rparr>, \<lparr>s_name = [98], s_data = DateCol [Some 10958, None]\<rparr>])"
proof (rule table_round_trip)
  let ?df = "[\<lparr>s_name = [97], s_data = Int16Col [Some 7, None]\<rparr>, \<lparr>s_name = [98], s_data = DateCol [Some 10958, None]\<rparr>]"
  have c: "checked_i32 1 = Some 1" by (simp add: checked_i32_def)
  have "data_frame_len ?df = Inr 43"
    by (simp add: data_frame_len_def checked_q_count_def validate_q_symbol_def checked_add_def add_len_def checked_series_size_def
        checked_mul_def flatten_def c)
  then have "j6_len (KDataFrame ?df) = Inr 43"
    by (simp add: j6_len_def j6_len_with_depth.simps [of "KDataFrame ?df"] MAX_VALUE_DEPTH_def)
  then show "serialize (KDataFrame ?df) = Inr ([98, 0, 99, 11, 0, 2, 0, 0, 0, 97, 0, 98, 0, 0, 0, 2, 0, 0, 0] @ [5, 0, 2, 0, 0, 0, 7, 0, 0, 128]
      @ [14, 0, 2, 0, 0, 0, 1, 0, 0, 0, 0, 0, 0, 128])"
    by (simp add: serialize_def serialize_into.simps [of "KDataFrame ?df"] serialize_data_frame_def checked_q_count_def symbol_names_def
        validate_q_symbol_def serialize_series_into_def series_len_def Let_def write_wire_numbers_def le_word_def unwrap_or_def
        I16_MIN_def try_write_wire_numbers_def le_int_def c)
qed (simp_all add: column_ok_def all_some_def finite_i16_def I16_MIN_def I16_MAX_def utf8_valid.simps utf8_head_def utf8_width_def example_externals_def)

end
