(* ===== verification/NativeDto.thy ===== *)
theory NativeDto
  imports Admission KSerialize "HOL-Library.Multiset"
begin

text \<open>
  The values that cross the boundary between JavaScript and the Node binding
  (\<open>bindings/napi-xqdb/src/dto.rs\<close> and \<open>arrow.rs\<close>): tagged native values, their snapshot into owned
  values within a byte budget, and the conversions between owned values and \<open>K\<close>.

  Node-API is a parameter, the record \<open>node\<close>: the type and the properties of a JavaScript value, its
  conversions, array elements and identity, each of which may fail. So are the libraries the
  conversions call, the record \<open>libraries\<close>: GUID and date texts, the Arrow stream format and the
  reading of a \<open>BigInt\<close>, with the sizes the compiler gives the two owned types. An error is \<open>SnapshotLimit\<close>, which the worker tells apart by its message, or
  its stable code.
\<close>

section \<open>Errors and numbers\<close>

datatype native_error = SnapshotLimit | Coded string

type_synonym 'a nresult = "native_error + 'a"

fun native_code :: "native_error \<Rightarrow> string" where
  "native_code SnapshotLimit = CODE_CONVERSION"
| "native_code (Coded code) = code"

abbreviation conversion :: native_error where
  "conversion \<equiv> Coded CODE_CONVERSION"

definition coded :: "'a bresult \<Rightarrow> 'a nresult" where
  "coded r = (case r of Inl code \<Rightarrow> Inl (Coded code) | Inr x \<Rightarrow> Inr x)"

definition from_xqdb :: "'a xresult \<Rightarrow> 'a nresult" where
  "from_xqdb r = (case r of Inl e \<Rightarrow> Inl (Coded (binding_code e)) | Inr x \<Rightarrow> Inr x)"

text \<open>
  \<open>value.is_finite()\<close>, \<open>value.fract() == 0.0\<close> and the comparisons with two bounds that are exact in
  double precision.
\<close>

definition f64_integer_within :: "int \<Rightarrow> int \<Rightarrow> f64 \<Rightarrow> bool" where
  "f64_integer_within minimum maximum v \<longleftrightarrow>
     f64_is_finite v \<and> f64_num v mod int (f64_den v) = 0
     \<and> minimum * int (f64_den v) \<le> f64_num v \<and> f64_num v \<le> maximum * int (f64_den v)"

section \<open>Native values\<close>

type_synonym bigint = "bool \<times> 64 word list"

datatype native_value = NativeValue
  (nv_tag: bytes)
  (nv_bool: "bool option")
  (nv_number: "f64 option")
  (nv_bigint: "bigint option")
  (nv_string: "bytes option")
  (nv_context: "bytes option")
  (nv_bytes: "bytes option")
  (nv_items: "native_value list option")
  (nv_entries: "(bytes \<times> native_value) list option")
  (nv_type_code: "int option")
  (nv_length: "f64 option")
  (nv_is_table: "bool option")

datatype owned_value = OwnedValue
  (ov_tag: bytes)
  (ov_bool: "bool option")
  (ov_number: "f64 option")
  (ov_bigint: "int option")
  (ov_string: "bytes option")
  (ov_context: "bytes option")
  (ov_bytes: "bytes option")
  (ov_items: "owned_value list option")
  (ov_entries: "(bytes \<times> owned_value) list option")
  (ov_type_code: "int option")
  (ov_length: "nat option")
  (ov_is_table: "bool option")

text \<open>\<open>NativeResult\<close>: success with an optional value, or a failure.\<close>

record native_result =
  nr_ok :: bool
  nr_value :: "native_value option"
  nr_error :: "string option"
  nr_message_type :: "bytes option"

definition result_success :: "native_value option \<Rightarrow> native_result" where
  "result_success v = \<lparr>nr_ok = True, nr_value = v, nr_error = None, nr_message_type = None\<rparr>"

definition result_success_with_message :: "bytes \<Rightarrow> native_value \<Rightarrow> native_result" where
  "result_success_with_message m v = \<lparr>nr_ok = True, nr_value = Some v, nr_error = None, nr_message_type = Some m\<rparr>"

definition result_failure :: "string \<Rightarrow> native_result" where
  "result_failure code = \<lparr>nr_ok = False, nr_value = None, nr_error = Some code, nr_message_type = None\<rparr>"

definition from_result :: "native_value option nresult \<Rightarrow> native_result" where
  "from_result r = (case r of Inr v \<Rightarrow> result_success v | Inl e \<Rightarrow> result_failure (native_code e))"

definition parse_symbol_encoding :: "bytes option \<Rightarrow> symbol_encoding option" where
  "parse_symbol_encoding v = (case v of None \<Rightarrow> Some Strict | Some name \<Rightarrow> encoding_from_name name)"

section \<open>Payload fields\<close>

type_synonym fields = "16 word"

definition MAX_SNAPSHOT_BYTES :: nat where "MAX_SNAPSHOT_BYTES = 64 * 1024 * 1024"
definition MAX_FIELD_NAME_BYTES :: nat where "MAX_FIELD_NAME_BYTES = 32"
definition MAX_TAG_BYTES :: nat where "MAX_TAG_BYTES = 32"
definition FIELD_BOOL :: fields where "FIELD_BOOL = 1"
definition FIELD_NUMBER :: fields where "FIELD_NUMBER = 2"
definition FIELD_BIGINT :: fields where "FIELD_BIGINT = 4"
definition FIELD_STRING :: fields where "FIELD_STRING = 8"
definition FIELD_CONTEXT :: fields where "FIELD_CONTEXT = 16"
definition FIELD_BYTES :: fields where "FIELD_BYTES = 32"
definition FIELD_ITEMS :: fields where "FIELD_ITEMS = 64"
definition FIELD_ENTRIES :: fields where "FIELD_ENTRIES = 128"
definition FIELD_TYPE_CODE :: fields where "FIELD_TYPE_CODE = 256"
definition FIELD_LENGTH :: fields where "FIELD_LENGTH = 512"
definition FIELD_IS_TABLE :: fields where "FIELD_IS_TABLE = 1024"

lemmas field_defs = FIELD_BOOL_def FIELD_NUMBER_def FIELD_BIGINT_def FIELD_STRING_def FIELD_CONTEXT_def
  FIELD_BYTES_def FIELD_ITEMS_def FIELD_ENTRIES_def FIELD_TYPE_CODE_def FIELD_LENGTH_def FIELD_IS_TABLE_def

definition PAYLOAD_FIELDS :: "(bytes \<times> fields) list" where
  "PAYLOAD_FIELDS =
     [(ascii ''boolValue'', FIELD_BOOL), (ascii ''numberValue'', FIELD_NUMBER),
      (ascii ''bigintValue'', FIELD_BIGINT), (ascii ''stringValue'', FIELD_STRING),
      (ascii ''context'', FIELD_CONTEXT), (ascii ''bytesValue'', FIELD_BYTES),
      (ascii ''items'', FIELD_ITEMS), (ascii ''entries'', FIELD_ENTRIES),
      (ascii ''typeCode'', FIELD_TYPE_CODE), (ascii ''length'', FIELD_LENGTH),
      (ascii ''isTable'', FIELD_IS_TABLE)]"

definition tag_in :: "bytes \<Rightarrow> string list \<Rightarrow> bool" where
  "tag_in t names \<longleftrightarrow> t \<in> ascii ` set names"

definition expected_payload_fields :: "bytes \<Rightarrow> fields nresult" where
  "expected_payload_fields t =
     (if tag_in t [''null''] then Inr 0
      else if tag_in t [''boolean''] then Inr FIELD_BOOL
      else if tag_in t [''guid'', ''symbol'', ''string'', ''operator'', ''date''] then Inr FIELD_STRING
      else if tag_in t [''u8'', ''i16'', ''i32'', ''f32'', ''f64'', ''char''] then Inr FIELD_NUMBER
      else if tag_in t [''i64'', ''timestamp'', ''time'', ''timespan''] then Inr FIELD_BIGINT
      else if tag_in t [''lambda''] then Inr (FIELD_STRING OR FIELD_CONTEXT)
      else if tag_in t [''bytes'', ''series'', ''table''] then Inr FIELD_BYTES
      else if tag_in t [''qvalue''] then Inr (FIELD_BYTES OR FIELD_TYPE_CODE OR FIELD_LENGTH OR FIELD_IS_TABLE)
      else if tag_in t [''list''] then Inr FIELD_ITEMS
      else if tag_in t [''dictionary''] then Inr FIELD_ENTRIES
      else Inl conversion)"

definition validate_payload_fields :: "bytes \<Rightarrow> fields \<Rightarrow> fields nresult" where
  "validate_payload_fields t actual =
     rbind (expected_payload_fields t) (\<lambda>expected.
     if list_ex (\<lambda>(field, flag). expected AND flag \<noteq> 0 \<and> actual AND flag = 0) PAYLOAD_FIELDS then Inl conversion
     else if list_ex (\<lambda>(field, flag). expected AND flag = 0 \<and> actual AND flag \<noteq> 0) PAYLOAD_FIELDS then Inl conversion
     else Inr expected)"

definition field_if :: "'a option \<Rightarrow> fields \<Rightarrow> fields" where
  "field_if v flag = (if v = None then 0 else flag)"

definition native_payload_fields :: "native_value \<Rightarrow> fields" where
  "native_payload_fields v =
     field_if (nv_bool v) FIELD_BOOL OR field_if (nv_number v) FIELD_NUMBER OR field_if (nv_bigint v) FIELD_BIGINT
     OR field_if (nv_string v) FIELD_STRING OR field_if (nv_context v) FIELD_CONTEXT OR field_if (nv_bytes v) FIELD_BYTES
     OR field_if (nv_items v) FIELD_ITEMS OR field_if (nv_entries v) FIELD_ENTRIES
     OR field_if (nv_type_code v) FIELD_TYPE_CODE OR field_if (nv_length v) FIELD_LENGTH
     OR field_if (nv_is_table v) FIELD_IS_TABLE"

definition validate_native_value_shape :: "native_value \<Rightarrow> unit nresult" where
  "validate_native_value_shape v =
     rbind (validate_payload_fields (nv_tag v) (native_payload_fields v)) (\<lambda>_. Inr ())"

definition number_to_usize :: "f64 \<Rightarrow> nat nresult" where
  "number_to_usize v =
     (if f64_integer_within 0 9007199254740991 v then Inr (nat (f64_trunc v)) else Inl conversion)"

section \<open>Parameters\<close>

datatype value_type = ObjectType | BigIntType | OtherType

record 'v node =
  js_type :: "'v \<Rightarrow> value_type nresult"
  js_property_names :: "'v \<Rightarrow> bytes list nresult"
  js_get :: "'v \<Rightarrow> bytes \<Rightarrow> 'v option nresult"
  js_bool :: "'v \<Rightarrow> bool nresult"
  js_number :: "'v \<Rightarrow> f64 nresult"
  js_string :: "'v \<Rightarrow> bytes nresult"
  js_bytes :: "'v \<Rightarrow> bytes nresult"
  js_bigint :: "'v \<Rightarrow> (int \<times> bool) nresult"
  js_array_len :: "'v \<Rightarrow> nat nresult"
  js_element :: "'v \<Rightarrow> nat \<Rightarrow> 'v option nresult"
  js_equals :: "'v \<Rightarrow> 'v \<Rightarrow> bool nresult"

record libraries =
  uuid_text :: "bytes \<Rightarrow> bytes"
  uuid_parse :: "bytes \<Rightarrow> bytes option"
  date_text :: "int \<Rightarrow> bytes"
  date_parse :: "bytes \<Rightarrow> int option"
  frame_to_ipc :: "series list \<Rightarrow> bytes option"
  frame_from_ipc :: "bytes \<Rightarrow> series list option"
  series_frame :: "series \<Rightarrow> series list option"
  get_i64 :: "bigint \<Rightarrow> int \<times> bool"
  size_of_value :: nat
  size_of_entry :: nat

section \<open>The snapshot budget\<close>

text \<open>A reservation is charged together with the counters of its connector.\<close>

record snapshot_budget =
  sb_limit :: nat
  sb_remaining :: nat
  sb_reservation :: "(queue_reservation \<times> admission_state) option"

definition budget_with_reservation :: "nat \<Rightarrow> (queue_reservation \<times> admission_state) option \<Rightarrow> snapshot_budget" where
  "budget_with_reservation limit r = \<lparr>sb_limit = limit, sb_remaining = limit, sb_reservation = r\<rparr>"

definition budget_new :: "nat \<Rightarrow> snapshot_budget" where
  "budget_new limit = budget_with_reservation limit None"

definition budget_used :: "snapshot_budget \<Rightarrow> nat" where
  "budget_used b = sb_limit b - sb_remaining b"

text \<open>Computations that charge a budget; the charges stay when one fails.\<close>

type_synonym 'a snapshot = "snapshot_budget \<Rightarrow> 'a nresult \<times> snapshot_budget"

definition sbind :: "'a snapshot \<Rightarrow> ('a \<Rightarrow> 'b snapshot) \<Rightarrow> 'b snapshot" where
  "sbind m f b = (case m b of (Inl e, b') \<Rightarrow> (Inl e, b') | (Inr x, b') \<Rightarrow> f x b')"

definition sresult :: "'a nresult \<Rightarrow> 'a snapshot" where
  "sresult r b = (r, b)"

definition ensure :: "snapshot_budget \<Rightarrow> nat \<Rightarrow> unit nresult" where
  "ensure b n = (if n > sb_remaining b then Inl SnapshotLimit else Inr ())"

definition charge :: "nat \<Rightarrow> unit snapshot" where
  "charge n b =
     (case ensure b n of
        Inl e \<Rightarrow> (Inl e, b)
      | Inr _ \<Rightarrow>
          (case sb_reservation b of
             None \<Rightarrow> (Inr (), b\<lparr>sb_remaining := sb_remaining b - n\<rparr>)
           | Some (r, st) \<Rightarrow>
               (case charge_bytes n r st of
                  Inl code \<Rightarrow> (Inl (Coded code), b)
                | Inr (r', st') \<Rightarrow> (Inr (), b\<lparr>sb_remaining := sb_remaining b - n, sb_reservation := Some (r', st')\<rparr>))))"

definition charge_if :: "bytes option \<Rightarrow> unit snapshot" where
  "charge_if v = (case v of None \<Rightarrow> sresult (Inr ()) | Some bs \<Rightarrow> charge (length bs))"

definition allocation_size :: "nat \<Rightarrow> nat \<Rightarrow> nat nresult" where
  "allocation_size width len = ok_or (checked_mul len width) conversion"

definition charge_allocation :: "nat \<Rightarrow> nat \<Rightarrow> unit snapshot" where
  "charge_allocation width len = sbind (sresult (allocation_size width len)) charge"

primrec smap :: "('a \<Rightarrow> 'b snapshot) \<Rightarrow> 'a list \<Rightarrow> 'b list snapshot" where
  "smap f [] = sresult (Inr [])"
| "smap f (x # xs) = sbind (f x) (\<lambda>y. sbind (smap f xs) (\<lambda>ys. sresult (Inr (y # ys))))"

definition sthen :: "bool \<Rightarrow> 'a snapshot \<Rightarrow> 'a option snapshot" where
  "sthen c m = (if c then sbind m (\<lambda>x. sresult (Inr (Some x))) else sresult (Inr None))"

definition traverse :: "('a \<Rightarrow> 'b snapshot) \<Rightarrow> 'a option \<Rightarrow> 'b option snapshot" where
  "traverse f v = (case v of None \<Rightarrow> sresult (Inr None) | Some x \<Rightarrow> sbind (f x) (\<lambda>y. sresult (Inr (Some y))))"

section \<open>Snapshots of native values\<close>

definition bigint_to_i64 :: "libraries \<Rightarrow> bigint \<Rightarrow> int nresult" where
  "bigint_to_i64 lib v = (let (i, lossless) = get_i64 lib v in if lossless then Inr i else Inl conversion)"

definition i16_try_from :: "int \<Rightarrow> int nresult" where
  "i16_try_from code = (if -32768 \<le> code \<and> code \<le> 32767 then Inr code else Inl conversion)"

definition snapshot_body :: "libraries \<Rightarrow> (native_value \<Rightarrow> owned_value snapshot) \<Rightarrow> native_value \<Rightarrow> owned_value snapshot" where
  "snapshot_body lib rec v =
     sbind (sresult (validate_native_value_shape v)) (\<lambda>_.
     sbind (charge (length (nv_tag v))) (\<lambda>_.
     sbind (charge_if (nv_string v)) (\<lambda>_.
     sbind (charge_if (nv_context v)) (\<lambda>_.
     sbind (charge_if (nv_bytes v)) (\<lambda>_.
     sbind (traverse (\<lambda>x. sresult (bigint_to_i64 lib x)) (nv_bigint v)) (\<lambda>bigint_value.
     sbind (traverse (\<lambda>x. sresult (i16_try_from x)) (nv_type_code v)) (\<lambda>type_code.
     sbind (traverse (\<lambda>x. sresult (number_to_usize x)) (nv_length v)) (\<lambda>len.
     sbind (traverse (\<lambda>items.
         sbind (charge_allocation (size_of_value lib) (length items)) (\<lambda>_. smap rec items)) (nv_items v)) (\<lambda>items.
     sbind (traverse (\<lambda>entries.
         sbind (charge_allocation (size_of_entry lib) (length entries)) (\<lambda>_.
         smap (\<lambda>(key, x). sbind (charge (length key)) (\<lambda>_. sbind (rec x) (\<lambda>y. sresult (Inr (key, y))))) entries))
         (nv_entries v)) (\<lambda>entries.
     sresult (Inr (OwnedValue (nv_tag v) (nv_bool v) (nv_number v) bigint_value (nv_string v) (nv_context v)
       (nv_bytes v) items entries type_code len (nv_is_table v)))))))))))))"

lemma snapshot_body_cong [fundef_cong]:
  assumes "\<And>x. rec x = rec' x" "lib = lib'" "v = v'"
  shows "snapshot_body lib rec v = snapshot_body lib' rec' v'"
  unfolding assms(2,3) ext [of rec rec', OF assms(1)] ..

function snapshot_value :: "libraries \<Rightarrow> nat \<Rightarrow> native_value \<Rightarrow> owned_value snapshot" where
  "snapshot_value lib depth v =
     (if depth > MAX_VALUE_DEPTH then sresult (Inl conversion)
      else snapshot_body lib (\<lambda>x. snapshot_value lib (depth + 1) x) v)"
  by pat_completeness auto
termination
  by (relation "measure (\<lambda>(lib, depth, v). MAX_VALUE_DEPTH + 1 - depth)") auto

declare snapshot_value.simps [simp del]

definition snapshot_with_limit :: "libraries \<Rightarrow> native_value \<Rightarrow> nat \<Rightarrow> owned_value nresult" where
  "snapshot_with_limit lib v limit =
     fst (sbind (charge (size_of_value lib)) (\<lambda>_. snapshot_value lib 0 v) (budget_new limit))"

definition owned_try_from :: "libraries \<Rightarrow> native_value \<Rightarrow> owned_value nresult" where
  "owned_try_from lib v = snapshot_with_limit lib v MAX_SNAPSHOT_BYTES"

section \<open>Snapshots of JavaScript values\<close>

definition object_keys_limited :: "'v node \<Rightarrow> 'v \<Rightarrow> nat \<Rightarrow> bytes list nresult" where
  "object_keys_limited nd v maximum =
     rbind (js_property_names nd v) (\<lambda>names.
     if length names > maximum then Inl conversion
     else if list_ex (\<lambda>key. length key > MAX_FIELD_NAME_BYTES) names then Inl conversion
     else Inr names)"

definition payload_fields_from_keys :: "bytes list \<Rightarrow> fields nresult" where
  "payload_fields_from_keys keys =
     (if ascii ''tag'' \<notin> set keys then Inl conversion
      else rfold (\<lambda>key fields.
        if key = ascii ''tag'' then Inr fields
        else (case map_of PAYLOAD_FIELDS key of None \<Rightarrow> Inl conversion | Some flag \<Rightarrow> Inr (fields OR flag))) keys 0)"

definition required_property :: "'v node \<Rightarrow> ('v \<Rightarrow> 'a nresult) \<Rightarrow> 'v \<Rightarrow> string \<Rightarrow> 'a nresult" where
  "required_property nd convert v field =
     rbind (js_get nd v (ascii field)) (\<lambda>p. case p of None \<Rightarrow> Inl conversion | Some x \<Rightarrow> convert x)"

definition required_bigint_i64_property :: "'v node \<Rightarrow> 'v \<Rightarrow> string \<Rightarrow> int nresult" where
  "required_bigint_i64_property nd v field =
     rbind (required_property nd Inr v field) (\<lambda>x.
     rbind (js_type nd x) (\<lambda>t.
     if t \<noteq> BigIntType then Inl conversion
     else rbind (js_bigint nd x) (\<lambda>(result, lossless). if lossless then Inr result else Inl conversion)))"

definition required_exact_integer_property :: "'v node \<Rightarrow> 'v \<Rightarrow> string \<Rightarrow> int \<Rightarrow> int \<Rightarrow> int nresult" where
  "required_exact_integer_property nd v field minimum maximum =
     rbind (required_property nd (js_number nd) v field) (\<lambda>x.
     if f64_integer_within minimum maximum x then Inr (f64_trunc x) else Inl conversion)"

definition required_string_property :: "'v node \<Rightarrow> 'v \<Rightarrow> string \<Rightarrow> nat \<Rightarrow> bytes snapshot" where
  "required_string_property nd v field maximum =
     sbind (sresult (required_property nd (js_string nd) v field)) (\<lambda>text.
     if length text > maximum then sresult (Inl conversion)
     else sbind (charge (length text)) (\<lambda>_. sresult (Inr text)))"

definition ensure_not_ancestor :: "'v node \<Rightarrow> 'v \<Rightarrow> 'v list \<Rightarrow> unit nresult" where
  "ensure_not_ancestor nd v ancestors =
     rfold (\<lambda>ancestor _. rbind (js_equals nd v ancestor) (\<lambda>equal. if equal then Inl conversion else Inr ())) ancestors ()"

text \<open>The elements of an array, each of which may be missing.\<close>

definition array_elements :: "'v node \<Rightarrow> ('v \<Rightarrow> 'a snapshot) \<Rightarrow> 'v \<Rightarrow> nat \<Rightarrow> 'a list snapshot" where
  "array_elements nd f v len =
     smap (\<lambda>index. sbind (sresult (js_element nd v index)) (\<lambda>p.
       case p of None \<Rightarrow> sresult (Inl conversion) | Some x \<Rightarrow> f x)) [0..<len]"

definition snapshot_unknown_entry :: "'v node \<Rightarrow> ('v \<Rightarrow> owned_value snapshot) \<Rightarrow> 'v \<Rightarrow> (bytes \<times> owned_value) snapshot" where
  "snapshot_unknown_entry nd rec v =
     sbind (sresult (js_type nd v)) (\<lambda>t.
     if t \<noteq> ObjectType then sresult (Inl conversion)
     else sbind (sresult (object_keys_limited nd v 2)) (\<lambda>keys.
     if mset keys \<noteq> {#ascii ''key'', ascii ''value''#} then sresult (Inl conversion)
     else sbind (required_string_property nd v ''key'' MAX_SNAPSHOT_BYTES) (\<lambda>key.
       sbind (sresult (required_property nd Inr v ''value'')) (\<lambda>child.
       sbind (rec child) (\<lambda>x. sresult (Inr (key, x)))))))"

definition snapshot_unknown_object ::
  "'v node \<Rightarrow> libraries \<Rightarrow> ('v \<Rightarrow> owned_value snapshot) \<Rightarrow> 'v \<Rightarrow> owned_value snapshot" where
  "snapshot_unknown_object nd lib rec v =
     sbind (sresult (object_keys_limited nd v (length PAYLOAD_FIELDS + 1))) (\<lambda>keys.
     sbind (sresult (payload_fields_from_keys keys)) (\<lambda>actual_fields.
     sbind (required_string_property nd v ''tag'' MAX_TAG_BYTES) (\<lambda>tag.
     sbind (sresult (validate_payload_fields tag actual_fields)) (\<lambda>expected.
     sbind (sthen (expected = FIELD_BOOL) (sresult (required_property nd (js_bool nd) v ''boolValue''))) (\<lambda>bool_value.
     sbind (sthen (expected = FIELD_NUMBER) (sresult (required_property nd (js_number nd) v ''numberValue''))) (\<lambda>number_value.
     sbind (sthen (expected = FIELD_BIGINT) (sresult (required_bigint_i64_property nd v ''bigintValue''))) (\<lambda>bigint_value.
     sbind (sthen (expected AND FIELD_STRING \<noteq> 0) (required_string_property nd v ''stringValue'' MAX_SNAPSHOT_BYTES)) (\<lambda>string_value.
     sbind (sthen (expected AND FIELD_CONTEXT \<noteq> 0) (required_string_property nd v ''context'' MAX_SNAPSHOT_BYTES)) (\<lambda>ctx.
     sbind (sthen (expected AND FIELD_BYTES \<noteq> 0)
       (sbind (sresult (required_property nd (js_bytes nd) v ''bytesValue'')) (\<lambda>bs.
        sbind (charge (length bs)) (\<lambda>_. sresult (Inr bs))))) (\<lambda>bytes_value.
     sbind (sthen (expected AND FIELD_TYPE_CODE \<noteq> 0)
       (sresult (required_exact_integer_property nd v ''typeCode'' (-32768) 32767))) (\<lambda>type_code.
     sbind (sthen (expected AND FIELD_LENGTH \<noteq> 0)
       (sresult (rbind (required_property nd (js_number nd) v ''length'') number_to_usize))) (\<lambda>len.
     sbind (sthen (expected AND FIELD_IS_TABLE \<noteq> 0) (sresult (required_property nd (js_bool nd) v ''isTable''))) (\<lambda>is_table.
     sbind (sthen (expected = FIELD_ITEMS)
       (sbind (sresult (required_property nd (\<lambda>x. rbind (js_array_len nd x) (\<lambda>n. Inr (x, n))) v ''items'')) (\<lambda>(items, n).
        sbind (charge_allocation (size_of_value lib) n) (\<lambda>_. array_elements nd rec items n)))) (\<lambda>items.
     sbind (sthen (expected = FIELD_ENTRIES)
       (sbind (sresult (required_property nd (\<lambda>x. rbind (js_array_len nd x) (\<lambda>n. Inr (x, n))) v ''entries'')) (\<lambda>(entries, n).
        sbind (charge_allocation (size_of_entry lib) n) (\<lambda>_.
        array_elements nd (snapshot_unknown_entry nd rec) entries n)))) (\<lambda>entries.
     sresult (Inr (OwnedValue tag bool_value number_value bigint_value string_value ctx bytes_value items entries
       type_code len is_table)))))))))))))))))"

lemma snapshot_unknown_object_cong [fundef_cong]:
  assumes "\<And>x. rec x = rec' x" "nd = nd'" "lib = lib'" "v = v'"
  shows "snapshot_unknown_object nd lib rec v = snapshot_unknown_object nd' lib' rec' v'"
  unfolding assms(2-4) ext [of rec rec', OF assms(1)] ..

function snapshot_unknown_value :: "'v node \<Rightarrow> libraries \<Rightarrow> nat \<Rightarrow> 'v list \<Rightarrow> 'v \<Rightarrow> owned_value snapshot" where
  "snapshot_unknown_value nd lib depth ancestors v =
     (if depth > MAX_VALUE_DEPTH then sresult (Inl conversion)
      else sbind (sresult (js_type nd v)) (\<lambda>t.
        if t \<noteq> ObjectType then sresult (Inl conversion)
        else sbind (sresult (ensure_not_ancestor nd v ancestors)) (\<lambda>_.
          snapshot_unknown_object nd lib (\<lambda>x. snapshot_unknown_value nd lib (depth + 1) (ancestors @ [v]) x) v)))"
  by pat_completeness auto
termination
  by (relation "measure (\<lambda>(nd, lib, depth, ancestors, v). MAX_VALUE_DEPTH + 1 - depth)") auto

declare snapshot_unknown_value.simps [simp del]

definition snapshot_native_value :: "'v node \<Rightarrow> libraries \<Rightarrow> 'v \<Rightarrow> owned_value nresult" where
  "snapshot_native_value nd lib v =
     fst (sbind (charge (size_of_value lib)) (\<lambda>_. snapshot_unknown_value nd lib 0 [] v) (budget_new MAX_SNAPSHOT_BYTES))"

text \<open>The snapshot of an array: its values and the bytes used, with the budget.\<close>

definition snapshot_native_value_array ::
  "'v node \<Rightarrow> libraries \<Rightarrow> 'v \<Rightarrow> nat \<Rightarrow> nat \<Rightarrow> nat option \<Rightarrow> (queue_reservation \<times> admission_state) option
    \<Rightarrow> (owned_value list \<times> nat) nresult \<times> snapshot_budget" where
  "snapshot_native_value_array nd lib arr len limit maximum r =
     (let budget = budget_with_reservation limit r in
      if (case maximum of None \<Rightarrow> False | Some m \<Rightarrow> len > m) then (Inl conversion, budget)
      else (case sbind (charge_allocation (size_of_value lib) len) (\<lambda>_.
                  array_elements nd (snapshot_unknown_value nd lib 0 []) arr len) budget of
              (Inl e, b) \<Rightarrow> (Inl e, b)
            | (Inr vs, b) \<Rightarrow> (Inr (vs, budget_used b), b)))"

definition snapshot_native_value_list :: "'v node \<Rightarrow> libraries \<Rightarrow> 'v \<Rightarrow> nat \<Rightarrow> nat \<Rightarrow> (owned_value list \<times> nat) nresult" where
  "snapshot_native_value_list nd lib arr len limit = fst (snapshot_native_value_array nd lib arr len limit None None)"

definition snapshot_native_values_admitted ::
  "'v node \<Rightarrow> libraries \<Rightarrow> 'v \<Rightarrow> nat \<Rightarrow> nat \<Rightarrow> queue_reservation \<Rightarrow> admission_state
    \<Rightarrow> (owned_value list \<times> nat) nresult \<times> snapshot_budget" where
  "snapshot_native_values_admitted nd lib arr len limit r st =
     snapshot_native_value_array nd lib arr len limit (Some 8) (Some (r, st))"

section \<open>Arrow streams\<close>

definition dataframe_to_ipc :: "libraries \<Rightarrow> series list \<Rightarrow> bytes nresult" where
  "dataframe_to_ipc lib df = ok_or (frame_to_ipc lib df) conversion"

definition series_to_ipc :: "libraries \<Rightarrow> series \<Rightarrow> bytes nresult" where
  "series_to_ipc lib s = rbind (ok_or (series_frame lib s) conversion) (dataframe_to_ipc lib)"

definition dataframe_from_ipc :: "libraries \<Rightarrow> bytes \<Rightarrow> series list nresult" where
  "dataframe_from_ipc lib bs = ok_or (frame_from_ipc lib bs) conversion"

definition series_from_ipc :: "libraries \<Rightarrow> bytes \<Rightarrow> series nresult" where
  "series_from_ipc lib bs =
     rbind (dataframe_from_ipc lib bs) (\<lambda>columns.
     if length columns \<noteq> 1 then Inl conversion else Inr (columns ! 0))"

section \<open>From owned values to q values\<close>

definition NANOS_PER_MILLISECOND :: int where "NANOS_PER_MILLISECOND = 1000000"
definition NANOS_PER_SECOND :: int where "NANOS_PER_SECOND = 1000000000"
definition MIN_Q_TIMESTAMP_UNIX_NANOS :: int where
  "MIN_Q_TIMESTAMP_UNIX_NANOS = -9223372036854775808 + 946684800000000000 + 2"

definition required :: "'a option \<Rightarrow> 'a nresult" where
  "required v = ok_or v conversion"

definition required_integer :: "owned_value \<Rightarrow> int \<Rightarrow> int \<Rightarrow> int nresult" where
  "required_integer v minimum maximum =
     rbind (required (ov_number v)) (\<lambda>x.
     if f64_integer_within minimum maximum x then Inr (f64_trunc x) else Inl conversion)"

definition binding_q_symbol :: "bytes \<Rightarrow> unit nresult" where
  "binding_q_symbol s = (if 0 \<in> set s then Inl conversion else Inr ())"

text \<open>The bounds of \<open>f32\<close> as doubles: \<open>(2 ^ 24 - 1) * 2 ^ 104\<close> either side of zero.\<close>

definition outside_f32 :: "f64 \<Rightarrow> bool" where
  "outside_f32 x \<longleftrightarrow> f64_num x < - (16777215 * 2 ^ 104) * int (f64_den x) \<or> f64_num x > 16777215 * 2 ^ 104 * int (f64_den x)"

definition time_into_k :: "int \<Rightarrow> k nresult" where
  "time_into_k nanos =
     (if \<not> (0 \<le> nanos \<and> nanos < NANOS_PER_DAY) then Inl conversion
      else if nanos mod NANOS_PER_MILLISECOND \<noteq> 0 then Inl conversion
      else Inr (KTime (nat (nanos div NANOS_PER_SECOND)) (nat (nanos mod NANOS_PER_SECOND))))"

text \<open>\<open>DateTime::from_timestamp\<close> of any 64-bit count of nanoseconds is that instant.\<close>

definition timestamp_into_k :: "int \<Rightarrow> k nresult" where
  "timestamp_into_k nanos =
     (if nanos < MIN_Q_TIMESTAMP_UNIX_NANOS then Inl conversion
      else Inr (KDateTime (nanos div NANOS_PER_SECOND * NANOS_PER_SECOND + nanos mod NANOS_PER_SECOND)))"

definition qvalue_into_k :: "owned_value \<Rightarrow> k nresult" where
  "qvalue_into_k v =
     rbind (required (ov_bytes v)) (\<lambda>bs.
     rbind (from_xqdb (from_owned_bytes bs)) (\<lambda>q.
     rbind (required (ov_type_code v)) (\<lambda>c. if c \<noteq> qv_type_code q then Inl conversion else
     rbind (required (ov_length v)) (\<lambda>n. if n \<noteq> qv_len q then Inl conversion else
     rbind (required (ov_is_table v)) (\<lambda>t. if t \<noteq> qv_is_table q then Inl conversion else
     Inr (KQValue q))))))"

text \<open>The tags of values without members.\<close>

definition scalar_into_k :: "libraries \<Rightarrow> owned_value \<Rightarrow> k nresult" where
  "scalar_into_k lib v =
     (let is = \<lambda>name. ov_tag v = ascii name in
      if is ''null'' then Inr KNull
      else if is ''boolean'' then rbind (required (ov_bool v)) (\<lambda>b. Inr (KBoolean b))
      else if is ''guid'' then rbind (required (ov_string v)) (\<lambda>s.
        rbind (ok_or (uuid_parse lib s) conversion) (\<lambda>g. Inr (KGuid g)))
      else if is ''u8'' then rbind (required_integer v 0 255) (\<lambda>i. Inr (KU8 (word_of_int i)))
      else if is ''i16'' then rbind (required_integer v (-32768) 32767) (\<lambda>i. Inr (KI16 (word_of_int i)))
      else if is ''i32'' then rbind (required_integer v (-2147483648) 2147483647) (\<lambda>i. Inr (KI32 (word_of_int i)))
      else if is ''i64'' then rbind (required (ov_bigint v)) (\<lambda>i. Inr (KI64 (word_of_int i)))
      else if is ''f32'' then rbind (required (ov_number v)) (\<lambda>x.
        if f64_is_finite x \<and> outside_f32 x then Inl conversion else Inr (KF32 (f32_of_f64 x)))
      else if is ''f64'' then rbind (required (ov_number v)) (\<lambda>x. Inr (KF64 x))
      else if is ''char'' then rbind (required_integer v 0 255) (\<lambda>i. Inr (KChar (word_of_int i)))
      else if is ''symbol'' then rbind (required (ov_string v)) (\<lambda>s.
        rbind (binding_q_symbol s) (\<lambda>_. Inr (KSymbol s)))
      else if is ''string'' then rbind (required (ov_string v)) (\<lambda>s. Inr (KString s))
      else if is ''operator'' then rbind (required (ov_string v)) (\<lambda>s.
        rbind (from_xqdb (qoperator_new s)) (\<lambda>op. Inr (KOperator op)))
      else if is ''lambda'' then rbind (required (ov_string v)) (\<lambda>src.
        rbind (required (ov_context v)) (\<lambda>ctx.
        rbind (from_xqdb (qlambda_with_context src ctx)) (\<lambda>l. Inr (KLambda l))))
      else if is ''bytes'' then rbind (required (ov_bytes v)) (\<lambda>bs. Inr (KCharVector bs))
      else if is ''timestamp'' then rbind (required (ov_bigint v)) timestamp_into_k
      else if is ''date'' then rbind (required (ov_string v)) (\<lambda>s.
        rbind (ok_or (date_parse lib s) conversion) (\<lambda>d. Inr (KDate d)))
      else if is ''time'' then rbind (required (ov_bigint v)) time_into_k
      else if is ''timespan'' then rbind (required (ov_bigint v)) (\<lambda>i. Inr (KDuration i))
      else if is ''series'' then rbind (required (ov_bytes v)) (\<lambda>bs.
        rbind (series_from_ipc lib bs) (\<lambda>s. Inr (KSeries s)))
      else if is ''qvalue'' then qvalue_into_k v
      else if is ''table'' then rbind (required (ov_bytes v)) (\<lambda>bs.
        rbind (dataframe_from_ipc lib bs) (\<lambda>df. Inr (KDataFrame df)))
      else Inl conversion)"

lemma owned_size_members:
  "ov_items v = Some xs \<Longrightarrow> x \<in> set xs \<Longrightarrow> size x < size v"
  "ov_entries v = Some es \<Longrightarrow> p \<in> set es \<Longrightarrow> size (snd p) < size v"
proof -
  assume "ov_items v = Some xs" "x \<in> set xs"
  then show "size x < size v" using size_list_estimation' [of x xs "size x" size] by (cases v) auto
next
  assume "ov_entries v = Some es" "p \<in> set es"
  then show "size (snd p) < size v"
    using size_list_estimation' [of p es "size (snd p)" "size_prod (\<lambda>_. 0) size"] by (cases v; cases p) auto
qed

text \<open>\<open>into_k\<close>: a list and a dictionary convert their members in order; a duplicate key is an error.\<close>

function into_k :: "libraries \<Rightarrow> owned_value \<Rightarrow> k nresult" where
  "into_k lib v =
     (if ov_tag v = ascii ''list'' then
        (case ov_items v of
           None \<Rightarrow> Inl conversion
         | Some items \<Rightarrow> rbind (rmap (\<lambda>x. into_k lib x) items) (\<lambda>values. Inr (KMixedList values)))
      else if ov_tag v = ascii ''dictionary'' then
        (case ov_entries v of
           None \<Rightarrow> Inl conversion
         | Some entries \<Rightarrow>
             rbind (rfold (\<lambda>(key, x) dictionary.
               rbind (binding_q_symbol key) (\<lambda>_.
               if key \<in> fst ` set dictionary then Inl conversion
               else rbind (into_k lib x) (\<lambda>y. Inr (dictionary @ [(key, y)])))) entries []) (\<lambda>d. Inr (KDict d)))
      else scalar_into_k lib v)"
  by pat_completeness auto
termination
proof (relation "measure (size \<circ> snd)")
  fix lib :: libraries and v items x assume "ov_items v = Some items" "x \<in> set items"
  then show "((lib, x), lib, v) \<in> measure (size \<circ> snd)" using owned_size_members(1) by simp
next
  fix lib :: libraries and v entries p key x assume "ov_entries v = Some entries" "p \<in> set entries" "(key, x) = p"
  then show "((lib, x), lib, v) \<in> measure (size \<circ> snd)" using owned_size_members(2) [of v entries p] by auto
qed auto

declare into_k.simps [simp del]

definition native_values_into_k :: "libraries \<Rightarrow> owned_value list \<Rightarrow> k list nresult" where
  "native_values_into_k lib vs = rmap (into_k lib) vs"

section \<open>From q values to native values\<close>

definition empty_native_value :: native_value where
  "empty_native_value = NativeValue [] None None None None None None None None None None None"

definition tagged :: "string \<Rightarrow> native_value" where
  "tagged tag = NativeValue (ascii tag) None None None None None None None None None None None"

definition native_number :: "string \<Rightarrow> f64 \<Rightarrow> native_value" where
  "native_number tag x = NativeValue (ascii tag) None (Some x) None None None None None None None None None"

text \<open>\<open>BigInt { sign_bit: value.is_negative(), words: vec![value.unsigned_abs()] }\<close>\<close>

definition native_bigint :: "string \<Rightarrow> int \<Rightarrow> native_value" where
  "native_bigint tag i =
     NativeValue (ascii tag) None None (Some (i < 0, [word_of_int \<bar>i\<bar>])) None None None None None None None None"

definition native_string :: "string \<Rightarrow> bytes \<Rightarrow> native_value" where
  "native_string tag s = NativeValue (ascii tag) None None None (Some s) None None None None None None None"

definition native_bytes :: "string \<Rightarrow> bytes \<Rightarrow> native_value" where
  "native_bytes tag bs = NativeValue (ascii tag) None None None None None (Some bs) None None None None None"

function k_into_native_with_depth :: "libraries \<Rightarrow> k \<Rightarrow> nat \<Rightarrow> native_value nresult" where
  "k_into_native_with_depth lib v depth =
     (if depth > MAX_VALUE_DEPTH then Inl conversion
      else case v of
        KOperator op \<Rightarrow> Inr (native_string ''operator'' (op_name op))
      | KLambda l \<Rightarrow> Inr (NativeValue (ascii ''lambda'') None None None (Some (source l)) (Some (lcontext l))
          None None None None None None)
      | KNull \<Rightarrow> Inr (tagged ''null'')
      | KBoolean b \<Rightarrow> Inr (NativeValue (ascii ''boolean'') (Some b) None None None None None None None None None None)
      | KGuid g \<Rightarrow> Inr (native_string ''guid'' (uuid_text lib g))
      | KU8 x \<Rightarrow> Inr (native_number ''u8'' (f64_of_int (uint x)))
      | KI16 x \<Rightarrow> Inr (native_number ''i16'' (f64_of_int (sint x)))
      | KI32 x \<Rightarrow> Inr (native_number ''i32'' (f64_of_int (sint x)))
      | KI64 x \<Rightarrow> Inr (native_bigint ''i64'' (sint x))
      | KF32 x \<Rightarrow> Inr (native_number ''f32'' (f64_of_f32 x))
      | KF64 x \<Rightarrow> Inr (native_number ''f64'' x)
      | KChar x \<Rightarrow> Inr (native_number ''char'' (f64_of_int (uint x)))
      | KSymbol s \<Rightarrow> rbind (binding_q_symbol s) (\<lambda>_. Inr (native_string ''symbol'' s))
      | KString s \<Rightarrow> Inr (native_string ''string'' s)
      | KCharVector bs \<Rightarrow> Inr (native_bytes ''bytes'' bs)
      | KQValue q \<Rightarrow> Inr (NativeValue (ascii ''qvalue'') None None None None None (Some (qv_bytes q)) None None
          (Some (qv_type_code q)) (Some (f64_of_int (int (qv_len q)))) (Some (qv_is_table q)))
      | KDateTime t \<Rightarrow> rbind (ok_or (timestamp_nanos_opt t) conversion) (\<lambda>nanos. Inr (native_bigint ''timestamp'' nanos))
      | KDate d \<Rightarrow> Inr (native_string ''date'' (date_text lib d))
      | KTime secs nanosecond \<Rightarrow>
          (let nanos = int secs * NANOS_PER_SECOND + int nanosecond in
           if nanos mod NANOS_PER_MILLISECOND \<noteq> 0 then Inl conversion else Inr (native_bigint ''time'' nanos))
      | KDuration d \<Rightarrow> rbind (ok_or (checked_i64 d) conversion) (\<lambda>nanos. Inr (native_bigint ''timespan'' nanos))
      | KMixedList values \<Rightarrow>
          rbind (rmap (\<lambda>x. k_into_native_with_depth lib x (depth + 1)) values) (\<lambda>items.
          Inr (NativeValue (ascii ''list'') None None None None None None (Some items) None None None None))
      | KSeries s \<Rightarrow> rbind (series_to_ipc lib s) (\<lambda>bs. Inr (native_bytes ''series'' bs))
      | KDataFrame df \<Rightarrow> rbind (dataframe_to_ipc lib df) (\<lambda>bs. Inr (native_bytes ''table'' bs))
      | KDict d \<Rightarrow>
          rbind (rmap (\<lambda>(key, x). rbind (binding_q_symbol key) (\<lambda>_.
            rbind (k_into_native_with_depth lib x (depth + 1)) (\<lambda>y. Inr (key, y)))) d) (\<lambda>entries.
          Inr (NativeValue (ascii ''dictionary'') None None None None None None None (Some entries) None None None)))"
  by pat_completeness auto
termination
  by (relation "measure (\<lambda>(lib, v, depth). MAX_VALUE_DEPTH + 1 - depth)") auto

declare k_into_native_with_depth.simps [simp del]

definition k_into_native :: "libraries \<Rightarrow> k \<Rightarrow> native_value nresult" where
  "k_into_native lib v = k_into_native_with_depth lib v 0"

end
