(* ===== verification/NativeDtoCorrect.thy ===== *)
theory NativeDtoCorrect
  imports NativeDto
begin

text \<open>
  What the conversions at the JavaScript boundary guarantee: a snapshot spends its budget, its
  reservation and the queue counters in step and exactly (\<open>charged\<close>), integers are exact in double
  precision, and a q value converted to a native value converts back (\<open>yields\<close>, \<open>returns\<close>).
\<close>

section \<open>Charges\<close>

definition spent :: "nat \<Rightarrow> snapshot_budget \<Rightarrow> snapshot_budget \<Rightarrow> bool" where
  "spent n b b' \<longleftrightarrow> sb_limit b' = sb_limit b \<and> sb_remaining b = sb_remaining b' + n
     \<and> (case sb_reservation b of
          None \<Rightarrow> sb_reservation b' = None
        | Some (r, st) \<Rightarrow> sb_reservation b' = Some (r + n, st\<lparr>counts := (counts st)\<lparr>queued_bytes := queued_bytes (counts st) + n\<rparr>\<rparr>)
            \<and> (queued_bytes (counts st) \<le> byte_capacity st \<longrightarrow> queued_bytes (counts st) + n \<le> byte_capacity st))"

lemma spent_0: "spent 0 b b"
  by (auto simp: spent_def split: option.splits)

lemma spent_trans: "spent n b b' \<Longrightarrow> spent m b' b'' \<Longrightarrow> spent (n + m) b b''"
  by (auto simp: spent_def add.assoc split: option.splits)

text \<open>
  A computation is \<open>charged\<close> with \<open>P\<close> when it only spends the budget, in step with the reservation, and
  what it spends and what it returns are related by \<open>P\<close>.
\<close>

definition charged :: "'a snapshot \<Rightarrow> (nat \<Rightarrow> 'a \<Rightarrow> bool) \<Rightarrow> bool" where
  "charged m P \<longleftrightarrow> (\<forall>b. \<exists>n. spent n b (snd (m b)) \<and> (\<forall>x. fst (m b) = Inr x \<longrightarrow> P n x))"

lemma charged_mono: "charged m P \<Longrightarrow> (\<And>n x. P n x \<Longrightarrow> Q n x) \<Longrightarrow> charged m Q"
  unfolding charged_def by meson

lemma charged_sresult: "(\<And>x. r = Inr x \<Longrightarrow> P 0 x) \<Longrightarrow> charged (sresult r) P"
  by (auto simp: charged_def sresult_def intro: spent_0)

lemma charged_sbind:
  assumes "charged m P" "\<And>n x. P n x \<Longrightarrow> charged (f x) (\<lambda>k y. Q (n + k) y)"
  shows "charged (sbind m f) Q"
  unfolding charged_def
proof
  fix b
  obtain n where n: "spent n b (snd (m b))" "\<And>x. fst (m b) = Inr x \<Longrightarrow> P n x" using assms(1) unfolding charged_def by metis
  show "\<exists>n. spent n b (snd (sbind m f b)) \<and> (\<forall>x. fst (sbind m f b) = Inr x \<longrightarrow> Q n x)"
  proof (cases "m b")
    case (Pair r b')
    show ?thesis
    proof (cases r)
      case (Inl e)
      then show ?thesis using n(1) Pair by (auto simp: sbind_def)
    next
      case (Inr x)
      then have "charged (f x) (\<lambda>k y. Q (n + k) y)" using assms(2) n(2) Pair by simp
      then obtain k where "spent k b' (snd (f x b'))" "\<forall>y. fst (f x b') = Inr y \<longrightarrow> Q (n + k) y"
        unfolding charged_def by blast
      then show ?thesis using n(1) Pair Inr by (intro exI [of _ "n + k"]) (auto simp: sbind_def intro: spent_trans)
    qed
  qed
qed

lemma charged_charge: "charged (charge k) (\<lambda>n x. n = k)"
  unfolding charged_def
proof
  fix b
  show "\<exists>n. spent n b (snd (charge k b)) \<and> (\<forall>x. fst (charge k b) = Inr x \<longrightarrow> n = k)"
  proof (cases "fst (charge k b)")
    case (Inl e)
    then have "snd (charge k b) = b" by (auto simp: charge_def ensure_def split: if_splits option.splits sum.splits)
    then show ?thesis using Inl spent_0 by auto
  next
    case (Inr x)
    then have "spent k b (snd (charge k b))"
      by (auto simp: charge_def ensure_def spent_def charge_bytes_def rbind_Inr_iff ok_or_Inr_iff checked_add_Some
          split: if_splits option.splits sum.splits)
    then show ?thesis by auto
  qed
qed

lemma charged_allocation: "charged (charge_allocation w len) (\<lambda>n x. n = len * w)"
  unfolding charge_allocation_def
  by (rule charged_sbind [where P = "\<lambda>n k. n = 0 \<and> k = len * w"])
    (auto intro!: charged_sresult charged_mono [OF charged_charge] simp: allocation_size_def ok_or_Inr_iff checked_mul_Some)

lemma charged_smap:
  assumes "\<And>x. charged (f x) (\<lambda>n y. n = w y)"
  shows "charged (smap f xs) (\<lambda>n ys. n = sum_list (map w ys) \<and> length ys = length xs)"
proof (induction xs)
  case (Cons x xs)
  show ?case unfolding smap.simps
    by (rule charged_sbind [OF assms], rule charged_sbind [OF Cons.IH], rule charged_sresult) auto
qed (auto intro: charged_sresult)

lemma charged_sthen:
  "charged m (\<lambda>n y. n = w y) \<Longrightarrow> charged (sthen c m) (\<lambda>n x. n = (case x of None \<Rightarrow> 0 | Some y \<Rightarrow> w y))"
  unfolding sthen_def by (auto intro!: charged_sbind charged_sresult)

section \<open>What a snapshot holds\<close>

definition text_cost :: "bytes option \<Rightarrow> nat" where
  "text_cost v = (case v of None \<Rightarrow> 0 | Some bs \<Rightarrow> length bs)"

function owned_cost :: "libraries \<Rightarrow> owned_value \<Rightarrow> nat" where
  "owned_cost lib v = length (ov_tag v) + text_cost (ov_string v) + text_cost (ov_context v) + text_cost (ov_bytes v)
     + (case ov_items v of None \<Rightarrow> 0 | Some xs \<Rightarrow> length xs * size_of_value lib + sum_list (map (\<lambda>x. owned_cost lib x) xs))
     + (case ov_entries v of None \<Rightarrow> 0 | Some es \<Rightarrow> length es * size_of_entry lib
          + sum_list (map (\<lambda>(key, x). length key + owned_cost lib x) es))"
  by pat_completeness auto
termination
proof (relation "measure (size \<circ> snd)")
  fix lib :: libraries and v items x assume "ov_items v = Some items" "x \<in> set items"
  then show "((lib, x), lib, v) \<in> measure (size \<circ> snd)" using owned_size_members(1) by simp
next
  fix lib :: libraries and v entries p key x assume "ov_entries v = Some entries" "p \<in> set entries" "(key, x) = p"
  then show "((lib, x), lib, v) \<in> measure (size \<circ> snd)" using owned_size_members(2) [of v entries p] by auto
qed auto

declare owned_cost.simps [simp del]

lemma charged_array:
  assumes "\<And>x. charged (f x) (\<lambda>n y. n = w y)"
  shows "charged (array_elements nd f v len) (\<lambda>n ys. n = sum_list (map w ys) \<and> length ys = len)"
proof -
  have "charged (sbind (sresult (js_element nd v i)) (\<lambda>p. case p of None \<Rightarrow> sresult (Inl conversion) | Some x \<Rightarrow> f x)) (\<lambda>n y. n = w y)" for i
    by (rule charged_sbind [where P = "\<lambda>n _. n = 0"]) (auto intro!: charged_sresult assms split: option.splits)
  from charged_smap [OF this, where xs = "[0..<len]"] show ?thesis by (simp add: array_elements_def)
qed

lemma charged_string: "charged (required_string_property nd v field m) (\<lambda>n s. n = length s)"
  unfolding required_string_property_def
  by (rule charged_sbind [where P = "\<lambda>n _. n = 0"])
    (auto intro!: charged_sresult charged_sbind [OF charged_charge])

lemma charged_free: "charged (sresult r) (\<lambda>n _. n = 0)"
  by (rule charged_sresult) simp

lemma charged_entry:
  assumes "\<And>x. charged (rec x) (\<lambda>n y. n = w y)"
  shows "charged (snapshot_unknown_entry nd rec v) (\<lambda>n e. n = length (fst e) + w (snd e))"
  unfolding snapshot_unknown_entry_def
  by (auto intro!: charged_sbind [OF charged_free] charged_sbind [OF charged_string] charged_sbind [OF assms] charged_sresult)

lemma case_length_text_cost [simp]: "(case x of None \<Rightarrow> 0 | Some y \<Rightarrow> length y) = text_cost x"
  by (simp add: text_cost_def)

lemma case_zero [simp]: "(case x of None \<Rightarrow> 0 | Some y \<Rightarrow> 0) = (0 :: nat)"
  by (simp split: option.splits)

lemma charged_object:
  assumes "\<And>x. charged (rec x) (\<lambda>n y. n = owned_cost lib y)"
  shows "charged (snapshot_unknown_object nd lib rec v) (\<lambda>n y. n = owned_cost lib y)"
proof -
  note free = charged_sbind [OF charged_free] and txt_of = charged_sbind [OF charged_string]
    and opt_free = charged_sbind [OF charged_sthen [OF charged_free]]
    and opt_text = charged_sbind [OF charged_sthen [OF charged_string]]
  have bytes: "charged (sbind (sresult (required_property nd (js_bytes nd) v ''bytesValue'')) (\<lambda>bs.
        sbind (charge (length bs)) (\<lambda>_. sresult (Inr bs)))) (\<lambda>n y. n = length y)"
    by (auto intro!: free charged_sbind [OF charged_charge] charged_sresult)
  have items: "charged (sbind (sresult (required_property nd (\<lambda>x. rbind (js_array_len nd x) (\<lambda>n. Inr (x, n))) v ''items'')) (\<lambda>(items, n).
        sbind (charge_allocation (size_of_value lib) n) (\<lambda>_. array_elements nd rec items n)))
      (\<lambda>n ys. n = length ys * size_of_value lib + sum_list (map (owned_cost lib) ys))"
    by (auto intro!: free charged_sbind [OF charged_allocation] charged_mono [OF charged_array [OF assms]])
  have entries: "charged (sbind (sresult (required_property nd (\<lambda>x. rbind (js_array_len nd x) (\<lambda>n. Inr (x, n))) v ''entries'')) (\<lambda>(entries, n).
        sbind (charge_allocation (size_of_entry lib) n) (\<lambda>_. array_elements nd (snapshot_unknown_entry nd rec) entries n)))
      (\<lambda>n ys. n = length ys * size_of_entry lib + sum_list (map (\<lambda>(key, x). length key + owned_cost lib x) ys))"
    by (auto intro!: free charged_sbind [OF charged_allocation] charged_mono [OF charged_array [OF charged_entry [OF assms]]]
        simp: split_def)
  show ?thesis
    unfolding snapshot_unknown_object_def
    by (rule free, rule free, rule txt_of, rule free, rule opt_free, rule opt_free, rule opt_free, rule opt_text, rule opt_text,
        rule charged_sbind [OF charged_sthen [OF bytes]], rule opt_free, rule opt_free, rule opt_free,
        rule charged_sbind [OF charged_sthen [OF items]], rule charged_sbind [OF charged_sthen [OF entries]], rule charged_sresult)
      (clarsimp simp: owned_cost.simps)
qed

lemma charged_value: "charged (snapshot_unknown_value nd lib depth ancestors v) (\<lambda>n y. n = owned_cost lib y)"
proof (induction nd lib depth ancestors v rule: snapshot_unknown_value.induct)
  case (1 nd lib depth ancestors v)
  show ?case
    using "1.IH" by (subst snapshot_unknown_value.simps)
      (auto intro!: charged_sbind [OF charged_free] charged_sresult charged_object)
qed

text \<open>C19: Taking a snapshot of the arguments of a call keeps the accounts exact, whatever the JavaScript values
  are and whether it succeeds or fails: the bytes used never exceed the limit, the reservation and the queue
  counters grow by exactly the bytes used and stay within the queue's capacity, and the bytes used by a
  successful snapshot are exactly what the owned values occupy, their slots, texts, bytes and keys.\<close>
theorem snapshot_charges_exactly:
  assumes "snapshot_native_values_admitted nd lib arr len limit r st = (res, b)"
  shows "budget_used b \<le> limit
    \<and> sb_reservation b = Some (r + budget_used b,
        st\<lparr>counts := (counts st)\<lparr>queued_bytes := queued_bytes (counts st) + budget_used b\<rparr>\<rparr>)
    \<and> (queued_bytes (counts st) \<le> byte_capacity st \<longrightarrow> queued_bytes (counts st) + budget_used b \<le> byte_capacity st)
    \<and> (\<forall>vs used. res = Inr (vs, used) \<longrightarrow> used = budget_used b \<and> length vs = len \<and> len \<le> 8
         \<and> used = len * size_of_value lib + sum_list (map (owned_cost lib) vs))"
proof -
  let ?b = "budget_with_reservation limit (Some (r, st))"
  let ?m = "sbind (charge_allocation (size_of_value lib) len) (\<lambda>_. array_elements nd (snapshot_unknown_value nd lib 0 []) arr len)"
  have "charged ?m (\<lambda>n vs. n = len * size_of_value lib + sum_list (map (owned_cost lib) vs) \<and> length vs = len)"
    by (auto intro!: charged_sbind [OF charged_allocation] charged_mono [OF charged_array [OF charged_value]])
  then obtain n where n: "spent n ?b (snd (?m ?b))"
    "\<forall>vs. fst (?m ?b) = Inr vs \<longrightarrow> n = len * size_of_value lib + sum_list (map (owned_cost lib) vs) \<and> length vs = len"
    unfolding charged_def by blast
  show ?thesis
  proof (cases "len > 8")
    case True
    then show ?thesis using assms
      by (auto simp: snapshot_native_values_admitted_def snapshot_native_value_array_def budget_with_reservation_def budget_used_def)
  next
    case False
    then have "snd (?m ?b) = b" "\<And>vs used. res = Inr (vs, used) \<Longrightarrow> fst (?m ?b) = Inr vs \<and> used = budget_used b"
      using assms by (auto simp: snapshot_native_values_admitted_def snapshot_native_value_array_def Let_def
          split: prod.splits sum.splits)
    moreover have "budget_used b = n" if "snd (?m ?b) = b"
      using n(1) that by (auto simp: spent_def budget_used_def budget_with_reservation_def)
    ultimately show ?thesis using n False by (auto simp: spent_def budget_with_reservation_def)
  qed
qed

section \<open>Integers as doubles\<close>

lemma bit_length_bounds: "0 < n \<Longrightarrow> 2 ^ (bit_length n - 1) \<le> n \<and> n < 2 ^ bit_length n \<and> 0 < bit_length n"
proof (induction n rule: bit_length.induct)
  case (1 n)
  show ?case
  proof (cases "n = 1")
    case True
    then show ?thesis by (simp add: bit_length.simps [of "Suc 0"] bit_length.simps [of 0])
  next
    case False
    then have h: "0 < n div 2" using "1.prems" by auto
    then have ih: "2 ^ (bit_length (n div 2) - 1) \<le> n div 2" "n div 2 < 2 ^ bit_length (n div 2)" "0 < bit_length (n div 2)"
      using "1.IH" "1.prems" by auto
    have b: "bit_length n = Suc (bit_length (n div 2))" using "1.prems" by (simp add: bit_length.simps [of n])
    have "2 * 2 ^ (bit_length (n div 2) - 1) = (2 :: nat) ^ bit_length (n div 2)"
      using ih(3) by (metis power_minus_mult mult.commute)
    moreover have "n < 2 * 2 ^ bit_length (n div 2)" "2 * 2 ^ (bit_length (n div 2) - 1) \<le> n" using ih(1,2) by linarith+
    ultimately show ?thesis using ih b by simp
  qed
qed

lemma div_nearest_even_exact: "d \<noteq> 0 \<Longrightarrow> div_nearest_even (m * d) d = m"
  by (simp add: div_nearest_even_def)

lemma f64_of_integer:
  assumes n: "0 < n" "n < 2 ^ 53"
  defines "l \<equiv> bit_length n"
  shows "f64_of_ratio s n 1 = of_nat ((l + 1021) * 2 ^ 52 + n * 2 ^ (53 - l) + (if s then 2 ^ 63 else 0))"
    "2 ^ 52 \<le> n * 2 ^ (53 - l)" "n * 2 ^ (53 - l) < 2 ^ 53" "l \<le> 53" "0 < l"
proof -
  have l: "2 ^ (l - 1) \<le> n" "n < 2 ^ l" "0 < l" using bit_length_bounds [OF n(1)] by (auto simp: l_def)
  show l53: "l \<le> 53"
  proof (rule ccontr)
    assume "\<not> l \<le> 53"
    then have "(2 :: nat) ^ 53 \<le> 2 ^ (l - 1)" by (intro power_increasing) auto
    then show False using l(1) n(2) by linarith
  qed
  show "0 < l" by (rule l(3))
  have "(2 :: nat) ^ (l - 1) * 2 ^ (53 - l) = 2 ^ 52" using l(3) l53 by (simp flip: power_add)
  then show lo: "2 ^ 52 \<le> n * 2 ^ (53 - l)" using l(1) by (metis mult_le_mono1)
  have "(2 :: nat) ^ l * 2 ^ (53 - l) = 2 ^ 53" using l53 by (simp flip: power_add)
  then show hi: "n * 2 ^ (53 - l) < 2 ^ 53" using l(2) by (metis mult_less_mono1 zero_less_numeral zero_less_power)
  have b1: "bit_length 1 = 1" by (simp add: bit_length.simps)
  have "\<not> n * 2 ^ 1074 < 2 ^ (53 + (l + 1020))"
  proof -
    have e: "53 + (l + 1020) = (l - 1) + 1074" using l(3) by simp
    have "(2 :: nat) ^ (53 + (l + 1020)) = 2 ^ (l - 1) * 2 ^ 1074" unfolding e power_add ..
    then show ?thesis using l(1) by (simp only: not_less mult_le_mono1)
  qed
  moreover have "l + 1021 - 1 = l + 1020" by simp
  ultimately have sc: "f64_scale n 1 = l + 1021"
    unfolding f64_scale_def Let_def b1 mult_1 l_def [symmetric] by (simp only: if_False)
  have e: "1074 = (53 - l) + (l + 1021)" using l53 by simp
  have "(2 :: nat) ^ 1074 = 2 ^ (53 - l) * 2 ^ (l + 1021)" unfolding power_add [symmetric] using e by (rule arg_cong)
  then have "n * 2 ^ 1074 = n * 2 ^ (53 - l) * 2 ^ (l + 1021)" by (simp only: mult.assoc)
  then have m: "div_nearest_even (n * 2 ^ 1074) (1 * 2 ^ (l + 1021)) = n * 2 ^ (53 - l)"
    by (simp only: mult_1 div_nearest_even_exact power_not_zero zero_neq_numeral not_False_eq_True)
  have "(l + 1021) * 2 ^ 52 + n * 2 ^ (53 - l) < 1075 * 2 ^ 52 + 2 ^ 53" using l53 hi by (intro add_le_less_mono) auto
  then have "min ((l + 1021) * 0x10000000000000 + n * 2 ^ (53 - l)) 0x7FF0000000000000 = (l + 1021) * 2 ^ 52 + n * 2 ^ (53 - l)" by simp
  moreover have "\<not> n * 2 ^ (53 - l) < 0x10000000000000" using lo by simp
  ultimately show "f64_of_ratio s n 1 = of_nat ((l + 1021) * 2 ^ 52 + n * 2 ^ (53 - l) + (if s then 2 ^ 63 else 0))"
    unfolding f64_of_ratio_def Let_def sc m by simp
qed

lemma f64_of_integer_parts:
  assumes n: "0 < n" "n < 2 ^ 53"
  shows "f64_is_finite (f64_of_ratio s n 1)" "f64_sign (f64_of_ratio s n 1) = s"
    "f64_den (f64_of_ratio s n 1) = 2 ^ (53 - bit_length n)"
    "f64_num (f64_of_ratio s n 1) = (if s then -1 else 1) * int n * 2 ^ (53 - bit_length n)"
proof -
  let ?l = "bit_length n" and ?m = "n * 2 ^ (53 - bit_length n)"
  note w = f64_of_integer [OF n]
  obtain f where f: "?m = 2 ^ 52 + f" "f < 2 ^ 52" using w(2,3) le_Suc_ex [of "2 ^ 52" ?m] by auto
  define e where "e = ?l + 1022"
  have e: "e < 2047" "0 < e" using w(4) by (simp_all add: e_def)
  define W where "W = e * 2 ^ 52 + f"
  have W: "W < 2 ^ 63"
  proof -
    have "W < e * 2 ^ 52 + 2 ^ 52" using f(2) by (simp add: W_def)
    also have "\<dots> = (e + 1) * 2 ^ 52" by simp
    also have "\<dots> \<le> 2047 * 2 ^ 52" using e(1) by (intro mult_right_mono) auto
    also have "\<dots> < 2 ^ 63" by simp
    finally show ?thesis .
  qed
  have eq: "f64_of_ratio s n 1 = of_nat (W + (if s then 2 ^ 63 else 0))"
    using w(1) [of s] f(1) by (simp add: W_def e_def algebra_simps)
  have "W + (if s then 2 ^ 63 else 0) < 2 ^ 64" using W by simp
  then have u: "unat (f64_of_ratio s n 1) = W + (if s then 2 ^ 63 else 0)"
    unfolding eq unsigned_of_nat of_nat_id by (intro take_bit_nat_eq_self) simp
  have Wd: "W div 2 ^ 52 = e" "W mod 2 ^ 52 = f" using f(2) by (simp_all add: W_def)
  have md: "(W + (if s then 2 ^ 63 else 0)) mod 2 ^ 63 = W" using W by simp
  have hi: "e * 2 ^ 52 + f < 2047 * 2 ^ 52"
  proof -
    have "e * 2 ^ 52 + f < (e + 1) * 2 ^ 52" using f(2) by simp
    also have "\<dots> \<le> 2047 * 2 ^ 52" using e(1) by (intro mult_right_mono) auto
    finally show ?thesis .
  qed
  show "f64_is_finite (f64_of_ratio s n 1)" unfolding f64_is_finite_def u using md hi by (simp add: W_def)
  show sg: "f64_sign (f64_of_ratio s n 1) = s" unfolding f64_sign_def u using W by simp
  have ex: "(W + (if s then 2 ^ 63 else 0)) div 2 ^ 52 mod 2048 = e" "(W + (if s then 2 ^ 63 else 0)) mod 2 ^ 52 = f"
  proof -
    have "(W + 2 ^ 63) div 2 ^ 52 = e + 2048" using div_mult_self1 [of "2 ^ 52" W 2048] Wd(1) by simp
    then show "(W + (if s then 2 ^ 63 else 0)) div 2 ^ 52 mod 2048 = e" using Wd(1) e(1) by simp
    have "(W + 2 ^ 63) mod 2 ^ 52 = f" using mod_mult_self1 [of W 2048 "2 ^ 52"] Wd(2) by simp
    then show "(W + (if s then 2 ^ 63 else 0)) mod 2 ^ 52 = f" using Wd(2) by simp
  qed
  have xp: "f64_exponent (f64_of_ratio s n 1) = ?l + 1021" unfolding f64_exponent_def u using ex(1) e(2) by (simp add: e_def)
  have mt: "f64_mantissa (f64_of_ratio s n 1) = ?m" unfolding f64_mantissa_def u using ex e(2) f(1) by (simp add: Let_def)
  have "1074 - (?l + 1021) = 53 - ?l" "?l + 1021 - 1074 = 0" using w(4) by simp_all
  then show "f64_den (f64_of_ratio s n 1) = 2 ^ (53 - bit_length n)"
    "f64_num (f64_of_ratio s n 1) = (if s then -1 else 1) * int n * 2 ^ (53 - bit_length n)"
    unfolding f64_den_def f64_num_def xp mt sg by simp_all
qed

lemma f64_of_int_exact:
  assumes "\<bar>i\<bar> < 2 ^ 53"
  shows "f64_integer_within lo hi (f64_of_int i) \<longleftrightarrow> lo \<le> i \<and> i \<le> hi" "f64_trunc (f64_of_int i) = i"
proof -
  have "f64_integer_within lo hi (f64_of_int i) = (lo \<le> i \<and> i \<le> hi) \<and> f64_trunc (f64_of_int i) = i"
  proof (cases "i = 0")
    case True
    have "f64_of_int 0 = 0"
      by (simp add: f64_of_int_def f64_of_ratio_def f64_scale_def bit_length.simps [of 0] bit_length.simps [of "Suc 0"] Let_def div_nearest_even_def)
    moreover have "f64_num 0 = 0" "f64_is_finite 0" "\<not> f64_sign 0"
      by (simp_all add: f64_num_def f64_mantissa_def f64_is_finite_def f64_sign_def)
    moreover have "0 < f64_den 0" by (simp add: f64_den_def)
    ultimately show ?thesis using True by (simp add: f64_integer_within_def f64_trunc_def mult_le_0_iff zero_le_mult_iff)
  next
    case False
    define n where "n = nat \<bar>i\<bar>"
    have n: "0 < n" "n < 2 ^ 53" using assms False by (simp_all add: n_def nat_less_iff)
    note p = f64_of_integer_parts [OF n, of "i < 0"]
    have i: "(if i < 0 then -1 else 1) * int n = i" by (simp add: n_def)
    let ?d = "(2 :: int) ^ (53 - bit_length n)"
    have num: "f64_num (f64_of_int i) = i * ?d" using p(4) i by (simp add: f64_of_int_def n_def)
    have den: "int (f64_den (f64_of_int i)) = ?d" using p(3) by (simp add: f64_of_int_def n_def)
    have "nat \<bar>i * ?d\<bar> div f64_den (f64_of_int i) = n"
    proof -
      have "f64_den (f64_of_int i) = nat ?d" using den by simp
      moreover have "nat \<bar>i * ?d\<bar> = n * nat ?d" by (simp add: n_def abs_mult nat_mult_distrib)
      ultimately show ?thesis by simp
    qed
    moreover have "f64_is_finite (f64_of_int i)" "f64_sign (f64_of_int i) = (i < 0)"
      using p(1,2) by (simp_all add: f64_of_int_def n_def)
    moreover have "0 < ?d" by simp
    ultimately show ?thesis using i num den
      by (simp add: f64_integer_within_def f64_trunc_def mult_le_cancel_right n_def)
  qed
  then show "f64_integer_within lo hi (f64_of_int i) \<longleftrightarrow> lo \<le> i \<and> i \<le> hi" "f64_trunc (f64_of_int i) = i" by auto
qed

section \<open>Tags\<close>

lemma of_char_eq [simp]: "(of_char c :: byte) = of_char d \<longleftrightarrow> c = d"
proof -
  have "unat (of_char e :: byte) = of_char e" for e
  proof -
    have "(of_char e :: byte) = of_nat (of_char e)" by (rule of_nat_of_char [symmetric])
    then show ?thesis using nat_of_char_less_256 [of e] by (simp add: unsigned_of_nat take_bit_nat_eq_self)
  qed
  then show ?thesis by (metis of_char_eq_iff)
qed

lemma ascii_eq [simp]: "ascii s = ascii t \<longleftrightarrow> s = t"
  by (simp add: ascii_def inj_map_eq_map inj_def)


lemma length_ascii [simp]: "length (ascii s) = length s"
  by (simp add: ascii_def)

section \<open>Snapshots that fit their budget\<close>

definition list_cost :: "('a \<Rightarrow> nat) \<Rightarrow> nat \<Rightarrow> 'a list option \<Rightarrow> nat" where
  "list_cost f w v = (case v of None \<Rightarrow> 0 | Some xs \<Rightarrow> length xs * w + sum_list (map f xs))"

lemma list_cost_cong [fundef_cong]:
  "v = v' \<Longrightarrow> (\<And>xs x. v' = Some xs \<Longrightarrow> x \<in> set xs \<Longrightarrow> f x = g x) \<Longrightarrow> w = w' \<Longrightarrow> list_cost f w v = list_cost g w' v'"
  by (cases v') (auto simp: list_cost_def intro!: arg_cong [where f = sum_list])

lemma native_size_members:
  "nv_items v = Some xs \<Longrightarrow> x \<in> set xs \<Longrightarrow> size x < size v"
  "nv_entries v = Some es \<Longrightarrow> p \<in> set es \<Longrightarrow> size (snd p) < size v"
proof -
  assume "nv_items v = Some xs" "x \<in> set xs"
  then show "size x < size v" using size_list_estimation' [of x xs "size x" size] by (cases v) auto
next
  assume "nv_entries v = Some es" "p \<in> set es"
  then show "size (snd p) < size v"
    using size_list_estimation' [of p es "size (snd p)" "size_prod (\<lambda>_. 0) size"] by (cases v; cases p) auto
qed

function native_cost :: "libraries \<Rightarrow> native_value \<Rightarrow> nat" where
  "native_cost lib v = length (nv_tag v) + text_cost (nv_string v) + text_cost (nv_context v) + text_cost (nv_bytes v)
     + list_cost (\<lambda>x. native_cost lib x) (size_of_value lib) (nv_items v)
     + list_cost (\<lambda>p. length (fst p) + native_cost lib (snd p)) (size_of_entry lib) (nv_entries v)"
  by pat_completeness auto
termination
  by (relation "measure (size \<circ> snd)") (auto dest: native_size_members)

declare native_cost.simps [simp del]

text \<open>The budget after a charge, without a reservation.\<close>

definition spend :: "nat \<Rightarrow> snapshot_budget \<Rightarrow> snapshot_budget" where
  "spend n b = b\<lparr>sb_remaining := sb_remaining b - n\<rparr>"

definition affords :: "snapshot_budget \<Rightarrow> nat \<Rightarrow> bool" where
  "affords b n \<longleftrightarrow> sb_reservation b = None \<and> n \<le> sb_remaining b \<and> sb_remaining b < usize_limit"

lemma spend_spend [simp]: "spend m (spend n b) = spend (n + m) b" "spend 0 b = b"
  by (simp_all add: spend_def)

lemma affords_spend [simp]: "affords b (n + m) \<Longrightarrow> affords (spend n b) m"
  by (auto simp: affords_def spend_def)

lemma affords_mono: "affords b n \<Longrightarrow> m \<le> n \<Longrightarrow> affords b m"
  by (auto simp: affords_def)

text \<open>\<open>yields m x n\<close>: with a budget for \<open>n\<close> bytes, \<open>m\<close> returns \<open>x\<close> and spends \<open>n\<close>.\<close>

definition yields :: "'a snapshot \<Rightarrow> 'a \<Rightarrow> nat \<Rightarrow> bool" where
  "yields m x n \<longleftrightarrow> (\<forall>b. affords b n \<longrightarrow> m b = (Inr x, spend n b))"

lemma yields_sresult: "r = Inr x \<Longrightarrow> yields (sresult r) x 0"
  by (simp add: yields_def sresult_def)

lemma yields_sbind: "yields m x n \<Longrightarrow> yields (f x) y k \<Longrightarrow> yields (sbind m f) y (n + k)"
proof -
  assume m: "yields m x n" and f: "yields (f x) y k"
  show ?thesis unfolding yields_def
  proof (intro allI impI)
    fix b assume a: "affords b (n + k)"
    then have "m b = (Inr x, spend n b)" "f x (spend n b) = (Inr y, spend k (spend n b))"
      using m f affords_mono [OF a, of n] affords_spend [OF a] by (auto simp: yields_def)
    then show "sbind m f b = (Inr y, spend (n + k) b)" by (simp add: sbind_def)
  qed
qed

lemma yields_charge: "yields (charge n) () n"
  by (auto simp: yields_def charge_def ensure_def affords_def spend_def)

lemma yields_charge_if: "yields (charge_if v) () (text_cost v)"
  by (cases v) (auto simp: charge_if_def text_cost_def intro: yields_sresult yields_charge)

lemma yields_smap:
  "list_all2 (\<lambda>x y. yields (f x) y (w x)) xs ys \<Longrightarrow> yields (smap f xs) ys (sum_list (map w xs))"
proof (induction xs ys rule: list_all2_induct)
  case (Cons x xs y ys)
  have "yields (sbind (f x) (\<lambda>y. sbind (smap f xs) (\<lambda>ys. sresult (Inr (y # ys))))) (y # ys) (w x + (sum_list (map w xs) + 0))"
    using Cons by (intro yields_sbind [where x = y] yields_sbind [where x = ys] yields_sresult) auto
  then show ?case by simp
qed (auto intro: yields_sresult)

lemma yields_traverse:
  "v = None \<and> y = None \<and> n = 0 \<or> (\<exists>x z. v = Some x \<and> y = Some z \<and> yields (f x) z n) \<Longrightarrow> yields (traverse f v) y n"
proof (elim disjE exE conjE)
  fix x z assume "v = Some x" "y = Some z" "yields (f x) z n"
  then show ?thesis using yields_sbind [of "f x" z n "\<lambda>y. sresult (Inr (Some y))" "Some z" 0] yields_sresult [of "Inr (Some z)" "Some z"]
    by (simp add: traverse_def)
qed (auto simp: traverse_def intro: yields_sresult)

lemma yields_list:
  assumes "list_all2 (\<lambda>x y. yields (f x) y (w x)) xs ys"
  shows "yields (sbind (charge_allocation width (length xs)) (\<lambda>_. smap f xs)) ys (length xs * width + sum_list (map w xs))"
  unfolding yields_def
proof (intro allI impI)
  fix b assume a: "affords b (length xs * width + sum_list (map w xs))"
  then have "length xs * width < usize_limit" by (auto simp: affords_def)
  then have "charge_allocation width (length xs) b = (Inr (), spend (length xs * width) b)"
    using yields_charge [of "length xs * width"] affords_mono [OF a, of "length xs * width"]
    by (simp add: charge_allocation_def sbind_def sresult_def allocation_size_def checked_mul_def yields_def)
  then show "sbind (charge_allocation width (length xs)) (\<lambda>_. smap f xs) b
      = (Inr ys, spend (length xs * width + sum_list (map w xs)) b)"
    using yields_smap [OF assms] affords_spend [OF a] by (simp add: sbind_def yields_def)
qed

text \<open>The snapshot of one native value from those of its members.\<close>

definition option_rel :: "('a \<Rightarrow> 'b \<Rightarrow> bool) \<Rightarrow> 'a option \<Rightarrow> 'b option \<Rightarrow> bool" where
  "option_rel R v w \<longleftrightarrow> (case (v, w) of (None, None) \<Rightarrow> True | (Some x, Some y) \<Rightarrow> R x y | _ \<Rightarrow> False)"

lemma yields_free_traverse: "option_rel (\<lambda>x y. f x = Inr y) v w \<Longrightarrow> yields (traverse (\<lambda>x. sresult (f x)) v) w 0"
  by (rule yields_traverse) (auto simp: option_rel_def split: option.splits intro: yields_sresult)

lemma snapshot_yields:
  assumes d: "depth \<le> MAX_VALUE_DEPTH" and s: "validate_native_value_shape v = Inr ()"
    and free: "option_rel (\<lambda>x y. bigint_to_i64 lib x = Inr y) (nv_bigint v) bi"
      "option_rel (\<lambda>x y. i16_try_from x = Inr y) (nv_type_code v) tc"
      "option_rel (\<lambda>x y. number_to_usize x = Inr y) (nv_length v) ln"
    and items: "option_rel (list_all2 (\<lambda>x y. yields (snapshot_value lib (depth + 1) x) y (native_cost lib x))) (nv_items v) its"
    and entries: "option_rel (list_all2 (\<lambda>p q. fst q = fst p \<and> yields (snapshot_value lib (depth + 1) (snd p)) (snd q) (native_cost lib (snd p))))
       (nv_entries v) es"
  shows "yields (snapshot_value lib depth v)
    (OwnedValue (nv_tag v) (nv_bool v) (nv_number v) bi (nv_string v) (nv_context v) (nv_bytes v) its es tc ln (nv_is_table v))
    (native_cost lib v)"
proof -
  let ?rec = "snapshot_value lib (depth + 1)"
  have it: "yields (traverse (\<lambda>items. sbind (charge_allocation (size_of_value lib) (length items)) (\<lambda>_. smap ?rec items)) (nv_items v)) its
      (list_cost (native_cost lib) (size_of_value lib) (nv_items v))"
    using items by (intro yields_traverse) (auto simp: option_rel_def list_cost_def split: option.splits intro!: yields_list)
  have e: "yields (sbind (charge (length key)) (\<lambda>_. sbind (?rec x) (\<lambda>y. sresult (Inr (key, y))))) (key, y) (length key + native_cost lib x)"
    if "yields (?rec x) y (native_cost lib x)" for key x y
    using yields_sbind [OF yields_charge, OF yields_sbind [OF that yields_sresult [OF refl]]] by simp
  have en: "yields (traverse (\<lambda>entries. sbind (charge_allocation (size_of_entry lib) (length entries)) (\<lambda>_.
         smap (\<lambda>(key, x). sbind (charge (length key)) (\<lambda>_. sbind (?rec x) (\<lambda>y. sresult (Inr (key, y))))) entries)) (nv_entries v)) es
      (list_cost (\<lambda>p. length (fst p) + native_cost lib (snd p)) (size_of_entry lib) (nv_entries v))"
    using entries by (intro yields_traverse)
      (auto simp: option_rel_def list_cost_def split: option.splits intro!: yields_list elim!: list_all2_mono intro: e [simplified])
  have "yields (snapshot_body lib ?rec v)
    (OwnedValue (nv_tag v) (nv_bool v) (nv_number v) bi (nv_string v) (nv_context v) (nv_bytes v) its es tc ln (nv_is_table v))
    (0 + (length (nv_tag v) + (text_cost (nv_string v) + (text_cost (nv_context v) + (text_cost (nv_bytes v) + (0 + (0 + (0
       + (list_cost (native_cost lib) (size_of_value lib) (nv_items v)
       + (list_cost (\<lambda>p. length (fst p) + native_cost lib (snd p)) (size_of_entry lib) (nv_entries v) + 0))))))))))"
    unfolding snapshot_body_def
    by (intro yields_sbind [OF yields_sresult [OF s]] yields_sbind [OF yields_charge] yields_sbind [OF yields_charge_if]
        yields_sbind [OF yields_free_traverse [OF free(1)]] yields_sbind [OF yields_free_traverse [OF free(2)]]
        yields_sbind [OF yields_free_traverse [OF free(3)]] yields_sbind [OF it] yields_sbind [OF en] yields_sresult) simp
  then show ?thesis using d by (subst snapshot_value.simps) (simp add: native_cost.simps [of lib v] add.assoc)
qed

section \<open>Values that survive the boundary\<close>

text \<open>
  What the conversions rely on: GUIDs and the dates of years 1 to 9999 are read back from their texts,
  a frame from its Arrow stream, a series is the one column of its frame, and Node-API reads a
  \<open>BigInt\<close> of one word without loss when it fits 64 bits.
\<close>

definition libraries_ok :: "libraries \<Rightarrow> bool" where
  "libraries_ok lib \<longleftrightarrow>
     (\<forall>g. length g = 16 \<longrightarrow> uuid_parse lib (uuid_text lib g) = Some g)
     \<and> (\<forall>d. 1 \<le> d \<and> d \<le> 3652059 \<longrightarrow> date_parse lib (date_text lib d) = Some d)
     \<and> (\<forall>df bs. frame_to_ipc lib df = Some bs \<longrightarrow> frame_from_ipc lib bs = Some df)
     \<and> (\<forall>s df. series_frame lib s = Some df \<longrightarrow> df = [s])
     \<and> (\<forall>i. -9223372036854775808 \<le> i \<and> i < 9223372036854775808 \<longrightarrow> get_i64 lib (i < 0, [word_of_int \<bar>i\<bar>]) = (i, True))"

function native_ok :: "k \<Rightarrow> bool" where
  "native_ok v \<longleftrightarrow> (case v of
      KGuid g \<Rightarrow> length g = 16
    | KF32 x \<Rightarrow> f32_of_f64 (f64_of_f32 x) = x \<and> \<not> (f64_is_finite (f64_of_f32 x) \<and> outside_f32 (f64_of_f32 x))
    | KDateTime t \<Rightarrow> MIN_Q_TIMESTAMP_UNIX_NANOS \<le> t
    | KDate d \<Rightarrow> 1 \<le> d \<and> d \<le> 3652059
    | KTime secs nano \<Rightarrow> secs < 86400 \<and> nano < 1000000000
    | KQValue q \<Rightarrow> from_owned_bytes (qv_bytes q) = Inr q \<and> qv_len q < 9007199254740992
        \<and> -32768 \<le> qv_type_code q \<and> qv_type_code q \<le> 32767
    | KOperator op \<Rightarrow> qoperator_new (op_name op) = Inr op
    | KLambda l \<Rightarrow> qlambda_with_context (source l) (lcontext l) = Inr l
    | KMixedList vs \<Rightarrow> list_all (\<lambda>x. native_ok x) vs
    | KDict d \<Rightarrow> distinct (map fst d) \<and> list_all (\<lambda>(key, x). native_ok x) d
    | _ \<Rightarrow> True)"
  by pat_completeness auto
termination
proof (relation "measure size")
  fix v vs x assume "v = KMixedList vs" "x \<in> set vs"
  then show "(x, v) \<in> measure size" using k_size_members(1) by simp
next
  fix v d p key x assume "v = KDict d" "p \<in> set d" "(key, x) = p"
  then show "(x, v) \<in> measure size" using k_size_members(2) [of p d] by auto
qed auto

declare native_ok.simps [simp del]

text \<open>\<open>returns\<close>: a native value is accepted and converts back to the value.\<close>

definition returns :: "libraries \<Rightarrow> nat \<Rightarrow> native_value \<Rightarrow> k \<Rightarrow> bool" where
  "returns lib depth n v \<longleftrightarrow> (\<exists>ov. yields (snapshot_value lib depth n) ov (native_cost lib n) \<and> into_k lib ov = Inr v)"

lemma tag_in_ascii [simp]: "tag_in (ascii t) names \<longleftrightarrow> t \<in> set names"
  by (auto simp: tag_in_def)

lemma shapes [simp]:
  "validate_native_value_shape (native_string t s) = Inr () \<longleftrightarrow> t \<in> {''guid'', ''symbol'', ''string'', ''operator'', ''date''}"
  "validate_native_value_shape (native_number t x) = Inr () \<longleftrightarrow> t \<in> {''u8'', ''i16'', ''i32'', ''f32'', ''f64'', ''char''}"
  "validate_native_value_shape (native_bigint t i) = Inr () \<longleftrightarrow> t \<in> {''i64'', ''timestamp'', ''time'', ''timespan''}"
  "validate_native_value_shape (native_bytes t bs) = Inr () \<longleftrightarrow> t \<in> {''bytes'', ''series'', ''table''}"
  by (auto simp: validate_native_value_shape_def validate_payload_fields_def expected_payload_fields_def native_payload_fields_def
      field_if_def field_defs PAYLOAD_FIELDS_def native_string_def native_number_def native_bigint_def native_bytes_def rbind_Inr_iff)

lemma returns_scalar:
  assumes "depth \<le> MAX_VALUE_DEPTH" "validate_native_value_shape n = Inr ()" "nv_items n = None" "nv_entries n = None"
    "option_rel (\<lambda>x y. bigint_to_i64 lib x = Inr y) (nv_bigint n) bi"
    "option_rel (\<lambda>x y. i16_try_from x = Inr y) (nv_type_code n) tc"
    "option_rel (\<lambda>x y. number_to_usize x = Inr y) (nv_length n) ln"
    "nv_tag n \<noteq> ascii ''list''" "nv_tag n \<noteq> ascii ''dictionary''"
    "scalar_into_k lib (OwnedValue (nv_tag n) (nv_bool n) (nv_number n) bi (nv_string n) (nv_context n) (nv_bytes n) None None tc ln
       (nv_is_table n)) = Inr v"
  shows "returns lib depth n v"
  unfolding returns_def using snapshot_yields [OF assms(1,2,5-7), of None None] assms(3,4,8-10)
  by (intro exI conjI) (auto simp: option_rel_def into_k.simps [of lib])

lemma scalar_shapes [simp]:
  "validate_native_value_shape (tagged ''null'') = Inr ()"
  "validate_native_value_shape (NativeValue (ascii ''boolean'') (Some b) None None None None None None None None None None) = Inr ()"
  "validate_native_value_shape (NativeValue (ascii ''lambda'') None None None (Some s) (Some c) None None None None None None) = Inr ()"
  "validate_native_value_shape (NativeValue (ascii ''qvalue'') None None None None None (Some bs) None None (Some tc) (Some ln) (Some t)) = Inr ()"
  "validate_native_value_shape (NativeValue (ascii ''list'') None None None None None None (Some xs) None None None None) = Inr ()"
  "validate_native_value_shape (NativeValue (ascii ''dictionary'') None None None None None None None (Some es) None None None) = Inr ()"
  by (simp_all add: validate_native_value_shape_def validate_payload_fields_def expected_payload_fields_def native_payload_fields_def
      field_if_def field_defs PAYLOAD_FIELDS_def tagged_def)

lemma returns_string:
  assumes "depth \<le> MAX_VALUE_DEPTH" "t \<in> {''guid'', ''symbol'', ''string'', ''operator'', ''date''}"
    "scalar_into_k lib (OwnedValue (ascii t) None None None (Some s) None None None None None None None) = Inr v"
  shows "returns lib depth (native_string t s) v"
proof (rule returns_scalar [OF assms(1), where bi = None and tc = None and ln = None])
  show "validate_native_value_shape (native_string t s) = Inr ()" using assms(2) by simp
qed (use assms(2,3) in \<open>auto simp: native_string_def option_rel_def\<close>)

lemma returns_number:
  assumes "depth \<le> MAX_VALUE_DEPTH" "t \<in> {''u8'', ''i16'', ''i32'', ''f32'', ''f64'', ''char''}"
    "scalar_into_k lib (OwnedValue (ascii t) None (Some x) None None None None None None None None None) = Inr v"
  shows "returns lib depth (native_number t x) v"
proof (rule returns_scalar [OF assms(1), where bi = None and tc = None and ln = None])
  show "validate_native_value_shape (native_number t x) = Inr ()" using assms(2) by simp
qed (use assms(2,3) in \<open>auto simp: native_number_def option_rel_def\<close>)

lemma returns_bytes:
  assumes "depth \<le> MAX_VALUE_DEPTH" "t \<in> {''bytes'', ''series'', ''table''}"
    "scalar_into_k lib (OwnedValue (ascii t) None None None None None (Some bs) None None None None None) = Inr v"
  shows "returns lib depth (native_bytes t bs) v"
proof (rule returns_scalar [OF assms(1), where bi = None and tc = None and ln = None])
  show "validate_native_value_shape (native_bytes t bs) = Inr ()" using assms(2) by simp
qed (use assms(2,3) in \<open>auto simp: native_bytes_def option_rel_def\<close>)

lemma returns_bigint:
  assumes "depth \<le> MAX_VALUE_DEPTH" "t \<in> {''i64'', ''timestamp'', ''time'', ''timespan''}" "libraries_ok lib"
    "-9223372036854775808 \<le> i" "i < 9223372036854775808"
    "scalar_into_k lib (OwnedValue (ascii t) None None (Some i) None None None None None None None None) = Inr v"
  shows "returns lib depth (native_bigint t i) v"
proof (rule returns_scalar [OF assms(1), where bi = "Some i" and tc = None and ln = None])
  show "validate_native_value_shape (native_bigint t i) = Inr ()" using assms(2) by simp
  have "bigint_to_i64 lib (i < 0, [word_of_int \<bar>i\<bar>]) = Inr i"
    using assms(3-5) by (simp add: bigint_to_i64_def libraries_ok_def)
  then show "option_rel (\<lambda>x y. bigint_to_i64 lib x = Inr y) (nv_bigint (native_bigint t i)) (Some i)"
    by (simp add: native_bigint_def option_rel_def)
qed (use assms(2,6) in \<open>auto simp: native_bigint_def option_rel_def\<close>)

text \<open>Integers travel as doubles.\<close>

lemma required_integer_back:
  "lo \<le> i \<Longrightarrow> i \<le> hi \<Longrightarrow> -2147483648 \<le> lo \<Longrightarrow> hi \<le> 2147483647 \<Longrightarrow>
     required_integer (OwnedValue t None (Some (f64_of_int i)) None None None None None None None None None) lo hi = Inr i"
  by (simp add: required_integer_def required_def f64_of_int_exact)

lemma small_words:
  "0 \<le> uint (b :: byte) \<and> uint b \<le> 255" "-32768 \<le> sint (h :: 16 word) \<and> sint h \<le> 32767"
  "-2147483648 \<le> sint (i :: 32 word) \<and> sint i \<le> 2147483647"
  "-9223372036854775808 \<le> sint (l :: 64 word) \<and> sint l < 9223372036854775808"
  using uint_lt2p [of b] sint_ge [of h] sint_lt [of h] sint_ge [of i] sint_lt [of i] sint_ge [of l] sint_lt [of l]
  by simp_all

lemma returns_small:
  assumes "depth \<le> MAX_VALUE_DEPTH"
  shows "returns lib depth (native_number ''u8'' (f64_of_int (uint b))) (KU8 b)"
    "returns lib depth (native_number ''char'' (f64_of_int (uint b))) (KChar b)"
    "returns lib depth (native_number ''i16'' (f64_of_int (sint h))) (KI16 h)"
    "returns lib depth (native_number ''i32'' (f64_of_int (sint i))) (KI32 i)"
  using small_words(1) [of b] small_words(2) [of h] small_words(3) [of i]
  by (auto intro!: returns_number [OF assms] simp: scalar_into_k_def Let_def required_integer_back)

lemma returns_qvalue:
  assumes d: "depth \<le> MAX_VALUE_DEPTH" and q: "native_ok (KQValue q)"
  shows "returns lib depth (NativeValue (ascii ''qvalue'') None None None None None (Some (qv_bytes q)) None None
          (Some (qv_type_code q)) (Some (f64_of_int (int (qv_len q)))) (Some (qv_is_table q))) (KQValue q)"
proof -
  have ok: "from_owned_bytes (qv_bytes q) = Inr q" "int (qv_len q) < 2 ^ 53" "i16_try_from (qv_type_code q) = Inr (qv_type_code q)"
    using q by (simp_all add: native_ok.simps [of "KQValue q"] i16_try_from_def)
  have "number_to_usize (f64_of_int (int (qv_len q))) = Inr (qv_len q)"
    using f64_of_int_exact [of "int (qv_len q)"] ok(2) by (simp add: number_to_usize_def)
  then show ?thesis using ok
    by (intro returns_scalar [OF d, where bi = None and tc = "Some (qv_type_code q)" and ln = "Some (qv_len q)"])
      (simp_all add: option_rel_def scalar_into_k_def Let_def qvalue_into_k_def required_def from_xqdb_def)
qed

lemma returns_members:
  assumes "rmap (\<lambda>x. f x) vs = Inr ns" "\<And>v n. v \<in> set vs \<Longrightarrow> f v = Inr n \<Longrightarrow> returns lib depth n v"
  shows "\<exists>os. list_all2 (\<lambda>n ov. yields (snapshot_value lib depth n) ov (native_cost lib n)) ns os \<and> rmap (into_k lib) os = Inr vs"
  using assms
proof (induction vs arbitrary: ns)
  case (Cons v vs)
  obtain n ns' where n: "f v = Inr n" "rmap (\<lambda>x. f x) vs = Inr ns'" "ns = n # ns'" using Cons.prems(1) by (auto simp: rbind_Inr_iff)
  obtain ov where ov: "yields (snapshot_value lib depth n) ov (native_cost lib n)" "into_k lib ov = Inr v"
    using Cons.prems(2) [OF _ n(1)] by (auto simp: returns_def)
  obtain os where "list_all2 (\<lambda>n ov. yields (snapshot_value lib depth n) ov (native_cost lib n)) ns' os" "rmap (into_k lib) os = Inr vs"
    using Cons.IH [OF n(2)] Cons.prems(2) by auto
  then show ?case using ov n(3) by (intro exI [of _ "ov # os"]) simp
qed simp

lemma returns_list:
  assumes d: "depth \<le> MAX_VALUE_DEPTH" and r: "rmap (\<lambda>x. f x) vs = Inr ns"
    "\<And>v n. v \<in> set vs \<Longrightarrow> f v = Inr n \<Longrightarrow> returns lib (depth + 1) n v"
  shows "returns lib depth (NativeValue (ascii ''list'') None None None None None None (Some ns) None None None None) (KMixedList vs)"
proof -
  obtain os where os: "list_all2 (\<lambda>n ov. yields (snapshot_value lib (depth + 1) n) ov (native_cost lib n)) ns os" "rmap (into_k lib) os = Inr vs"
    using returns_members [OF r] by blast
  let ?n = "NativeValue (ascii ''list'') None None None None None None (Some ns) None None None None"
  have "yields (snapshot_value lib depth ?n) (OwnedValue (ascii ''list'') None None None None None None (Some os) None None None None) (native_cost lib ?n)"
    using snapshot_yields [OF d, of ?n lib None None None "Some os" None] os(1) by (simp add: option_rel_def)
  then show ?thesis unfolding returns_def using os(2) by (intro exI conjI) (auto simp: into_k.simps [of lib])
qed

definition insert_member :: "libraries \<Rightarrow> bytes \<times> owned_value \<Rightarrow> (bytes \<times> k) list \<Rightarrow> (bytes \<times> k) list nresult" where
  "insert_member lib = (\<lambda>(key, x) dictionary.
               rbind (binding_q_symbol key) (\<lambda>_.
               if key \<in> fst ` set dictionary then Inl conversion
               else rbind (into_k lib x) (\<lambda>y. Inr (dictionary @ [(key, y)]))))"

lemma returns_dict:
  assumes d: "depth \<le> MAX_VALUE_DEPTH" and dist: "distinct (map fst dict)"
    and r: "rmap (\<lambda>(key, x). rbind (binding_q_symbol key) (\<lambda>_. rbind (f x) (\<lambda>y. Inr (key, y)))) dict = Inr es"
    "\<And>v n. v \<in> snd ` set dict \<Longrightarrow> f v = Inr n \<Longrightarrow> returns lib (depth + 1) n v"
  shows "returns lib depth (NativeValue (ascii ''dictionary'') None None None None None None None (Some es) None None None) (KDict dict)"
proof -
  have "\<exists>os. list_all2 (\<lambda>p q. fst q = fst p \<and> yields (snapshot_value lib (depth + 1) (snd p)) (snd q) (native_cost lib (snd p))) es os
      \<and> (\<forall>acc. distinct (map fst (acc @ dict)) \<longrightarrow> rfold (insert_member lib) os acc = Inr (acc @ dict))"
    using r
  proof (induction dict arbitrary: es)
    case (Cons p dict)
    obtain key x where p: "p = (key, x)" by fastforce
    obtain n es' where n: "binding_q_symbol key = Inr ()" "f x = Inr n" "es = (key, n) # es'"
      "rmap (\<lambda>(key, x). rbind (binding_q_symbol key) (\<lambda>_. rbind (f x) (\<lambda>y. Inr (key, y)))) dict = Inr es'"
      using Cons.prems(1) by (auto simp: rbind_Inr_iff p)
    obtain ov where ov: "yields (snapshot_value lib (depth + 1) n) ov (native_cost lib n)" "into_k lib ov = Inr x"
      using Cons.prems(2) [OF _ n(2)] p by (auto simp: returns_def)
    from Cons.IH [OF n(4)] Cons.prems(2) obtain os where
      "list_all2 (\<lambda>p q. fst q = fst p \<and> yields (snapshot_value lib (depth + 1) (snd p)) (snd q) (native_cost lib (snd p))) es' os"
      "\<forall>acc. distinct (map fst (acc @ dict)) \<longrightarrow> rfold (insert_member lib) os acc = Inr (acc @ dict)"
      by auto
    then show ?case using n(1,3) ov p by (intro exI [of _ "(key, ov) # os"]) (auto simp: insert_member_def image_iff)
  qed simp
  then obtain os where os: "list_all2 (\<lambda>p q. fst q = fst p \<and> yields (snapshot_value lib (depth + 1) (snd p)) (snd q) (native_cost lib (snd p))) es os"
    "\<And>acc. distinct (map fst (acc @ dict)) \<Longrightarrow> rfold (insert_member lib) os acc = Inr (acc @ dict)" by blast
  have f: "rfold (insert_member lib) os [] = Inr dict" using os(2) [of "[]"] dist by simp
  let ?n = "NativeValue (ascii ''dictionary'') None None None None None None None (Some es) None None None"
  have "yields (snapshot_value lib depth ?n) (OwnedValue (ascii ''dictionary'') None None None None None None None (Some os) None None None) (native_cost lib ?n)"
    using snapshot_yields [OF d, of ?n lib None None None None "Some os"] os(1) by (simp add: option_rel_def)
  then show ?thesis unfolding returns_def using f
    by (intro exI conjI) (auto simp: into_k.simps [of lib] insert_member_def)
qed

lemma timestamp_into_k_id: "MIN_Q_TIMESTAMP_UNIX_NANOS \<le> t \<Longrightarrow> timestamp_into_k t = Inr (KDateTime t)"
  by (simp add: timestamp_into_k_def)

lemma time_into_k_id:
  assumes "secs < 86400" "nano < 1000000000" "(int secs * NANOS_PER_SECOND + int nano) mod NANOS_PER_MILLISECOND = 0"
  shows "time_into_k (int secs * NANOS_PER_SECOND + int nano) = Inr (KTime secs nano)"
proof -
  have "(int secs * 1000000000 + int nano) div 1000000000 = int secs" "(int secs * 1000000000 + int nano) mod 1000000000 = int nano"
    using assms(2) by simp_all
  then show ?thesis using assms by (simp add: time_into_k_def NANOS_PER_SECOND_def NANOS_PER_DAY_def)
qed

lemma native_scalar_returns:
  assumes lib: "libraries_ok lib" and v: "k_into_native_with_depth lib v depth = Inr n" "native_ok v"
    and "\<And>vs. v \<noteq> KMixedList vs" "\<And>d. v \<noteq> KDict d"
  shows "returns lib depth n v"
proof -
  have d: "depth \<le> MAX_VALUE_DEPTH" using v(1) by (auto simp: k_into_native_with_depth.simps [of lib v depth] split: if_splits)
  note k = v(1) [unfolded k_into_native_with_depth.simps [of lib v depth] if_not_P [OF leD [OF d]]]
    and ok = v(2) [unfolded native_ok.simps [of v]]
  note scalar = scalar_into_k_def Let_def required_def from_xqdb_def
  note laws = lib [unfolded libraries_ok_def]
  show ?thesis
  proof (cases v)
    case (KDateTime t)
    then show ?thesis using k ok d
      by (auto simp: rbind_Inr_iff ok_or_Inr_iff timestamp_nanos_opt_def checked_i64_def scalar timestamp_into_k_id split: if_splits
          intro!: returns_bigint [OF _ _ lib])
  next
    case (KTime a b)
    then show ?thesis using k ok d
      by (auto simp: scalar time_into_k_id [unfolded NANOS_PER_SECOND_def] NANOS_PER_SECOND_def dvd_eq_mod_eq_0 split: if_splits
          intro!: returns_bigint [OF _ _ lib])
  next
    case (KDuration t)
    then show ?thesis using k d
      by (auto simp: rbind_Inr_iff ok_or_Inr_iff checked_i64_def scalar split: if_splits intro!: returns_bigint [OF _ _ lib])
  next
    case (KI64 i)
    then show ?thesis using k d small_words(4) [of i] by (auto simp: scalar intro!: returns_bigint [OF _ _ lib])
  next
    case (KSeries s)
    then obtain bs df where "frame_to_ipc lib df = Some bs" "series_frame lib s = Some df" "n = native_bytes ''series'' bs"
      using k by (auto simp: rbind_Inr_iff series_to_ipc_def dataframe_to_ipc_def ok_or_Inr_iff)
    moreover from this have "frame_from_ipc lib bs = Some [s]" using laws by blast
    ultimately show ?thesis using KSeries d
      by (auto simp: scalar series_from_ipc_def dataframe_from_ipc_def intro!: returns_bytes)
  next
    case (KDataFrame df)
    then show ?thesis using k d laws
      by (auto simp: rbind_Inr_iff dataframe_to_ipc_def ok_or_Inr_iff scalar dataframe_from_ipc_def intro!: returns_bytes)
  next
    case (KQValue q)
    then show ?thesis using k v(2) returns_qvalue [OF d, of q lib] by simp
  next
    case (KLambda l)
    then show ?thesis using k ok
      by (auto intro!: returns_scalar [OF d, where bi = None and tc = None and ln = None] simp: option_rel_def scalar)
  next
    case (KBoolean b)
    then show ?thesis using k
      by (auto intro!: returns_scalar [OF d, where bi = None and tc = None and ln = None] simp: option_rel_def scalar)
  next
    case KNull
    then show ?thesis using k scalar_shapes(1)
      by (auto intro!: returns_scalar [OF d, where bi = None and tc = None and ln = None] simp: option_rel_def scalar tagged_def)
  qed (use k ok d laws assms(4,5) in \<open>auto simp: scalar rbind_Inr_iff binding_q_symbol_def split: if_splits
      intro!: returns_string returns_number returns_bytes returns_small\<close>)
qed

lemma native_returns:
  assumes lib: "libraries_ok lib" and "k_into_native_with_depth lib v depth = Inr n" "native_ok v"
  shows "returns lib depth n v"
  using assms(2,3)
proof (induction v arbitrary: n depth rule: measure_induct_rule [of size])
  case (less v)
  have d: "depth \<le> MAX_VALUE_DEPTH" using less.prems(1) by (auto simp: k_into_native_with_depth.simps [of lib v depth] split: if_splits)
  consider (mixed) vs where "v = KMixedList vs" | (dict) dict where "v = KDict dict"
    | (atom) "\<And>vs. v \<noteq> KMixedList vs" "\<And>d. v \<noteq> KDict d" by blast
  then show ?case
  proof cases
    case mixed
    then show ?thesis using less.prems d k_size_members(1) [of _ vs]
      by (auto simp: k_into_native_with_depth.simps [of lib "KMixedList vs" depth] native_ok.simps [of "KMixedList vs"] rbind_Inr_iff
          list_all_iff intro!: returns_list [OF d] less.IH)
  next
    case dict
    let ?f = "\<lambda>x. k_into_native_with_depth lib x (depth + 1)"
    obtain es where es: "rmap (\<lambda>(key, x). rbind (binding_q_symbol key) (\<lambda>_. rbind (?f x) (\<lambda>y. Inr (key, y)))) dict = Inr es"
      "n = NativeValue (ascii ''dictionary'') None None None None None None None (Some es) None None None"
      using less.prems(1) d by (auto simp: dict k_into_native_with_depth.simps [of lib "KDict dict" depth] rbind_Inr_iff)
    have "returns lib (depth + 1) m x" if x: "x \<in> snd ` set dict" "?f x = Inr m" for x m
      using x(2) less.prems(2) x(1) k_size_members(2) [of _ dict]
      by (intro less.IH) (auto simp: dict native_ok.simps [of "KDict dict"] list_all_iff)
    then show ?thesis using returns_dict [OF d _ es(1)] less.prems(2) es(2) by (simp add: dict native_ok.simps [of "KDict dict"])
  next
    case atom
    then show ?thesis using native_scalar_returns [OF lib less.prems] by blast
  qed
qed

lemma returned_value:
  assumes "returns lib 0 n v" "size_of_value lib + native_cost lib n \<le> MAX_SNAPSHOT_BYTES"
  shows "\<exists>ov. owned_try_from lib n = Inr ov \<and> into_k lib ov = Inr v"
proof -
  obtain ov where ov: "yields (snapshot_value lib 0 n) ov (native_cost lib n)" "into_k lib ov = Inr v"
    using assms(1) by (auto simp: returns_def)
  have "yields (sbind (charge (size_of_value lib)) (\<lambda>_. snapshot_value lib 0 n)) ov (size_of_value lib + native_cost lib n)"
    by (rule yields_sbind [OF yields_charge ov(1)])
  moreover have "affords (budget_new MAX_SNAPSHOT_BYTES) (size_of_value lib + native_cost lib n)"
    using assms(2) by (simp add: affords_def budget_new_def budget_with_reservation_def MAX_SNAPSHOT_BYTES_def)
  ultimately show ?thesis using ov(2) by (auto simp: owned_try_from_def snapshot_with_limit_def yields_def)
qed


definition example_libraries :: libraries where
  "example_libraries =
     \<lparr>uuid_text = id, uuid_parse = Some, date_text = (\<lambda>d. le_bytes 4 (nat d)), date_parse = (\<lambda>bs. Some (int (le_nat bs))),
      frame_to_ipc = (\<lambda>_. None), frame_from_ipc = (\<lambda>_. None), series_frame = (\<lambda>s. Some [s]),
      get_i64 = (\<lambda>(negative, ws). (if negative then - uint (hd ws) else uint (hd ws), True)),
      size_of_value = 240, size_of_entry = 264\<rparr>"

lemma example_libraries_ok: "libraries_ok example_libraries"
proof -
  have d: "date_parse example_libraries (date_text example_libraries d) = Some d" if "1 \<le> d" "d \<le> 3652059" for d
  proof -
    have "le_nat (le_bytes 4 (nat d)) = nat d" using that by (subst le_nat_le_bytes_exact) simp_all
    then show ?thesis using that by (simp add: example_libraries_def del: le_bytes_numeral)
  qed
  have g: "get_i64 example_libraries (i < 0, [word_of_int \<bar>i\<bar>]) = (i, True)" if "-9223372036854775808 \<le> i" "i < 9223372036854775808" for i
  proof -
    have "uint (word_of_int \<bar>i\<bar> :: 64 word) = \<bar>i\<bar>" unfolding unsigned_of_int using that by (simp add: take_bit_int_eq_self)
    then have "get_i64 example_libraries (i < 0, [word_of_int \<bar>i\<bar>]) = (if i < 0 then - \<bar>i\<bar> else \<bar>i\<bar>, True)"
      by (simp only: example_libraries_def libraries.simps prod.case list.sel)
    then show ?thesis by simp
  qed
  have "uuid_parse example_libraries (uuid_text example_libraries u) = Some u" "frame_to_ipc example_libraries df = None"
    "series_frame example_libraries s = Some [s]" for u df s
    by (simp_all add: example_libraries_def)
  then show ?thesis unfolding libraries_ok_def using d g by simp
qed

lemma native_cost_NativeValue:
  "native_cost lib (NativeValue t b nu bi s c bs it en tc ln ta) =
     length t + text_cost s + text_cost c + text_cost bs + list_cost (native_cost lib) (size_of_value lib) it
     + list_cost (\<lambda>p. length (fst p) + native_cost lib (snd p)) (size_of_entry lib) en"
  by (simp add: native_cost.simps [of lib "NativeValue t b nu bi s c bs it en tc ln ta"])


text \<open>An instance of Node-API: values without sharing.\<close>

datatype js_value = JsObject "(bytes \<times> js_value) list" | JsArray "js_value list" | JsText bytes | JsOther

definition example_node :: "js_value node" where
  "example_node =
     \<lparr>js_type = (\<lambda>v. Inr (case v of JsObject _ \<Rightarrow> ObjectType | JsArray _ \<Rightarrow> ObjectType | _ \<Rightarrow> OtherType)),
      js_property_names = (\<lambda>v. Inr (case v of JsObject ps \<Rightarrow> map fst ps | _ \<Rightarrow> [])),
      js_get = (\<lambda>v field. Inr (case v of JsObject ps \<Rightarrow> map_of ps field | _ \<Rightarrow> None)),
      js_bool = (\<lambda>v. Inl conversion), js_number = (\<lambda>v. Inl conversion),
      js_string = (\<lambda>v. case v of JsText s \<Rightarrow> Inr s | _ \<Rightarrow> Inl conversion),
      js_bytes = (\<lambda>v. Inl conversion), js_bigint = (\<lambda>v. Inl conversion),
      js_array_len = (\<lambda>v. case v of JsArray vs \<Rightarrow> Inr (length vs) | _ \<Rightarrow> Inl conversion),
      js_element = (\<lambda>v i. Inr (case v of JsArray vs \<Rightarrow> get_at vs i | _ \<Rightarrow> None)),
      js_equals = (\<lambda>v w. Inr False)\<rparr>"

definition example_admission :: admission_state where
  "example_admission = \<lparr>owner_id = 0, command_capacity = 8, byte_capacity = 1000, stopping = False,
     counts = \<lparr>queued_commands = 1, queued_bytes = 0\<rparr>\<rparr>"

definition example_arguments :: js_value where
  "example_arguments = JsArray [JsObject [(ascii ''tag'', JsText (ascii ''symbol'')), (ascii ''stringValue'', JsText [97])]]"

theorem snapshot_charges_exactly_witness:
  "let (res, b) = snapshot_native_values_admitted example_node example_libraries example_arguments 1 500 0 example_admission
   in budget_used b \<le> 500 \<and> (\<exists>st. sb_reservation b = Some (budget_used b, st) \<and> queued_bytes (counts st) = budget_used b)"
  using snapshot_charges_exactly [of example_node example_libraries example_arguments 1 500 0 example_admission
      "fst (snapshot_native_values_admitted example_node example_libraries example_arguments 1 500 0 example_admission)"
      "snd (snapshot_native_values_admitted example_node example_libraries example_arguments 1 500 0 example_admission)"]
  by (auto simp: split_def Let_def example_admission_def)

end
