(* ===== verification/WorkerOptions.thy ===== *)
theory WorkerOptions
  imports Connector NativeDtoCorrect
begin

text \<open>
  The options of a native connector (\<open>bindings/napi-xqdb/src/worker.rs\<close>): the validation of the
  numbers JavaScript passes, the defaults, and the connector built from them. Every refusal is the
  status \<open>InvalidArg\<close>, which JavaScript sees as an exception of the constructor. Whether a text is an
  address or a DNS name is a parameter, a function on the host text.
\<close>

datatype napi_error = InvalidArg | GenericFailure

type_synonym 'a napi_result = "napi_error + 'a"

definition IPC_VERSION :: byte where "IPC_VERSION = 6"
definition COMMAND_QUEUE_CAPACITY :: nat where "COMMAND_QUEUE_CAPACITY = 8"
definition MAX_QUEUE_CAPACITY :: nat where "MAX_QUEUE_CAPACITY = 1024"
definition DEFAULT_MAX_ARGUMENT_BYTES :: nat where "DEFAULT_MAX_ARGUMENT_BYTES = 64 * 1024 * 1024"
definition DEFAULT_MAX_QUEUED_BYTES :: nat where "DEFAULT_MAX_QUEUED_BYTES = 512 * 1024 * 1024"
definition MAX_TIMEOUT_MILLISECONDS :: int where "MAX_TIMEOUT_MILLISECONDS = 86400000"
definition MAX_EXPRESSION_BYTES :: nat where "MAX_EXPRESSION_BYTES = 64 * 1024 * 1024"
definition MAX_SAFE_INTEGER :: int where "MAX_SAFE_INTEGER = 9007199254740991"

section \<open>Numbers\<close>

text \<open>
  \<open>Duration::from_secs_f64\<close> of a non-negative number: whole nanoseconds, rounded to nearest, ties
  to even.
\<close>

definition duration_from_secs_f64 :: "f64 \<Rightarrow> duration" where
  "duration_from_secs_f64 v = div_nearest_even (nat (f64_num v) * 1000000000) (f64_den v)"

definition timeout_duration :: "f64 \<Rightarrow> duration napi_result" where
  "timeout_duration milliseconds =
     (if \<not> f64_is_finite milliseconds \<or> f64_num milliseconds < 0
         \<or> f64_num milliseconds > MAX_TIMEOUT_MILLISECONDS * int (f64_den milliseconds)
      then Inl InvalidArg
      else let d = duration_from_secs_f64 (f64_div milliseconds (f64_of_int 1000)) in
        Inr (if f64_num milliseconds > 0 \<and> d = 0 then 1 else d))"

definition optional_timeout :: "f64 option \<Rightarrow> duration option napi_result" where
  "optional_timeout v =
     (case v of None \<Rightarrow> Inr None | Some milliseconds \<Rightarrow> rbind (timeout_duration milliseconds) (\<lambda>d. Inr (Some d)))"

definition exact_port :: "f64 \<Rightarrow> 16 word napi_result" where
  "exact_port v = (if f64_integer_within 0 65535 v then Inr (word_of_int (f64_trunc v)) else Inl InvalidArg)"

text \<open>\<open>usize::MAX as f64\<close> is \<open>2 ^ 64\<close>, above the largest safe integer.\<close>

definition safe_nonnegative_integer :: "f64 option \<Rightarrow> nat \<Rightarrow> nat napi_result" where
  "safe_nonnegative_integer v fallback =
     (let v = (case v of Some x \<Rightarrow> x | None \<Rightarrow> f64_of_int (int fallback)) in
      if f64_integer_within 0 MAX_SAFE_INTEGER v then Inr (nat (f64_trunc v)) else Inl InvalidArg)"

definition safe_positive_integer :: "f64 option \<Rightarrow> nat \<Rightarrow> nat napi_result" where
  "safe_positive_integer v fallback =
     rbind (safe_nonnegative_integer v fallback) (\<lambda>n. if n = 0 then Inl InvalidArg else Inr n)"

definition optional_positive_integer :: "f64 option \<Rightarrow> nat option napi_result" where
  "optional_positive_integer v =
     (case v of None \<Rightarrow> Inr None | Some x \<Rightarrow> rbind (safe_positive_integer (Some x) 1) (\<lambda>n. Inr (Some n)))"

section \<open>Options\<close>

record native_options =
  no_host :: bytes
  no_port :: f64
  no_user :: "bytes option"
  no_password :: "bytes option"
  no_tls :: "bool option"
  no_timeout_milliseconds :: "f64 option"
  no_symbol_encoding :: "bytes option"
  no_lossless :: "bool option"
  no_compression :: "bytes option"
  no_compression_threshold :: "f64 option"
  no_connect_timeout_milliseconds :: "f64 option"
  no_read_timeout_milliseconds :: "f64 option"
  no_write_timeout_milliseconds :: "f64 option"
  no_max_message_bytes :: "f64 option"
  no_max_pending_notifications :: "f64 option"
  no_tls_ca :: "bytes option"
  no_tls_cert :: "bytes option"
  no_tls_key :: "bytes option"
  no_tls_server_name :: "bytes option"
  no_queue_capacity :: "f64 option"
  no_max_argument_bytes :: "f64 option"
  no_max_queued_bytes :: "f64 option"

record worker_options =
  wo_host :: bytes
  wo_port :: "16 word"
  wo_user :: bytes
  wo_password :: bytes
  wo_tls :: bool
  wo_timeout :: duration
  wo_symbol_encoding :: symbol_encoding
  wo_settings :: connector_settings
  wo_queue_capacity :: nat
  wo_max_argument_bytes :: nat
  wo_max_queued_bytes :: nat

definition or_else :: "'a option \<Rightarrow> 'a \<Rightarrow> 'a" where
  "or_else v d = (case v of Some x \<Rightarrow> x | None \<Rightarrow> d)"

definition parse_compression :: "bytes option \<Rightarrow> compression_policy napi_result" where
  "parse_compression v =
     (let name = or_else v (ascii ''auto'') in
      if name = ascii ''auto'' then Inr Auto
      else if name = ascii ''on'' then Inr On
      else if name = ascii ''off'' then Inr Off
      else Inl InvalidArg)"

definition options_settings :: "native_options \<Rightarrow> connector_settings napi_result" where
  "options_settings opts =
     rbind (parse_compression (no_compression opts)) (\<lambda>policy.
     rbind (safe_nonnegative_integer (no_compression_threshold opts) 10000000) (\<lambda>threshold.
     rbind (optional_timeout (no_connect_timeout_milliseconds opts)) (\<lambda>t_connect.
     rbind (optional_timeout (no_read_timeout_milliseconds opts)) (\<lambda>t_read.
     rbind (optional_timeout (no_write_timeout_milliseconds opts)) (\<lambda>t_write.
     rbind (optional_positive_integer (no_max_message_bytes opts)) (\<lambda>message.
     rbind (safe_positive_integer (no_max_pending_notifications opts) 1024) (\<lambda>pending.
     Inr \<lparr>value_mode = (if or_else (no_lossless opts) False then Lossless else Native),
          compression = policy, compression_threshold = threshold, connect_timeout = t_connect,
          read_timeout = t_read, write_timeout = t_write, max_message_bytes = message,
          max_pending_notifications = pending, tls_ca = no_tls_ca opts, tls_cert = no_tls_cert opts,
          tls_key = no_tls_key opts, tls_server_name = no_tls_server_name opts\<rparr>)))))))"

definition options_try_from :: "(bytes \<Rightarrow> bool) \<Rightarrow> native_options \<Rightarrow> worker_options napi_result" where
  "options_try_from host_name_ok opts =
     rbind (exact_port (no_port opts)) (\<lambda>p.
     let h = (if no_host opts = [] then ascii ''127.0.0.1'' else no_host opts);
         tls = or_else (no_tls opts) False in
     if tls \<and> \<not> host_name_ok h then Inl InvalidArg
     else
     rbind (timeout_duration (or_else (no_timeout_milliseconds opts) (f64_of_int 30000))) (\<lambda>t.
     rbind (ok_or (parse_symbol_encoding (no_symbol_encoding opts)) InvalidArg) (\<lambda>encoding.
     rbind (options_settings opts) (\<lambda>st.
     rbind (safe_positive_integer (no_queue_capacity opts) COMMAND_QUEUE_CAPACITY) (\<lambda>capacity.
     if capacity > MAX_QUEUE_CAPACITY then Inl InvalidArg
     else
     rbind (safe_positive_integer (no_max_argument_bytes opts) DEFAULT_MAX_ARGUMENT_BYTES) (\<lambda>argument.
     rbind (safe_positive_integer (no_max_queued_bytes opts) DEFAULT_MAX_QUEUED_BYTES) (\<lambda>queued.
     Inr \<lparr>wo_host = h, wo_port = p, wo_user = or_else (no_user opts) [],
          wo_password = or_else (no_password opts) [], wo_tls = tls, wo_timeout = t,
          wo_symbol_encoding = encoding, wo_settings = st, wo_queue_capacity = capacity,
          wo_max_argument_bytes = argument, wo_max_queued_bytes = queued\<rparr>)))))))"

definition into_connector :: "network \<Rightarrow> worker_options \<Rightarrow> connector napi_result" where
  "into_connector net w =
     (let c = connector_new (wo_host w) (wo_port w) (wo_user w) (wo_password w) (wo_tls w) 0 IPC_VERSION;
          c = c\<lparr>timeout := wo_timeout w, symbol_encoding := wo_symbol_encoding w\<rparr>
      in case configure net (wo_settings w) c of
           (Inl _, _) \<Rightarrow> Inl InvalidArg
         | (Inr _, c) \<Rightarrow> Inr c)"

section \<open>Properties\<close>

lemma f64_den_pos [simp]: "0 < f64_den v"
  by (simp add: f64_den_def)

lemma integer_within_exact:
  assumes "f64_integer_within 0 hi v"
  shows "f64_num v = f64_trunc v * int (f64_den v)" "0 \<le> f64_trunc v" "f64_trunc v \<le> hi"
proof -
  let ?d = "int (f64_den v)"
  have n: "0 \<le> f64_num v" "f64_num v mod ?d = 0" "f64_num v \<le> hi * ?d" and d: "0 < ?d"
    using assms by (simp_all add: f64_integer_within_def)
  have "f64_trunc v = f64_num v div ?d"
  proof (cases "f64_num v = 0")
    case True
    then show ?thesis by (simp add: f64_trunc_def)
  next
    case False
    then have "\<not> f64_sign v" using n(1) by (auto simp: f64_num_def zero_le_mult_iff)
    then show ?thesis using n(1) by (simp add: f64_trunc_def zdiv_int)
  qed
  then show "f64_num v = f64_trunc v * ?d" "0 \<le> f64_trunc v" "f64_trunc v \<le> hi"
    using n d by (auto simp: div_int_pos_iff pos_imp_zdiv_nonneg_iff
      intro: zdiv_mono1 [of "f64_num v" "hi * ?d" ?d, simplified])
qed

lemma div_nearest_even_0: "div_nearest_even 0 d = 0"
  by (simp add: div_nearest_even_def)

lemma f64_of_ratio_0: "f64_num (f64_of_ratio s 0 d) = 0"
proof -
  have "f64_of_ratio s 0 d = of_nat (if s then 0x8000000000000000 else 0)"
    unfolding f64_of_ratio_def mult_zero_left div_nearest_even_0 Let_def by simp
  then show ?thesis by (simp add: f64_defs)
qed

lemma timeout_zero:
  assumes "timeout_duration v = Inr d"
  shows "d = 0 \<longleftrightarrow> f64_num v = 0"
proof -
  have "f64_num v = 0 \<Longrightarrow> f64_num (f64_div v b) = 0" for b
    unfolding f64_div_def by (simp add: f64_of_ratio_0 del: of_nat_numeral)
  then have "f64_num v = 0 \<Longrightarrow> duration_from_secs_f64 (f64_div v b) = 0" for b
    by (simp add: duration_from_secs_f64_def div_nearest_even_0)
  then show ?thesis
    using assms by (auto simp: timeout_duration_def Let_def split: if_splits)
qed

lemma safe_positive_bounds:
  assumes "safe_positive_integer v dflt = Inr n"
  shows "0 < n \<and> int n \<le> MAX_SAFE_INTEGER"
  using assms integer_within_exact [of MAX_SAFE_INTEGER]
  by (auto simp: safe_positive_integer_def safe_nonnegative_integer_def Let_def result_simps split: if_splits option.splits)

lemma port_exact:
  assumes "exact_port v = Inr p"
  shows "f64_num v = int (unat p) * int (f64_den v)"
proof -
  have w: "f64_integer_within 0 65535 v" and p: "p = word_of_int (f64_trunc v)"
    using assms by (auto simp: exact_port_def split: if_splits)
  have "uint p = f64_trunc v"
    using integer_within_exact [OF w] by (simp add: p uint_word_of_int take_bit_int_eq_self)
  then show ?thesis using integer_within_exact(1) [OF w] by simp
qed


definition example_options :: native_options where
  "example_options = \<lparr>no_host = [], no_port = f64_of_int 5001, no_user = None, no_password = None, no_tls = None,
     no_timeout_milliseconds = Some (f64_of_int 250), no_symbol_encoding = None, no_lossless = None,
     no_compression = None, no_compression_threshold = None, no_connect_timeout_milliseconds = None,
     no_read_timeout_milliseconds = None, no_write_timeout_milliseconds = None, no_max_message_bytes = None,
     no_max_pending_notifications = None, no_tls_ca = None, no_tls_cert = None, no_tls_key = None,
     no_tls_server_name = None, no_queue_capacity = Some (f64_of_int 1024), no_max_argument_bytes = None,
     no_max_queued_bytes = None\<rparr>"

lemma timeout_of_int:
  assumes "0 \<le> i" "i \<le> 86400000"
  shows "\<exists>d. timeout_duration (f64_of_int i) = Inr d"
proof -
  have "\<bar>i\<bar> < 2 ^ 53" using assms by simp
  from f64_of_int_exact(1) [OF this, of 0 86400000] have "f64_integer_within 0 86400000 (f64_of_int i)" using assms by simp
  then show ?thesis by (auto simp: timeout_duration_def f64_integer_within_def MAX_TIMEOUT_MILLISECONDS_def Let_def)
qed

lemma example_options_ok:
  "\<exists>w. options_try_from (\<lambda>_. True) example_options = Inr w \<and> wo_queue_capacity w = 1024 \<and> \<not> wo_tls w
     \<and> wo_settings w = default_settings"
proof -
  note e = f64_of_int_exact
  obtain d where d: "timeout_duration (f64_of_int 250) = Inr d" using timeout_of_int [of 250] by auto
  show ?thesis
    by (simp add: options_try_from_def example_options_def options_settings_def exact_port_def e d or_else_def
      parse_symbol_encoding_def parse_compression_def safe_positive_integer_def safe_nonnegative_integer_def
      optional_timeout_def optional_positive_integer_def MAX_SAFE_INTEGER_def COMMAND_QUEUE_CAPACITY_def MAX_QUEUE_CAPACITY_def
      DEFAULT_MAX_ARGUMENT_BYTES_def DEFAULT_MAX_QUEUED_BYTES_def ok_or_def default_settings_def)
qed


end
