(* ===== verification/Worker.thy ===== *)
theory Worker
  imports WorkerOptions
begin

text \<open>
  The worker of the Node binding (\<open>bindings/napi-xqdb/src/worker.rs\<close>): the slots through which the
  JavaScript thread hands commands to the worker thread, the methods of the native connector and the
  loop of the worker, with the operations it runs on the connector.

  The two threads interleave. The state they share is one record; a method of the JavaScript thread
  and an iteration of the worker loop are cut into steps at the points where the code takes a lock,
  loads the stop flag or uses the channel, and the system is the relation of all their
  interleavings. A slot is named by its position in the list of slots, a promise by the number it
  was issued with. Answering a promise appends to the list of replies; nothing in the code reads it.
\<close>

section \<open>Commands and slots\<close>

type_synonym slot_id = nat
type_synonym promise = nat

datatype command =
    Pending slot_id
  | Connect queue_reservation nat promise
  | Disconnect queue_reservation promise
  | Sync queue_reservation bytes "owned_value list" promise
  | Asyn queue_reservation bytes "owned_value list" promise
  | Receive queue_reservation promise
  | Stop

type_synonym command_slot = "command option option"

definition slot_new :: command_slot where
  "slot_new = None"

definition slot_commit :: "command \<Rightarrow> command_slot \<Rightarrow> command + command_slot" where
  "slot_commit c state = (if state \<noteq> None then Inl c else Inr (Some (Some c)))"

definition slot_cancel :: "command_slot \<Rightarrow> command_slot" where
  "slot_cancel state = (if state = None then Some None else state)"

text \<open>The command that was committed, if any, and the state left behind.\<close>

definition slot_fail :: "command_slot \<Rightarrow> command option \<times> command_slot" where
  "slot_fail state = (case state of Some (Some c) \<Rightarrow> (Some c, None) | _ \<Rightarrow> (None, Some None))"

text \<open>\<open>None\<close> while the wait goes on.\<close>

definition slot_wait :: "bool \<Rightarrow> command_slot \<Rightarrow> (command option \<times> command_slot) option" where
  "slot_wait stop state =
     (if state = None \<and> \<not> stop then None
      else Some (case state of Some (Some c) \<Rightarrow> Some c | _ \<Rightarrow> None, None))"

record queued_permit =
  qp_admission :: admission_permit
  qp_slot :: slot_id

section \<open>Operations on the connector\<close>

definition validate_expression_length :: "nat \<Rightarrow> unit nresult" where
  "validate_expression_length len = (if len > MAX_EXPRESSION_BYTES then Inl conversion else Inr ())"

fun is_retryable_connect :: "xqdb_error \<Rightarrow> bool" where
  "is_retryable_connect (IOError kind) \<longleftrightarrow> kind \<noteq> Interrupted"
| "is_retryable_connect FailedToConnectErr \<longleftrightarrow> True"
| "is_retryable_connect NotConnectedErr \<longleftrightarrow> True"
| "is_retryable_connect _ \<longleftrightarrow> False"

text \<open>
  The wait between two attempts. Time is in nanoseconds from the start of the wait. The load number
  \<open>i\<close> of the cancel generation returns \<open>loads i\<close>; the clock read after it is \<open>late i\<close> nanoseconds
  past the end of the sleep before it, since a sleep lasts at least as long as asked.
\<close>

function retry_loop :: "(nat \<Rightarrow> 64 word) \<Rightarrow> (nat \<Rightarrow> nat) \<Rightarrow> 64 word \<Rightarrow> nat \<Rightarrow> nat \<Rightarrow> nat \<Rightarrow> bool" where
  "retry_loop loads late expected deadline awake i =
     (if loads i \<noteq> expected then False
      else let now = awake + late i in
        if now \<ge> deadline then True
        else retry_loop loads late expected deadline (now + min (deadline - now) 25000000) (i + 1))"
  by pat_completeness auto
termination
  by (relation "measure (\<lambda>(loads, late, expected, deadline, awake, i). deadline - awake)") auto

declare retry_loop.simps [simp del]

definition wait_for_connect_retry :: "(nat \<Rightarrow> 64 word) \<Rightarrow> (nat \<Rightarrow> nat) \<Rightarrow> 64 word \<Rightarrow> nat \<Rightarrow> bool" where
  "wait_for_connect_retry loads late expected retry_index =
     retry_loop loads late expected (2 ^ min retry_index 5 * 1000000000) 0 0"

text \<open>What the worker meets during one attempt to connect.\<close>

record attempt =
  attempt_net :: network
  load_before :: "64 word"
  load_after :: "64 word"
  retry_loads :: "nat \<Rightarrow> 64 word"
  retry_late :: "nat \<Rightarrow> nat"

text \<open>An operation returns its result, or \<open>None\<close> when it panics.\<close>

type_synonym outcome = "native_result option"

definition cancelled :: outcome where
  "cancelled = Some (result_failure CODE_IO)"

definition outcome_of :: "('a \<Rightarrow> native_value option nresult) \<Rightarrow> 'a xresult \<Rightarrow> outcome" where
  "outcome_of f r =
     (case r of
        Inl Panicked \<Rightarrow> None
      | Inl e \<Rightarrow> Some (from_result (Inl (Coded (binding_code e))))
      | Inr x \<Rightarrow> Some (from_result (f x)))"

function connect_attempts ::
  "(nat \<Rightarrow> attempt) \<Rightarrow> 64 word \<Rightarrow> nat \<Rightarrow> nat \<Rightarrow> connector \<Rightarrow> outcome \<times> connector" where
  "connect_attempts env expected retries n c =
     (if load_before (env n) \<noteq> expected then (cancelled, c)
      else case connect (attempt_net (env n)) c of (result, c1) \<Rightarrow>
        if result = Inl Panicked then (None, c1)
        else if load_after (env n) \<noteq> expected then
          (case shutdown (attempt_net (env n)) c1 of (closed, c2) \<Rightarrow>
             (if closed = Inl Panicked then None else cancelled, c2))
        else case result of
          Inr _ \<Rightarrow> (Some (result_success None), c1)
        | Inl e \<Rightarrow>
            if n < retries \<and> is_retryable_connect e then
              if \<not> wait_for_connect_retry (retry_loads (env n)) (retry_late (env n)) expected n
              then (cancelled, c1)
              else connect_attempts env expected retries (n + 1) c1
            else (Some (from_result (Inl (Coded (binding_code e)))), c1))"
  by pat_completeness auto
termination
  by (relation "measure (\<lambda>(env, expected, retries, n, c). retries - n)") auto

declare connect_attempts.simps [simp del]

definition run_disconnect :: "network \<Rightarrow> connector \<Rightarrow> outcome \<times> connector" where
  "run_disconnect net c =
     (case shutdown net c of (r, c1) \<Rightarrow>
        (outcome_of (\<lambda>_. Inr None) (if r = Inl NotConnectedErr then Inr () else r), c1))"

definition run_sync :: "libraries \<Rightarrow> network \<Rightarrow> bytes \<Rightarrow> owned_value list \<Rightarrow> connector \<Rightarrow> outcome \<times> connector" where
  "run_sync lib net expr args c =
     (case native_values_into_k lib args of
        Inl e \<Rightarrow> (Some (from_result (Inl e)), c)
      | Inr ks \<Rightarrow>
          (case execute net expr ks c of (r, c1) \<Rightarrow>
             (outcome_of (\<lambda>v. rbind (k_into_native lib v) (\<lambda>n. Inr (Some n))) r, c1)))"

definition run_asyn :: "libraries \<Rightarrow> network \<Rightarrow> bytes \<Rightarrow> owned_value list \<Rightarrow> connector \<Rightarrow> outcome \<times> connector" where
  "run_asyn lib net expr args c =
     (case native_values_into_k lib args of
        Inl e \<Rightarrow> (Some (from_result (Inl e)), c)
      | Inr ks \<Rightarrow> (case execute_async net expr ks c of (r, c1) \<Rightarrow> (outcome_of (\<lambda>_. Inr None) r, c1)))"

definition run_receive :: "libraries \<Rightarrow> network \<Rightarrow> connector \<Rightarrow> outcome \<times> connector" where
  "run_receive lib net c =
     (case receive net c of (r, c1) \<Rightarrow>
        (outcome_of (\<lambda>v. rbind (k_into_native lib v) (\<lambda>n. Inr (Some n))) r, c1))"

text \<open>The answer to the promise, and whether the worker keeps running.\<close>

definition complete_operation :: "outcome \<Rightarrow> native_result \<times> bool" where
  "complete_operation r = (case r of Some x \<Rightarrow> (x, True) | None \<Rightarrow> (result_failure CODE_INTERNAL, False))"

text \<open>What the worker meets while it runs one command.\<close>

record surroundings =
  sur_net :: network
  sur_attempts :: "nat \<Rightarrow> attempt"

section \<open>The shared state\<close>

text \<open>
  The worker thread: at the top of its loop, receiving, waiting for a slot, dropping a pending slot,
  holding a command it has not looked at yet, running one, or on its way out.
\<close>

datatype worker_phase =
    Looping
  | Receiving
  | Waiting slot_id
  | Dropping slot_id worker_phase
  | Holding "slot_id option" command
  | Running command "64 word"
  | Breaking
  | Draining
  | Closing
  | Returning
  | DrainingAgain
  | Leaving
  | Finished

text \<open>
  The JavaScript thread: between two methods, inside \<open>reserve\<close> before and after its message is sent,
  inside an enqueueing method with the command built but not committed, or dropping the connector.
\<close>

datatype js_phase =
    Idle
  | Reserved queued_permit
  | Sent queued_permit
  | Prepared queue_reservation slot_id "promise \<Rightarrow> command"
  | DroppingConnector
  | Gone

record system =
  admission :: admission_state
  channel :: "command list"
  sender_alive :: bool
  receiver_alive :: bool
  slots :: "command_slot list"
  generation :: "64 word"
  argument_limit :: nat
  worker :: worker_phase
  owned_connector :: connector
  js :: js_phase
  handles :: "queued_permit list"
  promises :: nat
  replies :: "(promise \<times> native_result) list"
  executed :: "slot_id list"

abbreviation stopped :: "system \<Rightarrow> bool" where
  "stopped s \<equiv> stopping (admission s)"

definition set_slot :: "slot_id \<Rightarrow> command_slot \<Rightarrow> system \<Rightarrow> system" where
  "set_slot i state s = s\<lparr>slots := (slots s)[i := state]\<rparr>"

definition cancel_slot :: "slot_id \<Rightarrow> system \<Rightarrow> system" where
  "cancel_slot i s = set_slot i (slot_cancel (slots s ! i)) s"

definition drop_reserved :: "queue_reservation \<Rightarrow> system \<Rightarrow> system" where
  "drop_reserved r s = s\<lparr>admission := drop_reservation r (admission s)\<rparr>"

definition deferred_resolve :: "promise \<Rightarrow> native_result \<Rightarrow> system \<Rightarrow> system" where
  "deferred_resolve p r s = s\<lparr>replies := replies s @ [(p, r)]\<rparr>"

text \<open>A command that is failed answers its promise and gives its reservation back.\<close>

definition filled :: "command_slot list \<Rightarrow> nat" where
  "filled xs = length (filter (\<lambda>st. case st of Some (Some _) \<Rightarrow> True | _ \<Rightarrow> False) xs)"

lemma filled_take: "i < length xs \<Longrightarrow> xs ! i = Some (Some c) \<Longrightarrow> filled (xs[i := None]) < filled xs"
proof (induction xs arbitrary: i)
  case (Cons x xs)
  then show ?case by (cases i) (auto simp: filled_def)
qed simp

function command_fail :: "string \<Rightarrow> command \<Rightarrow> system \<Rightarrow> system" where
  "command_fail code (Pending i) s =
     (if i < length (slots s) then
        case slots s ! i of
          Some (Some c) \<Rightarrow> command_fail code c (set_slot i None s)
        | _ \<Rightarrow> set_slot i (Some None) s
      else s)"
| "command_fail code Stop s = s"
| "command_fail code (Connect r n p) s = drop_reserved r (deferred_resolve p (result_failure code) s)"
| "command_fail code (Disconnect r p) s = drop_reserved r (deferred_resolve p (result_failure code) s)"
| "command_fail code (Sync r e a p) s = drop_reserved r (deferred_resolve p (result_failure code) s)"
| "command_fail code (Asyn r e a p) s = drop_reserved r (deferred_resolve p (result_failure code) s)"
| "command_fail code (Receive r p) s = drop_reserved r (deferred_resolve p (result_failure code) s)"
  by pat_completeness auto
termination
  by (relation "measure (\<lambda>(code, c, s). filled (slots s))") (auto simp: set_slot_def filled_take)

text \<open>\<open>impl Drop for PendingSlot\<close>, armed; \<open>impl Drop for QueuedPermit\<close> and for its reservation.\<close>

definition drop_pending :: "slot_id \<Rightarrow> system \<Rightarrow> system" where
  "drop_pending i s = command_fail CODE_INTERNAL (Pending i) s"

definition drop_permit :: "queued_permit \<Rightarrow> system \<Rightarrow> system" where
  "drop_permit q s =
     (let s = cancel_slot (qp_slot q) s in
      case reservation (qp_admission q) of None \<Rightarrow> s | Some r \<Rightarrow> drop_reserved r s)"

text \<open>\<open>impl Drop for PreparedPermit\<close>, armed.\<close>

definition drop_prepared :: "queue_reservation \<Rightarrow> slot_id \<Rightarrow> system \<Rightarrow> system" where
  "drop_prepared r i s = drop_reserved r (cancel_slot i s)"

text \<open>
  \<open>env.create_deferred\<close> either fails, and the method throws, or issues a fresh promise, which
  \<open>ready_result\<close> answers at once.
\<close>

definition ready_result :: "bool \<Rightarrow> native_result \<Rightarrow> system \<Rightarrow> system" where
  "ready_result deferred_ok r s =
     (if deferred_ok then deferred_resolve (promises s) r (s\<lparr>promises := promises s + 1\<rparr>) else s)"

section \<open>The native connector\<close>

datatype send_error = Full | Disconnected

definition try_send :: "command \<Rightarrow> system \<Rightarrow> send_error + system" where
  "try_send c s =
     (if \<not> receiver_alive s then Inl Disconnected
      else if length (channel s) \<ge> MAX_QUEUE_CAPACITY then Inl Full
      else Inr (s\<lparr>channel := channel s @ [c]\<rparr>))"

text \<open>
  \<open>NativeConnector::new\<close>: \<open>worker_ok\<close> and \<open>reaper_ok\<close> say whether the operating system starts the
  two threads. The counter of admission owners is the second component.
\<close>

definition native_connector_new ::
  "(bytes \<Rightarrow> bool) \<Rightarrow> network \<Rightarrow> bool \<Rightarrow> bool \<Rightarrow> native_options \<Rightarrow> 64 word \<Rightarrow> system napi_result \<times> 64 word" where
  "native_connector_new host_name_ok net worker_ok reaper_ok opts next_owner =
     (case rbind (options_try_from host_name_ok opts) (\<lambda>w. rbind (into_connector net w) (\<lambda>c. Inr (w, c))) of
        Inl e \<Rightarrow> (Inl e, next_owner)
      | Inr (w, c) \<Rightarrow>
          (case admission_new next_owner (wo_queue_capacity w) (wo_max_queued_bytes w) False of (st, following) \<Rightarrow>
             (if \<not> worker_ok \<or> \<not> reaper_ok then Inl GenericFailure
              else Inr \<lparr>admission = st, channel = [], sender_alive = True, receiver_alive = True, slots = [],
                generation = 0, argument_limit = wo_max_argument_bytes w, worker = Looping, owned_connector = c,
                js = Idle, handles = [], promises = 0, replies = [], executed = []\<rparr>, following)))"

text \<open>\<open>reserve\<close>, in the three steps of the code. An error that is returned is its code.\<close>

definition reserve_admit :: "system \<Rightarrow> string option \<times> system" where
  "reserve_admit s =
     (case reserve (admission s) of
        Inl code \<Rightarrow> (Some code, s)
      | Inr (permit, st) \<Rightarrow>
          (None, s\<lparr>admission := st, slots := slots s @ [slot_new],
                   js := Reserved \<lparr>qp_admission = permit, qp_slot = length (slots s)\<rparr>\<rparr>))"

definition reserve_send :: "queued_permit \<Rightarrow> system \<Rightarrow> string option \<times> system" where
  "reserve_send q s =
     (case try_send (Pending (qp_slot q)) s of
        Inr s \<Rightarrow> (None, s\<lparr>js := Sent q\<rparr>)
      | Inl e \<Rightarrow>
          (Some (case e of Full \<Rightarrow> CODE_BACKPRESSURE | Disconnected \<Rightarrow> CODE_INTERNAL),
           (drop_permit q (drop_pending (qp_slot q) s))\<lparr>js := Idle\<rparr>))"

definition reserve_check :: "queued_permit \<Rightarrow> system \<Rightarrow> string option \<times> system" where
  "reserve_check q s =
     (if stopped s then (Some CODE_INTERNAL, (drop_permit q (cancel_slot (qp_slot q) s))\<lparr>js := Idle\<rparr>)
      else (None, s\<lparr>handles := handles s @ [q], js := Idle\<rparr>))"

definition set_handle :: "nat \<Rightarrow> admission_permit \<Rightarrow> system \<Rightarrow> system" where
  "set_handle h p s = s\<lparr>handles := (handles s)[h := (handles s ! h)\<lparr>qp_admission := p\<rparr>]\<rparr>"

definition release :: "nat \<Rightarrow> system \<Rightarrow> native_result \<times> system" where
  "release h s =
     (case release_for (qp_admission (handles s ! h)) (admission s) of
        Inr (p, st) \<Rightarrow> (result_success None, cancel_slot (qp_slot (handles s ! h)) (set_handle h p (s\<lparr>admission := st\<rparr>)))
      | Inl code \<Rightarrow> (result_failure code, s))"

definition abort_shared :: "network \<Rightarrow> system \<Rightarrow> unit xresult \<times> system" where
  "abort_shared net s =
     (case handle_abort (net_shutdown net) (abort_world (owned_connector s)) of (r, w) \<Rightarrow>
        (r, s\<lparr>owned_connector := (owned_connector s)\<lparr>abort_world := w\<rparr>\<rparr>))"

definition cancel :: "network \<Rightarrow> system \<Rightarrow> native_result \<times> system" where
  "cancel net s =
     (case abort_shared net (s\<lparr>generation := generation s + 1\<rparr>) of (r, s) \<Rightarrow>
        (from_result (rbind (from_xqdb r) (\<lambda>_. Inr None)), s))"

text \<open>
  The enqueueing methods take the reservation of the permit and build the command;
  \<open>enqueue_reserved\<close> creates the promise and commits.
\<close>

definition enqueue_permitted ::
  "bool \<Rightarrow> nat \<Rightarrow> (queue_reservation \<Rightarrow> promise \<Rightarrow> command) \<Rightarrow> system \<Rightarrow> system" where
  "enqueue_permitted deferred_ok h cmd s =
     (case take_uncommitted_for (admission s) (qp_admission (handles s ! h)) of
        Inl code \<Rightarrow> ready_result deferred_ok (result_failure code) s
      | Inr (r, p) \<Rightarrow> (set_handle h p s)\<lparr>js := Prepared r (qp_slot (handles s ! h)) (cmd r)\<rparr>)"

text \<open>
  The expression is a JavaScript string: its length in UTF-8 and its text, each of which Node-API may
  refuse; the arguments are a JavaScript array.
\<close>

record 'v execution =
  exec_utf8_len :: "nat option"
  exec_utf8 :: "bytes option"
  exec_args :: 'v
  exec_args_len :: nat

datatype execution_mode = SyncMode | AsynMode

definition execution_command :: "execution_mode \<Rightarrow> bytes \<Rightarrow> owned_value list \<Rightarrow> queue_reservation \<Rightarrow> promise \<Rightarrow> command" where
  "execution_command mode expr args r p = (case mode of SyncMode \<Rightarrow> Sync r expr args p | AsynMode \<Rightarrow> Asyn r expr args p)"

text \<open>
  The command with the reservation as charged, or what is returned: \<open>None\<close> for an exception, a
  failure otherwise. The last component holds the reservation and the counters at that point.
\<close>

definition prepare_execution ::
  "'v node \<Rightarrow> libraries \<Rightarrow> nat \<Rightarrow> 'v execution \<Rightarrow> execution_mode \<Rightarrow> queue_reservation \<Rightarrow> admission_state
    \<Rightarrow> (native_error option + (queue_reservation \<Rightarrow> promise \<Rightarrow> command)) \<times> queue_reservation \<times> admission_state" where
  "prepare_execution nd lib limit x mode r st =
     (case exec_utf8_len x of
        None \<Rightarrow> (Inl None, r, st)
      | Some len \<Rightarrow>
          (case rbind (validate_expression_length len) (\<lambda>_. coded (charge_bytes len r st)) of
             Inl e \<Rightarrow> (Inl (Some e), r, st)
           | Inr (r, st) \<Rightarrow>
               (case exec_utf8 x of
                  None \<Rightarrow> (Inl None, r, st)
                | Some expr \<Rightarrow>
                    (case snapshot_native_values_admitted nd lib (exec_args x) (exec_args_len x) limit r st of (result, b) \<Rightarrow>
                       (case result of
                          Inl e \<Rightarrow> Inl (Some (if e = SnapshotLimit then Coded CODE_BACKPRESSURE else e))
                        | Inr (args, used) \<Rightarrow> Inr (execution_command mode expr args),
                        or_else (sb_reservation b) (r, st))))))"

definition enqueue_execution ::
  "'v node \<Rightarrow> libraries \<Rightarrow> bool \<Rightarrow> nat \<Rightarrow> 'v execution \<Rightarrow> execution_mode \<Rightarrow> system \<Rightarrow> system" where
  "enqueue_execution nd lib deferred_ok h x mode s =
     (case take_uncommitted_for (admission s) (qp_admission (handles s ! h)) of
        Inl code \<Rightarrow> ready_result deferred_ok (result_failure code) s
      | Inr (r, p) \<Rightarrow>
          (let i = qp_slot (handles s ! h); s = set_handle h p s in
           case prepare_execution nd lib (argument_limit s) x mode r (admission s) of (result, r, st) \<Rightarrow>
             (let s = s\<lparr>admission := st\<rparr> in
              case result of
                Inl None \<Rightarrow> drop_prepared r i s
              | Inl (Some e) \<Rightarrow> drop_prepared r i (ready_result deferred_ok (result_failure (native_code e)) s)
              | Inr cmd \<Rightarrow> s\<lparr>js := Prepared r i (cmd r)\<rparr>)))"

definition enqueue_reserved ::
  "bool \<Rightarrow> queue_reservation \<Rightarrow> slot_id \<Rightarrow> (promise \<Rightarrow> command) \<Rightarrow> system \<Rightarrow> system" where
  "enqueue_reserved deferred_ok r i cmd s =
     (if \<not> deferred_ok then (drop_prepared r i (cancel_slot i s))\<lparr>js := Idle\<rparr>
      else let c = cmd (promises s); s = s\<lparr>promises := promises s + 1, js := Idle\<rparr> in
        case slot_commit c (slots s ! i) of
          Inr state \<Rightarrow> set_slot i state s
        | Inl c \<Rightarrow> command_fail CODE_CONVERSION c s)"

text \<open>\<open>impl Drop for NativeConnector\<close>, in two steps.\<close>

definition stop_connector :: "system \<Rightarrow> system" where
  "stop_connector s = s\<lparr>admission := (admission s)\<lparr>stopping := True\<rparr>, js := DroppingConnector\<rparr>"

definition drop_native_connector :: "network \<Rightarrow> system \<Rightarrow> system" where
  "drop_native_connector net s =
     (let s = snd (abort_shared net (s\<lparr>generation := generation s + 1\<rparr>));
          s = (case try_send Stop s of Inr s \<Rightarrow> s | Inl _ \<Rightarrow> s)
      in s\<lparr>sender_alive := False, js := Gone\<rparr>)"

text \<open>A method call, or a step inside one, of the JavaScript thread.\<close>

datatype 'v js_event =
    CallReserve
  | SendPending
  | CheckStopping
  | CallRelease nat
  | CallCancel
  | CallConnect nat f64
  | CallDisconnect nat
  | CallReceive nat
  | CallExecute nat "'v execution" execution_mode
  | Commit
  | FinalizePermit nat
  | StopConnector
  | DropConnector

fun js_call :: "'v node \<Rightarrow> libraries \<Rightarrow> network \<Rightarrow> bool \<Rightarrow> 'v js_event \<Rightarrow> system \<Rightarrow> system option" where
  "js_call nd lib net deferred_ok CallReserve s = Some (snd (reserve_admit s))"
| "js_call nd lib net deferred_ok (CallRelease h) s =
     (if h < length (handles s) then Some (snd (release h s)) else None)"
| "js_call nd lib net deferred_ok CallCancel s = Some (snd (cancel net s))"
| "js_call nd lib net deferred_ok (CallConnect h retries) s =
     (if h < length (handles s) then
        case safe_nonnegative_integer (Some retries) 0 of
          Inl _ \<Rightarrow> Some s
        | Inr n \<Rightarrow> Some (enqueue_permitted deferred_ok h (\<lambda>r. Connect r n) s)
      else None)"
| "js_call nd lib net deferred_ok (CallDisconnect h) s =
     (if h < length (handles s) then Some (enqueue_permitted deferred_ok h Disconnect s) else None)"
| "js_call nd lib net deferred_ok (CallReceive h) s =
     (if h < length (handles s) then Some (enqueue_permitted deferred_ok h Receive s) else None)"
| "js_call nd lib net deferred_ok (CallExecute h x mode) s =
     (if h < length (handles s) then Some (enqueue_execution nd lib deferred_ok h x mode s) else None)"
| "js_call nd lib net deferred_ok StopConnector s = Some (stop_connector s)"
| "js_call nd lib net deferred_ok _ s = None"

definition finalize_permit :: "nat \<Rightarrow> system \<Rightarrow> system" where
  "finalize_permit h s = drop_permit (handles s ! h) (s\<lparr>handles := remove_nth h (handles s)\<rparr>)"

definition js_step :: "'v node \<Rightarrow> libraries \<Rightarrow> network \<Rightarrow> bool \<Rightarrow> 'v js_event \<Rightarrow> system \<Rightarrow> system option" where
  "js_step nd lib net deferred_ok event s =
     (case (js s, event) of
        (Reserved q, SendPending) \<Rightarrow> Some (snd (reserve_send q s))
      | (Sent q, CheckStopping) \<Rightarrow> Some (snd (reserve_check q s))
      | (Prepared r i cmd, Commit) \<Rightarrow> Some (enqueue_reserved deferred_ok r i cmd s)
      | (DroppingConnector, DropConnector) \<Rightarrow> Some (drop_native_connector net s)
      | (Idle, FinalizePermit h) \<Rightarrow> if h < length (handles s) then Some (finalize_permit h s) else None
      | (Gone, FinalizePermit h) \<Rightarrow> if h < length (handles s) then Some (finalize_permit h s) else None
      | (Idle, _) \<Rightarrow> js_call nd lib net deferred_ok event s
      | _ \<Rightarrow> None)"

section \<open>The worker thread\<close>

fun command_promise :: "command \<Rightarrow> promise option" where
  "command_promise (Pending i) = None"
| "command_promise Stop = None"
| "command_promise (Connect r n p) = Some p"
| "command_promise (Disconnect r p) = Some p"
| "command_promise (Sync r e a p) = Some p"
| "command_promise (Asyn r e a p) = Some p"
| "command_promise (Receive r p) = Some p"

fun command_reservation :: "command \<Rightarrow> queue_reservation option" where
  "command_reservation (Pending i) = None"
| "command_reservation Stop = None"
| "command_reservation (Connect r n p) = Some r"
| "command_reservation (Disconnect r p) = Some r"
| "command_reservation (Sync r e a p) = Some r"
| "command_reservation (Asyn r e a p) = Some r"
| "command_reservation (Receive r p) = Some r"

text \<open>The operation of a command; the cancel generation was loaded when the command was started.\<close>

fun run_command :: "libraries \<Rightarrow> surroundings \<Rightarrow> 64 word \<Rightarrow> command \<Rightarrow> connector \<Rightarrow> outcome \<times> connector" where
  "run_command lib sur expected (Connect r n p) c = connect_attempts (sur_attempts sur) expected n 0 c"
| "run_command lib sur expected (Disconnect r p) c = run_disconnect (sur_net sur) c"
| "run_command lib sur expected (Sync r e a p) c = run_sync lib (sur_net sur) e a c"
| "run_command lib sur expected (Asyn r e a p) c = run_asyn lib (sur_net sur) e a c"
| "run_command lib sur expected (Receive r p) c = run_receive lib (sur_net sur) c"
| "run_command lib sur expected _ c = (cancelled, c)"

text \<open>A command that is received and failed; a pending slot is dropped afterwards.\<close>

definition fail_received :: "command \<Rightarrow> worker_phase \<Rightarrow> system \<Rightarrow> system" where
  "fail_received c next s =
     (command_fail CODE_INTERNAL c s)\<lparr>worker := (case c of Pending i \<Rightarrow> Dropping i next | _ \<Rightarrow> next)\<rparr>"

definition start_command :: "slot_id option \<Rightarrow> command \<Rightarrow> system \<Rightarrow> system" where
  "start_command from c s =
     (case c of
        Pending i \<Rightarrow> (cancel_slot i s)\<lparr>worker := Dropping i Looping\<rparr>
      | Stop \<Rightarrow> s\<lparr>worker := Breaking\<rparr>
      | _ \<Rightarrow> (case command_reservation c of Some r \<Rightarrow> drop_reserved r s | None \<Rightarrow> s)
               \<lparr>worker := Running c (generation s),
                executed := executed s @ (case from of Some i \<Rightarrow> [i] | None \<Rightarrow> [])\<rparr>)"

definition finish_command :: "libraries \<Rightarrow> surroundings \<Rightarrow> command \<Rightarrow> 64 word \<Rightarrow> system \<Rightarrow> system" where
  "finish_command lib sur c expected s =
     (case run_command lib sur expected c (owned_connector s) of (r, conn) \<Rightarrow>
      case complete_operation r of (answer, keep_running) \<Rightarrow>
        (case command_promise c of Some p \<Rightarrow> deferred_resolve p answer s | None \<Rightarrow> s)
          \<lparr>owned_connector := conn, worker := (if keep_running then Looping else Breaking)\<rparr>)"

text \<open>\<open>None\<close> when the worker blocks or has finished.\<close>

definition worker_step :: "libraries \<Rightarrow> surroundings \<Rightarrow> system \<Rightarrow> system option" where
  "worker_step lib sur s =
     (case worker s of
        Looping \<Rightarrow> Some (s\<lparr>worker := (if stopped s then Breaking else Receiving)\<rparr>)
      | Receiving \<Rightarrow>
          (case channel s of
             [] \<Rightarrow> if sender_alive s then None else Some (s\<lparr>worker := Breaking\<rparr>)
           | Pending i # cs \<Rightarrow> Some (s\<lparr>channel := cs, worker := Waiting i\<rparr>)
           | c # cs \<Rightarrow> Some (s\<lparr>channel := cs, worker := Holding None c\<rparr>))
      | Waiting i \<Rightarrow>
          (case slot_wait (stopped s) (slots s ! i) of
             None \<Rightarrow> None
           | Some (Some c, state) \<Rightarrow> Some ((set_slot i state s)\<lparr>worker := Holding (Some i) c\<rparr>)
           | Some (None, state) \<Rightarrow> Some ((set_slot i state s)\<lparr>worker := Dropping i Looping\<rparr>))
      | Dropping i next \<Rightarrow> Some ((drop_pending i s)\<lparr>worker := next\<rparr>)
      | Holding from c \<Rightarrow> Some (if stopped s then fail_received c Breaking s else start_command from c s)
      | Running c expected \<Rightarrow> Some (finish_command lib sur c expected s)
      | Breaking \<Rightarrow> Some (s\<lparr>admission := (admission s)\<lparr>stopping := True\<rparr>, worker := Draining\<rparr>)
      | Draining \<Rightarrow>
          (case channel s of
             [] \<Rightarrow> Some (s\<lparr>worker := Closing\<rparr>)
           | c # cs \<Rightarrow> Some (fail_received c Draining (s\<lparr>channel := cs\<rparr>)))
      | Closing \<Rightarrow>
          Some (s\<lparr>owned_connector := drop_connector (snd (shutdown (sur_net sur) (owned_connector s))), worker := Returning\<rparr>)
      | Returning \<Rightarrow> Some (s\<lparr>admission := (admission s)\<lparr>stopping := True\<rparr>, worker := DrainingAgain\<rparr>)
      | DrainingAgain \<Rightarrow>
          (case channel s of
             [] \<Rightarrow> Some (s\<lparr>worker := Leaving\<rparr>)
           | c # cs \<Rightarrow> Some (fail_received c DrainingAgain (s\<lparr>channel := cs\<rparr>)))
      | Leaving \<Rightarrow>
          Some ((fold (command_fail CODE_INTERNAL) (channel s) s)\<lparr>channel := [], receiver_alive := False, worker := Finished\<rparr>)
      | Finished \<Rightarrow> None)"

section \<open>The system\<close>

inductive system_step :: "'v node \<Rightarrow> libraries \<Rightarrow> system \<Rightarrow> system \<Rightarrow> bool" for nd lib where
  worker_moves: "worker_step lib sur s = Some t \<Longrightarrow> system_step nd lib s t"
| js_moves: "js_step nd lib net deferred_ok event s = Some t \<Longrightarrow> system_step nd lib s t"

inductive_cases system_stepE: "system_step nd lib s t"

definition initial_system :: "system \<Rightarrow> bool" where
  "initial_system s \<longleftrightarrow>
     (\<exists>host_name_ok net opts owner_word. fst (native_connector_new host_name_ok net True True opts owner_word) = Inr s)"

definition reachable_system :: "'v node \<Rightarrow> libraries \<Rightarrow> system \<Rightarrow> bool" where
  "reachable_system nd lib s \<longleftrightarrow> (\<exists>s0. initial_system s0 \<and> (system_step nd lib)\<^sup>*\<^sup>* s0 s)"

end
