(* ===== verification/WorkerInvariant.thy ===== *)
theory WorkerInvariant
  imports Worker "HOL-Library.Multiset" "HOL-Library.Sublist"
begin

text \<open>
  The invariant of the two threads of the Node binding, and that every step keeps it: where a
  pending slot is held, which permits may still commit to a slot, in which order the slots are
  handled, and where each promise is until it is answered.
\<close>

section \<open>Custody of the slots\<close>

fun pending_of :: "command \<Rightarrow> slot_id list" where
  "pending_of (Pending i) = [i]"
| "pending_of _ = []"

fun phase_slots :: "worker_phase \<Rightarrow> slot_id list" where
  "phase_slots (Waiting i) = [i]"
| "phase_slots (Dropping i next) = [i]"
| "phase_slots _ = []"

fun hand :: "worker_phase \<Rightarrow> slot_id list" where
  "hand (Holding (Some i) c) = [i]"
| "hand _ = []"

definition custody :: "system \<Rightarrow> slot_id list" where
  "custody s = phase_slots (worker s) @ concat (map pending_of (channel s))"

definition is_request :: "command \<Rightarrow> bool" where
  "is_request c \<longleftrightarrow> command_promise c \<noteq> None"

definition uncommitted :: "queued_permit \<Rightarrow> bool" where
  "uncommitted q \<longleftrightarrow> reservation (qp_admission q) \<noteq> None"

fun js_live :: "js_phase \<Rightarrow> slot_id list" where
  "js_live (Sent q) = [qp_slot q]"
| "js_live (Prepared r i cmd) = [i]"
| "js_live _ = []"

fun js_fresh :: "js_phase \<Rightarrow> slot_id list" where
  "js_fresh (Reserved q) = [qp_slot q]"
| "js_fresh _ = []"

definition live :: "system \<Rightarrow> slot_id list" where
  "live s = map qp_slot (filter uncommitted (handles s)) @ js_live (js s)"

fun phase_ok :: "worker_phase \<Rightarrow> bool" where
  "phase_ok (Dropping i next) \<longleftrightarrow> next \<in> {Looping, Draining, DrainingAgain}"
| "phase_ok (Holding from c) \<longleftrightarrow> is_request c \<and> from \<noteq> None \<or> c = Stop \<and> from = None"
| "phase_ok (Running c g) \<longleftrightarrow> is_request c"
| "phase_ok _ \<longleftrightarrow> True"

fun js_ok :: "js_phase \<Rightarrow> bool" where
  "js_ok (Reserved q) \<longleftrightarrow> uncommitted q"
| "js_ok (Sent q) \<longleftrightarrow> uncommitted q"
| "js_ok (Prepared r i cmd) \<longleftrightarrow> (\<forall>p. command_promise (cmd p) = Some p)"
| "js_ok _ \<longleftrightarrow> True"

definition shape_inv :: "system \<Rightarrow> bool" where
  "shape_inv s \<longleftrightarrow> (\<forall>c \<in> set (channel s). \<not> is_request c) \<and> phase_ok (worker s) \<and> js_ok (js s)
     \<and> (worker s = Finished \<longleftrightarrow> \<not> receiver_alive s) \<and> (worker s = Finished \<longrightarrow> channel s = [])"

definition order_inv :: "system \<Rightarrow> bool" where
  "order_inv s \<longleftrightarrow> sorted_wrt (<) (executed s @ hand (worker s) @ custody s @ js_fresh (js s))
     \<and> (\<forall>i \<in> set (executed s @ hand (worker s) @ custody s @ js_fresh (js s)). i < length (slots s))"

text \<open>
  Every committed command sits in a slot that the channel or the worker still has to look at, and no
  permit can commit to that slot again; a permit that may still commit is either served or refused.
\<close>

definition slots_inv :: "system \<Rightarrow> bool" where
  "slots_inv s \<longleftrightarrow>
     (\<forall>i c. i < length (slots s) \<and> slots s ! i = Some (Some c) \<longrightarrow>
        is_request c \<and> i \<in> set (custody s) \<and> i \<notin> set (live s) \<union> set (js_fresh (js s)))
     \<and> (\<forall>i \<in> set (live s). slots s ! i = None \<longrightarrow> i \<in> set (custody s))
     \<and> (\<forall>i. worker s = Waiting i \<or> Pending i \<in> set (channel s) \<longrightarrow>
          slots s ! i = None \<longrightarrow> i \<in> set (live s))
     \<and> distinct (live s @ js_fresh (js s)) \<and> (\<forall>i \<in> set (live s). i < length (slots s))"

section \<open>Promises\<close>

definition promise_mset :: "command \<Rightarrow> promise multiset" where
  "promise_mset c = (case command_promise c of Some p \<Rightarrow> {#p#} | None \<Rightarrow> {#})"

definition slot_mset :: "command_slot \<Rightarrow> promise multiset" where
  "slot_mset st = (case st of Some (Some c) \<Rightarrow> promise_mset c | _ \<Rightarrow> {#})"

fun phase_mset :: "worker_phase \<Rightarrow> promise multiset" where
  "phase_mset (Holding from c) = promise_mset c"
| "phase_mset (Running c g) = promise_mset c"
| "phase_mset _ = {#}"

definition answered :: "system \<Rightarrow> promise multiset" where
  "answered s = mset (map fst (replies s))"

definition stored :: "system \<Rightarrow> promise multiset" where
  "stored s = sum_list (map slot_mset (slots s))"

definition promise_inv :: "system \<Rightarrow> bool" where
  "promise_inv s \<longleftrightarrow> answered s + stored s + phase_mset (worker s) = mset [0..<promises s]"

lemma sum_list_update:
  fixes g :: "'a \<Rightarrow> 'b :: comm_monoid_add"
  shows "i < length xs \<Longrightarrow> sum_list (map g (xs[i := v])) + g (xs ! i) = sum_list (map g xs) + g v"
proof (induction xs arbitrary: i)
  case (Cons x xs)
  then show ?case by (cases i) (auto simp: ac_simps)
qed simp

lemma stored_update:
  "i < length (slots s) \<Longrightarrow> stored (set_slot i st s) + slot_mset (slots s ! i) = stored s + slot_mset st"
  by (simp add: stored_def set_slot_def sum_list_update)

section \<open>What the operations keep\<close>

lemma slot_fields [simp]:
  "slots (set_slot i st s) = (slots s)[i := st]" "channel (set_slot i st s) = channel s"
  "worker (set_slot i st s) = worker s" "js (set_slot i st s) = js s" "handles (set_slot i st s) = handles s"
  "promises (set_slot i st s) = promises s" "replies (set_slot i st s) = replies s"
  "executed (set_slot i st s) = executed s" "receiver_alive (set_slot i st s) = receiver_alive s"
  "sender_alive (set_slot i st s) = sender_alive s" "admission (set_slot i st s) = admission s"
  by (simp_all add: set_slot_def)

lemma drop_fields [simp]:
  "slots (drop_reserved r s) = slots s" "channel (drop_reserved r s) = channel s"
  "worker (drop_reserved r s) = worker s" "js (drop_reserved r s) = js s" "handles (drop_reserved r s) = handles s"
  "promises (drop_reserved r s) = promises s" "replies (drop_reserved r s) = replies s"
  "executed (drop_reserved r s) = executed s" "receiver_alive (drop_reserved r s) = receiver_alive s"
  "sender_alive (drop_reserved r s) = sender_alive s" "stopped (drop_reserved r s) = stopped s"
  by (simp_all add: drop_reserved_def drop_reservation_def)

lemma resolve_fields [simp]:
  "slots (deferred_resolve p r s) = slots s" "channel (deferred_resolve p r s) = channel s"
  "worker (deferred_resolve p r s) = worker s" "js (deferred_resolve p r s) = js s" "handles (deferred_resolve p r s) = handles s"
  "promises (deferred_resolve p r s) = promises s" "replies (deferred_resolve p r s) = replies s @ [(p, r)]"
  "executed (deferred_resolve p r s) = executed s" "receiver_alive (deferred_resolve p r s) = receiver_alive s"
  "sender_alive (deferred_resolve p r s) = sender_alive s" "admission (deferred_resolve p r s) = admission s"
  by (simp_all add: deferred_resolve_def)

lemma command_fail_fields [simp]:
  "channel (command_fail code c s) = channel s" "worker (command_fail code c s) = worker s"
  "js (command_fail code c s) = js s" "handles (command_fail code c s) = handles s"
  "promises (command_fail code c s) = promises s" "executed (command_fail code c s) = executed s"
  "receiver_alive (command_fail code c s) = receiver_alive s" "sender_alive (command_fail code c s) = sender_alive s"
  "stopped (command_fail code c s) = stopped s" "length (slots (command_fail code c s)) = length (slots s)"
  by (induction code c s rule: command_fail.induct) (auto split: option.splits)

lemma command_fail_request:
  assumes "is_request c"
  shows "slots (command_fail code c s) = slots s" "answered (command_fail code c s) = answered s + promise_mset c"
  using assms by (cases c; simp add: is_request_def answered_def promise_mset_def)+

definition after_fail :: "command_slot \<Rightarrow> command_slot" where
  "after_fail st = snd (slot_fail st)"

lemma fail_pending_effect:
  assumes "i < length (slots s)" "\<And>c. slots s ! i = Some (Some c) \<Longrightarrow> is_request c"
  shows "slots (command_fail code (Pending i) s) = (slots s)[i := after_fail (slots s ! i)]"
    and "answered (command_fail code (Pending i) s) + stored (command_fail code (Pending i) s) = answered s + stored s"
proof -
  let ?s = "command_fail code (Pending i) s"
  have a: "slots ?s = (slots s)[i := after_fail (slots s ! i)] \<and> answered ?s = answered s + slot_mset (slots s ! i)"
  proof (cases "slots s ! i = None \<or> slots s ! i = Some None")
    case True
    then show ?thesis using assms(1) by (auto simp: after_fail_def slot_fail_def answered_def slot_mset_def)
  next
    case False
    then obtain c where c: "slots s ! i = Some (Some c)" by auto
    then show ?thesis using assms(1) command_fail_request [OF assms(2) [OF c], of code "set_slot i None s"]
      by (simp add: after_fail_def slot_fail_def answered_def slot_mset_def)
  qed
  then show "slots ?s = (slots s)[i := after_fail (slots s ! i)]" by simp
  have "slot_mset (after_fail (slots s ! i)) = {#}"
    by (auto simp: after_fail_def slot_fail_def slot_mset_def split: option.splits)
  then have "stored ?s + slot_mset (slots s ! i) = stored s"
    using a sum_list_update [of i "slots s" slot_mset "after_fail (slots s ! i)"] assms(1) by (simp add: stored_def)
  then show "answered ?s + stored ?s = answered s + stored s" using a by (simp add: ac_simps)
qed

declare command_fail.simps(1) [simp del]

lemma set_slot_elsewhere: "set_slot i st (s\<lparr>channel := cs\<rparr>) = (set_slot i st s)\<lparr>channel := cs\<rparr>"
  by (cases s) (simp add: set_slot_def)

lemma command_fail_elsewhere:
  "command_fail code c (s\<lparr>channel := cs\<rparr>) = (command_fail code c s)\<lparr>channel := cs\<rparr>"
  by (induction code c s rule: command_fail.induct)
    (auto simp: command_fail.simps(1) set_slot_elsewhere drop_reserved_def deferred_resolve_def split: option.splits)

lemma after_fail_cases:
  "after_fail st = None \<longleftrightarrow> (\<exists>c. st = Some (Some c))" "after_fail st \<noteq> Some (Some c)"
  by (auto simp: after_fail_def slot_fail_def split: option.splits)


definition sys_inv :: "system \<Rightarrow> bool" where
  "sys_inv s \<longleftrightarrow> shape_inv s \<and> order_inv s \<and> slots_inv s \<and> promise_inv s"

lemmas inv_defs = shape_inv_def order_inv_def slots_inv_def promise_inv_def custody_def live_def

lemma sys_invI: "shape_inv s \<Longrightarrow> order_inv s \<Longrightarrow> slots_inv s \<Longrightarrow> promise_inv s \<Longrightarrow> sys_inv s"
  by (simp add: sys_inv_def)

text \<open>Steps that move only the phase of the worker, or a message from the channel to it.\<close>

lemma move_inv:
  assumes "sys_inv s" "slots t = slots s" "js t = js s" "handles t = handles s" "promises t = promises s"
    "replies t = replies s" "executed t = executed s" "receiver_alive t = receiver_alive s" "worker t \<noteq> Finished" "worker s \<noteq> Finished"
    "hand (worker t) @ custody t = hand (worker s) @ custody s" "custody t = custody s" "phase_mset (worker t) = phase_mset (worker s)"
    "set (channel t) \<subseteq> set (channel s)" "phase_ok (worker t)"
    "\<And>i. worker t = Waiting i \<Longrightarrow> worker s = Waiting i \<or> Pending i \<in> set (channel s)"
  shows "sys_inv t"
proof (rule sys_invI)
  show "shape_inv t" using assms by (auto simp: sys_inv_def shape_inv_def)
  show "order_inv t" using assms by (auto simp: sys_inv_def order_inv_def)
  have l: "live t = live s" using assms by (simp add: live_def)
  show "slots_inv t"
    unfolding slots_inv_def l using assms by (auto simp: sys_inv_def slots_inv_def)
  show "promise_inv t" using assms by (simp add: sys_inv_def promise_inv_def answered_def stored_def)
qed

lemma not_request_cases: "\<not> is_request c \<Longrightarrow> (\<exists>i. c = Pending i) \<or> c = Stop"
  by (cases c) (auto simp: is_request_def)

lemma step_quiet:
  assumes "sys_inv s" "worker_step lib sur s = Some t" "worker s \<in> {Looping, Receiving, Breaking, Closing, Returning}"
  shows "sys_inv t"
proof -
  have ch: "\<forall>c \<in> set (channel s). \<not> is_request c" using assms(1) by (simp add: sys_inv_def shape_inv_def)
  consider (a) "worker s \<noteq> Receiving" | (b) "worker s = Receiving" "channel s = []"
    | (c) c cs where "worker s = Receiving" "channel s = c # cs" by (cases "channel s") auto
  then show ?thesis
  proof cases
    case a
    show ?thesis by (rule move_inv [OF assms(1)]) (use a assms in \<open>auto simp: worker_step_def custody_def split: if_splits\<close>)
  next
    case b
    show ?thesis by (rule move_inv [OF assms(1)]) (use b assms in \<open>auto simp: worker_step_def custody_def split: if_splits\<close>)
  next
    case c
    then have "(\<exists>i. c = Pending i) \<or> c = Stop" using ch not_request_cases by simp
    then show ?thesis
      by (elim disjE exE; intro move_inv [OF assms(1)]) (use c assms in \<open>auto simp: worker_step_def custody_def promise_mset_def\<close>)
  qed
qed


lemma invD:
  assumes "sys_inv s"
  shows "\<And>c. c \<in> set (channel s) \<Longrightarrow> \<not> is_request c" "phase_ok (worker s)" "js_ok (js s)"
    "worker s = Finished \<longleftrightarrow> \<not> receiver_alive s" "worker s = Finished \<Longrightarrow> channel s = []"
    "sorted_wrt (<) (executed s @ hand (worker s) @ custody s @ js_fresh (js s))"
    "\<And>i. i \<in> set (executed s @ hand (worker s) @ custody s @ js_fresh (js s)) \<Longrightarrow> i < length (slots s)"
    "\<And>i c. i < length (slots s) \<Longrightarrow> slots s ! i = Some (Some c) \<Longrightarrow> is_request c"
    "\<And>i c. i < length (slots s) \<Longrightarrow> slots s ! i = Some (Some c) \<Longrightarrow> i \<in> set (custody s)"
    "\<And>i c. i < length (slots s) \<Longrightarrow> slots s ! i = Some (Some c) \<Longrightarrow> i \<notin> set (live s)"
    "\<And>i c. i < length (slots s) \<Longrightarrow> slots s ! i = Some (Some c) \<Longrightarrow> i \<notin> set (js_fresh (js s))"
    "\<And>i. i \<in> set (live s) \<Longrightarrow> slots s ! i = None \<Longrightarrow> i \<in> set (custody s)"
    "\<And>i. worker s = Waiting i \<or> Pending i \<in> set (channel s) \<Longrightarrow> slots s ! i = None \<Longrightarrow> i \<in> set (live s)"
    "distinct (live s @ js_fresh (js s))" "\<And>i. i \<in> set (live s) \<Longrightarrow> i < length (slots s)"
    "answered s + stored s + phase_mset (worker s) = mset [0..<promises s]"
  using assms unfolding sys_inv_def shape_inv_def order_inv_def slots_inv_def promise_inv_def by blast+

lemma custody_member: "i \<in> set (custody s) \<longleftrightarrow> i \<in> set (phase_slots (worker s)) \<or> Pending i \<in> set (channel s)"
proof -
  have "i \<in> set (pending_of c) \<longleftrightarrow> c = Pending i" for c by (cases c) auto
  then show ?thesis by (auto simp: custody_def)
qed

text \<open>
  A step of the worker that settles slot \<open>i\<close>, whose custody it has, and goes on with the slots
  \<open>i\<close> apart as they were.
\<close>

lemma settle_slots_inv:
  assumes inv: "sys_inv s" and i: "i \<in> set (custody s)"
    and sl: "slots t = (slots s)[i := st]" and jt: "js t = js s" "handles t = handles s"
    and st: "\<And>c. st \<noteq> Some (Some c)" "st = None \<Longrightarrow> i \<in> set (live s) \<Longrightarrow> i \<in> set (custody t)"
    and cu: "\<And>j. j \<noteq> i \<Longrightarrow> j \<in> set (custody t) \<longleftrightarrow> j \<in> set (custody s)"
    and wt: "\<And>j. worker t = Waiting j \<or> Pending j \<in> set (channel t) \<Longrightarrow> j \<noteq> i \<and> (worker s = Waiting j \<or> Pending j \<in> set (channel s))"
  shows "slots_inv t"
proof -
  note D = invD [OF inv]
  have l: "live t = live s" and n: "length (slots t) = length (slots s)" using jt sl by (simp_all add: live_def)
  have ne: "slots t ! j = slots s ! j" if "j \<noteq> i" for j using that sl by simp
  have il: "i < length (slots s)" using D(7) i by auto
  have ii: "slots t ! i = st" using il sl by simp
  show ?thesis unfolding slots_inv_def l n jt
  proof (intro conjI allI ballI impI)
    fix j c assume a: "j < length (slots s) \<and> slots t ! j = Some (Some c)"
    then have "j \<noteq> i" using ii st(1) by auto
    with a have "slots s ! j = Some (Some c)" using ne by simp
    then show "is_request c" "j \<in> set (custody t)" "j \<notin> set (live s) \<union> set (js_fresh (js s))"
      using D(8-11) a cu \<open>j \<noteq> i\<close> by auto
  next
    fix j assume "j \<in> set (live s)" "slots t ! j = None"
    then show "j \<in> set (custody t)" using D(12) ne cu ii st(2) by (cases "j = i") auto
  next
    fix j assume "worker t = Waiting j \<or> Pending j \<in> set (channel t)" "slots t ! j = None"
    then show "j \<in> set (live s)" using wt [of j] ne D(13) by auto
  qed (use D(14,15) in auto)
qed

lemma subseq_prefix: "subseq xs (xs @ ys)"
  by (simp add: prefix_imp_subseq)

lemma subseq_sorted_wrt: "subseq xs ys \<Longrightarrow> sorted_wrt P ys \<Longrightarrow> sorted_wrt P xs \<and> set xs \<subseteq> set ys"
  by (induction rule: list_emb.induct) auto

lemma shape_order_keep:
  assumes "sys_inv s" "length (slots t) = length (slots s)" "js t = js s" "worker t \<noteq> Finished" "worker s \<noteq> Finished" 
    "receiver_alive t = receiver_alive s" "set (channel t) \<subseteq> set (channel s)" "phase_ok (worker t)"
    "subseq (executed t @ hand (worker t) @ custody t) (executed s @ hand (worker s) @ custody s)"
  shows "shape_inv t" "order_inv t"
proof -
  note D = invD [OF assms(1)]
  show "shape_inv t" using assms D(1,3,4) by (auto simp: shape_inv_def)
  have sub: "subseq (executed t @ hand (worker t) @ custody t @ js_fresh (js t)) (executed s @ hand (worker s) @ custody s @ js_fresh (js s))"
    using assms(3,9) list_emb_append_mono [OF assms(9), of "js_fresh (js t)" "js_fresh (js s)"] by simp
  from subseq_sorted_wrt [OF this D(6)] show "order_inv t"
    unfolding order_inv_def assms(2) using D(7) by blast
qed


lemma custody_distinct: "sys_inv s \<Longrightarrow> distinct (custody s)"
  using invD(6) [of s] by (auto simp: sorted_wrt_append strict_sorted_iff)

lemma custody_bound: "sys_inv s \<Longrightarrow> i \<in> set (custody s) \<Longrightarrow> i < length (slots s)"
  using invD(7) [of s i] by auto

lemma step_waiting:
  assumes "sys_inv s" "worker_step lib sur s = Some t" "worker s = Waiting i"
  shows "sys_inv t"
proof -
  note D = invD [OF assms(1)]
  have i: "i \<in> set (custody s)" using assms(3) by (simp add: custody_def)
  note il = custody_bound [OF assms(1) i]
  have nc: "Pending i \<notin> set (channel s)"
    using custody_distinct [OF assms(1)] assms(3) custody_member [of i "s\<lparr>worker := Looping\<rparr>"] by (simp add: custody_def)
  consider (c) c where "slots s ! i = Some (Some c)" "t = (set_slot i None s)\<lparr>worker := Holding (Some i) c\<rparr>"
    | (n) "\<And>c. slots s ! i \<noteq> Some (Some c)" "t = (set_slot i None s)\<lparr>worker := Dropping i Looping\<rparr>"
    using assms(2,3) by (auto simp: worker_step_def slot_wait_def split: if_splits option.splits)
  then show ?thesis
  proof cases
    case c
    have nl: "i \<notin> set (live s)" by (rule D(10) [OF il c(1)])
    note rq = D(8) [OF il c(1)]
    have so: "shape_inv t" "order_inv t"
      using shape_order_keep [OF assms(1), of t] assms(3) c rq by (simp_all add: custody_def)
    have "slots_inv t"
      by (rule settle_slots_inv [OF assms(1) i, where st = None]) (use c nl nc assms(3) in \<open>auto simp: custody_member\<close>)
    moreover have "promise_inv t"
    proof -
      have "stored s = stored t + promise_mset c"
        using stored_update [OF il, of None] c by (simp add: stored_def slot_mset_def)
      then show ?thesis using D(16) c assms(3) by (simp add: promise_inv_def answered_def ac_simps)
    qed
    ultimately show ?thesis using so by (simp add: sys_inv_def)
  next
    case n
    have so: "shape_inv t" "order_inv t"
      using shape_order_keep [OF assms(1), of t] assms(3) n by (simp_all add: custody_def)
    have "slots_inv t"
      by (rule settle_slots_inv [OF assms(1) i, where st = None]) (use n nc assms(3) in \<open>auto simp: custody_member\<close>)
    moreover have "promise_inv t"
    proof -
      have "slot_mset (slots s ! i) = {#}" using n(1) by (auto simp: slot_mset_def split: option.splits)
      then have "stored s = stored t"
        using stored_update [OF il, of None] n by (simp add: stored_def slot_mset_def)
      then show ?thesis using D(16) n assms(3) by (simp add: promise_inv_def answered_def)
    qed
    ultimately show ?thesis using so by (simp add: sys_inv_def)
  qed
qed

text \<open>Failing the pending slot \<open>i\<close>, whose custody the worker has or keeps.\<close>

lemma fail_slot_inv:
  assumes inv: "sys_inv s" and i: "i \<in> set (custody s)"
    and t: "slots t = slots (command_fail code (Pending i) s)" "replies t = replies (command_fail code (Pending i) s)"
      "js t = js s" "handles t = handles s" "promises t = promises s" "executed t = executed s" "receiver_alive t = receiver_alive s"
    and w: "worker t \<noteq> Finished" "phase_ok (worker t)" "hand (worker t) = []" "phase_mset (worker t) = {#}"
      "\<And>j. worker t \<noteq> Waiting j"
    and s: "worker s \<noteq> Finished" "hand (worker s) = []" "phase_mset (worker s) = {#}"
    and cs: "set (channel t) \<subseteq> set (channel s)" "Pending i \<notin> set (channel t)" "subseq (custody t) (custody s)"
      "\<And>j. j \<noteq> i \<Longrightarrow> j \<in> set (custody t) \<longleftrightarrow> j \<in> set (custody s)"
  shows "sys_inv t"
proof -
  note D = invD [OF inv]
  note il = custody_bound [OF inv i]
  note e = fail_pending_effect [OF il D(8) [OF il], of code]
  have st: "slots t = (slots s)[i := after_fail (slots s ! i)]" using e(1) t by simp
  have so: "shape_inv t" "order_inv t"
    using shape_order_keep [OF inv, of t] t w s cs st by (simp_all add: list_emb_append_mono)
  have "slots_inv t"
  proof (rule settle_slots_inv [OF inv i st])
    show "after_fail (slots s ! i) = None \<Longrightarrow> i \<in> set (live s) \<Longrightarrow> i \<in> set (custody t)"
      using D(10) [OF il] by (auto simp: after_fail_cases)
    show "j \<noteq> i \<and> (worker s = Waiting j \<or> Pending j \<in> set (channel s))"
      if "worker t = Waiting j \<or> Pending j \<in> set (channel t)" for j using that t w(5) cs(1,2) by auto
  qed (use t cs(4) in \<open>simp_all add: after_fail_cases\<close>)
  moreover have "promise_inv t"
    using D(16) e(2) t w s by (simp add: promise_inv_def answered_def stored_def)
  ultimately show ?thesis using so by (simp add: sys_inv_def)
qed

lemma step_dropping:
  assumes "sys_inv s" "worker_step lib sur s = Some t" "worker s = Dropping i next"
  shows "sys_inv t"
proof -
  have nc: "Pending i \<notin> set (channel s)"
    using custody_distinct [OF assms(1)] assms(3) custody_member [of i "s\<lparr>worker := Looping\<rparr>"] by (simp add: custody_def)
  have "next \<in> {Looping, Draining, DrainingAgain}" using invD(2) [OF assms(1)] assms(3) by simp
  then have nx: "next \<noteq> Finished" "phase_ok next" "hand next = []" "phase_mset next = {#}" "\<And>j. next \<noteq> Waiting j" "phase_slots next = []" by auto
  have "t = (command_fail CODE_INTERNAL (Pending i) s)\<lparr>worker := next\<rparr>"
    using assms(2,3) by (simp add: worker_step_def drop_pending_def)
  then show ?thesis
    by (intro fail_slot_inv [OF assms(1), of i t CODE_INTERNAL]) (use nx nc assms(3) in \<open>auto simp: custody_def intro: list_emb.list_emb_Cons\<close>)
qed

lemma step_draining:
  assumes "sys_inv s" "worker_step lib sur s = Some t" "worker s = Draining \<or> worker s = DrainingAgain"
  shows "sys_inv t"
proof (cases "channel s")
  case Nil
  show ?thesis by (rule move_inv [OF assms(1)]) (use Nil assms in \<open>auto simp: worker_step_def custody_def\<close>)
next
  case (Cons c cs)
  from invD(1) [OF assms(1)] Cons have "(\<exists>i. c = Pending i) \<or> c = Stop" using not_request_cases by simp
  then show ?thesis
  proof (elim disjE exE)
    assume "c = Stop"
    then show ?thesis
      by (intro move_inv [OF assms(1)]) (use Cons assms in \<open>auto simp: worker_step_def custody_def fail_received_def\<close>)
  next
    fix i assume c: "c = Pending i"
    have d: "i \<notin> set (custody (s\<lparr>channel := cs\<rparr>))"
      using custody_distinct [OF assms(1)] assms(3) Cons c by (auto simp: custody_def)
    have "t = (command_fail CODE_INTERNAL (Pending i) s)\<lparr>channel := cs, worker := Dropping i (worker s)\<rparr>"
      using assms(2,3) Cons c by (auto simp: worker_step_def fail_received_def command_fail_elsewhere)
    then show ?thesis
      by (intro fail_slot_inv [OF assms(1), of i t CODE_INTERNAL]) (use Cons c d assms(3) in \<open>auto simp: custody_def custody_member\<close>)
  qed
qed


lemma slots_inv_same:
  assumes "sys_inv s" "slots t = slots s" "js t = js s" "handles t = handles s" "custody t = custody s"
    "\<And>j. worker t = Waiting j \<or> Pending j \<in> set (channel t) \<Longrightarrow> worker s = Waiting j \<or> Pending j \<in> set (channel s)"
  shows "slots_inv t"
proof -
  have "live t = live s" using assms by (simp add: live_def)
  moreover have "slots_inv s" using assms(1) by (simp add: sys_inv_def)
  ultimately show ?thesis unfolding slots_inv_def using assms(2-6) by metis
qed

text \<open>A command in the worker's hand is answered, or passed on to be run.\<close>

lemma hand_inv:
  assumes "sys_inv s" "slots t = slots s" "js t = js s" "handles t = handles s" "promises t = promises s"
    "receiver_alive t = receiver_alive s" "channel t = channel s"
    "worker t \<noteq> Finished" "worker s \<noteq> Finished" "phase_ok (worker t)"
    "phase_slots (worker t) = []" "phase_slots (worker s) = []"
    "subseq (executed t @ hand (worker t)) (executed s @ hand (worker s))"
    "answered t + phase_mset (worker t) = answered s + phase_mset (worker s)"
  shows "sys_inv t"
proof -
  have c: "custody t = custody s" using assms by (simp add: custody_def)
  have so: "shape_inv t" "order_inv t"
    using shape_order_keep [OF assms(1), of t] assms c list_emb_append_mono [OF assms(13), of "custody t" "custody s"] by simp_all
  have "worker t = Waiting j \<Longrightarrow> False" for j using assms(11) by auto
  then have "slots_inv t" using slots_inv_same [OF assms(1-4) c] assms(7) by auto
  moreover have "promise_inv t"
    using invD(16) [OF assms(1)] assms(2,5,14) unfolding promise_inv_def stored_def by (metis union_assoc union_commute)
  ultimately show ?thesis using so by (simp add: sys_inv_def)
qed

lemma step_holding:
  assumes "sys_inv s" "worker_step lib sur s = Some t" "worker s = Holding from c"
  shows "sys_inv t"
proof -
  have "is_request c \<and> from \<noteq> None \<or> c = Stop \<and> from = None" using invD(2) [OF assms(1)] assms(3) by simp
  then consider (r) i where "is_request c" "from = Some i" | (s) "c = Stop" "from = None" by auto
  then show ?thesis
  proof cases
    case r
    have f: "fail_received c Breaking s = (command_fail CODE_INTERNAL c s)\<lparr>worker := Breaking\<rparr>"
      using r by (cases c) (simp_all add: fail_received_def is_request_def)
    have t: "t = (if stopped s then (command_fail CODE_INTERNAL c s)\<lparr>worker := Breaking\<rparr> else start_command from c s)"
      using assms f by (auto simp: worker_step_def split: if_splits)
    obtain r where sc: "start_command from c s
      = (drop_reserved r s)\<lparr>worker := Running c (generation s), executed := executed s @ [i]\<rparr>"
      using r by (cases c) (auto simp: start_command_def is_request_def)
    show ?thesis
    proof (cases "stopped s")
      case True
      show ?thesis
        by (rule hand_inv [OF assms(1)])
          (use True t r assms(3) command_fail_request [OF r(1), of CODE_INTERNAL s] in \<open>simp_all add: answered_def subseq_prefix\<close>)
    next
      case False
      show ?thesis
        by (rule hand_inv [OF assms(1)]) (use False t sc r assms(3) in \<open>simp_all add: answered_def\<close>)
    qed
  next
    case s
    have "t = s\<lparr>worker := Breaking\<rparr>"
      using s assms(2,3) by (auto simp: worker_step_def fail_received_def start_command_def split: if_splits)
    then show ?thesis
      by (intro hand_inv [OF assms(1)]) (use s assms(3) in \<open>simp_all add: answered_def promise_mset_def\<close>)
  qed
qed

lemma step_running:
  assumes "sys_inv s" "worker_step lib sur s = Some t" "worker s = Running c g"
  shows "sys_inv t"
proof -
  obtain p where p: "command_promise c = Some p" using invD(2) [OF assms(1)] assms(3) by (auto simp: is_request_def)
  show ?thesis
    by (rule hand_inv [OF assms(1)])
      (use assms p in \<open>auto simp: worker_step_def finish_command_def complete_operation_def answered_def promise_mset_def
         split: prod.splits option.splits if_splits\<close>)
qed

lemma fold_fail_fields:
  "channel (fold (command_fail code) cs s) = channel s" "worker (fold (command_fail code) cs s) = worker s"
  "js (fold (command_fail code) cs s) = js s" "handles (fold (command_fail code) cs s) = handles s"
  "promises (fold (command_fail code) cs s) = promises s" "executed (fold (command_fail code) cs s) = executed s"
  "length (slots (fold (command_fail code) cs s)) = length (slots s)" "stopped (fold (command_fail code) cs s) = stopped s"
  "sender_alive (fold (command_fail code) cs s) = sender_alive s"
  by (induction cs arbitrary: s) auto

lemma fold_fail_effect:
  assumes "\<forall>c \<in> set cs. \<not> is_request c" "\<forall>i. Pending i \<in> set cs \<longrightarrow> i < length (slots s)"
    "\<forall>i c. i < length (slots s) \<longrightarrow> slots s ! i = Some (Some c) \<longrightarrow> is_request c"
  shows "(\<forall>i. Pending i \<notin> set cs \<longrightarrow> slots (fold (command_fail code) cs s) ! i = slots s ! i)
    \<and> (\<forall>i c. Pending i \<in> set cs \<longrightarrow> slots (fold (command_fail code) cs s) ! i \<noteq> Some (Some c))
    \<and> (\<forall>i. Pending i \<in> set cs \<longrightarrow> slots (fold (command_fail code) cs s) ! i = None \<longrightarrow> (\<exists>c. slots s ! i = Some (Some c)))
    \<and> answered (fold (command_fail code) cs s) + stored (fold (command_fail code) cs s) = answered s + stored s"
  using assms
proof (induction cs arbitrary: s)
  case (Cons c cs)
  from Cons.prems(1) have "(\<exists>i. c = Pending i) \<or> c = Stop" using not_request_cases by simp
  then show ?case
  proof (elim disjE exE)
    assume "c = Stop"
    then show ?thesis using Cons.IH [of s] Cons.prems by simp
  next
    fix i assume c: "c = Pending i"
    have il: "i < length (slots s)" using Cons.prems(2) c by simp
    let ?s = "command_fail code (Pending i) s"
    have e: "slots ?s = (slots s)[i := after_fail (slots s ! i)]" "answered ?s + stored ?s = answered s + stored s"
      using fail_pending_effect [OF il] Cons.prems(3) il by blast+
    have rq: "\<forall>j c. j < length (slots ?s) \<longrightarrow> slots ?s ! j = Some (Some c) \<longrightarrow> is_request c"
      using Cons.prems(3) il by (auto simp: e(1) nth_list_update after_fail_cases split: if_splits)
    have ih: "(\<forall>j. Pending j \<notin> set cs \<longrightarrow> slots (fold (command_fail code) cs ?s) ! j = slots ?s ! j)
      \<and> (\<forall>j c. Pending j \<in> set cs \<longrightarrow> slots (fold (command_fail code) cs ?s) ! j \<noteq> Some (Some c))
      \<and> (\<forall>j. Pending j \<in> set cs \<longrightarrow> slots (fold (command_fail code) cs ?s) ! j = None \<longrightarrow> (\<exists>c. slots ?s ! j = Some (Some c)))
      \<and> answered (fold (command_fail code) cs ?s) + stored (fold (command_fail code) cs ?s) = answered ?s + stored ?s"
      by (rule Cons.IH) (use Cons.prems rq in auto)
    have ii: "slots ?s ! i = after_fail (slots s ! i)" and ne: "\<And>j. j \<noteq> i \<Longrightarrow> slots ?s ! j = slots s ! j"
      using e(1) il by simp_all
    define g where "g = slots (fold (command_fail code) cs ?s)"
    have "g ! j \<noteq> Some (Some d)" if "j = i \<or> Pending j \<in> set cs" for j d
      using that ih ii after_fail_cases(2) unfolding g_def by metis
    moreover have "\<exists>d. slots s ! j = Some (Some d)" if "j = i \<or> Pending j \<in> set cs" "g ! j = None" for j
    proof (cases "j = i")
      case True
      then show ?thesis using that ih ii after_fail_cases unfolding g_def by metis
    next
      case False
      then show ?thesis using that ih ne unfolding g_def by metis
    qed
    moreover have "g ! j = slots s ! j" if "j \<noteq> i" "Pending j \<notin> set cs" for j
      using that ih ne unfolding g_def by metis
    ultimately show ?thesis using ih e(2) by (simp add: c g_def)
  qed
qed simp

lemma step_leaving:
  assumes "sys_inv s" "worker_step lib sur s = Some t" "worker s = Leaving"
  shows "sys_inv t"
proof -
  note D = invD [OF assms(1)]
  let ?f = "fold (command_fail CODE_INTERNAL) (channel s) s"
  have t: "t = ?f\<lparr>channel := [], receiver_alive := False, worker := Finished\<rparr>"
    using assms(2,3) by (simp add: worker_step_def)
  have cu: "i \<in> set (custody s) \<longleftrightarrow> Pending i \<in> set (channel s)" for i using assms(3) by (simp add: custody_member)
  have "Pending i \<in> set (channel s) \<Longrightarrow> i < length (slots s)" for i using custody_bound [OF assms(1), of i] cu by simp
  then have e: "(\<forall>i. Pending i \<notin> set (channel s) \<longrightarrow> slots ?f ! i = slots s ! i)"
    "(\<forall>i c. Pending i \<in> set (channel s) \<longrightarrow> slots ?f ! i \<noteq> Some (Some c))"
    "(\<forall>i. Pending i \<in> set (channel s) \<longrightarrow> slots ?f ! i = None \<longrightarrow> (\<exists>c. slots s ! i = Some (Some c)))"
    "answered ?f + stored ?f = answered s + stored s"
    using fold_fail_effect [of "channel s" s CODE_INTERNAL] D(1,8) by blast+
  have nf: "slots ?f ! i \<noteq> Some (Some c)" if "i < length (slots s)" for i c
    using e(1,2) D(9) [OF that] cu by metis
  have nn: "slots ?f ! i \<noteq> None" if "i \<in> set (live s)" for i
    using e(1,3) D(12) [OF that] D(10,15) that cu by metis
  have l: "live t = live s" and c: "custody t = []" by (simp_all add: live_def custody_def t fold_fail_fields)
  have "shape_inv t" using D(3) by (simp add: shape_inv_def t fold_fail_fields)
  moreover have "order_inv t"
    unfolding order_inv_def c using D(6,7) assms(3) by (auto simp: t fold_fail_fields sorted_wrt_append)
  moreover have "slots_inv t"
    unfolding slots_inv_def l c using nf nn D(14,15) by (auto simp: t fold_fail_fields)
  moreover have "promise_inv t"
    using D(16) e(4) assms(3) by (simp add: promise_inv_def t answered_def stored_def fold_fail_fields)
  ultimately show ?thesis by (simp add: sys_inv_def)
qed

lemma worker_step_inv:
  assumes "sys_inv s" "worker_step lib sur s = Some t"
  shows "sys_inv t"
proof (cases "worker s \<in> {Looping, Receiving, Breaking, Closing, Returning}")
  case True
  then show ?thesis by (rule step_quiet [OF assms])
next
  case False
  then consider i where "worker s = Waiting i" | i w where "worker s = Dropping i w" | f c where "worker s = Holding f c"
    | c g where "worker s = Running c g" | "worker s = Draining \<or> worker s = DrainingAgain" | "worker s = Leaving" | "worker s = Finished"
    by (cases "worker s") auto
  then show ?thesis
  proof cases
    case 7
    then show ?thesis using assms(2) by (simp add: worker_step_def)
  qed (fact step_waiting [OF assms] step_dropping [OF assms] step_holding [OF assms] step_running [OF assms]
    step_draining [OF assms] step_leaving [OF assms])+
qed


section \<open>Steps of the JavaScript thread\<close>

lemma distinct_sub_mset: "mset xs \<subseteq># mset ys \<Longrightarrow> distinct ys \<Longrightarrow> distinct xs"
  by (metis distinct_append mset_append mset_eq_imp_distinct_iff mset_subset_eq_exists_conv ex_mset)

text \<open>The thread gives up slot \<open>i\<close>, or leaves it as it is.\<close>

lemma js_release_inv:
  assumes inv: "sys_inv s" and sl: "slots t = (slots s)[i := st]"
    and st: "st \<noteq> None" "\<And>c. st = Some (Some c) \<Longrightarrow> slots s ! i = st"
    and same: "worker t = worker s" "channel t = channel s" "executed t = executed s" "receiver_alive t = receiver_alive s"
    and js: "js_ok (js t)" "js_fresh (js t) = [] \<or> js_fresh (js t) = js_fresh (js s)"
      "mset (live s @ js_fresh (js s)) = mset (live t @ js_fresh (js t)) + X" "set_mset X \<subseteq> {i}" "set (live t) \<subseteq> set (live s)"
    and pr: "answered t + stored t + mset [0..<promises s] = answered s + stored s + mset [0..<promises t]"
  shows "sys_inv t"
proof -
  note D = invD [OF inv]
  have c: "custody t = custody s" using same by (simp add: custody_def)
  have n: "length (slots t) = length (slots s)" using sl by simp
  have ne: "slots t ! j = slots s ! j" if "j \<noteq> i" for j using that sl by simp
  have ii: "i < length (slots s) \<Longrightarrow> slots t ! i = st" using sl by simp
  have fr: "set (js_fresh (js t)) \<subseteq> set (js_fresh (js s))" using js(2) by auto
  have lv: "j \<in> set (live t)" if "j \<in> set (live s)" "j \<noteq> i" for j
  proof -
    have "j \<in># mset (live t @ js_fresh (js t)) + X" unfolding js(3) [symmetric] using that by simp
    then show ?thesis using that js(4) D(14) fr by auto
  qed
  have "shape_inv t" using D(1-5) js(1) by (simp add: shape_inv_def same)
  moreover have "order_inv t" using D(6,7) js(2) unfolding order_inv_def c same n by (auto simp: sorted_wrt_append)
  moreover have "slots_inv t"
    unfolding slots_inv_def c n same
  proof (intro conjI allI ballI impI)
    fix j d assume a: "j < length (slots s) \<and> slots t ! j = Some (Some d)"
    have "slots s ! j = Some (Some d)" using a ne ii st(2) by (cases "j = i") auto
    then show "is_request d" "j \<in> set (custody s)" "j \<notin> set (live t) \<union> set (js_fresh (js t))"
      using D(8-11) a js(5) fr by auto
  next
    fix j assume "j \<in> set (live t)" "slots t ! j = None"
    then show "j \<in> set (custody s)" using D(12,15) ne ii st(1) js(5) by (cases "j = i") auto
  next
    fix j assume a: "worker s = Waiting j \<or> Pending j \<in> set (channel s)" "slots t ! j = None"
    then have "j < length (slots s)" using custody_bound [OF inv, of j] custody_member [of j s] by auto
    then show "j \<in> set (live t)" using a D(13) ne ii st(1) lv by (cases "j = i") auto
  next
    show "distinct (live t @ js_fresh (js t))"
      by (rule distinct_sub_mset [OF _ D(14)]) (simp only: js(3) mset_subset_eq_add_left)
  next
    fix j assume "j \<in> set (live t)"
    then show "j < length (slots s)" using D(15) js(5) by auto
  qed
  moreover have "promise_inv t"
  proof -
    have "answered t + stored t + phase_mset (worker t) + mset [0..<promises s]
      = answered s + stored s + phase_mset (worker s) + mset [0..<promises t]"
      unfolding same using pr by (metis union_assoc union_commute)
    then have "answered t + stored t + phase_mset (worker t) + mset [0..<promises s]
      = mset [0..<promises t] + mset [0..<promises s]"
      unfolding D(16) by (simp add: union_commute)
    then show ?thesis unfolding promise_inv_def by (simp only: add_right_cancel)
  qed
  ultimately show ?thesis by (simp add: sys_inv_def)
qed

text \<open>The slots are untouched and the permits that may commit are the same.\<close>

lemma js_move_inv:
  assumes inv: "sys_inv s" and sl: "slots t = slots s"
    and same: "worker t = worker s" "executed t = executed s" "receiver_alive t = receiver_alive s"
      "worker s = Finished \<Longrightarrow> channel t = channel s"
      "concat (map pending_of (channel t)) = concat (map pending_of (channel s))" "\<forall>c \<in> set (channel t). \<not> is_request c"
      "\<And>j. Pending j \<in> set (channel t) \<Longrightarrow> Pending j \<in> set (channel s)"
    and js: "js_ok (js t)" "js_fresh (js t) = js_fresh (js s)" "mset (live t) = mset (live s)"
    and pr: "answered t + mset [0..<promises s] = answered s + mset [0..<promises t]"
  shows "sys_inv t"
proof -
  note D = invD [OF inv]
  have c: "custody t = custody s" using same by (simp add: custody_def)
  have l: "set (live t) = set (live s)" using js(3) by (metis set_mset_mset)
  have "shape_inv t" using D(1-5) js(1) same by (auto simp: shape_inv_def)
  moreover have "order_inv t" using D(6,7) unfolding order_inv_def c same js(2) sl by blast
  moreover have "slots_inv t"
  proof -
    have "distinct (live t @ js_fresh (js s))" using D(14) mset_eq_imp_distinct_iff [OF js(3)] l by auto
    then show ?thesis unfolding slots_inv_def c l js(2) sl same(1) using D(8-13,15) same(7) by blast
  qed
  moreover have "promise_inv t"
  proof -
    have "stored t = stored s" using sl by (simp add: stored_def)
    then have "answered t + stored t + phase_mset (worker t) + mset [0..<promises s]
      = answered s + stored s + phase_mset (worker s) + mset [0..<promises t]"
      unfolding same using pr by (metis union_assoc union_commute)
    then have "answered t + stored t + phase_mset (worker t) + mset [0..<promises s]
      = mset [0..<promises t] + mset [0..<promises s]"
      unfolding D(16) by (simp add: union_commute)
    then show ?thesis unfolding promise_inv_def by (simp only: add_right_cancel)
  qed
  ultimately show ?thesis by (simp add: sys_inv_def)
qed


definition handle_slots :: "queued_permit list \<Rightarrow> slot_id multiset" where
  "handle_slots hs = image_mset qp_slot (filter_mset uncommitted (mset hs))"

lemma mset_live: "mset (live s) = handle_slots (handles s) + mset (js_live (js s))"
  by (simp add: live_def handle_slots_def)

lemma handle_slots_spend:
  assumes "h < length hs" "reservation p = None"
  shows "handle_slots hs = handle_slots (hs[h := (hs ! h)\<lparr>qp_admission := p\<rparr>]) + (if uncommitted (hs ! h) then {#qp_slot (hs ! h)#} else {#})"
proof -
  define m where "m = mset hs - {#hs ! h#}"
  have "mset hs = add_mset (hs ! h) m" using assms(1) by (simp add: m_def)
  moreover have "mset (hs[h := v]) = add_mset v m" for v using assms(1) by (simp add: mset_update m_def)
  ultimately show ?thesis using assms(2) by (simp add: handle_slots_def uncommitted_def)
qed

lemma handle_slots_remove:
  assumes "h < length hs"
  shows "handle_slots hs = handle_slots (remove_nth h hs) + (if uncommitted (hs ! h) then {#qp_slot (hs ! h)#} else {#})"
proof -
  have "mset hs = add_mset (hs ! h) (mset (remove_nth h hs))"
    using assms id_take_nth_drop [OF assms] unfolding remove_nth_def
    by (metis add.commute add_mset_add_single mset.simps(2) mset_append union_mset_add_mset_right)
  then show ?thesis by (simp add: handle_slots_def)
qed

lemma handle_live_bound:
  assumes "sys_inv s" "h < length (handles s)" "uncommitted (handles s ! h)"
  shows "qp_slot (handles s ! h) \<in> set (live s)"
  using assms by (auto simp: live_def)


lemma slot_cancel_cases:
  "slot_cancel st \<noteq> None" "slot_cancel st = Some (Some c) \<Longrightarrow> st = Some (Some c)" "slot_mset (slot_cancel st) = slot_mset st"
  "slot_cancel (slot_cancel st) = slot_cancel st"
  by (auto simp: slot_cancel_def slot_mset_def split: if_splits)

lemma stored_list_update: "slot_mset st = slot_mset (xs ! i) \<Longrightarrow> sum_list (map slot_mset (xs[i := st])) = sum_list (map slot_mset xs)"
  using sum_list_update [of i xs slot_mset st] by (cases "i < length xs") (auto simp: list_update_beyond linorder_not_less)

lemma cancel_fields [simp]:
  "slots (cancel_slot i s) = (slots s)[i := slot_cancel (slots s ! i)]" "channel (cancel_slot i s) = channel s"
  "worker (cancel_slot i s) = worker s" "js (cancel_slot i s) = js s" "handles (cancel_slot i s) = handles s"
  "promises (cancel_slot i s) = promises s" "replies (cancel_slot i s) = replies s"
  "executed (cancel_slot i s) = executed s" "receiver_alive (cancel_slot i s) = receiver_alive s"
  "sender_alive (cancel_slot i s) = sender_alive s" "admission (cancel_slot i s) = admission s"
  by (simp_all add: cancel_slot_def)

lemma permit_fields [simp]:
  "slots (drop_permit q s) = (slots s)[qp_slot q := slot_cancel (slots s ! qp_slot q)]" "channel (drop_permit q s) = channel s"
  "worker (drop_permit q s) = worker s" "js (drop_permit q s) = js s" "handles (drop_permit q s) = handles s"
  "promises (drop_permit q s) = promises s" "replies (drop_permit q s) = replies s"
  "executed (drop_permit q s) = executed s" "receiver_alive (drop_permit q s) = receiver_alive s"
  "sender_alive (drop_permit q s) = sender_alive s" "stopped (drop_permit q s) = stopped s"
  by (simp_all add: drop_permit_def Let_def split: option.splits)

lemma prepared_fields [simp]:
  "slots (drop_prepared r i s) = (slots s)[i := slot_cancel (slots s ! i)]" "channel (drop_prepared r i s) = channel s"
  "worker (drop_prepared r i s) = worker s" "js (drop_prepared r i s) = js s" "handles (drop_prepared r i s) = handles s"
  "promises (drop_prepared r i s) = promises s" "replies (drop_prepared r i s) = replies s"
  "executed (drop_prepared r i s) = executed s" "receiver_alive (drop_prepared r i s) = receiver_alive s"
  "sender_alive (drop_prepared r i s) = sender_alive s" "stopped (drop_prepared r i s) = stopped s"
  by (simp_all add: drop_prepared_def)

lemma ready_fields [simp]:
  "slots (ready_result ok r s) = slots s" "channel (ready_result ok r s) = channel s"
  "worker (ready_result ok r s) = worker s" "js (ready_result ok r s) = js s" "handles (ready_result ok r s) = handles s"
  "executed (ready_result ok r s) = executed s" "receiver_alive (ready_result ok r s) = receiver_alive s"
  "sender_alive (ready_result ok r s) = sender_alive s" "admission (ready_result ok r s) = admission s"
  by (simp_all add: ready_result_def)

lemma ready_answered: "answered (ready_result ok r s) + mset [0..<promises s] = answered s + mset [0..<promises (ready_result ok r s)]"
  by (simp add: ready_result_def answered_def del: mset_upt)

lemma cancel_twice:
  "xs[i := slot_cancel (xs[i := slot_cancel (xs ! i)] ! i)] = xs[i := slot_cancel (xs ! i)]"
  by (cases "i < length xs") (simp_all add: slot_cancel_cases list_update_beyond linorder_not_less)

lemma step_reserve_admit:
  assumes "sys_inv s" "js s = Idle"
  shows "sys_inv (snd (reserve_admit s))"
proof (cases "reserve (admission s)")
  case (Inl e)
  then show ?thesis using assms(1) by (simp add: reserve_admit_def)
next
  case (Inr pst)
  note D = invD [OF assms(1)]
  obtain p st where p: "reserve (admission s) = Inr (p, st)" "reservation p = Some 0"
    using Inr by (cases pst) (auto simp: reserve_def split: if_splits)
  let ?q = "\<lparr>qp_admission = p, qp_slot = length (slots s)\<rparr>"
  define t where "t = s\<lparr>admission := st, slots := slots s @ [slot_new], js := Reserved ?q\<rparr>"
  have t: "snd (reserve_admit s) = t" using p by (simp add: reserve_admit_def t_def)
  have c: "custody t = custody s" and l: "live t = live s" and f: "js_fresh (js t) = [length (slots s)]"
    using assms(2) by (simp_all add: t_def custody_def live_def)
  have old: "slots t ! j = slots s ! j" if "j < length (slots s)" for j using that by (simp add: t_def nth_append)
  have new: "slots t ! length (slots s) = None" by (simp add: t_def slot_new_def)
  have "shape_inv t" using D(1-5) p(2) by (simp add: shape_inv_def t_def uncommitted_def)
  moreover have "order_inv t"
    using D(6,7) assms(2) unfolding order_inv_def c f by (auto simp: t_def sorted_wrt_append intro: less_SucI)
  moreover have "slots_inv t"
    unfolding slots_inv_def c l f
  proof (intro conjI allI ballI impI)
    fix j d assume a: "j < length (slots t) \<and> slots t ! j = Some (Some d)"
    then have j: "j < length (slots s)" using new by (cases "j = length (slots s)") (auto simp: t_def)
    then have "slots s ! j = Some (Some d)" using a old by simp
    then show "is_request d" "j \<in> set (custody s)" "j \<notin> set (live s) \<union> set [length (slots s)]" using D(8-10) j by auto
  next
    fix j assume "j \<in> set (live s)" "slots t ! j = None"
    then show "j \<in> set (custody s)" using D(12,15) old by auto
  next
    fix j assume a: "worker t = Waiting j \<or> Pending j \<in> set (channel t)" "slots t ! j = None"
    then have "worker s = Waiting j \<or> Pending j \<in> set (channel s)" by (simp add: t_def)
    moreover from this have "j < length (slots s)" using custody_bound [OF assms(1), of j] custody_member [of j s] by auto
    ultimately show "j \<in> set (live s)" using a(2) D(13) old by simp
  next
    show "distinct (live s @ [length (slots s)])" using D(14,15) assms(2) by auto
  next
    fix j assume "j \<in> set (live s)"
    then show "j < length (slots t)" using D(15) by (fastforce simp: t_def)
  qed
  moreover have "promise_inv t"
    using D(16) by (simp add: promise_inv_def t_def answered_def stored_def slot_mset_def slot_new_def)
  ultimately show ?thesis unfolding t by (simp add: sys_inv_def)
qed


lemma step_reserve_send:
  assumes "sys_inv s" "js s = Reserved q"
  shows "sys_inv (snd (reserve_send q s))"
proof (cases "try_send (Pending (qp_slot q)) s")
  case (Inr s')
  note D = invD [OF assms(1)]
  define t where "t = s\<lparr>channel := channel s @ [Pending (qp_slot q)], js := Sent q\<rparr>"
  have t: "snd (reserve_send q s) = t" and ra: "receiver_alive s"
    using Inr by (auto simp: reserve_send_def t_def try_send_def split: if_splits)
  have c: "custody t = custody s @ [qp_slot q]" and l: "live t = live s @ [qp_slot q]"
    using assms(2) by (simp_all add: t_def custody_def live_def)
  have n: "qp_slot q < length (slots s)" using D(7) assms(2) by simp
  have "shape_inv t" using D(1-5) ra assms(2) by (auto simp: shape_inv_def t_def is_request_def)
  moreover have "order_inv t" using D(6,7) assms(2) unfolding order_inv_def c by (simp add: t_def)
  moreover have "slots_inv t"
    unfolding slots_inv_def c l using D(8-15) assms(2) n by (auto simp: t_def)
  moreover have "promise_inv t" using D(16) by (simp add: promise_inv_def t_def answered_def stored_def)
  ultimately show ?thesis unfolding t by (simp add: sys_inv_def)
next
  case (Inl e)
  note D = invD [OF assms(1)]
  let ?i = "qp_slot q"
  have i: "?i < length (slots s)" using D(7) assms(2) by simp
  have nf: "slots s ! ?i \<noteq> Some (Some c)" for c using D(11) [OF i] assms(2) by auto
  have e: "slots (drop_pending ?i s) = (slots s)[?i := Some None]"
    "answered (drop_pending ?i s) + stored (drop_pending ?i s) = answered s + stored s"
    using fail_pending_effect [OF i D(8) [OF i], of CODE_INTERNAL] nf
    by (auto simp: drop_pending_def after_fail_def slot_fail_def split: option.splits)
  define t where "t = snd (reserve_send q s)"
  have t: "t = (drop_permit q (drop_pending ?i s))\<lparr>js := Idle\<rparr>" using Inl by (simp add: t_def reserve_send_def)
  have "sys_inv t"
  proof (rule js_release_inv [OF assms(1), where i = ?i and st = "Some None" and X = "{#?i#}"])
    show "slots t = (slots s)[?i := Some None]" using i by (simp add: t e slot_cancel_def)
    show "mset (live s @ js_fresh (js s)) = mset (live t @ js_fresh (js t)) + {#?i#}"
      using assms(2) by (simp add: t live_def drop_pending_def)
    show "answered t + stored t + mset [0..<promises s] = answered s + stored s + mset [0..<promises t]"
    proof -
      have "stored t = stored (drop_pending ?i s)"
        using i by (simp add: stored_def t e slot_cancel_def)
      then show ?thesis using e(2) by (simp add: t answered_def drop_pending_def)
    qed
  qed (use assms(2) in \<open>auto simp: t live_def drop_pending_def\<close>)
  then show ?thesis by (simp add: t_def)
qed

text \<open>Giving up the slot by cancelling it.\<close>

lemma js_cancel_inv:
  assumes inv: "sys_inv s" and sl: "slots t = (slots s)[i := slot_cancel (slots s ! i)]"
    and same: "worker t = worker s" "channel t = channel s" "executed t = executed s" "receiver_alive t = receiver_alive s"
    and js: "js_ok (js t)" "js_fresh (js t) = js_fresh (js s)" "mset (live s) = mset (live t) + X" "set_mset X \<subseteq> {i}"
    and pr: "answered t + mset [0..<promises s] = answered s + mset [0..<promises t]"
  shows "sys_inv t"
proof (rule js_release_inv [OF inv sl])
  show "set (live t) \<subseteq> set (live s)" using js(3) by (metis mset_subset_eqD mset_subset_eq_add_left set_mset_mset subsetI)
  have "stored t = stored s" by (simp add: stored_def sl stored_list_update slot_cancel_cases)
  then show "answered t + stored t + mset [0..<promises s] = answered s + stored s + mset [0..<promises t]"
    using pr by (metis union_assoc union_commute)
qed (use assms slot_cancel_cases in \<open>auto simp: ac_simps\<close>)

lemma step_reserve_check:
  assumes "sys_inv s" "js s = Sent q"
  shows "sys_inv (snd (reserve_check q s))"
proof (cases "stopped s")
  case True
  show ?thesis
    by (rule js_cancel_inv [OF assms(1), where i = "qp_slot q" and X = "{#qp_slot q#}"])
      (use True assms(2) in \<open>simp_all add: reserve_check_def cancel_twice mset_live answered_def\<close>)
next
  case False
  have "uncommitted q" using invD(3) [OF assms(1)] assms(2) by simp
  then show ?thesis
    by (intro js_move_inv [OF assms(1)])
      (use False assms(2) invD(1) [OF assms(1)] in \<open>auto simp: reserve_check_def mset_live handle_slots_def answered_def\<close>)
qed


lemma set_handle_fields [simp]:
  "slots (set_handle h p s) = slots s" "channel (set_handle h p s) = channel s"
  "worker (set_handle h p s) = worker s" "js (set_handle h p s) = js s"
  "handles (set_handle h p s) = (handles s)[h := (handles s ! h)\<lparr>qp_admission := p\<rparr>]"
  "promises (set_handle h p s) = promises s" "replies (set_handle h p s) = replies s"
  "executed (set_handle h p s) = executed s" "receiver_alive (set_handle h p s) = receiver_alive s"
  "sender_alive (set_handle h p s) = sender_alive s" "admission (set_handle h p s) = admission s"
  by (simp_all add: set_handle_def)

lemma step_release:
  assumes "sys_inv s" "js s = Idle" "h < length (handles s)"
  shows "sys_inv (snd (release h s))"
proof (cases "release_for (qp_admission (handles s ! h)) (admission s)")
  case (Inl e)
  then show ?thesis using assms(1) by (simp add: release_def)
next
  case (Inr pst)
  then obtain p st where p: "release_for (qp_admission (handles s ! h)) (admission s) = Inr (p, st)" "reservation p = None"
    by (cases pst) (auto simp: release_for_def split: if_splits)
  let ?X = "if uncommitted (handles s ! h) then {#qp_slot (handles s ! h)#} else {#}"
  show ?thesis
    by (rule js_cancel_inv [OF assms(1), where i = "qp_slot (handles s ! h)" and X = ?X])
      (use p assms(2) handle_slots_spend [OF assms(3) p(2)] in
        \<open>simp_all add: release_def mset_live answered_def\<close>)
qed

lemma take_uncommitted:
  "take_uncommitted_for st (qp_admission q) = Inr (r, p) \<Longrightarrow> reservation p = None \<and> uncommitted q"
  by (auto simp: take_uncommitted_for_def uncommitted_def split: if_splits option.splits)

lemma step_ready:
  assumes "sys_inv s" "js s = Idle"
  shows "sys_inv (ready_result ok r s)"
  by (rule js_move_inv [OF assms(1)])
    (use assms(2) invD(1) [OF assms(1)] ready_answered in \<open>simp_all add: mset_live\<close>)

lemma step_enqueue_permitted:
  assumes "sys_inv s" "js s = Idle" "h < length (handles s)" "\<And>r p. command_promise (cmd r p) = Some p"
  shows "sys_inv (enqueue_permitted ok h cmd s)"
proof (cases "take_uncommitted_for (admission s) (qp_admission (handles s ! h))")
  case (Inl e)
  then show ?thesis using step_ready [OF assms(1,2)] by (simp add: enqueue_permitted_def)
next
  case (Inr rp)
  then obtain r p where p: "take_uncommitted_for (admission s) (qp_admission (handles s ! h)) = Inr (r, p)" by (cases rp) auto
  note q = take_uncommitted [OF p]
  show ?thesis
    by (rule js_move_inv [OF assms(1)])
      (use p q assms invD(1) [OF assms(1)] handle_slots_spend [OF assms(3), of p] in
        \<open>simp_all add: enqueue_permitted_def mset_live answered_def\<close>)
qed

lemma prepare_command:
  "prepare_execution nd lib limit x mode r st = (Inr cmd, r', st') \<Longrightarrow> command_promise (cmd r'' p) = Some p"
  by (auto simp: prepare_execution_def execution_command_def split: option.splits sum.splits prod.splits execution_mode.splits)

lemma step_enqueue_execution:
  assumes "sys_inv s" "js s = Idle" "h < length (handles s)"
  shows "sys_inv (enqueue_execution nd lib ok h x mode s)"
proof (cases "take_uncommitted_for (admission s) (qp_admission (handles s ! h))")
  case (Inl e)
  then show ?thesis using step_ready [OF assms(1,2)] by (simp add: enqueue_execution_def)
next
  case (Inr rp)
  then obtain r p where p: "take_uncommitted_for (admission s) (qp_admission (handles s ! h)) = Inr (r, p)" by (cases rp) auto
  note q = take_uncommitted [OF p]
  let ?i = "qp_slot (handles s ! h)"
  obtain result r' st where pe: "prepare_execution nd lib (argument_limit (set_handle h p s)) x mode r (admission s) = (result, r', st)"
    by (metis prod_cases3)
  let ?s = "(set_handle h p s)\<lparr>admission := st\<rparr>"
  have t: "enqueue_execution nd lib ok h x mode s =
    (case result of Inl None \<Rightarrow> drop_prepared r' ?i ?s
     | Inl (Some e) \<Rightarrow> drop_prepared r' ?i (ready_result ok (result_failure (native_code e)) ?s)
     | Inr cmd \<Rightarrow> ?s\<lparr>js := Prepared r' ?i (cmd r')\<rparr>)"
    using p pe by (simp add: enqueue_execution_def Let_def)
  note hs = handle_slots_spend [OF assms(3), of p]
  consider "result = Inl None" | e where "result = Inl (Some e)" | cmd where "result = Inr cmd"
    by (cases result) auto
  then show ?thesis
  proof cases
    case 1
    then show ?thesis
      by (intro js_cancel_inv [OF assms(1), where i = ?i and X = "{#?i#}"])
        (use t q assms(2) hs in \<open>simp_all add: mset_live answered_def\<close>)
  next
    case 2
    have "answered (ready_result ok (result_failure (native_code e)) ?s) + mset [0..<promises s]
      = answered s + mset [0..<promises (ready_result ok (result_failure (native_code e)) ?s)]"
      using ready_answered [of ok "result_failure (native_code e)" ?s] by (simp add: answered_def)
    then show ?thesis
      by (intro js_cancel_inv [OF assms(1), where i = ?i and X = "{#?i#}"])
        (use 2 t q assms(2) hs in \<open>simp_all add: mset_live answered_def\<close>)
  next
    case 3
    then show ?thesis
      by (intro js_move_inv [OF assms(1)])
        (use t q assms(2) hs prepare_command [OF pe [unfolded 3]] invD(1) [OF assms(1)] in \<open>simp_all add: mset_live answered_def\<close>)
  qed
qed


lemma step_commit:
  assumes "sys_inv s" "js s = Prepared r i cmd"
  shows "sys_inv (enqueue_reserved ok r i cmd s)"
proof -
  note D = invD [OF assms(1)]
  have il: "i \<in> set (live s)" using assms(2) by (simp add: live_def)
  have i: "i < length (slots s)" using D(15) [OF il] .
  have rq: "command_promise (cmd p) = Some p" for p using D(3) assms(2) by simp
  have nf: "slots s ! i \<noteq> Some (Some c)" for c using D(10) [OF i] il by auto
  consider (no) "\<not> ok" | (full) "ok" "slots s ! i = Some None" | (free) "ok" "slots s ! i = None" using nf by fastforce
  then show ?thesis
  proof cases
    case no
    then show ?thesis
      by (intro js_cancel_inv [OF assms(1), where i = i and X = "{#i#}"])
        (use assms(2) in \<open>simp_all add: enqueue_reserved_def cancel_twice mset_live answered_def\<close>)
  next
    case full
    let ?s = "s\<lparr>promises := promises s + 1, js := Idle\<rparr>"
    have t: "enqueue_reserved ok r i cmd s = command_fail CODE_CONVERSION (cmd (promises s)) ?s"
      using full by (simp add: enqueue_reserved_def slot_commit_def Let_def)
    have f: "slots (command_fail CODE_CONVERSION (cmd (promises s)) ?s) = slots s"
      "answered (command_fail CODE_CONVERSION (cmd (promises s)) ?s) = answered s + {#promises s#}"
      using command_fail_request [of "cmd (promises s)" CODE_CONVERSION ?s] rq
      by (simp_all add: is_request_def promise_mset_def answered_def)
    have u: "(slots s)[i := Some None] = slots s" by (metis full(2) list_update_id)
    show ?thesis unfolding t
      by (rule js_release_inv [OF assms(1), where i = i and st = "Some None" and X = "{#i#}"])
        (use f u assms(2) in \<open>simp_all add: live_def stored_def ac_simps subset_insertI del: mset_upt\<close>)
  next
    case free
    define c where "c = cmd (promises s)"
    define t where "t = set_slot i (Some (Some c)) (s\<lparr>promises := promises s + 1, js := Idle\<rparr>)"
    have t: "enqueue_reserved ok r i cmd s = t"
      using free by (simp add: enqueue_reserved_def slot_commit_def Let_def t_def c_def)
    have cu: "custody t = custody s" by (simp add: t_def custody_def)
    have l: "live s = live t @ [i]" and f: "js_fresh (js s) = []" "js_fresh (js t) = []"
      using assms(2) by (simp_all add: t_def live_def)
    have ic: "i \<in> set (custody s)" using D(12) il free by simp
    have "shape_inv t" using D(1-5) by (simp add: shape_inv_def t_def)
    moreover have "order_inv t" using D(6,7) f unfolding order_inv_def cu by (simp add: t_def)
    moreover have "slots_inv t"
    proof -
      have st: "slots t = (slots s)[i := Some (Some c)]" "worker t = worker s" "channel t = channel s" by (simp_all add: t_def)
      have ne: "slots t ! j = slots s ! j" if "j \<noteq> i" for j using that by (simp add: st)
      have ii: "slots t ! i = Some (Some c)" using i by (simp add: st)
      have ni: "i \<notin> set (live t)" using D(14) by (simp add: l f)
      have li: "set (live s) = insert i (set (live t))" by (simp add: l)
      show ?thesis unfolding slots_inv_def cu f
      proof (intro conjI allI ballI impI)
        fix j d assume a: "j < length (slots t) \<and> slots t ! j = Some (Some d)"
        show "is_request d" "j \<in> set (custody s)" "j \<notin> set (live t) \<union> set []"
          using a ne ii ni li ic rq D(8-10) by (cases "j = i"; auto simp: st c_def is_request_def)+
      next
        fix j assume "j \<in> set (live t)" "slots t ! j = None"
        then show "j \<in> set (custody s)" using ne ii D(12) li by (cases "j = i") auto
      next
        fix j assume "worker t = Waiting j \<or> Pending j \<in> set (channel t)" "slots t ! j = None"
        then show "j \<in> set (live t)" using ne ii D(13) li by (cases "j = i") (auto simp: st)
      qed (use D(14,15) in \<open>auto simp: l f st\<close>)
    qed
    moreover have "promise_inv t"
    proof -
      have "stored t = stored s + {#promises s#}"
        using sum_list_update [OF i, of slot_mset "Some (Some c)"] free(2) rq
        by (simp add: stored_def t_def slot_mset_def promise_mset_def c_def)
      then show ?thesis using D(16) by (simp add: promise_inv_def t_def answered_def ac_simps del: mset_upt)
    qed
    ultimately show ?thesis unfolding t by (simp add: sys_inv_def)
  qed
qed

lemma step_finalize:
  assumes "sys_inv s" "js s = Idle \<or> js s = Gone" "h < length (handles s)"
  shows "sys_inv (finalize_permit h s)"
  by (rule js_cancel_inv [OF assms(1), where i = "qp_slot (handles s ! h)"
      and X = "if uncommitted (handles s ! h) then {#qp_slot (handles s ! h)#} else {#}"])
    (use assms(2) handle_slots_remove [OF assms(3)] in \<open>auto simp: finalize_permit_def mset_live answered_def\<close>)

lemma abort_shared_fields [simp]:
  "slots (snd (abort_shared net s)) = slots s" "channel (snd (abort_shared net s)) = channel s"
  "worker (snd (abort_shared net s)) = worker s" "js (snd (abort_shared net s)) = js s"
  "handles (snd (abort_shared net s)) = handles s" "promises (snd (abort_shared net s)) = promises s"
  "replies (snd (abort_shared net s)) = replies s" "executed (snd (abort_shared net s)) = executed s"
  "receiver_alive (snd (abort_shared net s)) = receiver_alive s" "sender_alive (snd (abort_shared net s)) = sender_alive s"
  "admission (snd (abort_shared net s)) = admission s"
  by (simp_all add: abort_shared_def split: prod.splits)

lemma step_cancel:
  assumes "sys_inv s" "js s = Idle"
  shows "sys_inv (snd (cancel net s))"
proof -
  have t: "snd (cancel net s) = snd (abort_shared net (s\<lparr>generation := generation s + 1\<rparr>))"
    by (simp add: cancel_def split: prod.splits)
  show ?thesis unfolding t
    by (rule js_move_inv [OF assms(1)]) (use assms(2) invD(1) [OF assms(1)] in \<open>simp_all add: mset_live answered_def\<close>)
qed

lemma step_stop_connector:
  assumes "sys_inv s" "js s = Idle"
  shows "sys_inv (stop_connector s)"
  by (rule js_move_inv [OF assms(1)])
    (use assms(2) invD(1) [OF assms(1)] in \<open>simp_all add: stop_connector_def mset_live answered_def\<close>)

lemma step_drop_connector:
  assumes "sys_inv s" "js s = DroppingConnector"
  shows "sys_inv (drop_native_connector net s)"
proof -
  let ?s = "snd (abort_shared net (s\<lparr>generation := generation s + 1\<rparr>))"
  consider "drop_native_connector net s = ?s\<lparr>sender_alive := False, js := Gone\<rparr>"
    | "drop_native_connector net s = ?s\<lparr>channel := channel s @ [Stop], sender_alive := False, js := Gone\<rparr>" "receiver_alive s"
    by (cases "receiver_alive s \<and> length (channel s) < MAX_QUEUE_CAPACITY")
      (auto simp: drop_native_connector_def try_send_def Let_def)
  then show ?thesis
    by cases (rule js_move_inv [OF assms(1)];
      use assms(2) invD(1,4) [OF assms(1)] in \<open>auto simp: mset_live answered_def is_request_def\<close>)+
qed

lemma js_call_inv:
  assumes "sys_inv s" "js s = Idle" "js_call nd lib net ok event s = Some t"
  shows "sys_inv t"
  using assms(3)
proof (cases event)
  case (CallConnect h n)
  then show ?thesis using assms step_enqueue_permitted [OF assms(1,2)] by (auto split: if_splits sum.splits)
qed (use assms step_reserve_admit step_release step_cancel step_enqueue_permitted step_enqueue_execution step_stop_connector
    in \<open>auto split: if_splits\<close>)

lemma js_step_inv:
  assumes "sys_inv s" "js_step nd lib net ok event s = Some t"
  shows "sys_inv t"
  using assms js_call_inv [OF assms(1), of nd lib net ok event t]
  by (auto simp: js_step_def step_reserve_send step_reserve_check step_commit step_drop_connector step_finalize
    split: js_phase.splits js_event.splits if_splits)

lemma initial_fields:
  assumes "initial_system s"
  shows "channel s = [] \<and> slots s = [] \<and> worker s = Looping \<and> js s = Idle \<and> handles s = [] \<and> promises s = 0
    \<and> replies s = [] \<and> executed s = [] \<and> receiver_alive s"
proof -
  obtain ok net opts oid where "fst (native_connector_new ok net True True opts oid) = Inr s"
    using assms by (auto simp: initial_system_def)
  then show ?thesis by (auto simp: native_connector_new_def admission_new_def split: sum.splits prod.splits)
qed

lemma initial_inv: "initial_system s \<Longrightarrow> sys_inv s"
  by (frule initial_fields)
    (simp add: sys_inv_def shape_inv_def order_inv_def slots_inv_def promise_inv_def custody_def live_def answered_def stored_def)

lemma reachable_inv: "reachable_system nd lib s \<Longrightarrow> sys_inv s"
proof -
  have "(system_step nd lib)\<^sup>*\<^sup>* s0 s \<Longrightarrow> sys_inv s0 \<Longrightarrow> sys_inv s" for s0
    by (induction rule: rtranclp_induct) (auto elim!: system_stepE intro: worker_step_inv js_step_inv)
  then show "reachable_system nd lib s \<Longrightarrow> sys_inv s" using initial_inv by (auto simp: reachable_system_def)
qed

end
