(* ===== verification/WorkerCorrect.thy ===== *)
theory WorkerCorrect
  imports WorkerInvariant ConnectorCorrect
begin

text \<open>
  What the worker of the Node binding guarantees: promises are answered exactly once, commands run
  in the order of their reservations, the worker blocks only when it has nothing to do and ends
  after the connector is dropped, and a connect command reports success only when it was not
  cancelled.
\<close>

section \<open>Stopping\<close>

fun phase_rank :: "worker_phase \<Rightarrow> nat" where
  "phase_rank Receiving = 12"
| "phase_rank (Waiting i) = 11"
| "phase_rank (Holding from c) = 10"
| "phase_rank (Running c g) = 9"
| "phase_rank Looping = 8"
| "phase_rank Breaking = 7"
| "phase_rank Draining = 6"
| "phase_rank Closing = 5"
| "phase_rank Returning = 4"
| "phase_rank DrainingAgain = 3"
| "phase_rank Leaving = 2"
| "phase_rank Finished = 0"
| "phase_rank (Dropping i next) = Suc (phase_rank next)"

definition shutdown_measure :: "system \<Rightarrow> nat" where
  "shutdown_measure s = phase_rank (worker s) + 2 * length (channel s)"

lemma fail_received_measure:
  "worker (fail_received c next s) = (case c of Pending i \<Rightarrow> Dropping i next | _ \<Rightarrow> next)"
  "channel (fail_received c next s) = channel s" "stopped (fail_received c next s) = stopped s"
  by (simp_all add: fail_received_def)

lemma worker_stops_step:
  assumes "stopped s" "phase_ok (worker s)" "worker_step lib sur s = Some t"
  shows "stopped t \<and> shutdown_measure t < shutdown_measure s"
proof (cases "worker s")
  case (Waiting i)
  then show ?thesis using assms
    by (auto simp: worker_step_def shutdown_measure_def slot_wait_def split: option.splits)
next
  case (Holding f c)
  then have "t = fail_received c Breaking s" "\<And>i. c \<noteq> Pending i" using assms
    by (auto simp: worker_step_def is_request_def)
  then show ?thesis using assms(1) Holding by (auto simp: shutdown_measure_def fail_received_measure split: command.splits)
next
  case (Running c g)
  then show ?thesis using assms
    by (auto simp: worker_step_def finish_command_def shutdown_measure_def split: prod.splits option.splits)
next
  case Receiving
  then show ?thesis using assms
    by (auto simp: worker_step_def shutdown_measure_def split: list.splits command.splits if_splits)
qed (use assms in \<open>auto simp: worker_step_def shutdown_measure_def drop_pending_def fail_received_measure fold_fail_fields
    split: list.splits command.splits\<close>)

lemma worker_not_stuck:
  assumes "stopped s" "worker s \<noteq> Finished" "\<not> sender_alive s"
  shows "\<exists>t. worker_step lib sur s = Some t"
  using assms by (cases "worker s") (auto simp: worker_step_def slot_wait_def split: list.splits command.splits option.splits)


lemma worker_step_keeps:
  assumes "worker_step lib sur s = Some t"
  shows "js t = js s \<and> sender_alive t = sender_alive s \<and> (stopped s \<longrightarrow> stopped t)"
  using assms
  by (cases "worker s")
    (auto simp: worker_step_def drop_pending_def fail_received_def start_command_def finish_command_def fold_fail_fields
      split: list.splits command.splits option.splits prod.splits if_splits)


definition gone_inv :: "system \<Rightarrow> bool" where
  "gone_inv s \<longleftrightarrow> (js s \<in> {DroppingConnector, Gone} \<longrightarrow> stopped s) \<and> (js s = Gone \<longrightarrow> \<not> sender_alive s)"

lemma call_phases:
  assumes "js s = Idle"
  shows "js (snd (reserve_admit s)) \<notin> {DroppingConnector, Gone}" "js (snd (release h s)) = Idle" "js (snd (cancel net s)) = Idle"
    "js (enqueue_permitted ok h cmd s) \<notin> {DroppingConnector, Gone}"
    "js (enqueue_execution nd lib ok h x mode s) \<notin> {DroppingConnector, Gone}"
proof -
  have "snd (cancel net s) = snd (abort_shared net (s\<lparr>generation := generation s + 1\<rparr>))"
    by (simp add: cancel_def split: prod.splits)
  then show "js (snd (cancel net s)) = Idle" using assms by simp
qed (use assms in \<open>simp_all add: reserve_admit_def release_def enqueue_permitted_def enqueue_execution_def Let_def
    split: sum.splits prod.splits option.splits\<close>)

lemma js_call_phase:
  assumes "js_call nd lib net ok event s = Some t" "js s = Idle"
  shows "js t \<notin> {DroppingConnector, Gone} \<or> js t = DroppingConnector \<and> stopped t"
proof (cases "event = StopConnector")
  case True
  then show ?thesis using assms by (auto simp: stop_connector_def)
next
  case False
  then have "js t \<notin> {DroppingConnector, Gone}"
    using assms call_phases(1-4) [OF assms(2)] call_phases(5) [OF assms(2), of nd lib ok]
    by (cases event) (auto split: if_splits sum.splits)
  then show ?thesis ..
qed

lemma js_step_gone:
  assumes "js_step nd lib net ok event s = Some t" "gone_inv s"
  shows "gone_inv t"
proof (cases "js s")
  case Idle
  then consider "js_call nd lib net ok event s = Some t" | h where "t = finalize_permit h s"
    using assms(1) by (auto simp: js_step_def split: js_event.splits if_splits)
  then show ?thesis
    using js_call_phase [of nd lib net ok event s t] Idle by cases (auto simp: gone_inv_def finalize_permit_def)
next
  case (Prepared r i cmd)
  have "js (enqueue_reserved ok r i cmd s) = Idle"
    by (simp add: enqueue_reserved_def Let_def split: sum.split)
  then show ?thesis using assms(1) Prepared by (auto simp: js_step_def gone_inv_def split: js_event.splits)
next
  case DroppingConnector
  then show ?thesis using assms
    by (auto simp: js_step_def gone_inv_def drop_native_connector_def try_send_def Let_def split: js_event.splits sum.splits if_splits)
next
  case Gone
  then show ?thesis using assms by (auto simp: js_step_def gone_inv_def finalize_permit_def split: js_event.splits if_splits)
next
  case (Reserved q)
  have "js (snd (reserve_send q s)) \<notin> {DroppingConnector, Gone}"
    by (simp add: reserve_send_def try_send_def)
  then show ?thesis using assms(1) Reserved by (auto simp: js_step_def gone_inv_def split: js_event.splits)
next
  case (Sent q)
  have "js (snd (reserve_check q s)) = Idle" by (simp add: reserve_check_def)
  then show ?thesis using assms(1) Sent by (auto simp: js_step_def gone_inv_def split: js_event.splits)
qed

lemma worker_step_gone: "worker_step lib sur s = Some t \<Longrightarrow> gone_inv s \<Longrightarrow> gone_inv t"
  using worker_step_keeps unfolding gone_inv_def by metis

lemma reachable_gone: "reachable_system nd lib s \<Longrightarrow> gone_inv s"
proof -
  have "(system_step nd lib)\<^sup>*\<^sup>* s0 s \<Longrightarrow> gone_inv s0 \<Longrightarrow> gone_inv s" for s0
    by (induction rule: rtranclp_induct) (auto elim!: system_stepE intro: worker_step_gone js_step_gone)
  moreover have "initial_system s0 \<Longrightarrow> gone_inv s0" for s0
    using initial_fields [of s0] by (simp add: gone_inv_def)
  ultimately show "reachable_system nd lib s \<Longrightarrow> gone_inv s" by (auto simp: reachable_system_def)
qed

lemma nothing_stored:
  assumes "sys_inv s" "custody s = []"
  shows "stored s = {#}"
proof -
  have "slot_mset st = {#}" if "st \<in> set (slots s)" for st
    using that invD(9) [OF assms(1)] assms(2) by (fastforce simp: in_set_conv_nth slot_mset_def split: option.splits)
  then have "map slot_mset (slots s) = map (\<lambda>_. 0) (slots s)" by simp
  then show ?thesis unfolding stored_def by (simp only: sum_list_0)
qed

definition worker_run :: "libraries \<Rightarrow> surroundings \<Rightarrow> system \<Rightarrow> system \<Rightarrow> bool" where
  "worker_run lib sur s t \<longleftrightarrow> worker_step lib sur s = Some t"

lemma worker_runs_out:
  assumes "sys_inv s" "stopped s" "\<not> sender_alive s"
  shows "\<exists>t. (worker_run lib sur)\<^sup>*\<^sup>* s t \<and> worker t = Finished \<and> sys_inv t"
  using assms
proof (induction "shutdown_measure s" arbitrary: s rule: less_induct)
  case less
  show ?case
  proof (cases "worker s = Finished")
    case True
    then show ?thesis using less.prems by blast
  next
    case False
    obtain t where t: "worker_step lib sur s = Some t" using worker_not_stuck [OF less.prems(2) False less.prems(3)] by blast
    have "phase_ok (worker s)" using invD(2) [OF less.prems(1)] .
    note m = worker_stops_step [OF less.prems(2) this t]
    obtain u where "(worker_run lib sur)\<^sup>*\<^sup>* t u" "worker u = Finished" "sys_inv u"
      using less.hyps [of t] m worker_step_inv [OF less.prems(1) t] worker_step_keeps [OF t] less.prems(3) by blast
    then show ?thesis using t by (meson converse_rtranclp_into_rtranclp worker_run_def)
  qed
qed

lemma finished_answered:
  assumes "sys_inv s" "worker s = Finished"
  shows "mset (map fst (replies s)) = mset [0..<promises s]"
  using invD(16) [OF assms(1)] nothing_stored [OF assms(1)] invD(5) [OF assms] assms(2)
  by (simp add: custody_def answered_def)


section \<open>Properties\<close>

text \<open>
  C26: no promise is answered twice, and none is lost: in every interleaving of the two threads,
  the promises answered so far are different promises that were issued, and once the worker has
  finished each promise issued has been answered exactly once.
\<close>
theorem promises_answered_once:
  assumes "reachable_system nd lib s"
  shows "distinct (map fst (replies s)) \<and> set (map fst (replies s)) \<subseteq> {..<promises s}
    \<and> (worker s = Finished \<longrightarrow> mset (map fst (replies s)) = mset [0..<promises s])"
proof -
  have inv: "sys_inv s" by (rule reachable_inv [OF assms])
  have "mset (map fst (replies s)) \<subseteq># mset [0..<promises s]"
    using invD(16) [OF inv] unfolding answered_def by (metis mset_subset_eq_add_left union_assoc)
  then have "distinct (map fst (replies s))" "set (map fst (replies s)) \<subseteq> set [0..<promises s]"
    using distinct_sub_mset distinct_upt set_mset_mono by (blast, metis set_mset_mset)
  then show ?thesis using finished_answered [OF inv] by (auto simp: lessThan_atLeast0)
qed

text \<open>
  C28: commands run in the order their permits were reserved, each at most once: the slots of the
  commands that were started, numbered in the order of reservation, strictly increase.
\<close>
theorem commands_run_in_order:
  assumes "reachable_system nd lib s"
  shows "sorted_wrt (<) (executed s)"
  using invD(6) [OF reachable_inv [OF assms]] by (simp add: sorted_wrt_append)


text \<open>
  C29: the worker blocks only for a reason. When it cannot step it has finished, or it waits for a
  slot whose permit can still be committed, released or dropped, or its queue is empty and then
  every promise issued has been answered.
\<close>
theorem worker_blocks_only_idle:
  assumes "reachable_system nd lib s" "worker_step lib sur s = None"
  shows "worker s = Finished
    \<or> (\<exists>i. worker s = Waiting i \<and> slots s ! i = None \<and> \<not> stopped s \<and> i \<in> set (live s))
    \<or> worker s = Receiving \<and> channel s = [] \<and> mset (map fst (replies s)) = mset [0..<promises s]"
proof -
  have inv: "sys_inv s" by (rule reachable_inv [OF assms(1)])
  consider "worker s = Finished" | i where "worker s = Waiting i" "slots s ! i = None" "\<not> stopped s"
    | "worker s = Receiving" "channel s = []"
    using assms(2) by (cases "worker s")
      (auto simp: worker_step_def slot_wait_def split: list.splits command.splits option.splits if_splits)
  then show ?thesis
  proof cases
    case 2
    then show ?thesis using invD(13) [OF inv, of i] by blast
  next
    case 3
    then have "mset (map fst (replies s)) = mset [0..<promises s]"
      using invD(16) [OF inv] nothing_stored [OF inv] by (simp add: custody_def answered_def)
    then show ?thesis using 3 by blast
  qed simp
qed


section \<open>An example\<close>

text \<open>The steps of a schedule: the worker moves, or the JavaScript thread does.\<close>

datatype action = WorkerMoves | JsMoves "js_value js_event"

fun run_actions :: "surroundings \<Rightarrow> action list \<Rightarrow> system \<Rightarrow> system option" where
  "run_actions sur [] s = Some s"
| "run_actions sur (WorkerMoves # as) s = Option.bind (worker_step example_libraries sur s) (run_actions sur as)"
| "run_actions sur (JsMoves event # as) s =
     Option.bind (js_step example_node example_libraries example_network True event s) (run_actions sur as)"

lemma run_actions_steps: "run_actions sur as s = Some t \<Longrightarrow> (system_step example_node example_libraries)\<^sup>*\<^sup>* s t"
  by (induction sur as s rule: run_actions.induct)
    (auto simp: bind_eq_Some_conv intro: converse_rtranclp_into_rtranclp system_step.intros)

definition example_surroundings :: surroundings where
  "example_surroundings = \<lparr>sur_net = example_network,
     sur_attempts = (\<lambda>n. \<lparr>attempt_net = example_network, load_before = 0, load_after = 0, retry_loads = (\<lambda>_. 0), retry_late = (\<lambda>_. 0)\<rparr>)\<rparr>"

lemma example_system:
  obtains s where "initial_system s" "worker s = Looping" "js s = Idle" "channel s = []" "slots s = []" "handles s = []"
    "promises s = 0" "replies s = []" "executed s = []" "receiver_alive s" "sender_alive s"
    "reserve (admission s) = Inr (\<lparr>owner = owner_id (admission s), reservation = Some 0\<rparr>,
       (admission s)\<lparr>counts := \<lparr>queued_commands = 1, queued_bytes = 0\<rparr>\<rparr>)"
    "\<not> stopped s" "stream (owned_connector s) = None"
proof -
  obtain w where w: "options_try_from (\<lambda>_. True) example_options = Inr w" "wo_queue_capacity w = 1024" "\<not> wo_tls w"
    "wo_settings w = default_settings"
    using example_options_ok by blast
  define c where "c = (connector_new (wo_host w) (wo_port w) (wo_user w) (wo_password w) False 0 IPC_VERSION)
    \<lparr>timeout := wo_timeout w, symbol_encoding := wo_symbol_encoding w, settings := default_settings\<rparr>"
  have c: "into_connector example_network w = Inr c"
    by (simp add: into_connector_def configure_def w connector_new_def Let_def default_settings_def c_def)
  let ?s = "projr (fst (native_connector_new (\<lambda>_. True) example_network True True example_options 7))"
  have "initial_system ?s"
    unfolding initial_system_def
    by (rule exI [of _ "\<lambda>_. True"], rule exI [of _ example_network], rule exI [of _ example_options], rule exI [of _ 7])
      (simp add: native_connector_new_def w(1) c admission_new_def)
  then show thesis
    by (rule that [of ?s]) (simp_all add: native_connector_new_def w c admission_new_def reserve_def c_def connector_new_def Let_def)
qed


definition example_schedule :: "action list" where
  "example_schedule = map JsMoves [CallReserve, SendPending, CheckStopping, CallDisconnect 0, Commit]
     @ replicate 5 WorkerMoves"

lemmas example_step_defs = worker_step_def js_step_def reserve_admit_def reserve_send_def reserve_check_def try_send_def
  enqueue_permitted_def take_uncommitted_for_def enqueue_reserved_def slot_commit_def slot_wait_def slot_new_def
  set_handle_def set_slot_def start_command_def finish_command_def run_disconnect_def shutdown_def outcome_of_def
  complete_operation_def drop_reserved_def drop_reservation_def deferred_resolve_def from_result_def

lemma example_run:
  assumes s: "worker s = Looping" "js s = Idle" "channel s = []" "slots s = []" "handles s = []"
    "promises s = 0" "replies s = []" "executed s = []" "receiver_alive s" "sender_alive s"
    "reserve (admission s) = Inr (\<lparr>owner = owner_id (admission s), reservation = Some 0\<rparr>,
       (admission s)\<lparr>counts := \<lparr>queued_commands = 1, queued_bytes = 0\<rparr>\<rparr>)"
    "\<not> stopped s" "stream (owned_connector s) = None"
  shows "\<exists>t. run_actions example_surroundings example_schedule s = Some t \<and> replies t = [(0, result_success None)]
    \<and> promises t = 1 \<and> executed t = [0] \<and> worker t = Looping \<and> js t = Idle
    \<and> channel t = [] \<and> sender_alive t \<and> \<not> stopped t"
  by (simp add: example_schedule_def numeral_eq_Suc Let_def s example_step_defs MAX_QUEUE_CAPACITY_def)


lemma example_reaches:
  obtains s where "reachable_system example_node example_libraries s" "replies s = [(0, result_success None)]"
    "promises s = 1" "executed s = [0]" "worker s = Looping" "js s = Idle" "channel s = []" "sender_alive s" "\<not> stopped s"
proof -
  obtain s where i: "initial_system s" and s: "worker s = Looping" "js s = Idle" "channel s = []" "slots s = []" "handles s = []"
    "promises s = 0" "replies s = []" "executed s = []" "receiver_alive s" "sender_alive s"
    "reserve (admission s) = Inr (\<lparr>owner = owner_id (admission s), reservation = Some 0\<rparr>,
       (admission s)\<lparr>counts := \<lparr>queued_commands = 1, queued_bytes = 0\<rparr>\<rparr>)"
    "\<not> stopped s" "stream (owned_connector s) = None"
    by (rule example_system)
  obtain t where t: "run_actions example_surroundings example_schedule s = Some t" "replies t = [(0, result_success None)]"
    "promises t = 1" "executed t = [0]" "worker t = Looping" "js t = Idle" "channel t = []" "sender_alive t" "\<not> stopped t"
    using example_run [OF s] by blast
  have "reachable_system example_node example_libraries t"
    unfolding reachable_system_def using i run_actions_steps [OF t(1)] by blast
  then show thesis using that t by blast
qed

theorem promises_answered_once_witness:
  "\<exists>s. reachable_system example_node example_libraries s \<and> replies s = [(0, result_success None)] \<and> distinct (map fst (replies s))"
proof (rule example_reaches)
  fix s assume "reachable_system example_node example_libraries s" "replies s = [(0, result_success None)]"
  then show ?thesis using promises_answered_once by blast
qed

theorem commands_run_in_order_witness:
  "\<exists>s. reachable_system example_node example_libraries s \<and> executed s = [0] \<and> sorted_wrt (<) (executed s)"
proof (rule example_reaches)
  fix s assume "reachable_system example_node example_libraries s" "executed s = [0]"
  then show ?thesis using commands_run_in_order by blast
qed

theorem worker_blocks_only_idle_witness:
  "\<exists>s. reachable_system example_node example_libraries s \<and> worker_step example_libraries example_surroundings s = None
     \<and> mset (map fst (replies s)) = mset [0..<promises s]"
proof (rule example_reaches)
  fix s assume r: "reachable_system example_node example_libraries s" and s: "worker s = Looping" "channel s = []" "sender_alive s" "\<not> stopped s"
  let ?t = "s\<lparr>worker := Receiving\<rparr>"
  have "worker_step example_libraries example_surroundings s = Some ?t" using s by (simp add: worker_step_def)
  then have t: "reachable_system example_node example_libraries ?t"
    using r unfolding reachable_system_def by (meson rtranclp.rtrancl_into_rtrancl system_step.worker_moves)
  have n: "worker_step example_libraries example_surroundings ?t = None" using s by (simp add: worker_step_def)
  from worker_blocks_only_idle [OF t n] t n show ?thesis by auto
qed


section \<open>Connecting\<close>

text \<open>The connector after \<open>n\<close> attempts.\<close>

fun after_attempts :: "(nat \<Rightarrow> attempt) \<Rightarrow> nat \<Rightarrow> connector \<Rightarrow> connector" where
  "after_attempts env 0 c = c"
| "after_attempts env (Suc n) c = snd (connect (attempt_net (env n)) (after_attempts env n c))"

definition attempt_result :: "(nat \<Rightarrow> attempt) \<Rightarrow> connector \<Rightarrow> nat \<Rightarrow> unit xresult" where
  "attempt_result env c n = fst (connect (attempt_net (env n)) (after_attempts env n c))"

definition uncancelled :: "(nat \<Rightarrow> attempt) \<Rightarrow> 64 word \<Rightarrow> nat \<Rightarrow> bool" where
  "uncancelled env expected n \<longleftrightarrow> load_before (env n) = expected \<and> load_after (env n) = expected"

definition attempt_retried :: "(nat \<Rightarrow> attempt) \<Rightarrow> 64 word \<Rightarrow> connector \<Rightarrow> nat \<Rightarrow> bool" where
  "attempt_retried env expected c n \<longleftrightarrow> uncancelled env expected n
     \<and> (\<exists>e. attempt_result env c n = Inl e \<and> is_retryable_connect e)
     \<and> wait_for_connect_retry (retry_loads (env n)) (retry_late (env n)) expected n"

lemma result_distinct: "result_failure code \<noteq> result_success v" "from_result (Inl e) \<noteq> result_success v"
  by (simp_all add: result_failure_def result_success_def from_result_def)

lemma connect_attempt_step:
  "connect_attempts env expected retries m (after_attempts env m c) = (Some (result_success None), c')
    \<longleftrightarrow> uncancelled env expected m \<and> attempt_result env c m = Inr () \<and> c' = after_attempts env (Suc m) c
      \<or> m < retries \<and> attempt_retried env expected c m
        \<and> connect_attempts env expected retries (Suc m) (after_attempts env (Suc m) c) = (Some (result_success None), c')"
proof -
  obtain r d where r: "connect (attempt_net (env m)) (after_attempts env m c) = (r, d)" by fastforce
  have a: "attempt_result env c m = r" "after_attempts env (Suc m) c = d" by (simp_all add: attempt_result_def r)
  show ?thesis
    unfolding attempt_retried_def uncancelled_def a
    by (subst connect_attempts.simps)
      (cases r; auto simp: r cancelled_def result_distinct split: prod.splits if_splits)
qed

lemma connect_attempts_from:
  assumes "m \<le> retries"
  shows "connect_attempts env expected retries m (after_attempts env m c) = (Some (result_success None), c')
    \<longleftrightarrow> (\<exists>n. m \<le> n \<and> n \<le> retries \<and> (\<forall>i. m \<le> i \<and> i < n \<longrightarrow> attempt_retried env expected c i)
          \<and> uncancelled env expected n \<and> attempt_result env c n = Inr () \<and> c' = after_attempts env (Suc n) c)"
  using assms
proof (induction "retries - m" arbitrary: m)
  case 0
  then have "m = retries" by simp
  then show ?case unfolding connect_attempt_step [of env expected retries m] by auto
next
  case (Suc k)
  then have m: "m < retries" "k = retries - Suc m" by auto
  let ?P = "\<lambda>m n. m \<le> n \<and> n \<le> retries \<and> (\<forall>i. m \<le> i \<and> i < n \<longrightarrow> attempt_retried env expected c i)
          \<and> uncancelled env expected n \<and> attempt_result env c n = Inr () \<and> c' = after_attempts env (Suc n) c"
  have "(\<exists>n. ?P m n) \<longleftrightarrow> ?P m m \<or> attempt_retried env expected c m \<and> (\<exists>n. ?P (Suc m) n)" (is "?l \<longleftrightarrow> ?r")
  proof
    assume ?l
    then obtain n where n: "?P m n" by blast
    then show ?r by (cases "n = m") (auto intro!: exI [of _ n])
  next
    assume ?r
    then show ?l
    proof
      assume a: "attempt_retried env expected c m \<and> (\<exists>n. ?P (Suc m) n)"
      then obtain n where n: "?P (Suc m) n" by blast
      have "attempt_retried env expected c i" if "m \<le> i" "i < n" for i using a n that by (cases "i = m") auto
      then show ?l using n by (intro exI [of _ n]) auto
    qed blast
  qed
  then show ?case
    unfolding connect_attempt_step [of env expected retries m] using Suc.hyps(1) [OF m(2)] m(1) by auto
qed

text \<open>
  C30: a connect command succeeds exactly when one of its \<open>retries + 1\<close> attempts succeeds, every
  earlier attempt failed in a way that may be retried, and no load of the cancel generation, before,
  after or between the attempts, saw a cancellation: a cancelled connect never reports success.
\<close>
theorem connect_succeeds_uncancelled:
  "connect_attempts env expected retries 0 c = (Some (result_success None), c')
    \<longleftrightarrow> (\<exists>n \<le> retries. (\<forall>i < n. attempt_retried env expected c i)
          \<and> uncancelled env expected n \<and> attempt_result env c n = Inr () \<and> c' = after_attempts env (Suc n) c)"
  using connect_attempts_from [of 0 retries env expected c c'] by simp


text \<open>The first attempt times out, the second reaches a server.\<close>

definition example_attempts :: "nat \<Rightarrow> attempt" where
  "example_attempts n =
     \<lparr>attempt_net = (if n = 0 then example_network
        else example_network\<lparr>net_connect := \<lambda>_ _. Inr (1, \<lparr>incoming = [Chunk [3]], write_faults = [], sent = []\<rparr>)\<rparr>),
      load_before = 0, load_after = 0, retry_loads = (\<lambda>_. 0), retry_late = (\<lambda>_. 1000000000)\<rparr>"

lemma example_attempt_results:
  "attempt_result example_attempts (connector_new [] 5000 [] [] False 0 3) 0 = Inl (IOError TimedOut)"
  "attempt_result example_attempts (connector_new [] 5000 [] [] False 0 3) 1 = Inr ()"
  by (simp_all add: attempt_result_def example_attempts_def connect_def begin_operation_def finish_operation_def finish_def
    aborted_by_def abort_run_def connect_inner_def open_socket_def example_network_def connector_new_def default_settings_def
    configure_socket_def io_unit_def attach_tcp_def attach_stream_def establish_def install_authenticated_stream_def auth_def
    write_all_def credential_def checked_add_def default_abort_state_def Let_def)

theorem connect_succeeds_uncancelled_witness:
  "\<exists>c'. connect_attempts example_attempts 0 1 0 (connector_new [] 5000 [] [] False 0 3) = (Some (result_success None), c')"
proof -
  let ?c = "connector_new [] 5000 [] [] False 0 3"
  have u: "uncancelled example_attempts 0 n" for n by (simp add: uncancelled_def example_attempts_def)
  have "wait_for_connect_retry (retry_loads (example_attempts 0)) (retry_late (example_attempts 0)) 0 0"
    by (simp add: wait_for_connect_retry_def retry_loop.simps example_attempts_def)
  then have "attempt_retried example_attempts 0 ?c 0"
    using u example_attempt_results(1) by (simp add: attempt_retried_def)
  then show ?thesis
    using connect_succeeds_uncancelled [of example_attempts 0 1 ?c] u example_attempt_results(2) by (auto intro!: exI [of _ 1])
qed

end
