(* ===== verification/FileIo.thy ===== *)
theory FileIo
  imports ReceiveCorrect KValueRoundTrip
begin

text \<open>
  Files and messages (\<open>crates/xqdb/src/io.rs\<close>): reading a file whose reported length is only a hint,
  the Kxzip container of compressed files, tables stored on disk, and IPC messages as bytes.

  A file is the sequence of what its \<open>read\<close> calls meet, as for a socket. The LZ4 frame decoder and the
  checksum of its header are third-party code, the record \<open>lz4_codec\<close>: what reading the decoder of a
  frame delivers, and how much of the frame it has consumed at its end.
\<close>

section \<open>Reading a file\<close>

definition INITIAL_FILE_RESERVATION :: nat where "INITIAL_FILE_RESERVATION = 64 * 1024"

definition grow_file :: "vec \<Rightarrow> vec" where
  "grow_file buffer =
     (let target = max (saturating_mul (vcap buffer) 2) INITIAL_FILE_RESERVATION
      in try_reserve_exact (target - length (vbytes buffer)) buffer)"

text \<open>
  One round of the loop: the spare capacity is filled; a full buffer is followed by a probe of one byte.
\<close>

definition fill_spare :: "vec \<Rightarrow> stream \<Rightarrow> (xqdb_error + (vec \<times> bool)) \<times> stream" where
  "fill_spare buffer s =
     (let spare = vcap buffer - length (vbytes buffer) in
      if spare > 0 then
        (case read_to_limit spare s of
           (Some e, bs, s') \<Rightarrow> (Inl (IOError e), s')
         | (None, bs, s') \<Rightarrow> (Inr (extend_from_slice bs buffer, length bs < spare), s'))
      else (Inr (buffer, False), s))"

lemma fill_spare_delivered:
  "fill_spare buffer s = (Inr (buffer', False), s') \<Longrightarrow> length (delivered s') \<le> length (delivered s)"
  using read_to_limit_delivered [of "vcap buffer - length (vbytes buffer)" s]
  by (auto simp: fill_spare_def Let_def split: if_splits prod.splits option.splits)

lemma probe_delivered:
  "read_retry 1 s = (Inr bs, s') \<Longrightarrow> bs \<noteq> [] \<Longrightarrow> length (delivered s') < length (delivered s)"
  using read_retry_delivered [of 1 s] by (auto split: if_splits)

function read_file_loop :: "vec \<Rightarrow> stream \<Rightarrow> bytes xresult" where
  "read_file_loop buffer s =
     (case fill_spare buffer s of
        (Inl e, s') \<Rightarrow> Inl e
      | (Inr (buffer', complete), s') \<Rightarrow>
          if complete then Inr (vbytes buffer')
          else (case read_retry 1 s' of
            (Inl e, s'') \<Rightarrow> Inl (IOError e)
          | (Inr probed, s'') \<Rightarrow>
              if probed = [] then Inr (vbytes buffer')
              else read_file_loop (extend_from_slice probed (grow_file buffer')) s''))"
  by pat_completeness auto
termination
proof (relation "measure (\<lambda>(buffer, s). length (delivered s))", goal_cases)
  case (2 buffer s x s' a buffer' complete y s'' probed)
  then show ?case using fill_spare_delivered [of buffer s buffer' s'] probe_delivered [of s' probed s''] by auto
qed simp

declare read_file_loop.simps [simp del]

definition read_file_fallibly :: "stream \<Rightarrow> nat \<Rightarrow> bytes xresult" where
  "read_file_fallibly file hint =
     read_file_loop (if hint > 0 then try_reserve_exact hint empty_vec else grow_file empty_vec) file"

section \<open>The Kxzip container\<close>

definition KXZIP_MAGIC :: bytes where "KXZIP_MAGIC = ascii ''kxzipped''"
definition KXZIP_HEADER_LENGTH :: nat where "KXZIP_HEADER_LENGTH = 8"
definition KXZIP_FOOTER_WORD_LENGTH :: nat where "KXZIP_FOOTER_WORD_LENGTH = 8"
definition KXZIP_FIXED_FOOTER_WORDS :: nat where "KXZIP_FIXED_FOOTER_WORDS = 5"
definition MAX_LZ4_EXPANSION_RATIO :: nat where "MAX_LZ4_EXPANSION_RATIO = 255"

lemmas kxzip_constants = KXZIP_MAGIC_def KXZIP_HEADER_LENGTH_def KXZIP_FOOTER_WORD_LENGTH_def
  KXZIP_FIXED_FOOTER_WORDS_def MAX_LZ4_EXPANSION_RATIO_def

record lz4_codec =
  lz4_output :: "bytes \<Rightarrow> stream"
  lz4_position :: "bytes \<Rightarrow> nat"
  xxh32 :: "bytes \<Rightarrow> 32 word"

definition starts_with :: "bytes \<Rightarrow> bytes \<Rightarrow> bool" where
  "starts_with bs pre \<longleftrightarrow> take (length pre) bs = pre"

definition kxzip_usize :: "bytes \<Rightarrow> nat xresult" where
  "kxzip_usize bs = (if length bs = 8 then Inr (le_nat bs) else Inl Err)"

definition kxzip_footer_length :: "nat \<Rightarrow> nat xresult" where
  "kxzip_footer_length block_num =
     ok_or (Option.bind (checked_add block_num KXZIP_FIXED_FOOTER_WORDS) (\<lambda>words.
            checked_mul words KXZIP_FOOTER_WORD_LENGTH)) Err"

definition lz4_block_size :: "bytes \<Rightarrow> nat \<Rightarrow> 32 word xresult" where
  "lz4_block_size footer block_index =
     rbind (ok_or (Option.bind (checked_mul block_index KXZIP_FOOTER_WORD_LENGTH) (\<lambda>offset.
                   checked_add 32 offset)) Err) (\<lambda>offset.
     rbind (ok_or (checked_add offset 4) Err) (\<lambda>end.
     rbind (ok_or (get_range footer offset end) Err) (\<lambda>bs.
     Inr (of_nat (le_nat bs)))))"

definition is_power_of_two :: "nat \<Rightarrow> bool" where
  "is_power_of_two n \<longleftrightarrow> n \<in> set (map (\<lambda>k. 2 ^ k) [0..<64])"

definition block_descriptor :: "nat \<Rightarrow> byte" where
  "block_descriptor block_size =
     (if block_size \<le> 65536 then 0x40 else if block_size \<le> 262144 then 0x50
      else if block_size \<le> 1048576 then 0x60 else 0x70)"

text \<open>The state of the loop over the block sizes.\<close>

record block_scan =
  frame_capacity :: nat
  reachable_unzipped_size :: nat
  has_empty_block :: bool
  block_start :: nat

definition scan_block :: "bytes \<Rightarrow> nat \<Rightarrow> nat \<Rightarrow> nat \<Rightarrow> block_scan \<Rightarrow> block_scan xresult" where
  "scan_block footer footer_index block_size block_index st =
     rbind (lz4_block_size footer block_index) (\<lambda>encoded_size.
     let size = unat encoded_size in
     rbind (ok_or (checked_add (block_start st) size) Err) (\<lambda>block_end.
     if block_end > footer_index then Inl Err
     else
     rbind (ok_or (Option.bind (checked_add (frame_capacity st) 4) (\<lambda>c. checked_add c size)) Err) (\<lambda>capacity.
     rbind (ok_or (Option.bind (checked_mul size MAX_LZ4_EXPANSION_RATIO) (\<lambda>expanded.
                   checked_add (reachable_unzipped_size st) (min expanded block_size))) Err) (\<lambda>reachable.
     Inr \<lparr>frame_capacity = capacity, reachable_unzipped_size = reachable,
          has_empty_block = (has_empty_block st \<or> size = 0), block_start = block_end\<rparr>))))"

definition copy_block :: "bytes \<Rightarrow> bytes \<Rightarrow> nat \<Rightarrow> bytes \<times> nat \<Rightarrow> (bytes \<times> nat) xresult" where
  "copy_block buf footer block_index st =
     (case st of (zipped, start) \<Rightarrow>
        rbind (lz4_block_size footer block_index) (\<lambda>encoded_size.
        rbind (ok_or (checked_add start (unat encoded_size)) Err) (\<lambda>block_end.
        rbind (ok_or (get_range buf start block_end) Err) (\<lambda>block.
        Inr (zipped @ le_bytes 4 (unat encoded_size) @ block, block_end)))))"

definition lz4_frame_header :: "lz4_codec \<Rightarrow> nat \<Rightarrow> bytes \<Rightarrow> bytes" where
  "lz4_frame_header lz4 block_size declared =
     (let header = [4, 34, 77, 24, 104, block_descriptor block_size] @ declared
      in header @ [le_bytes 4 (unat (xxh32 lz4 (drop 4 header))) ! 1])"

definition decode_lz4_frame :: "lz4_codec \<Rightarrow> bytes \<Rightarrow> nat \<Rightarrow> bytes xresult" where
  "decode_lz4_frame lz4 zipped unzipped_size =
     (case read_exact unzipped_size (lz4_output lz4 zipped) of
        (Inl e, s) \<Rightarrow> Inl e
      | (Inr unzipped, s) \<Rightarrow>
          (case stream_read 1 s of
             (Inl e, s') \<Rightarrow> Inl (IOError e)
           | (Inr trailing, s') \<Rightarrow>
               if trailing = [] then
                 if lz4_position lz4 zipped \<noteq> length zipped then Inl Err else Inr unzipped
               else Inl Err))"

definition unzip_lz4 :: "lz4_codec \<Rightarrow> bytes \<Rightarrow> nat \<Rightarrow> nat \<Rightarrow> bytes xresult" where
  "unzip_lz4 lz4 buf footer_index block_num =
     (if \<not> starts_with buf KXZIP_MAGIC then Inl Err
      else if footer_index < KXZIP_HEADER_LENGTH then Inl Err
      else
      rbind (kxzip_footer_length block_num) (\<lambda>expected_footer_length.
      rbind (ok_or (get_from buf footer_index) Err) (\<lambda>footer.
      if length footer \<noteq> expected_footer_length then Inl Err
      else if get_at footer 4 \<noteq> Some 4 then Inl Err
      else
      rbind (rbind (ok_or (get_range footer 24 32) Err) kxzip_usize) (\<lambda>block_size.
      if \<not> (2 ^ 12 \<le> block_size \<and> block_size \<le> 2 ^ 22) \<or> \<not> is_power_of_two block_size then Inl Err
      else
      rbind (rbind (ok_or (get_range footer 8 16) Err) kxzip_usize) (\<lambda>unzipped_size.
      rbind (rfold (scan_block footer footer_index block_size) [0..<block_num]
               \<lparr>frame_capacity = 19, reachable_unzipped_size = 0, has_empty_block = False,
                block_start = KXZIP_HEADER_LENGTH\<rparr>) (\<lambda>st.
      if block_start st \<noteq> footer_index then Inl Err
      else if unzipped_size > reachable_unzipped_size st then Inl Err
      else if has_empty_block st then Inl Err
      else
      rbind (ok_or (get_range footer 8 16) Panicked) (\<lambda>declared.
      rbind (rfold (copy_block buf footer) [0..<block_num]
               (lz4_frame_header lz4 block_size declared, KXZIP_HEADER_LENGTH)) (\<lambda>(zipped, _).
      decode_lz4_frame lz4 (zipped @ [0, 0, 0, 0]) unzipped_size))))))))"

definition unzip :: "lz4_codec \<Rightarrow> bytes \<Rightarrow> bytes xresult" where
  "unzip lz4 buf =
     (if \<not> starts_with buf KXZIP_MAGIC then Inl Err
      else
      rbind (ok_or (checked_sub (length buf) KXZIP_FOOTER_WORD_LENGTH) Err) (\<lambda>block_count_start.
      rbind (kxzip_usize (drop block_count_start buf)) (\<lambda>block_num.
      rbind (kxzip_footer_length block_num) (\<lambda>footer_length.
      rbind (ok_or (checked_sub (length buf) footer_length) Err) (\<lambda>footer_index.
      if footer_index < KXZIP_HEADER_LENGTH then Inl Err
      else
      rbind (ok_or (checked_add footer_index 4) Err) (\<lambda>algorithm_index.
      rbind (ok_or (get_at buf algorithm_index) Err) (\<lambda>algorithm.
      if algorithm = 4 then unzip_lz4 lz4 buf footer_index block_num else Inl Err)))))))"

section \<open>Tables on disk\<close>

text \<open>The file system: whether a path is a regular file, its reported length, and its content.\<close>

record file_system =
  fs_metadata :: "bytes \<Rightarrow> io_kind + bool \<times> nat"
  fs_open :: "bytes \<Rightarrow> io_kind + stream"

definition io_result :: "io_kind + 'a \<Rightarrow> 'a xresult" where
  "io_result r = (case r of Inl e \<Rightarrow> Inl (IOError e) | Inr x \<Rightarrow> Inr x)"

definition deserialize_at :: "externals \<Rightarrow> bytes \<Rightarrow> symbol_encoding \<Rightarrow> nat \<Rightarrow> k xresult" where
  "deserialize_at ext vec encoding start =
     (case deserialize_unchecked ext vec encoding 0 False start of
        Inr (value, pos) \<Rightarrow> if pos = length vec then Inr value else Inl DeserializationErr
      | Inl Panicked \<Rightarrow> Inl DeserializationErr
      | Inl e \<Rightarrow> Inl e)"

definition decode_binary_table :: "externals \<Rightarrow> bytes \<Rightarrow> symbol_encoding \<Rightarrow> series list xresult" where
  "decode_binary_table ext buffer encoding =
     rbind (ok_or (get_at buffer 2) DeserializationErr) (\<lambda>k_type.
     rbind (if k_type = 98 then Inr 17 else if k_type = 99 then Inr 33 else Inl Err) (\<lambda>minimum_length.
     if length buffer < minimum_length then Inl DeserializationErr
     else rbind (deserialize_at ext buffer encoding 2) (\<lambda>v.
       case v of KDataFrame df \<Rightarrow> Inr df | _ \<Rightarrow> Inl Err)))"

definition read_j6_binary_table ::
  "file_system \<Rightarrow> lz4_codec \<Rightarrow> externals \<Rightarrow> bytes \<Rightarrow> symbol_encoding \<Rightarrow> series list xresult" where
  "read_j6_binary_table fs lz4 ext path encoding =
     rbind (io_result (fs_metadata fs path)) (\<lambda>(is_file, file_length).
     if \<not> is_file then Inl Err
     else
     rbind (io_result (fs_open fs path)) (\<lambda>f.
     rbind (read_file_fallibly f file_length) (\<lambda>buffer.
     rbind (if starts_with buffer KXZIP_MAGIC then unzip lz4 buffer else Inr buffer) (\<lambda>buffer.
     decode_binary_table ext buffer encoding))))"

section \<open>Messages as bytes\<close>

definition checked_j6_ipc_total_length :: "nat \<Rightarrow> (nat \<times> byte \<times> nat) xresult" where
  "checked_j6_ipc_total_length body_length =
     rbind (ok_or (checked_add body_length 8) Err) (\<lambda>total.
     rbind (ipc_length_header total) (\<lambda>(high_byte, low_length). Inr (total, high_byte, low_length)))"

definition generate_j6_ipc_msg :: "msg_type \<Rightarrow> bool \<Rightarrow> k \<Rightarrow> bytes xresult" where
  "generate_j6_ipc_msg kind enable_compression v =
     rbind (j6_len v) (\<lambda>body_length.
     rbind (checked_j6_ipc_total_length body_length) (\<lambda>(total, high_byte, low_length).
     rbind (serialize_into v) (\<lambda>body.
     let vec = [1, msg_type_code kind, 0, high_byte] @ le_bytes 4 low_length @ body in
     if length vec \<noteq> total then Inl Err
     else if enable_compression then compress vec else Inr vec)))"

definition deserialize_j6 :: "externals \<Rightarrow> bytes \<Rightarrow> symbol_encoding \<Rightarrow> value_mode \<Rightarrow> k xresult" where
  "deserialize_j6 ext buf encoding mode =
     (case mode of
        Native \<Rightarrow> deserialize ext buf encoding
      | Lossless \<Rightarrow> rbind (from_bytes buf) (\<lambda>v. Inr (KQValue v)))"

definition deserialize_j6_ipc_msg ::
  "externals \<Rightarrow> bytes \<Rightarrow> symbol_encoding \<Rightarrow> value_mode \<Rightarrow> (msg_type \<times> k) xresult" where
  "deserialize_j6_ipc_msg ext buf encoding mode = deserialize_ipc_frame ext buf encoding mode"

end
