(* ===== verification/FileIoCorrect.thy ===== *)
theory FileIoCorrect
  imports FileIo
begin

text \<open>
  What reading files and messages guarantees: a message that is generated decodes to its value, a file
  is read to its end whatever its reported length, and the Kxzip container is unpacked within the bound
  its compressed bytes give.
\<close>

section \<open>Messages\<close>

lemma generated_message:
  assumes "generate_j6_ipc_msg kind compressed v = Inr m"
  obtains body where "serialize_into v = Inr body" "length body + 8 < 1099511627776"
    "(if compressed then compress (ipc_frame kind body) else Inr (ipc_frame kind body)) = Inr m"
proof -
  obtain n total h l body where n: "j6_len v = Inr n" "checked_j6_ipc_total_length n = Inr (total, h, l)" "serialize_into v = Inr body"
    and m: "(let vec = [1, msg_type_code kind, 0, h] @ le_bytes 4 l @ body in
      if length vec \<noteq> total then Inl Err else if compressed then compress vec else Inr vec) = Inr m"
    using assms by (auto simp: generate_j6_ipc_msg_def result_simps simp del: le_bytes_numeral)
  have t: "total = n + 8" "total < 1099511627776" "h = of_nat (total div 4294967296)" "l = total mod 4294967296"
    using n(2) by (auto simp: checked_j6_ipc_total_length_def result_simps usize_simps ipc_length_header_Inr)
  have len: "length body = n" using m t(1) by (simp add: Let_def del: le_bytes_numeral split: if_splits)
  have "[1, msg_type_code kind, 0, h] @ le_bytes 4 l @ body = ipc_frame kind body"
    by (simp add: ipc_frame_def t len le_bytes_4_mod del: le_bytes_numeral)
  then show thesis using that [of body] n(3) m t(1,2) len by (auto simp: Let_def split: if_splits)
qed



section \<open>Files\<close>

lemma fill_spare_reads:
  "case fill_spare buffer s of
     (Inl e, s') \<Rightarrow> \<exists>i. e = IOError i \<and> ending s = Some i
   | (Inr (b, complete), s') \<Rightarrow>
       if complete then vbytes b = vbytes buffer @ delivered s \<and> ending s = None
       else vbytes b @ delivered s' = vbytes buffer @ delivered s \<and> ending s' = ending s"
proof (cases "vcap buffer - length (vbytes buffer) = 0")
  case False
  obtain e bs s' where r: "read_to_limit (vcap buffer - length (vbytes buffer)) s = (e, bs, s')" by (metis prod.exhaust)
  then show ?thesis using False read_to_limit_delivered [of "vcap buffer - length (vbytes buffer)" s]
    by (cases e) (auto simp: fill_spare_def Let_def extend_from_slice_def not_le min_def
      split: if_splits option.splits)
qed (simp add: fill_spare_def)

lemma read_file_loop_reads:
  "read_file_loop buffer s = (case ending s of None \<Rightarrow> Inr (vbytes buffer @ delivered s) | Some e \<Rightarrow> Inl (IOError e))"
proof (induction buffer s rule: read_file_loop.induct)
  case (1 buffer s)
  note f = fill_spare_reads [where buffer = buffer and s = s]
  obtain r s' where q: "fill_spare buffer s = (r, s')" by (cases "fill_spare buffer s")
  consider (err) e where "r = Inl e" | (eof) b where "r = Inr (b, True)" | (more) b where "r = Inr (b, False)"
    by (cases r) auto
  then show ?case
  proof cases
    case m: more
    note more = q [unfolded m]
    note p = read_retry_delivered [of 1 s', simplified]
    have g: "vbytes buffer @ delivered s = vbytes b @ delivered s'" "ending s = ending s'" using f more by simp_all
    show ?thesis
    proof (cases "read_retry 1 s'")
      case r: (Pair probe s'')
      show ?thesis
      proof (cases probe)
        case (Inl e)
        then show ?thesis using p r more g by (simp add: read_file_loop.simps [of buffer s])
      next
        case (Inr bs)
        show ?thesis
        proof (cases "bs = []")
          case True
          then show ?thesis using p r more g Inr by (simp add: read_file_loop.simps [of buffer s])
        next
          case False
          then have d: "delivered s' = bs @ delivered s''" "ending s'' = ending s'" using p r Inr by simp_all
          have "read_file_loop buffer s = read_file_loop (extend_from_slice bs (grow_file b)) s''"
            using False r Inr more by (simp add: read_file_loop.simps [of buffer s])
          moreover have "vbytes (extend_from_slice bs (grow_file b)) = vbytes b @ bs"
            by (simp add: extend_from_slice_def grow_file_def try_reserve_exact_def Let_def)
          ultimately show ?thesis
            using "1.IH" [OF more [symmetric] refl refl _ r [symmetric] Inr] False d g by (simp split: option.split)
        qed
      qed
    qed
  qed (use f q in \<open>auto simp: read_file_loop.simps [of buffer s]\<close>)
qed

text \<open>
  C25: a file is read to its end whatever length was reported for it, however the reads are cut into
  chunks and however often they are interrupted; a read that fails is reported.
\<close>
theorem file_read_completely:
  "read_file_fallibly file hint = (case ending file of None \<Rightarrow> Inr (delivered file) | Some e \<Rightarrow> Inl (IOError e))"
  by (simp add: read_file_fallibly_def read_file_loop_reads grow_file_def empty_vec_def try_reserve_exact_def Let_def
    split: option.split)

section \<open>The Kxzip container\<close>

subsection \<open>Bounds\<close>

text \<open>Each block adds at most 255 bytes of output for each of its own bytes, and at most one block size.\<close>

definition scan_bounded :: "nat \<Rightarrow> nat \<Rightarrow> block_scan \<Rightarrow> bool" where
  "scan_bounded block_size n st \<longleftrightarrow>
     KXZIP_HEADER_LENGTH \<le> block_start st \<and> frame_capacity st = 19 + 4 * n + (block_start st - KXZIP_HEADER_LENGTH) \<and>
     reachable_unzipped_size st \<le> 255 * (block_start st - KXZIP_HEADER_LENGTH) \<and>
     reachable_unzipped_size st \<le> n * block_size"

lemma scan_block_bounded:
  "scan_block footer footer_index block_size i st = Inr st' \<Longrightarrow> scan_bounded block_size n st
     \<Longrightarrow> scan_bounded block_size (Suc n) st'"
  by (auto simp: scan_block_def result_simps usize_simps scan_bounded_def kxzip_constants Let_def min_def bind_eq_Some_conv
    split: if_splits)

lemma scan_blocks_bounded:
  "rfold (scan_block footer footer_index block_size) xs st = Inr st' \<Longrightarrow> scan_bounded block_size n st
     \<Longrightarrow> scan_bounded block_size (n + length xs) st'"
proof (induction xs arbitrary: n st)
  case (Cons x xs)
  then obtain u where "scan_block footer footer_index block_size x st = Inr u"
    "rfold (scan_block footer footer_index block_size) xs u = Inr st'" by (auto simp: result_simps)
  then show ?case using Cons.IH [of u "Suc n"] Cons.prems(2) scan_block_bounded by fastforce
qed simp

lemma decode_lz4_frame_length:
  "decode_lz4_frame lz4 zipped n = Inr out \<Longrightarrow> length out = n"
  by (auto simp: decode_lz4_frame_def read_exact_def split: prod.splits sum.splits if_splits option.splits)

lemma unzip_lz4_bounded:
  assumes "unzip_lz4 lz4 buf footer_index block_num = Inr out"
  shows "KXZIP_HEADER_LENGTH \<le> footer_index \<and> length buf = footer_index + 8 * (block_num + 5)
    \<and> length out \<le> 255 * (footer_index - KXZIP_HEADER_LENGTH) \<and> length out \<le> block_num * 2 ^ 22"
proof -
  obtain block_size n st declared zipped p where h: "KXZIP_HEADER_LENGTH \<le> footer_index" "footer_index \<le> length buf"
    "kxzip_footer_length block_num = Inr (length buf - footer_index)" "block_size \<le> 2 ^ 22"
    "rfold (scan_block (drop footer_index buf) footer_index block_size) [0..<block_num]
       \<lparr>frame_capacity = 19, reachable_unzipped_size = 0, has_empty_block = False, block_start = KXZIP_HEADER_LENGTH\<rparr> = Inr st"
    "block_start st = footer_index" "n \<le> reachable_unzipped_size st"
    "decode_lz4_frame lz4 (zipped @ [0, 0, 0, 0]) n = Inr out"
    using assms by (auto simp: unzip_lz4_def result_simps get_from_Some not_less not_le split: if_splits prod.splits)
  have "scan_bounded block_size (0 + length [0..<block_num]) st"
    by (rule scan_blocks_bounded [OF h(5)]) (simp add: scan_bounded_def)
  then have "reachable_unzipped_size st \<le> 255 * (footer_index - KXZIP_HEADER_LENGTH)"
    "reachable_unzipped_size st \<le> block_num * block_size" by (auto simp: scan_bounded_def h(6))
  moreover have "block_num * block_size \<le> block_num * 2 ^ 22" using h(4) by simp
  moreover have "length buf = footer_index + 8 * (block_num + 5)"
    using h(2,3) by (auto simp: kxzip_footer_length_def result_simps usize_simps kxzip_constants bind_eq_Some_conv)
  ultimately show ?thesis using h(1,7) decode_lz4_frame_length [OF h(8)] by linarith
qed

lemma ok_or_Inl_iff: "ok_or x e = Inl e' \<longleftrightarrow> x = None \<and> e' = e"
  by (cases x) auto

lemma scan_block_Inl: "scan_block footer footer_index block_size i st = Inl e \<Longrightarrow> e = Err"
  by (auto simp: scan_block_def lz4_block_size_def rbind_Inl_iff ok_or_Inl_iff Let_def result_simps split: if_splits)

lemma copy_block_Inl: "copy_block buf footer i st = Inl e \<Longrightarrow> e = Err"
  by (cases st) (auto simp: copy_block_def lz4_block_size_def rbind_Inl_iff ok_or_Inl_iff result_simps)

lemma decode_lz4_frame_Inl: "decode_lz4_frame lz4 zipped n = Inl e \<Longrightarrow> e = Err \<or> (\<exists>k. e = IOError k)"
  by (auto simp: decode_lz4_frame_def read_exact_def split: prod.splits sum.splits if_splits option.splits)

lemma unzip_lz4_Inl: "unzip_lz4 lz4 buf footer_index block_num = Inl e \<Longrightarrow> e = Err \<or> (\<exists>k. e = IOError k)"
  by (auto simp: unzip_lz4_def rbind_Inl_iff ok_or_Inl_iff result_simps kxzip_footer_length_def kxzip_usize_def get_range_Some
    dest!: rfold_Inl scan_block_Inl copy_block_Inl decode_lz4_frame_Inl split: if_splits prod.splits)

text \<open>
  C24: unpacking a Kxzip file never panics, and what it returns is bounded by the file itself: by 255
  bytes for each compressed byte, and by the largest block size for each block the file holds.
\<close>
theorem unzip_bounded:
  "case unzip lz4 buf of
     Inr out \<Rightarrow> \<exists>blocks compressed. length buf = 8 + compressed + 8 * (blocks + 5)
       \<and> length out \<le> 255 * compressed \<and> length out \<le> blocks * 2 ^ 22
   | Inl e \<Rightarrow> e = Err \<or> (\<exists>k. e = IOError k)"
proof (cases "unzip lz4 buf")
  case (Inr out)
  then obtain footer_index block_num where "unzip_lz4 lz4 buf footer_index block_num = Inr out"
    by (auto simp: unzip_def result_simps split: if_splits)
  from unzip_lz4_bounded [OF this]
  have "length buf = 8 + (footer_index - 8) + 8 * (block_num + 5)
    \<and> length out \<le> 255 * (footer_index - 8) \<and> length out \<le> block_num * 2 ^ 22"
    by (simp add: KXZIP_HEADER_LENGTH_def)
  then show ?thesis unfolding Inr sum.case by blast
next
  case (Inl e)
  then show ?thesis
    by (auto simp: unzip_def rbind_Inl_iff ok_or_Inl_iff result_simps kxzip_footer_length_def kxzip_usize_def
      dest!: unzip_lz4_Inl split: if_splits)
qed

subsection \<open>Containers and frames\<close>

text \<open>
  The format, as a writer builds it: each block comes with the four bytes that follow its size in the
  footer, and the footer with the words the reader does not interpret.
\<close>

definition kxzip_words :: "(bytes \<times> bytes) list \<Rightarrow> bytes" where
  "kxzip_words blocks = concat (map (\<lambda>(block, tag). le_bytes 4 (length block) @ tag) blocks)"

definition kxzip_footer :: "bytes \<Rightarrow> bytes \<Rightarrow> nat \<Rightarrow> nat \<Rightarrow> (bytes \<times> bytes) list \<Rightarrow> bytes" where
  "kxzip_footer head reserved unzipped_size block_size blocks =
     head @ le_bytes 8 unzipped_size @ reserved @ le_bytes 8 block_size @ kxzip_words blocks @ le_bytes 8 (length blocks)"

definition kxzip_file :: "bytes \<Rightarrow> bytes \<Rightarrow> nat \<Rightarrow> nat \<Rightarrow> (bytes \<times> bytes) list \<Rightarrow> bytes" where
  "kxzip_file head reserved unzipped_size block_size blocks =
     KXZIP_MAGIC @ concat (map fst blocks) @ kxzip_footer head reserved unzipped_size block_size blocks"

definition kxzip_ok :: "bytes \<Rightarrow> bytes \<Rightarrow> nat \<Rightarrow> nat \<Rightarrow> (bytes \<times> bytes) list \<Rightarrow> bool" where
  "kxzip_ok head reserved unzipped_size block_size blocks \<longleftrightarrow>
     length head = 8 \<and> head ! 4 = 4 \<and> length reserved = 8
     \<and> (\<exists>k\<in>{12..22}. block_size = 2 ^ k)
     \<and> (\<forall>(block, tag)\<in>set blocks. block \<noteq> [] \<and> length block < 4294967296 \<and> length tag = 4)
     \<and> unzipped_size \<le> sum_list (map (\<lambda>(block, tag). min (255 * length block) block_size) blocks)
     \<and> length (kxzip_file head reserved unzipped_size block_size blocks) < 2 ^ 56"

text \<open>The LZ4 frame of the same blocks: a frame header, each block after its size, and the end mark.\<close>

definition lz4_frame :: "lz4_codec \<Rightarrow> nat \<Rightarrow> nat \<Rightarrow> bytes list \<Rightarrow> bytes" where
  "lz4_frame lz4 unzipped_size block_size blocks =
     lz4_frame_header lz4 block_size (le_bytes 8 unzipped_size)
     @ concat (map (\<lambda>block. le_bytes 4 (length block) @ block) blocks) @ [0, 0, 0, 0]"

lemma drop_kxzip_words:
  "\<forall>(block, tag)\<in>set blocks. length tag = 4 \<Longrightarrow> drop (8 * i) (kxzip_words blocks) = kxzip_words (drop i blocks)"
proof (induction blocks arbitrary: i)
  case (Cons a blocks)
  then show ?case by (cases i) (auto simp: kxzip_words_def simp del: le_bytes_numeral)
qed (simp add: kxzip_words_def)

lemma length_kxzip_words: "\<forall>(block, tag)\<in>set blocks. length tag = 4 \<Longrightarrow> length (kxzip_words blocks) = 8 * length blocks"
  by (induction blocks) (auto simp: kxzip_words_def simp del: le_bytes_numeral)

lemma lz4_block_size_word:
  assumes "\<forall>(block, tag)\<in>set blocks. length tag = 4 \<and> length block < 4294967296" "length pre = 32" "i < length blocks"
    "8 * length blocks + 72 < usize_limit"
  shows "lz4_block_size (pre @ kxzip_words blocks @ rest) i = Inr (of_nat (length (fst (blocks ! i))))"
proof -
  obtain b t where bt: "blocks ! i = (b, t)" by fastforce
  have d: "drop (8 * i) (kxzip_words blocks) = le_bytes 4 (length b) @ t @ kxzip_words (drop (Suc i) blocks)"
    using assms(1,3) bt by (subst drop_kxzip_words) (auto simp: kxzip_words_def Cons_nth_drop_Suc [symmetric] simp del: le_bytes_numeral)
  have l: "length (kxzip_words blocks) = 8 * length blocks" using assms(1) by (intro length_kxzip_words) auto
  have "length b < 4294967296" using assms(1,3) bt by (metis (mono_tags, lifting) case_prodD nth_mem)
  then have "le_nat (le_bytes 4 (length b)) = length b" by (intro le_nat_le_bytes_exact) simp
  then show ?thesis
    using assms(2,3,4) d l
    by (simp add: lz4_block_size_def checked_add_def checked_mul_def kxzip_constants get_range_def bt mult.commute [of i 8]
      del: le_bytes_numeral)
qed

lemma length_KXZIP_MAGIC [simp]: "length KXZIP_MAGIC = 8"
  by (simp add: KXZIP_MAGIC_def ascii_def)

definition blocks_size :: "(bytes \<times> bytes) list \<Rightarrow> nat" where
  "blocks_size blocks = length (concat (map fst blocks))"

definition blocks_reach :: "nat \<Rightarrow> (bytes \<times> bytes) list \<Rightarrow> nat" where
  "blocks_reach block_size blocks = sum_list (map (\<lambda>(block, tag). min (255 * length block) block_size) blocks)"

lemma blocks_simps [simp]:
  "blocks_size [] = 0" "blocks_reach n [] = 0"
  "blocks_size (a @ b) = blocks_size a + blocks_size b" "blocks_size [p] = length (fst p)"
  "blocks_reach n (a @ b) = blocks_reach n a + blocks_reach n b" "blocks_reach n [p] = min (255 * length (fst p)) n"
  by (auto simp: blocks_size_def blocks_reach_def split: prod.splits)

lemma blocks_reach_le: "blocks_reach n blocks \<le> 255 * blocks_size blocks"
  by (induction blocks) (auto simp: blocks_reach_def blocks_size_def)

lemma blocks_size_split:
  "i < length blocks \<Longrightarrow> blocks_size (take i blocks) + length (fst (blocks ! i)) \<le> blocks_size blocks"
  using append_take_drop_id [of "Suc i" blocks] blocks_simps(3) [of "take (Suc i) blocks" "drop (Suc i) blocks"]
  by (simp add: take_Suc_conv_app_nth)

lemma scan_blocks_exact:
  assumes "\<And>j. j < length blocks \<Longrightarrow> lz4_block_size footer j = Inr (of_nat (length (fst (blocks ! j))))"
    "\<forall>(block, tag)\<in>set blocks. block \<noteq> [] \<and> length block < 4294967296"
    "footer_index = 8 + blocks_size blocks" "footer_index + 8 * length blocks < 2 ^ 56" "i \<le> length blocks"
  shows "rfold (scan_block footer footer_index block_size) [0..<i]
      \<lparr>frame_capacity = 19, reachable_unzipped_size = 0, has_empty_block = False, block_start = KXZIP_HEADER_LENGTH\<rparr>
    = Inr \<lparr>frame_capacity = 19 + 4 * i + blocks_size (take i blocks),
           reachable_unzipped_size = blocks_reach block_size (take i blocks), has_empty_block = False,
           block_start = 8 + blocks_size (take i blocks)\<rparr>"
  using assms(5)
proof (induction i)
  case (Suc i)
  obtain b t where bt: "blocks ! i = (b, t)" by fastforce
  have b: "b \<noteq> []" "length b < 4294967296" using assms(2) bt Suc.prems by (metis (mono_tags, lifting) case_prodD nth_mem Suc_le_lessD)+
  have s: "blocks_size (take i blocks) + length b \<le> blocks_size blocks"
    using blocks_size_split [of i blocks] Suc.prems bt by simp
  have r: "blocks_reach block_size (take i blocks) \<le> 255 * blocks_size (take i blocks)" by (rule blocks_reach_le)
  have u: "unat (word_of_nat (length b) :: 32 word) = length b" using b(2) by (simp add: unat_of_nat)
  have "19 + 4 * i + blocks_size (take i blocks) + 4 + length b < usize_limit" "255 * length b < usize_limit"
    "blocks_reach block_size (take i blocks) + min (255 * length b) block_size < usize_limit"
    using s r assms(3,4) Suc.prems b(2) by (simp_all add: min_def)
  then show ?case
    using Suc b s assms(1) [of i] assms(3) bt u
    by (simp add: rfold_append scan_block_def checked_add_def checked_mul_def kxzip_constants take_Suc_conv_app_nth
      mult.commute [of "length b" 255] Let_def split: if_splits)
qed (simp add: KXZIP_HEADER_LENGTH_def)

lemma copy_blocks_exact:
  assumes "\<And>j. j < length blocks \<Longrightarrow> lz4_block_size footer j = Inr (of_nat (length (fst (blocks ! j))))"
    "\<forall>(block, tag)\<in>set blocks. length block < 4294967296"
    "blocks_size blocks + 8 < usize_limit" "i \<le> length blocks"
  shows "rfold (copy_block (KXZIP_MAGIC @ concat (map fst blocks) @ rest) footer) [0..<i] (header, KXZIP_HEADER_LENGTH)
    = Inr (header @ concat (map (\<lambda>block. le_bytes 4 (length block) @ block) (map fst (take i blocks))),
           8 + blocks_size (take i blocks))"
  using assms(4)
proof (induction i)
  case (Suc i)
  obtain b t where bt: "blocks ! i = (b, t)" by fastforce
  have b: "length b < 4294967296" using assms(2) bt Suc.prems by (metis (mono_tags, lifting) case_prodD nth_mem Suc_le_lessD)
  have u: "unat (word_of_nat (length b) :: 32 word) = length b" using b by (simp add: unat_of_nat)
  have s: "blocks_size (take i blocks) + length b + 8 < usize_limit"
    using blocks_size_split [of i blocks] Suc.prems bt assms(3) by simp
  have "concat (map fst blocks) = concat (map fst (take i blocks)) @ b @ concat (map fst (drop (Suc i) blocks))"
    using arg_cong [OF id_take_nth_drop [of i blocks], of "\<lambda>x. concat (map fst x)"] Suc.prems bt by simp
  then have "get_range (KXZIP_MAGIC @ concat (map fst blocks) @ rest) (8 + blocks_size (take i blocks))
      (8 + blocks_size (take i blocks) + length b) = Some b"
    using get_range_append [of "KXZIP_MAGIC @ concat (map fst (take i blocks))" b "concat (map fst (drop (Suc i) blocks)) @ rest"]
    by (simp add: blocks_size_def)
  then show ?case
    using Suc s assms(1) [of i] bt u
    by (simp add: rfold_append copy_block_def checked_add_def take_Suc_conv_app_nth ac_simps del: le_bytes_numeral)
qed (simp add: KXZIP_HEADER_LENGTH_def)

lemma kxzip_power_of_two: "k \<in> {12..22} \<Longrightarrow> 2 ^ 12 \<le> (2 ^ k :: nat) \<and> 2 ^ k \<le> (2 ^ 22 :: nat) \<and> is_power_of_two (2 ^ k)"
  using power_increasing [of 12 k "2 :: nat"] power_increasing [of k 22 "2 :: nat"]
  by (auto simp: is_power_of_two_def simp del: power_increasing_iff)

lemma kxzip_footer_fields:
  assumes "length head = 8" "length reserved = 8"
  shows "get_range (kxzip_footer head reserved n block_size blocks) 8 16 = Some (le_bytes 8 n)"
    "get_range (kxzip_footer head reserved n block_size blocks) 24 32 = Some (le_bytes 8 block_size)"
    "get_at (kxzip_footer head reserved n block_size blocks) 4 = Some (head ! 4)"
  using assms by (simp_all add: kxzip_footer_def get_range_def get_at_def nth_append del: le_bytes_numeral)

lemma length_kxzip_footer:
  "length head = 8 \<Longrightarrow> length reserved = 8 \<Longrightarrow> \<forall>(block, tag)\<in>set blocks. length tag = 4
     \<Longrightarrow> length (kxzip_footer head reserved n block_size blocks) = 8 * (length blocks + 5)"
  by (simp add: kxzip_footer_def length_kxzip_words del: le_bytes_numeral)

lemma unzip_reframes:
  assumes ok: "kxzip_ok head reserved n block_size blocks"
  shows "unzip lz4 (kxzip_file head reserved n block_size blocks)
    = decode_lz4_frame lz4 (lz4_frame lz4 n block_size (map fst blocks)) n"
proof -
  let ?footer = "kxzip_footer head reserved n block_size blocks" and ?file = "kxzip_file head reserved n block_size blocks"
  let ?start = "8 + blocks_size blocks"
  note o = ok [unfolded kxzip_ok_def]
  have tags: "\<forall>(block, tag)\<in>set blocks. length tag = 4" using o by auto
  have foot: "length ?footer = 8 * (length blocks + 5)" using o tags by (intro length_kxzip_footer) auto
  have bytes: "?file = KXZIP_MAGIC @ concat (map fst blocks) @ ?footer" by (simp add: kxzip_file_def)
  have len: "length ?file = ?start + 8 * (length blocks + 5)" by (simp add: bytes foot blocks_size_def)
  have small: "?start + 8 * (length blocks + 5) < 2 ^ 56" using o len by simp
  have drop: "drop ?start ?file = ?footer" by (simp add: bytes blocks_size_def)
  obtain k where "k \<in> {12..22}" "block_size = 2 ^ k" using o by blast
  then have size: "block_size \<ge> 2 ^ 12" "block_size \<le> 2 ^ 22" "is_power_of_two block_size"
    using kxzip_power_of_two [of k] by simp_all
  have reach: "n \<le> blocks_reach block_size blocks" using o by (simp add: blocks_reach_def)
  have n: "n < 256 ^ 8" using reach blocks_reach_le [of block_size blocks] small by simp
  have b: "block_size < 256 ^ 8" using size(2) by simp
  have count: "kxzip_footer_length (length blocks) = Inr (8 * (length blocks + 5))"
    using small by (simp add: kxzip_footer_length_def checked_add_def checked_mul_def kxzip_constants)
  have magic: "starts_with ?file KXZIP_MAGIC" by (simp add: starts_with_def bytes)
  have word: "lz4_block_size ?footer j = Inr (of_nat (length (fst (blocks ! j))))" if "j < length blocks" for j
    using lz4_block_size_word [of blocks "head @ le_bytes 8 n @ reserved @ le_bytes 8 block_size" j] o small that
    by (fastforce simp: kxzip_footer_def simp del: le_bytes_numeral)
  have blocks: "\<forall>(block, tag)\<in>set blocks. block \<noteq> [] \<and> length block < 4294967296"
    "\<forall>(block, tag)\<in>set blocks. length block < 4294967296" using o by auto
  have scan: "rfold (scan_block ?footer ?start block_size) [0..<length blocks]
      \<lparr>frame_capacity = 19, reachable_unzipped_size = 0, has_empty_block = False, block_start = 8\<rparr>
    = Inr \<lparr>frame_capacity = 19 + 4 * length blocks + blocks_size blocks,
        reachable_unzipped_size = blocks_reach block_size blocks, has_empty_block = False, block_start = ?start\<rparr>"
    using scan_blocks_exact [OF word blocks(1) refl _ le_refl, of block_size] small by (simp add: KXZIP_HEADER_LENGTH_def)
  have copy: "rfold (copy_block ?file ?footer) [0..<length blocks] (header, 8)
    = Inr (header @ concat (map (\<lambda>block. le_bytes 4 (length block) @ block) (map fst blocks)), ?start)" for header
    using copy_blocks_exact [OF word blocks(2) _ le_refl, of ?footer header] small
    by (simp add: KXZIP_HEADER_LENGTH_def bytes del: le_bytes_numeral)
  have tail: "get_from ?file ?start = Some ?footer" using len drop by (simp add: get_from_def)
  have fields: "get_range ?footer 8 16 = Some (le_bytes 8 n)" "get_range ?footer 24 32 = Some (le_bytes 8 block_size)"
    "get_at ?footer 4 = Some 4" using kxzip_footer_fields [of head reserved n block_size blocks] o by simp_all
  have kx: "le_nat (le_bytes 8 n) = n" "le_nat (le_bytes 8 block_size) = block_size" "le_nat (le_bytes 8 (length blocks)) = length blocks"
    using n b small by (simp_all add: le_nat_le_bytes_exact del: le_bytes_numeral)
  have "unzip_lz4 lz4 ?file ?start (length blocks) = decode_lz4_frame lz4 (lz4_frame lz4 n block_size (map fst blocks)) n"
    using magic count tail fields scan copy kx size reach
    by (simp add: unzip_lz4_def foot kxzip_usize_def lz4_frame_def KXZIP_HEADER_LENGTH_def del: le_bytes_numeral)
  moreover have "drop (length ?file - 8) ?file = le_bytes 8 (length blocks)"
    by (simp add: bytes kxzip_footer_def del: le_bytes_numeral)
  moreover have "get_at ?file (?start + 4) = Some 4"
    using kxzip_footer_fields(3) [of head reserved n block_size blocks] o
    by (simp add: bytes blocks_size_def get_at_def nth_append split: if_splits)
  ultimately show ?thesis
    using small len magic count kx
    by (simp add: unzip_def checked_sub_def checked_add_def kxzip_usize_def kxzip_constants(2,3) del: le_bytes_numeral)
qed

text \<open>A decoder that delivers its content in chunks and then ends; nothing interrupts reads from memory.\<close>

definition decodes_to :: "lz4_codec \<Rightarrow> bytes \<Rightarrow> bytes \<Rightarrow> bool" where
  "decodes_to lz4 frame content \<longleftrightarrow>
     (\<exists>chunks. lz4_output lz4 frame = map Chunk chunks \<and> [] \<notin> set chunks \<and> concat chunks = content)
     \<and> lz4_position lz4 frame = length frame"

lemma read_chunks:
  assumes "[] \<notin> set chunks" "n = length (concat chunks)"
  shows "read_to_limit n (map Chunk chunks) = (None, concat chunks, [])"
  using assms
proof (induction chunks arbitrary: n)
  case (Cons c chunks)
  then show ?case by (auto simp: read_to_limit.simps [of "length c + length (concat chunks)"])
qed (simp add: read_to_limit.simps)

lemma decode_lz4_frame_content:
  assumes "decodes_to lz4 frame content" "length content = n"
  shows "decode_lz4_frame lz4 frame n = Inr content"
  using assms by (auto simp: decodes_to_def decode_lz4_frame_def read_exact_def read_chunks)

text \<open>
  C23: a well-formed Kxzip file is unpacked to what the LZ4 decoder makes of the frame with the same
  blocks, the same declared size and the smallest block descriptor that encloses the block size.
\<close>
theorem unzip_decodes_blocks:
  assumes "kxzip_ok head reserved (length content) block_size blocks"
    and "decodes_to lz4 (lz4_frame lz4 (length content) block_size (map fst blocks)) content"
  shows "unzip lz4 (kxzip_file head reserved (length content) block_size blocks) = Inr content"
  using unzip_reframes [OF assms(1)] decode_lz4_frame_content [OF assms(2) refl] by simp

definition example_lz4 :: lz4_codec where
  "example_lz4 = \<lparr>lz4_output = (\<lambda>frame. [Chunk [97, 98], Chunk [99]]), lz4_position = length, xxh32 = (\<lambda>bs. 0)\<rparr>"

theorem unzip_decodes_blocks_witness:
  "unzip example_lz4 (kxzip_file [0, 0, 0, 0, 4, 0, 0, 0] (replicate 8 0) 3 131072 [([48, 97, 98, 99], [0, 0, 0, 0])])
     = Inr [97, 98, 99]"
proof -
  have "kxzip_ok [0, 0, 0, 0, 4, 0, 0, 0] (replicate 8 0) (length [97, 98, 99 :: byte]) 131072 [([48, 97, 98, 99], [0, 0, 0, 0])]"
    by (auto simp: kxzip_ok_def kxzip_file_def kxzip_footer_def kxzip_words_def intro!: bexI [of _ 17])
  moreover have "decodes_to example_lz4 frame [97, 98, 99]" for frame
    unfolding decodes_to_def by (auto simp: example_lz4_def intro!: exI [of _ "[[97, 98], [99]]"])
  ultimately show ?thesis using unzip_decodes_blocks [of _ _ "[97, 98, 99]"] by (simp add: numeral_3_eq_3)
qed

end
