(* ===== verification/Utility.thy ===== *)
theory Utility
  imports FileIo NativeDto
begin

text \<open>
  The utilities of the Node binding (\<open>bindings/napi-xqdb/src/utility.rs\<close>): the functions JavaScript calls
  on its own thread, each of which takes a snapshot of its arguments and makes a task, and the
  computation of a task on a thread of the pool.

  A panic is caught around the computation and becomes the internal error; \<open>from_xqdb\<close> gives it that
  code where it arises.
\<close>

section \<open>Operations\<close>

definition UTILITY_SNAPSHOT_LIMIT :: nat where "UTILITY_SNAPSHOT_LIMIT = 64 * 1024 * 1024"

datatype utility_operation =
    Ready "native_result option"
  | ReadBinary bytes symbol_encoding
  | Serialize bytes bool owned_value
  | DeserializeValue bytes symbol_encoding value_mode
  | DeserializeIpc bytes symbol_encoding value_mode
  | QValueBytes bytes
  | QValueAtom byte bytes
  | QValueList "owned_value list"
  | QValueDictionary owned_value owned_value
  | QValueNative owned_value

text \<open>What a task depends on: the platform, the file system and the libraries.\<close>

record utility_env =
  env_windows :: bool
  env_fs :: file_system
  env_lz4 :: lz4_codec
  env_ext :: externals
  env_lib :: libraries

section \<open>Paths\<close>

definition is_windows_remote_or_device_path :: "bytes \<Rightarrow> bool" where
  "is_windows_remote_or_device_path path \<longleftrightarrow>
     (length path \<ge> 2 \<and> path ! 0 \<in> {92, 47} \<and> path ! 1 \<in> {92, 47})
     \<or> starts_with path (ascii [CHR 0x5C, CHR ''?'', CHR ''?'', CHR 0x5C])
     \<or> starts_with path (ascii ''/??/'')"

definition validate_read_binary_path :: "bool \<Rightarrow> bytes \<Rightarrow> unit nresult" where
  "validate_read_binary_path windows path =
     (if windows \<and> is_windows_remote_or_device_path path then Inl conversion else Inr ())"

section \<open>Helpers\<close>

definition ready_operation :: "native_error \<Rightarrow> utility_operation" where
  "ready_operation e = Ready (Some (result_failure (native_code e)))"

definition parse_message_type :: "bytes \<Rightarrow> msg_type nresult" where
  "parse_message_type v =
     (if v = ascii ''async'' then Inr Async
      else if v = ascii ''sync'' then Inr Sync
      else if v = ascii ''response'' then Inr Response
      else Inl conversion)"

fun message_type_name :: "msg_type \<Rightarrow> bytes" where
  "message_type_name Async = ascii ''async''"
| "message_type_name Sync = ascii ''sync''"
| "message_type_name Response = ascii ''response''"

fun require_qvalue :: "k \<Rightarrow> qvalue nresult" where
  "require_qvalue (KQValue q) = Inr q"
| "require_qvalue _ = Inl conversion"

definition require_qvalues :: "k list \<Rightarrow> qvalue list nresult" where
  "require_qvalues vs = rmap require_qvalue vs"

definition qvalue_from_native :: "k \<Rightarrow> qvalue nresult" where
  "qvalue_from_native v =
     (case v of
        KQValue q \<Rightarrow> Inr q
      | _ \<Rightarrow>
          rbind (from_xqdb (generate_j6_ipc_msg Response False v)) (\<lambda>frame.
          if length frame < 8 then Inl (Coded CODE_INTERNAL)
          else from_xqdb (from_owned_bytes (drop 8 frame))))"

definition qvalue_result :: "libraries \<Rightarrow> qvalue nresult \<Rightarrow> native_result" where
  "qvalue_result lib r = from_result (rbind r (\<lambda>q. rbind (k_into_native lib (KQValue q)) (\<lambda>n. Inr (Some n))))"

section \<open>Computing a task\<close>

definition run_operation :: "utility_env \<Rightarrow> utility_operation \<Rightarrow> native_result" where
  "run_operation env operation =
     (let lib = env_lib env in
      case operation of
        Ready result \<Rightarrow> (case result of Some r \<Rightarrow> r | None \<Rightarrow> result_failure CODE_INTERNAL)
      | ReadBinary path encoding \<Rightarrow>
          from_result (rbind (validate_read_binary_path (env_windows env) path) (\<lambda>_.
            rbind (from_xqdb (read_j6_binary_table (env_fs env) (env_lz4 env) (env_ext env) path encoding)) (\<lambda>df.
            rbind (k_into_native lib (KDataFrame df)) (\<lambda>n. Inr (Some n)))))
      | Serialize kind enable_compression v \<Rightarrow>
          from_result (rbind (parse_message_type kind) (\<lambda>kind.
            rbind (into_k lib v) (\<lambda>v.
            rbind (from_xqdb (generate_j6_ipc_msg kind enable_compression v)) (\<lambda>bs.
            rbind (k_into_native lib (KCharVector bs)) (\<lambda>n. Inr (Some n))))))
      | DeserializeValue bs encoding mode \<Rightarrow>
          from_result (rbind (from_xqdb (deserialize_j6 (env_ext env) bs encoding mode)) (\<lambda>v.
            rbind (k_into_native lib v) (\<lambda>n. Inr (Some n))))
      | DeserializeIpc bs encoding mode \<Rightarrow>
          (case rbind (from_xqdb (deserialize_j6_ipc_msg (env_ext env) bs encoding mode)) (\<lambda>(kind, v).
                  rbind (k_into_native lib v) (\<lambda>n. Inr (message_type_name kind, n))) of
             Inr (kind, n) \<Rightarrow> result_success_with_message kind n
           | Inl e \<Rightarrow> result_failure (native_code e))
      | QValueBytes bs \<Rightarrow> qvalue_result lib (from_xqdb (from_bytes bs))
      | QValueAtom kind payload \<Rightarrow> qvalue_result lib (from_xqdb (qvalue_atom kind payload))
      | QValueList vs \<Rightarrow>
          qvalue_result lib (rbind (native_values_into_k lib vs) (\<lambda>ks.
            rbind (require_qvalues ks) (\<lambda>qs. from_xqdb (qvalue_list qs))))
      | QValueDictionary keys vs \<Rightarrow>
          qvalue_result lib (rbind (rbind (into_k lib keys) require_qvalue) (\<lambda>keys.
            rbind (rbind (into_k lib vs) require_qvalue) (\<lambda>vs. from_xqdb (qvalue_dictionary keys vs))))
      | QValueNative v \<Rightarrow> qvalue_result lib (rbind (into_k lib v) qvalue_from_native))"

text \<open>\<open>compute\<close> takes the operation out of the task: its result, and what the task holds afterwards.\<close>

definition compute :: "utility_env \<Rightarrow> utility_operation \<Rightarrow> native_result \<times> utility_operation" where
  "compute env operation = (run_operation env operation, Ready None)"

section \<open>The functions JavaScript calls\<close>

definition read_binary6 :: "bytes \<Rightarrow> bytes option \<Rightarrow> utility_operation" where
  "read_binary6 path encoding =
     (case parse_symbol_encoding encoding of
        Some enc \<Rightarrow> ReadBinary path enc
      | None \<Rightarrow> ready_operation conversion)"

definition serialize_as_ipc_bytes6 :: "'v node \<Rightarrow> libraries \<Rightarrow> bytes \<Rightarrow> bool \<Rightarrow> 'v \<Rightarrow> utility_operation" where
  "serialize_as_ipc_bytes6 nd lib kind enable_compression v =
     (case snapshot_native_value nd lib v of
        Inr ov \<Rightarrow> Serialize kind enable_compression ov
      | Inl e \<Rightarrow> ready_operation e)"

definition decoder_operation ::
  "bytes option \<Rightarrow> bool option \<Rightarrow> (symbol_encoding \<Rightarrow> value_mode \<Rightarrow> utility_operation) \<Rightarrow> utility_operation" where
  "decoder_operation encoding lossless operation =
     (case parse_symbol_encoding encoding of
        Some enc \<Rightarrow> operation enc (if lossless = Some True then Lossless else Native)
      | None \<Rightarrow> ready_operation conversion)"

definition deserialize_value6 :: "bytes \<Rightarrow> bytes option \<Rightarrow> bool option \<Rightarrow> utility_operation" where
  "deserialize_value6 body encoding lossless = decoder_operation encoding lossless (DeserializeValue body)"

definition deserialize_ipc_bytes6 :: "bytes \<Rightarrow> bytes option \<Rightarrow> bool option \<Rightarrow> utility_operation" where
  "deserialize_ipc_bytes6 frame encoding lossless = decoder_operation encoding lossless (DeserializeIpc frame)"

definition qvalue_from_bytes :: "bytes \<Rightarrow> utility_operation" where
  "qvalue_from_bytes bs = QValueBytes bs"

definition qvalue_atom_task :: "f64 \<Rightarrow> bytes \<Rightarrow> utility_operation" where
  "qvalue_atom_task kind payload =
     (if f64_integer_within 0 255 kind then QValueAtom (word_of_int (f64_trunc kind)) payload
      else ready_operation conversion)"

definition qvalue_list_task :: "'v node \<Rightarrow> libraries \<Rightarrow> 'v \<Rightarrow> nat \<Rightarrow> utility_operation" where
  "qvalue_list_task nd lib arr len =
     (case snapshot_native_value_list nd lib arr len UTILITY_SNAPSHOT_LIMIT of
        Inr (vs, _) \<Rightarrow> QValueList vs
      | Inl e \<Rightarrow> ready_operation e)"

definition qvalue_dictionary_task :: "'v node \<Rightarrow> libraries \<Rightarrow> 'v \<Rightarrow> 'v \<Rightarrow> utility_operation" where
  "qvalue_dictionary_task nd lib keys vs =
     (case rbind (snapshot_native_value nd lib keys) (\<lambda>keys.
             rbind (snapshot_native_value nd lib vs) (\<lambda>vs. Inr (QValueDictionary keys vs))) of
        Inr operation \<Rightarrow> operation
      | Inl e \<Rightarrow> ready_operation e)"

definition qvalue_from_native_value :: "'v node \<Rightarrow> libraries \<Rightarrow> 'v \<Rightarrow> utility_operation" where
  "qvalue_from_native_value nd lib v =
     (case snapshot_native_value nd lib v of Inr ov \<Rightarrow> QValueNative ov | Inl e \<Rightarrow> ready_operation e)"

end
