(* ===== verification/PyConvert.thy ===== *)
theory PyConvert
  imports FileIo NativeDto
begin

text \<open>
  The conversions of the Python binding (\<open>py-xqdb/src/connector.rs\<close>, with the exceptions of
  \<open>error.rs\<close>): q atoms built from Python values, Python objects as q values, and q values as Python
  objects.

  The Python interpreter is a parameter, the record \<open>python\<close> over a type of object references: what an
  object is an instance of, its identity, what PyO3 extracts from it, and the calls into Python, each of
  which may raise. The objects a conversion creates are the values of \<open>py_object\<close>.
\<close>

section \<open>Exceptions\<close>

datatype py_error =
    TypeError | ValueError | OverflowError | XqdbError | XqdbIOError | XqdbAuthError | PanicException | Raised

type_synonym 'a presult = "py_error + 'a"

fun py_error_of :: "xqdb_error \<Rightarrow> py_error" where
  "py_error_of (IOError _) = XqdbIOError"
| "py_error_of FailedToConnectErr = XqdbIOError"
| "py_error_of NotConnectedErr = XqdbIOError"
| "py_error_of AuthErr = XqdbAuthError"
| "py_error_of Panicked = PanicException"
| "py_error_of _ = XqdbError"

definition py_result :: "'a xresult \<Rightarrow> 'a presult" where
  "py_result r = (case r of Inl e \<Rightarrow> Inl (py_error_of e) | Inr x \<Rightarrow> Inr x)"

section \<open>Python objects\<close>

datatype py_class =
    QValueClass | QOperatorClass | QLambdaClass | BoolClass | IntClass | FloatClass | StrClass | BytesClass
  | DateTimeClass | DateClass | TimeClass | DeltaClass | DictClass | ListClass | TupleClass

datatype arrow_value = ArrowFrame "series list" | ArrowColumn series

text \<open>
  An instant is a count of nanoseconds from the epoch, a date a day number, a time its second of the day
  with the nanosecond, as in \<open>K\<close>. \<open>py_int\<close> is the integer of an object that can serve as one.
\<close>

record 'o python =
  py_isinstance :: "'o \<Rightarrow> py_class \<Rightarrow> bool"
  py_is_none :: "'o \<Rightarrow> bool"
  py_identity :: "'o \<Rightarrow> nat"
  py_has_arrow_stream :: "'o \<Rightarrow> bool presult"
  py_import :: "'o \<Rightarrow> arrow_value presult"
  py_qvalue :: "'o \<Rightarrow> qvalue presult"
  py_operator :: "'o \<Rightarrow> qoperator presult"
  py_lambda :: "'o \<Rightarrow> qlambda presult"
  py_bool :: "'o \<Rightarrow> bool presult"
  py_int :: "'o \<Rightarrow> int presult"
  py_float :: "'o \<Rightarrow> f64 presult"
  py_str :: "'o \<Rightarrow> bytes presult"
  py_bytes :: "'o \<Rightarrow> bytes"
  py_bytes_attribute :: "'o \<Rightarrow> 'o option presult"
  py_nanosecond_attribute :: "'o \<Rightarrow> 'o option presult"
  py_tzinfo :: "'o \<Rightarrow> 'o option"
  py_utcoffset :: "'o \<Rightarrow> 'o \<Rightarrow> 'o presult"
  py_without_tzinfo :: "'o \<Rightarrow> 'o presult"
  py_astimezone_utc :: "'o \<Rightarrow> 'o presult"
  py_naive_datetime :: "'o \<Rightarrow> int presult"
  py_utc_datetime :: "'o \<Rightarrow> int presult"
  py_date :: "'o \<Rightarrow> int presult"
  py_time :: "'o \<Rightarrow> (nat \<times> nat) presult"
  py_delta :: "'o \<Rightarrow> int presult"
  py_dict_items :: "'o \<Rightarrow> ('o \<times> 'o) list"
  py_items :: "'o \<Rightarrow> 'o list"
  py_iter :: "'o \<Rightarrow> 'o presult list presult"
  py_to_arrow_inputs :: "'o \<Rightarrow> 'o presult"

text \<open>PyO3 extracts a machine integer from an integer in its range and raises otherwise.\<close>

definition extract_int :: "'o python \<Rightarrow> int \<Rightarrow> int \<Rightarrow> 'o \<Rightarrow> int presult" where
  "extract_int py minimum maximum obj =
     rbind (py_int py obj) (\<lambda>i. if minimum \<le> i \<and> i \<le> maximum then Inr i else Inl OverflowError)"

abbreviation extract_i64 :: "'o python \<Rightarrow> 'o \<Rightarrow> int presult" where
  "extract_i64 py \<equiv> extract_int py (-9223372036854775808) 9223372036854775807"

abbreviation extract_i32 :: "'o python \<Rightarrow> 'o \<Rightarrow> int presult" where
  "extract_i32 py \<equiv> extract_int py (-2147483648) 2147483647"

section \<open>Atoms\<close>

definition atom_kind_names :: "(bytes \<times> byte) list" where
  "atom_kind_names =
     [(ascii ''boolean'', 1), (ascii ''bool'', 1), (ascii ''guid'', 2), (ascii ''byte'', 4), (ascii ''short'', 5),
      (ascii ''int'', 6), (ascii ''long'', 7), (ascii ''real'', 8), (ascii ''float'', 9), (ascii ''char'', 10),
      (ascii ''symbol'', 11), (ascii ''timestamp'', 12), (ascii ''month'', 13), (ascii ''date'', 14),
      (ascii ''datetime'', 15), (ascii ''timespan'', 16), (ascii ''minute'', 17), (ascii ''second'', 18),
      (ascii ''time'', 19)]"

definition parse_atom_kind :: "'o python \<Rightarrow> 'o \<Rightarrow> byte presult" where
  "parse_atom_kind py kind =
     rbind
       (if py_isinstance py kind BoolClass then Inl TypeError
        else (case py_str py kind of
            Inr name \<Rightarrow> ok_or (map_of atom_kind_names name) ValueError
          | Inl _ \<Rightarrow>
              (case extract_i64 py kind of
                 Inl _ \<Rightarrow> Inl TypeError
               | Inr numeric \<Rightarrow> if 0 \<le> numeric \<and> numeric \<le> 255 then Inr (word_of_int numeric) else Inl ValueError)))
       (\<lambda>parsed. if \<not> (1 \<le> parsed \<and> parsed \<le> 19) \<or> parsed = 3 then Inl ValueError else Inr parsed)"

definition hex_digit :: "byte \<Rightarrow> byte option" where
  "hex_digit c =
     (if 48 \<le> c \<and> c \<le> 57 then Some (c - 48)
      else if 97 \<le> c \<and> c \<le> 102 then Some (c - 87)
      else if 65 \<le> c \<and> c \<le> 70 then Some (c - 55)
      else None)"

text \<open>\<open>u8::from_str_radix\<close> of two characters in base 16: a plus sign may stand in front of the digits.\<close>

definition from_str_radix_16 :: "byte \<Rightarrow> byte \<Rightarrow> byte option" where
  "from_str_radix_16 a b =
     (if a = 43 then hex_digit b
      else Option.bind (hex_digit a) (\<lambda>h. Option.bind (hex_digit b) (\<lambda>l. Some (16 * h + l))))"

fun hex_bytes :: "bytes \<Rightarrow> bytes option" where
  "hex_bytes (a # b # rest) =
     Option.bind (from_str_radix_16 a b) (\<lambda>x. Option.bind (hex_bytes rest) (\<lambda>xs. Some (x # xs)))"
| "hex_bytes _ = Some []"

definition parse_guid_bytes :: "'o python \<Rightarrow> 'o \<Rightarrow> bytes presult" where
  "parse_guid_bytes py v =
     (if py_isinstance py v BytesClass then
        (if length (py_bytes py v) \<noteq> 16 then Inl ValueError else Inr (py_bytes py v))
      else (case py_str py v of
          Inr text \<Rightarrow>
            if length text \<noteq> 32 \<and> length text \<noteq> 36 then Inl ValueError
            else (let compact = filter (\<lambda>c. c \<noteq> 45) text in
              if length compact \<noteq> 32 \<or> list_ex (\<lambda>c. c \<ge> 128) compact then Inl ValueError
              else ok_or (hex_bytes compact) ValueError)
        | Inl _ \<Rightarrow>
            rbind (py_bytes_attribute py v) (\<lambda>attribute.
            case attribute of
              Some a \<Rightarrow> if py_isinstance py a BytesClass \<and> length (py_bytes py a) = 16 then Inr (py_bytes py a) else Inl TypeError
            | None \<Rightarrow> Inl TypeError)))"

definition null_atom_payload :: "byte \<Rightarrow> bytes presult" where
  "null_atom_payload kind =
     (if kind \<in> {1, 4} then Inr [0]
      else if kind = 2 then Inr (replicate 16 0)
      else if kind = 5 then Inr (le_word (- 32768 :: 16 word))
      else if kind \<in> {6, 13, 14, 17, 18, 19} then Inr (le_word (- 2147483648 :: 32 word))
      else if kind \<in> {7, 12, 16} then Inr (le_word (- 9223372036854775808 :: 64 word))
      else if kind = 8 then Inr (le_word F32_NAN)
      else if kind \<in> {9, 15} then Inr (le_word F64_NAN)
      else if kind = 10 then Inr [32]
      else if kind = 11 then Inr [0]
      else Inl PanicException)"

text \<open>The bytes of a \<open>bytes\<close> or of a \<open>str\<close>.\<close>

definition text_bytes :: "'o python \<Rightarrow> 'o \<Rightarrow> bytes presult" where
  "text_bytes py v =
     (if py_isinstance py v BytesClass then Inr (py_bytes py v)
      else (case py_str py v of Inr text \<Rightarrow> Inr text | Inl _ \<Rightarrow> Inl TypeError))"

definition atom_payload :: "'o python \<Rightarrow> byte \<Rightarrow> 'o \<Rightarrow> bytes presult" where
  "atom_payload py kind v =
     (if py_is_none py v then null_atom_payload kind
      else if py_isinstance py v BoolClass \<and> kind \<noteq> 1 then Inl TypeError
      else if kind = 1 then
        (if \<not> py_isinstance py v BoolClass then Inl TypeError
         else rbind (py_bool py v) (\<lambda>b. Inr [if b then 1 else 0]))
      else if kind = 2 then parse_guid_bytes py v
      else if kind = 4 then rbind (extract_int py 0 255 v) (\<lambda>i. Inr [word_of_int i])
      else if kind = 5 then rbind (extract_int py (-32768) 32767 v) (\<lambda>i. Inr (le_word (word_of_int i :: 16 word)))
      else if kind = 6 then rbind (extract_i32 py v) (\<lambda>i. Inr (le_word (word_of_int i :: 32 word)))
      else if kind = 7 then rbind (extract_i64 py v) (\<lambda>i. Inr (le_word (word_of_int i :: 64 word)))
      else if kind = 8 then rbind (py_float py v) (\<lambda>number.
        let real = f32_of_f64 number in
        if f64_is_finite number \<and> \<not> f32_is_finite real then Inl ValueError else Inr (le_word real))
      else if kind = 9 then rbind (py_float py v) (\<lambda>number. Inr (le_word number))
      else if kind = 10 then rbind (text_bytes py v) (\<lambda>bs. if length bs \<noteq> 1 then Inl ValueError else Inr bs)
      else if kind = 11 then rbind (text_bytes py v) (\<lambda>bs. if 0 \<in> set bs then Inl ValueError else Inr (bs @ [0]))
      else if kind \<in> {12, 16} then rbind (extract_i64 py v) (\<lambda>i. Inr (le_word (word_of_int i :: 64 word)))
      else if kind \<in> {13, 14, 17, 18, 19} then rbind (extract_i32 py v) (\<lambda>i. Inr (le_word (word_of_int i :: 32 word)))
      else if kind = 15 then rbind (py_float py v) (\<lambda>number. Inr (le_word number))
      else Inl PanicException)"

section \<open>From Python to q\<close>

definition MAX_CONVERSION_DEPTH :: nat where "MAX_CONVERSION_DEPTH = 64"
definition MAX_CALL_ARGUMENTS :: nat where "MAX_CALL_ARGUMENTS = 8"
definition MICROSECONDS_PER_SECOND :: int where "MICROSECONDS_PER_SECOND = 1000000"
definition MICROSECONDS_PER_DAY :: int where "MICROSECONDS_PER_DAY = 86400 * MICROSECONDS_PER_SECOND"

text \<open>A naive value is the wall clock as it is; an aware one is resolved by Python.\<close>

definition datetime_instant :: "'o python \<Rightarrow> 'o \<Rightarrow> int presult" where
  "datetime_instant py d =
     (case py_tzinfo py d of
        None \<Rightarrow> py_naive_datetime py d
      | Some tz \<Rightarrow>
          rbind (py_utcoffset py tz d) (\<lambda>offset.
          if py_is_none py offset then rbind (py_without_tzinfo py d) (py_naive_datetime py)
          else rbind (py_astimezone_utc py d) (py_utc_datetime py)))"

definition datetime_to_k :: "'o python \<Rightarrow> 'o \<Rightarrow> k presult" where
  "datetime_to_k py d =
     rbind (datetime_instant py d) (\<lambda>v.
     rbind (py_nanosecond_attribute py d) (\<lambda>attribute.
     rbind (case attribute of
              Some a \<Rightarrow> rbind (extract_i64 py a) (\<lambda>remainder.
                if \<not> (0 \<le> remainder \<and> remainder < 1000) then Inl ValueError else Inr (v + remainder))
            | None \<Rightarrow> Inr v) (\<lambda>v.
     rbind (ok_or (timestamp_nanos_opt v) OverflowError) (\<lambda>nanoseconds.
     if nanoseconds < MIN_Q_TIMESTAMP_UNIX_NANOS then Inl OverflowError else Inr (KDateTime v)))))"

definition time_to_k :: "'o python \<Rightarrow> 'o \<Rightarrow> k presult" where
  "time_to_k py t =
     rbind (py_time py t) (\<lambda>(secs, nanosecond).
     if nanosecond mod 1000000 \<noteq> 0 then Inl ValueError else Inr (KTime secs nanosecond))"

definition delta_to_k :: "'o python \<Rightarrow> 'o \<Rightarrow> k presult" where
  "delta_to_k py d =
     rbind (py_delta py d) (\<lambda>v. rbind (ok_or (checked_i64 v) OverflowError) (\<lambda>_. Inr (KDuration v)))"

text \<open>\<open>IndexMap::insert\<close>: a key that is present keeps its place.\<close>

definition index_map_insert :: "bytes \<Rightarrow> k \<Rightarrow> (bytes \<times> k) list \<Rightarrow> (bytes \<times> k) list" where
  "index_map_insert key v d =
     (if key \<in> fst ` set d then map (\<lambda>(a, x). if a = key then (a, v) else (a, x)) d else d @ [(key, v)])"

text \<open>A conversion with the set of the containers it is inside of, which it changes and restores.\<close>

type_synonym 'o converter = "'o \<Rightarrow> nat set \<Rightarrow> k presult \<times> nat set"

primrec cast_items :: "'o converter \<Rightarrow> 'o list \<Rightarrow> k list \<Rightarrow> nat set \<Rightarrow> k list presult \<times> nat set" where
  "cast_items rec [] values active = (Inr values, active)"
| "cast_items rec (v # vs) values active =
     (case rec v active of
        (Inl e, active') \<Rightarrow> (Inl e, active')
      | (Inr x, active') \<Rightarrow> cast_items rec vs (values @ [x]) active')"

primrec cast_entries ::
  "'o python \<Rightarrow> 'o converter \<Rightarrow> ('o \<times> 'o) list \<Rightarrow> (bytes \<times> k) list \<Rightarrow> nat set \<Rightarrow> (bytes \<times> k) list presult \<times> nat set" where
  "cast_entries py rec [] d active = (Inr d, active)"
| "cast_entries py rec (p # ps) d active =
     (case py_str py (fst p) of
        Inl e \<Rightarrow> (Inl e, active)
      | Inr key \<Rightarrow>
          (case rec (snd p) active of
             (Inl e, active') \<Rightarrow> (Inl e, active')
           | (Inr x, active') \<Rightarrow> cast_entries py rec ps (index_map_insert key x d) active'))"

text \<open>A container is marked while its members are converted.\<close>

definition guarded :: "nat \<Rightarrow> (nat set \<Rightarrow> k presult \<times> nat set) \<Rightarrow> nat set \<Rightarrow> k presult \<times> nat set" where
  "guarded identity convert active =
     (if identity \<in> active then (Inl ValueError, active)
      else (case convert (insert identity active) of (result, active') \<Rightarrow> (result, active' - {identity})))"

definition list_to_k :: "'o python \<Rightarrow> 'o converter \<Rightarrow> 'o \<Rightarrow> nat set \<Rightarrow> k presult \<times> nat set" where
  "list_to_k py rec obj active =
     (case cast_items rec (py_items py obj) [] active of
        (Inl e, active') \<Rightarrow> (Inl e, active') | (Inr values, active') \<Rightarrow> (Inr (KMixedList values), active'))"

definition dict_to_k :: "'o python \<Rightarrow> 'o converter \<Rightarrow> 'o \<Rightarrow> nat set \<Rightarrow> k presult \<times> nat set" where
  "dict_to_k py rec obj active =
     (case cast_entries py rec (py_dict_items py obj) [] active of
        (Inl e, active') \<Rightarrow> (Inl e, active') | (Inr d, active') \<Rightarrow> (Inr (KDict d), active'))"

definition cast_to_k_body :: "'o python \<Rightarrow> 'o converter \<Rightarrow> 'o \<Rightarrow> nat set \<Rightarrow> k presult \<times> nat set" where
  "cast_to_k_body py rec obj active =
     (let is = py_isinstance py obj; pure = (\<lambda>r. (r, active)) in
      if is QValueClass then pure (rbind (py_qvalue py obj) (\<lambda>q. Inr (KQValue q)))
      else if is QOperatorClass then pure (rbind (py_operator py obj) (\<lambda>op. Inr (KOperator op)))
      else if is QLambdaClass then pure (rbind (py_lambda py obj) (\<lambda>l. Inr (KLambda l)))
      else if is BoolClass then pure (rbind (py_bool py obj) (\<lambda>b. Inr (KBoolean b)))
      else if is IntClass then pure (rbind (extract_i64 py obj) (\<lambda>i. Inr (KI64 (word_of_int i))))
      else if is FloatClass then pure (rbind (py_float py obj) (\<lambda>x. Inr (KF64 x)))
      else if is StrClass then pure (rbind (py_str py obj) (\<lambda>s. Inr (KSymbol s)))
      else if is BytesClass then pure (Inr (KCharVector (py_bytes py obj)))
      else (case py_has_arrow_stream py obj of
          Inl e \<Rightarrow> pure (Inl e)
        | Inr arrow \<Rightarrow>
            if arrow then pure (rbind (py_import py obj) (\<lambda>v.
              case v of ArrowColumn s \<Rightarrow> Inr (KSeries s) | ArrowFrame df \<Rightarrow> Inr (KDataFrame df)))
            else if py_is_none py obj then pure (Inr KNull)
            else if is DateTimeClass then pure (datetime_to_k py obj)
            else if is DateClass then pure (rbind (py_date py obj) (\<lambda>d. Inr (KDate d)))
            else if is TimeClass then pure (time_to_k py obj)
            else if is DeltaClass then pure (delta_to_k py obj)
            else if is DictClass then guarded (py_identity py obj) (dict_to_k py rec obj) active
            else if is ListClass \<or> is TupleClass then guarded (py_identity py obj) (list_to_k py rec obj) active
            else pure (Inl TypeError)))"

lemma cast_to_k_body_cong [fundef_cong]:
  assumes "\<And>x a. rec x a = rec' x a" "py = py'" "obj = obj'" "active = active'"
  shows "cast_to_k_body py rec obj active = cast_to_k_body py' rec' obj' active'"
proof -
  have "rec = rec'" by (intro ext) (rule assms(1))
  then show ?thesis using assms(2-4) by simp
qed

function cast_to_k_inner :: "'o python \<Rightarrow> nat \<Rightarrow> 'o converter" where
  "cast_to_k_inner py depth obj active =
     (if depth > MAX_CONVERSION_DEPTH then (Inl ValueError, active)
      else cast_to_k_body py (\<lambda>x a. cast_to_k_inner py (depth + 1) x a) obj active)"
  by pat_completeness auto
termination
  by (relation "measure (\<lambda>(py, depth, obj, active). MAX_CONVERSION_DEPTH + 1 - depth)") auto

declare cast_to_k_inner.simps [simp del]

definition cast_to_k :: "'o python \<Rightarrow> 'o \<Rightarrow> k presult" where
  "cast_to_k py obj = fst (cast_to_k_inner py 0 obj {})"

text \<open>The arguments of a call share the set.\<close>

definition cast_to_k_vec :: "'o python \<Rightarrow> 'o list \<Rightarrow> k list presult" where
  "cast_to_k_vec py args =
     (if length args > MAX_CALL_ARGUMENTS then Inl TypeError
      else fst (cast_items (cast_to_k_inner py 0) args [] {}))"

section \<open>From q to Python\<close>

datatype py_object =
    PyNone
  | PyBool bool
  | PyInt int
  | PyFloat f64
  | PyStr bytes
  | PyBytes bytes
  | PyDateTime int nat nat nat nat nat nat
  | PyDate int nat nat
  | PyTime nat nat nat nat
  | PyDelta int int int
  | PyTuple "py_object list"
  | PyDict "(bytes \<times> py_object) list"
  | PyArrowSeries series
  | PyArrowTable "series list"
  | PyQOperator qoperator
  | PyQLambda qlambda
  | PyQValue qvalue

text \<open>The text of a GUID and the calendar of day numbers, which are third-party code.\<close>

record host =
  host_uuid_text :: "bytes \<Rightarrow> bytes"
  host_civil :: "int \<Rightarrow> int \<times> nat \<times> nat"

definition python_date_parts :: "host \<Rightarrow> int \<Rightarrow> (int \<times> nat \<times> nat) presult" where
  "python_date_parts h day =
     (case host_civil h day of (year, month, d) \<Rightarrow>
        if \<not> (1 \<le> year \<and> year \<le> 9999) then Inl OverflowError else Inr (year, month, d))"

definition python_microseconds :: "nat \<Rightarrow> nat presult" where
  "python_microseconds nanoseconds = (if nanoseconds mod 1000 \<noteq> 0 then Inl ValueError else Inr (nanoseconds div 1000))"

text \<open>The character of a byte, in UTF-8.\<close>

definition char_text :: "byte \<Rightarrow> bytes" where
  "char_text b = (if b < 128 then [b] else [192 + b div 64, 128 + b mod 64])"

definition datetime_to_py :: "host \<Rightarrow> int \<Rightarrow> py_object presult" where
  "datetime_to_py h t =
     (let day = t div NANOS_PER_DAY; nanos = nat (t mod NANOS_PER_DAY); secs = nanos div 1000000000 in
      rbind (python_date_parts h (day + 719163)) (\<lambda>(year, month, d).
      rbind (python_microseconds (nanos mod 1000000000)) (\<lambda>microsecond.
      Inr (PyDateTime year month d (secs div 3600) (secs div 60 mod 60) (secs mod 60) microsecond))))"

definition time_to_py :: "nat \<Rightarrow> nat \<Rightarrow> py_object presult" where
  "time_to_py secs nanosecond =
     rbind (python_microseconds nanosecond) (\<lambda>microsecond.
     Inr (PyTime (secs div 3600) (secs div 60 mod 60) (secs mod 60) microsecond))"

definition duration_to_py :: "int \<Rightarrow> py_object presult" where
  "duration_to_py v =
     rbind (ok_or (checked_i64 v) OverflowError) (\<lambda>nanoseconds.
     if nanoseconds mod 1000 \<noteq> 0 then Inl ValueError
     else
       (let microseconds = nanoseconds div 1000;
            days = microseconds div MICROSECONDS_PER_DAY;
            day_microseconds = microseconds mod MICROSECONDS_PER_DAY
        in rbind (ok_or (checked_i32 days) OverflowError) (\<lambda>days.
           Inr (PyDelta days (day_microseconds div MICROSECONDS_PER_SECOND) (day_microseconds mod MICROSECONDS_PER_SECOND)))))"

function cast_k_to_py_inner :: "host \<Rightarrow> k \<Rightarrow> nat \<Rightarrow> py_object presult" where
  "cast_k_to_py_inner h v depth =
     (if depth > MAX_CONVERSION_DEPTH then Inl ValueError
      else case v of
        KBoolean b \<Rightarrow> Inr (PyBool b)
      | KGuid g \<Rightarrow> Inr (PyStr (host_uuid_text h g))
      | KU8 x \<Rightarrow> Inr (PyInt (uint x))
      | KI16 x \<Rightarrow> Inr (PyInt (sint x))
      | KI32 x \<Rightarrow> Inr (PyInt (sint x))
      | KI64 x \<Rightarrow> Inr (PyInt (sint x))
      | KF32 x \<Rightarrow> Inr (PyFloat (f64_of_f32 x))
      | KF64 x \<Rightarrow> Inr (PyFloat x)
      | KChar x \<Rightarrow> Inr (PyStr (char_text x))
      | KCharVector bs \<Rightarrow> Inr (if utf8_valid bs then PyStr bs else PyBytes bs)
      | KSymbol s \<Rightarrow> Inr (PyStr s)
      | KString s \<Rightarrow> Inr (PyStr s)
      | KDateTime t \<Rightarrow> datetime_to_py h t
      | KDate d \<Rightarrow> rbind (python_date_parts h d) (\<lambda>(year, month, d). Inr (PyDate year month d))
      | KTime secs nanosecond \<Rightarrow> time_to_py secs nanosecond
      | KDuration d \<Rightarrow> duration_to_py d
      | KMixedList vs \<Rightarrow> rbind (rmap (\<lambda>x. cast_k_to_py_inner h x (depth + 1)) vs) (\<lambda>objs. Inr (PyTuple objs))
      | KSeries s \<Rightarrow> Inr (PyArrowSeries s)
      | KDataFrame df \<Rightarrow> Inr (PyArrowTable df)
      | KOperator op \<Rightarrow> Inr (PyQOperator op)
      | KLambda l \<Rightarrow> Inr (PyQLambda l)
      | KQValue q \<Rightarrow> Inr (PyQValue q)
      | KNull \<Rightarrow> Inr PyNone
      | KDict d \<Rightarrow>
          rbind (rmap (\<lambda>(key, x). rbind (cast_k_to_py_inner h x (depth + 1)) (\<lambda>y. Inr (key, y))) d) (\<lambda>es. Inr (PyDict es)))"
  by pat_completeness auto
termination
  by (relation "measure (\<lambda>(h, v, depth). MAX_CONVERSION_DEPTH + 1 - depth)") auto

declare cast_k_to_py_inner.simps [simp del]

definition cast_k_to_py :: "host \<Rightarrow> k \<Rightarrow> py_object presult" where
  "cast_k_to_py h v = cast_k_to_py_inner h v 0"

section \<open>Lossless values from Python\<close>

definition native_qvalue :: "'o python \<Rightarrow> 'o \<Rightarrow> qvalue presult" where
  "native_qvalue py v =
     rbind (py_to_arrow_inputs py v) (\<lambda>converted.
     rbind (cast_to_k py converted) (\<lambda>kv.
     rbind (py_result (generate_j6_ipc_msg Sync False kv)) (\<lambda>frame.
     if length frame < 8 then Inl PanicException else py_result (from_owned_bytes (drop 8 frame)))))"

definition extract_qvalue :: "'o python \<Rightarrow> 'o \<Rightarrow> qvalue presult" where
  "extract_qvalue py v = (if py_isinstance py v QValueClass then py_qvalue py v else native_qvalue py v)"

definition qvalue_new :: "bytes \<Rightarrow> qvalue presult" where
  "qvalue_new body = py_result (from_bytes body)"

definition py_atom :: "'o python \<Rightarrow> 'o \<Rightarrow> 'o \<Rightarrow> qvalue presult" where
  "py_atom py kind v =
     rbind (parse_atom_kind py kind) (\<lambda>kind.
     rbind (atom_payload py kind v) (\<lambda>payload. py_result (qvalue_atom kind payload)))"

primrec collect_qvalues :: "'o python \<Rightarrow> 'o presult list \<Rightarrow> qvalue list \<Rightarrow> qvalue list presult" where
  "collect_qvalues py [] qs = Inr qs"
| "collect_qvalues py (item # items) qs =
     rbind item (\<lambda>v.
     if length qs = 2147483647 then Inl OverflowError
     else rbind (extract_qvalue py v) (\<lambda>q. collect_qvalues py items (qs @ [q])))"

definition py_list :: "'o python \<Rightarrow> 'o \<Rightarrow> qvalue presult" where
  "py_list py values =
     (if py_isinstance py values BytesClass \<or> py_isinstance py values StrClass then Inl TypeError
      else rbind (py_iter py values) (\<lambda>items.
        rbind (collect_qvalues py items []) (\<lambda>qs. py_result (qvalue_list qs))))"

definition py_dictionary :: "'o python \<Rightarrow> 'o \<Rightarrow> 'o \<Rightarrow> qvalue presult" where
  "py_dictionary py keys values =
     rbind (extract_qvalue py keys) (\<lambda>keys.
     rbind (extract_qvalue py values) (\<lambda>values. py_result (qvalue_dictionary keys values)))"

definition py_native :: "'o python \<Rightarrow> 'o \<Rightarrow> qvalue presult" where
  "py_native py v = native_qvalue py v"

end
