(* ===== verification/PyArrow.thy ===== *)
theory PyArrow
  imports PyConvert
begin

text \<open>
  Arrow data at the Python boundary (\<open>py-xqdb/src/arrow.rs\<close>): which Arrow types are imported, the import
  of a stream of batches as a frame, the decision between a series and a table, and the capsule that
  hands a stream over.

  The Arrow arrays, their conversion to a frame and the stacking of frames are library code, the record
  \<open>arrow_library\<close>; the attributes of a Python object are calls that may raise.
\<close>

section \<open>Types\<close>

datatype arrow_leaf =
    NullType | BooleanType | Int8Type | Int16Type | Int32Type | Int64Type | Int128Type | UInt8Type | UInt16Type
  | UInt32Type | UInt64Type | UInt128Type | Float16Type | Float32Type | Float64Type | TimestampType | Date32Type
  | Date64Type | Time32Type | Time64Type | DurationType | IntervalType | BinaryType | FixedSizeBinaryType
  | LargeBinaryType | Utf8Type | LargeUtf8Type | BinaryViewType | Utf8ViewType | MapType | DecimalType
  | Decimal32Type | Decimal64Type | Decimal256Type | ExtensionType | UnknownType | UnionType

datatype arrow_dtype =
    Leaf arrow_leaf
  | ListOf arrow_field
  | FixedSizeListOf arrow_field
  | LargeListOf arrow_field
  | DictionaryOf arrow_dtype
  | StructOf "arrow_field list"
and arrow_field = ArrowField (field_name: bytes) (field_dtype: arrow_dtype) (field_nullable: bool) (field_metadata: "bytes list")

definition supported_leaves :: "arrow_leaf list" where
  "supported_leaves =
     [NullType, BooleanType, Int16Type, Int32Type, Int64Type, UInt8Type, UInt32Type, UInt64Type, Float32Type, Float64Type,
      TimestampType, Date32Type, Date64Type, Time32Type, Time64Type, DurationType, BinaryType, FixedSizeBinaryType,
      LargeBinaryType, Utf8Type, LargeUtf8Type, BinaryViewType, Utf8ViewType]"

definition RESERVED_POLARS_METADATA :: "bytes list" where
  "RESERVED_POLARS_METADATA =
     [ascii ''_PL_ENUM_VALUES'', ascii ''_PL_ENUM_VALUES2'', ascii ''_PL_CATEGORICAL'', ascii ''_PL_CATEGORICAL2'']"

fun validate_import_dtype :: "arrow_dtype \<Rightarrow> unit presult"
  and validate_nested_import_field :: "arrow_field \<Rightarrow> unit presult" where
  "validate_import_dtype (Leaf l) = (if l \<in> set supported_leaves then Inr () else Inl ValueError)"
| "validate_import_dtype (ListOf f) = validate_nested_import_field f"
| "validate_import_dtype (FixedSizeListOf f) = validate_nested_import_field f"
| "validate_import_dtype (LargeListOf f) = validate_nested_import_field f"
| "validate_import_dtype (DictionaryOf d) = validate_import_dtype d"
| "validate_import_dtype (StructOf _) = Inl ValueError"
| "validate_nested_import_field (ArrowField _ dtype _ metadata) =
     (if list_ex (\<lambda>key. key \<in> set RESERVED_POLARS_METADATA) metadata then Inl ValueError
      else validate_import_dtype dtype)"

definition sanitize_top_level_import_field :: "arrow_field \<Rightarrow> arrow_field presult" where
  "sanitize_top_level_import_field f =
     rbind (validate_import_dtype (field_dtype f)) (\<lambda>_.
     Inr (ArrowField (field_name f) (field_dtype f) (field_nullable f) []))"

section \<open>Importing a stream\<close>

record 'a arrow_library =
  is_struct_array :: "'a \<Rightarrow> bool"
  struct_null_rows :: "'a \<Rightarrow> bool"
  struct_fields :: "'a \<Rightarrow> arrow_field list"
  struct_frame :: "arrow_field list \<Rightarrow> 'a \<Rightarrow> series list option"
  empty_struct :: "arrow_field list \<Rightarrow> 'a"
  vstack :: "series list \<Rightarrow> series list \<Rightarrow> series list option"

text \<open>A stream: its schema, which reading it may refuse, and its batches; \<open>None\<close> is a failed one.\<close>

record 'a arrow_stream =
  stream_schema :: "arrow_dtype option"
  stream_batches :: "'a option list"

definition frame_from_struct :: "'a arrow_library \<Rightarrow> 'a \<Rightarrow> series list presult" where
  "frame_from_struct lib a =
     (if struct_null_rows lib a then Inl ValueError
      else rbind (rmap sanitize_top_level_import_field (struct_fields lib a)) (\<lambda>fields.
        ok_or (struct_frame lib fields a) ValueError))"

definition empty_frame :: "'a arrow_library \<Rightarrow> arrow_field list \<Rightarrow> series list presult" where
  "empty_frame lib schema = frame_from_struct lib (empty_struct lib schema)"

primrec import_batches :: "'a arrow_library \<Rightarrow> 'a option list \<Rightarrow> series list option \<Rightarrow> series list option presult" where
  "import_batches lib [] frame = Inr frame"
| "import_batches lib (b # bs) frame =
     rbind (ok_or b ValueError) (\<lambda>a.
     if \<not> is_struct_array lib a then Inl TypeError
     else rbind (frame_from_struct lib a) (\<lambda>batch.
       case frame of
         Some f \<Rightarrow> rbind (ok_or (vstack lib f batch) ValueError) (\<lambda>f'. import_batches lib bs (Some f'))
       | None \<Rightarrow> import_batches lib bs (Some batch)))"

section \<open>Capsules\<close>

definition ARROW_ARRAY_STREAM :: bytes where "ARROW_ARRAY_STREAM = ascii ''arrow_array_stream''"
definition SERIES_MARKER :: bytes where "SERIES_MARKER = ascii ''__xqdb_series__''"

text \<open>A capsule and its stream; \<open>None\<close> is the empty stream, which has no release callback.\<close>

record 'a capsule =
  cap_name :: "bytes option"
  cap_stream :: "'a arrow_stream option"

definition stream_capsule :: "'a arrow_stream \<Rightarrow> 'a capsule" where
  "stream_capsule s = \<lparr>cap_name = Some ARROW_ARRAY_STREAM, cap_stream = Some s\<rparr>"

text \<open>Taking the stream leaves the empty stream behind.\<close>

definition take_stream :: "'a capsule \<Rightarrow> 'a arrow_stream option presult \<times> 'a capsule" where
  "take_stream cap =
     (if cap_name cap \<noteq> Some ARROW_ARRAY_STREAM then (Inl TypeError, cap)
      else (Inr (cap_stream cap), cap\<lparr>cap_stream := None\<rparr>))"

text \<open>The destructor: the streams whose release callback it runs.\<close>

definition drop_stream_capsule :: "'a capsule \<Rightarrow> 'a arrow_stream list" where
  "drop_stream_capsule cap =
     (case cap_name cap of
        None \<Rightarrow> []
      | Some name \<Rightarrow>
          if name = ARROW_ARRAY_STREAM then (case cap_stream cap of Some s \<Rightarrow> [s] | None \<Rightarrow> []) else [])"

definition arrow_c_stream :: "(series list \<Rightarrow> 'a arrow_stream) \<Rightarrow> bool \<Rightarrow> series list \<Rightarrow> 'a capsule presult" where
  "arrow_c_stream frame_stream requested_schema frame =
     (if requested_schema then Inl ValueError else Inr (stream_capsule (frame_stream frame)))"

section \<open>Importing a value\<close>

text \<open>The calls into Python: \<open>__arrow_c_stream__\<close>, whose result may be no capsule, and the series marker.\<close>

record ('o, 'a) arrow_calls =
  call_arrow_c_stream :: "'o \<Rightarrow> 'a capsule option presult"
  has_series_marker :: "'o \<Rightarrow> bool presult"
  series_marker_truthy :: "'o \<Rightarrow> bool presult"

definition import_frame :: "'a arrow_library \<Rightarrow> ('o, 'a) arrow_calls \<Rightarrow> 'o \<Rightarrow> series list presult" where
  "import_frame lib calls v =
     rbind (call_arrow_c_stream calls v) (\<lambda>capsule.
     rbind (ok_or capsule TypeError) (\<lambda>capsule.
     rbind (fst (take_stream capsule)) (\<lambda>s.
     rbind (ok_or (Option.bind s stream_schema) ValueError) (\<lambda>schema.
     rbind (case schema of StructOf fs \<Rightarrow> Inr fs | _ \<Rightarrow> Inl TypeError) (\<lambda>fs.
     rbind (import_batches lib (case s of Some s \<Rightarrow> stream_batches s | None \<Rightarrow> []) None) (\<lambda>frame.
     case frame of Some f \<Rightarrow> Inr f | None \<Rightarrow> empty_frame lib fs))))))"

definition import_value :: "'a arrow_library \<Rightarrow> ('o, 'a) arrow_calls \<Rightarrow> 'o \<Rightarrow> arrow_value presult" where
  "import_value lib calls v =
     rbind (import_frame lib calls v) (\<lambda>frame.
     rbind (has_series_marker calls v) (\<lambda>marked.
     rbind (if marked then series_marker_truthy calls v else Inr False) (\<lambda>is_series.
     if \<not> is_series then Inr (ArrowFrame frame)
     else if length frame \<noteq> 1 then Inl TypeError
     else Inr (ArrowColumn (frame ! 0)))))"

text \<open>The interpreter with this import.\<close>

definition arrow_python :: "'a arrow_library \<Rightarrow> ('o, 'a) arrow_calls \<Rightarrow> 'o python \<Rightarrow> 'o python" where
  "arrow_python lib calls py = py\<lparr>py_import := import_value lib calls\<rparr>"

section \<open>Properties\<close>

lemma arrow_object_imported:
  assumes "py_has_arrow_stream py x = Inr True" "\<And>c. \<not> py_isinstance py x c"
  shows "cast_to_k (arrow_python lib calls py) x =
    rbind (import_frame lib calls x) (\<lambda>frame. rbind (has_series_marker calls x) (\<lambda>marked.
    rbind (if marked then series_marker_truthy calls x else Inr False) (\<lambda>is_series.
    if \<not> is_series then Inr (KDataFrame frame) else if length frame \<noteq> 1 then Inl TypeError else Inr (KSeries (frame ! 0)))))"
  using assms
  by (simp add: cast_to_k_def cast_to_k_inner.simps [of _ 0] cast_to_k_body_def Let_def arrow_python_def import_value_def rbind_assoc
    MAX_CONVERSION_DEPTH_def if_distrib [of "\<lambda>r. rbind r f" for f] cong: if_cong)

text \<open>The release callback of an exported stream runs once, with the capsule or with the reader that took it.\<close>

lemma stream_released_once:
  "case take_stream (stream_capsule s) of (r, cap) \<Rightarrow>
     drop_stream_capsule (stream_capsule s) = [s] \<and> r = Inr (Some s) \<and> drop_stream_capsule cap = []
     \<and> take_stream cap = (Inr None, cap)"
  by (simp add: take_stream_def stream_capsule_def drop_stream_capsule_def)

text \<open>What is imported: the leaves of a type, and the metadata keys of the fields inside it.\<close>

fun dtype_leaves :: "arrow_dtype \<Rightarrow> arrow_leaf option set"
  and field_leaves :: "arrow_field \<Rightarrow> arrow_leaf option set" where
  "dtype_leaves (Leaf l) = {Some l}"
| "dtype_leaves (ListOf f) = field_leaves f"
| "dtype_leaves (FixedSizeListOf f) = field_leaves f"
| "dtype_leaves (LargeListOf f) = field_leaves f"
| "dtype_leaves (DictionaryOf d) = dtype_leaves d"
| "dtype_leaves (StructOf _) = {None}"
| "field_leaves (ArrowField _ d _ _) = dtype_leaves d"

fun nested_metadata :: "arrow_dtype \<Rightarrow> bytes set"
  and field_keys :: "arrow_field \<Rightarrow> bytes set" where
  "nested_metadata (Leaf l) = {}"
| "nested_metadata (ListOf f) = field_keys f"
| "nested_metadata (FixedSizeListOf f) = field_keys f"
| "nested_metadata (LargeListOf f) = field_keys f"
| "nested_metadata (DictionaryOf d) = nested_metadata d"
| "nested_metadata (StructOf _) = {}"
| "field_keys (ArrowField _ d _ m) = set m \<union> nested_metadata d"

lemma validate_import_exact:
  "validate_import_dtype d = (if dtype_leaves d \<subseteq> Some ` set supported_leaves \<and> nested_metadata d \<inter> set RESERVED_POLARS_METADATA = {}
     then Inr () else Inl ValueError)"
  "validate_nested_import_field f = (if field_leaves f \<subseteq> Some ` set supported_leaves \<and> field_keys f \<inter> set RESERVED_POLARS_METADATA = {}
     then Inr () else Inl ValueError)"
proof (induction d and f rule: validate_import_dtype_validate_nested_import_field.induct)
  case (7 n d b m)
  then show ?case by (auto simp: list_ex_iff)
qed auto

end
