(* ===== verification/PyConvertCorrect.thy ===== *)
theory PyConvertCorrect
  imports PyConvert UtilityCorrect
begin

text \<open>
  What the conversions of the Python binding guarantee: the arguments of a call are converted
  independently of each other, cyclic containers are refused, atoms that pass the checks of the binding
  are well formed, and a value handed to Python converts back to itself.
\<close>

section \<open>Containers\<close>

definition restoring :: "'o converter \<Rightarrow> bool" where
  "restoring rec \<longleftrightarrow> (\<forall>x a. rec x a = (fst (rec x a), a))"

lemma restoringD: "restoring rec \<Longrightarrow> snd (rec x a) = a"
  unfolding restoring_def by (metis snd_conv)

lemma restoringE:
  assumes "restoring rec"
  obtains r where "rec x a = (r, a)"
  using assms unfolding restoring_def by blast

lemma cast_items_restores: "restoring rec \<Longrightarrow> snd (cast_items rec vs acc active) = active"
proof (induction vs arbitrary: acc)
  case (Cons v vs)
  obtain r where "rec v active = (r, active)" using Cons.prems by (rule restoringE)
  then show ?case using Cons by (cases r) simp_all
qed simp

lemma cast_entries_restores: "restoring rec \<Longrightarrow> snd (cast_entries py rec ps d active) = active"
proof (induction ps arbitrary: d)
  case (Cons p ps)
  obtain r where "rec (snd p) active = (r, active)" using Cons.prems by (rule restoringE)
  then show ?case using Cons by (cases r) (simp_all split: sum.split)
qed simp

lemma guarded_restores: "(\<And>a. snd (f a) = a) \<Longrightarrow> snd (guarded i f active) = active"
  by (auto simp: guarded_def split: prod.splits) (metis insertE snd_conv, metis insertI2 snd_conv)

lemma list_to_k_restores: "restoring rec \<Longrightarrow> snd (list_to_k py rec obj a) = a"
  using cast_items_restores [of rec "py_items py obj" "[]" a]
  by (cases "cast_items rec (py_items py obj) [] a") (simp add: list_to_k_def split: sum.split)

lemma dict_to_k_restores: "restoring rec \<Longrightarrow> snd (dict_to_k py rec obj a) = a"
  using cast_entries_restores [of rec py "py_dict_items py obj" "[]" a]
  by (cases "cast_entries py rec (py_dict_items py obj) [] a") (simp add: dict_to_k_def split: sum.split)

lemma body_restores: "restoring rec \<Longrightarrow> snd (cast_to_k_body py rec obj active) = active"
  by (simp add: cast_to_k_body_def Let_def guarded_restores list_to_k_restores dict_to_k_restores split: sum.split)

lemma active_restored: "snd (cast_to_k_inner py depth obj active) = active"
proof (induction py depth obj active rule: cast_to_k_inner.induct)
  case (1 py depth obj active)
  show ?case
  proof (cases "depth > MAX_CONVERSION_DEPTH")
    case False
    then have "restoring (cast_to_k_inner py (depth + 1))"
      using 1 unfolding restoring_def by (metis prod.collapse)
    then show ?thesis using False body_restores [of "cast_to_k_inner py (depth + 1)"]
      by (simp add: cast_to_k_inner.simps [of py depth obj active])
  qed (simp add: cast_to_k_inner.simps [of py depth obj active])
qed

lemma restoring_inner: "restoring (cast_to_k_inner py depth)"
  unfolding restoring_def by (metis active_restored prod.collapse)

lemma cast_items_rmap:
  assumes "restoring rec"
  shows "fst (cast_items rec vs acc active) = rbind (rmap (\<lambda>x. fst (rec x active)) vs) (\<lambda>ys. Inr (acc @ ys))"
proof (induction vs arbitrary: acc)
  case (Cons v vs)
  obtain r where "rec v active = (r, active)" using assms by (rule restoringE)
  then show ?case using Cons.IH by (cases r) (simp_all add: rbind_assoc)
qed simp

text \<open>
  C34: the arguments of a call are converted one by one, independently of each other: although the
  conversions share the set of the containers they are inside of, a call with at most eight arguments
  converts exactly when each of them does on its own, to the same values, and the first that fails
  gives its exception. A container that is passed twice is not a cycle.
\<close>
theorem arguments_converted_independently:
  "cast_to_k_vec py args =
     (if length args > MAX_CALL_ARGUMENTS then Inl TypeError else rmap (cast_to_k py) args)"
  using cast_items_rmap [OF restoring_inner [of py 0], of args "[]" "{}"]
  by (cases "rmap (cast_to_k py) args") (auto simp: cast_to_k_vec_def cast_to_k_def [abs_def])

section \<open>Cycles\<close>

text \<open>
  The objects that are converted as containers, and the members they are converted with. A successful
  conversion of an object is a success for its members, inside the object.
\<close>

definition is_container :: "'o python \<Rightarrow> 'o \<Rightarrow> bool" where
  "is_container py x \<longleftrightarrow>
     list_all (\<lambda>c. \<not> py_isinstance py x c) [QValueClass, QOperatorClass, QLambdaClass, BoolClass, IntClass, FloatClass,
       StrClass, BytesClass, DateTimeClass, DateClass, TimeClass, DeltaClass]
     \<and> py_has_arrow_stream py x = Inr False \<and> \<not> py_is_none py x
     \<and> (py_isinstance py x DictClass \<or> py_isinstance py x ListClass \<or> py_isinstance py x TupleClass)"

definition members :: "'o python \<Rightarrow> 'o \<Rightarrow> 'o set" where
  "members py x =
     (if \<not> is_container py x then {}
      else if py_isinstance py x DictClass then snd ` set (py_dict_items py x) else set (py_items py x))"

definition member_rel :: "'o python \<Rightarrow> ('o \<times> 'o) set" where
  "member_rel py = {(x, y). y \<in> members py x}"

definition converts :: "'o python \<Rightarrow> nat \<Rightarrow> nat set \<Rightarrow> 'o \<Rightarrow> bool" where
  "converts py depth active x \<longleftrightarrow> (\<exists>v. fst (cast_to_k_inner py depth x active) = Inr v)"

lemma cast_items_members:
  assumes "restoring rec" "fst (cast_items rec vs acc active) = Inr ys" "x \<in> set vs"
  shows "\<exists>y. fst (rec x active) = Inr y"
  using assms(2,3)
proof (induction vs arbitrary: acc)
  case (Cons v vs)
  obtain r where "rec v active = (r, active)" using assms(1) by (rule restoringE)
  then show ?case using Cons by (cases r) auto
qed simp

lemma cast_entries_members:
  assumes "restoring rec" "fst (cast_entries py rec ps d active) = Inr ys" "p \<in> set ps"
  shows "\<exists>y. fst (rec (snd p) active) = Inr y"
  using assms(2,3)
proof (induction ps arbitrary: d)
  case (Cons q ps)
  obtain r where "rec (snd q) active = (r, active)" using assms(1) by (rule restoringE)
  then show ?case using Cons by (cases r) (auto split: sum.splits)
qed simp

lemma container_body:
  assumes "is_container py x"
  shows "cast_to_k_body py rec x active =
    guarded (py_identity py x) (if py_isinstance py x DictClass then dict_to_k py rec x else list_to_k py rec x) active"
  using assms by (auto simp: is_container_def cast_to_k_body_def Let_def)

lemma converts_container:
  assumes "converts py depth active x" "is_container py x"
  shows "py_identity py x \<notin> active"
  using assms container_body [OF assms(2)]
  by (auto simp: converts_def cast_to_k_inner.simps [of py depth x active] guarded_def split: if_splits)

lemma converts_member:
  assumes c: "converts py depth active x" and m: "(x, y) \<in> member_rel py"
  shows "converts py (depth + 1) (insert (py_identity py x) active) y"
proof -
  let ?rec = "cast_to_k_inner py (depth + 1)" and ?a = "insert (py_identity py x) active"
  have k: "is_container py x" using m by (auto simp: member_rel_def members_def split: if_splits)
  obtain v where "fst ((if py_isinstance py x DictClass then dict_to_k py ?rec x else list_to_k py ?rec x) ?a) = Inr v"
    using c container_body [OF k, of ?rec active]
    by (auto simp: converts_def cast_to_k_inner.simps [of py depth x active] guarded_def split: if_splits prod.splits)
  then show ?thesis
    using m k cast_items_members [OF restoring_inner [of py "depth + 1"], of "py_items py x" "[]" ?a]
      cast_entries_members [OF restoring_inner [of py "depth + 1"], of py "py_dict_items py x" "[]" ?a]
    by (fastforce simp: converts_def member_rel_def members_def list_to_k_def dict_to_k_def split: if_splits prod.splits sum.splits)
qed

lemma converts_reachable:
  assumes "(x, y) \<in> (member_rel py)\<^sup>*" "converts py depth active x"
  shows "\<exists>depth' active'. active \<subseteq> active' \<and> converts py depth' active' y"
  using assms
proof (induction rule: rtrancl_induct)
  case (step y z)
  then obtain depth' active' where "active \<subseteq> active'" "converts py depth' active' y" by blast
  then show ?case using converts_member [OF _ step.hyps(2)] by blast
qed blast

text \<open>
  C33: a container that contains itself, directly or through other containers, is refused, wherever in
  an argument it occurs: the conversion ends with an exception.
\<close>
theorem cyclic_containers_refused:
  assumes "(obj, x) \<in> (member_rel py)\<^sup>*" "(x, x) \<in> (member_rel py)\<^sup>+"
  shows "\<exists>e. cast_to_k py obj = Inl e"
proof (rule ccontr)
  assume "\<nexists>e. cast_to_k py obj = Inl e"
  then have "converts py 0 {} obj" by (cases "cast_to_k py obj") (auto simp: converts_def cast_to_k_def)
  then obtain d a where c: "converts py d a x" using converts_reachable [OF assms(1)] by blast
  obtain y where y: "(x, y) \<in> member_rel py" "(y, x) \<in> (member_rel py)\<^sup>*" using tranclD [OF assms(2)] by blast
  obtain d' a' where "insert (py_identity py x) a \<subseteq> a'" "converts py d' a' x"
    using converts_reachable [OF y(2) converts_member [OF c y(1)]] by blast
  moreover have "is_container py x" using y(1) by (auto simp: member_rel_def members_def split: if_splits)
  ultimately show False using converts_container [of py d' a' x] by blast
qed

section \<open>Atoms\<close>

lemma hex_bytes_length: "hex_bytes cs = Some bs \<Longrightarrow> length bs = length cs div 2"
  by (induction cs arbitrary: bs rule: hex_bytes.induct) (auto simp: bind_eq_Some_conv)

lemma parse_guid_length: "parse_guid_bytes py v = Inr bs \<Longrightarrow> length bs = 16"
  by (auto simp: parse_guid_bytes_def Let_def result_simps dest!: hex_bytes_length split: if_splits sum.splits option.splits)

lemma atom_kinds:
  "1 \<le> c \<and> c \<le> 19 \<and> c \<noteq> 3 \<longrightarrow>
     c \<in> set [1, 2, 4, 5, 6, 7, 8, 9, 10, 11, 12, 13, 14, 15, 16, 17, 18, 19]" for c :: byte
  by (rule byte_cases_upto [of "\<lambda>c. 1 \<le> c \<and> c \<le> 19 \<and> c \<noteq> 3 \<longrightarrow>
    c \<in> set [1, 2, 4, 5, 6, 7, 8, 9, 10, 11, 12, 13, 14, 15, 16, 17, 18, 19]"]) code_simp

lemma atom_payload_shape:
  assumes "atom_payload py c v = Inr p" "1 \<le> c \<and> c \<le> 19 \<and> c \<noteq> 3"
  shows "if c = 11 then \<exists>s. p = s @ [0] \<and> 0 \<notin> set s else length p = K_TYPE_SIZE ! unat c \<and> (c = 1 \<longrightarrow> (\<forall>b\<in>set p. b \<le> 1))"
proof -
  have "c \<in> set [1, 2, 4, 5, 6, 7, 8, 9, 10, 11, 12, 13, 14, 15, 16, 17, 18, 19]" using atom_kinds assms(2) by blast
  then show ?thesis using assms(1)
    unfolding list.set insert_iff empty_iff
  proof (elim disjE)
    assume "c = 2"
    then show ?thesis using assms(1)
      by (auto simp: atom_payload_def null_atom_payload_def K_TYPE_SIZE_def dest!: parse_guid_length split: if_splits)
  qed (auto simp: atom_payload_def null_atom_payload_def K_TYPE_SIZE_def le_word_def rbind_Inr_iff Let_def split: if_splits)
qed

lemma parse_atom_kind_range: "parse_atom_kind py kind = Inr c \<Longrightarrow> 1 \<le> c \<and> c \<le> 19 \<and> c \<noteq> 3"
  by (auto simp: parse_atom_kind_def rbind_Inr_iff split: if_splits)

text \<open>
  An atom whose kind and value pass the checks of the binding is well formed: the constructor of the
  core never refuses it, and the value is the atom of that kind with exactly the payload of the Python
  value, for nulls, numbers, texts and GUIDs alike.
\<close>
theorem python_atom_well_formed:
  assumes "parse_atom_kind py kind = Inr c" "atom_payload py c v = Inr payload" "length payload + 1 < usize_limit"
  shows "\<exists>q. py_atom py kind v = Inr q \<and> qv_bytes q = (0 - c) # payload \<and> qv_type_code q = - int (unat c) \<and> qv_len q = 1"
proof -
  note range = parse_atom_kind_range [OF assms(1)]
  note shape = atom_payload_shape [OF assms(2) range]
  let ?t = "if c = 11 then TSymbol (butlast payload) else TAtom c payload"
  have "qvalue_atom c payload = Inr (value_of ?t)"
    using qvalue_atom_exact [OF assms(3), of c] shape range by (auto split: if_splits)
  moreover have "encode ?t = (0 - c) # payload"
    using shape by (auto split: if_splits)
  moreover have "p_type_code (parsed_of ?t) = - int (unat c)" "p_len (parsed_of ?t) = 1" by simp_all
  ultimately show ?thesis
    using assms(1,2) by (auto simp: py_atom_def py_result_def value_of_def from_validated_def meta_of_def)
qed

section \<open>Values through Python\<close>

text \<open>
  An object reference stands for an object: its classes are the object's, a \<open>bool\<close> being an \<open>int\<close> and a
  \<open>datetime\<close> a \<open>date\<close> in Python, what is extracted from it are the object's fields, and no container
  on the way to a member is the member itself.
\<close>

fun py_classes :: "py_object \<Rightarrow> py_class set" where
  "py_classes (PyBool _) = {BoolClass, IntClass}"
| "py_classes (PyInt _) = {IntClass}"
| "py_classes (PyFloat _) = {FloatClass}"
| "py_classes (PyStr _) = {StrClass}"
| "py_classes (PyBytes _) = {BytesClass}"
| "py_classes (PyDateTime _ _ _ _ _ _ _) = {DateTimeClass, DateClass}"
| "py_classes (PyDate _ _ _) = {DateClass}"
| "py_classes (PyTime _ _ _ _) = {TimeClass}"
| "py_classes (PyDelta _ _ _) = {DeltaClass}"
| "py_classes (PyTuple _) = {TupleClass}"
| "py_classes (PyDict _) = {DictClass}"
| "py_classes (PyQOperator _) = {QOperatorClass}"
| "py_classes (PyQLambda _) = {QLambdaClass}"
| "py_classes (PyQValue _) = {QValueClass}"
| "py_classes _ = {}"

definition is_arrow :: "py_object \<Rightarrow> bool" where
  "is_arrow v = (case v of PyArrowSeries _ \<Rightarrow> True | PyArrowTable _ \<Rightarrow> True | _ \<Rightarrow> False)"

text \<open>The day number of a date.\<close>

type_synonym days = "int \<Rightarrow> nat \<Rightarrow> nat \<Rightarrow> int"

definition wall_clock :: "days \<Rightarrow> int \<Rightarrow> nat \<Rightarrow> nat \<Rightarrow> nat \<Rightarrow> nat \<Rightarrow> nat \<Rightarrow> nat \<Rightarrow> int" where
  "wall_clock days y m d hh mm ss us =
     (days y m d - 719163) * NANOS_PER_DAY + int (hh * 3600 + mm * 60 + ss) * 1000000000 + int us * 1000"

fun fields_agree :: "'o python \<Rightarrow> days \<Rightarrow> 'o \<Rightarrow> py_object \<Rightarrow> bool" where
  "fields_agree py days x (PyBool b) \<longleftrightarrow> py_bool py x = Inr b"
| "fields_agree py days x (PyInt i) \<longleftrightarrow> py_int py x = Inr i"
| "fields_agree py days x (PyFloat f) \<longleftrightarrow> py_float py x = Inr f"
| "fields_agree py days x (PyStr s) \<longleftrightarrow> py_str py x = Inr s"
| "fields_agree py days x (PyBytes bs) \<longleftrightarrow> py_bytes py x = bs"
| "fields_agree py days x (PyDateTime y m d hh mm ss us) \<longleftrightarrow>
     py_tzinfo py x = None \<and> py_nanosecond_attribute py x = Inr None
     \<and> py_naive_datetime py x = Inr (wall_clock days y m d hh mm ss us)"
| "fields_agree py days x (PyDate y m d) \<longleftrightarrow> py_date py x = Inr (days y m d)"
| "fields_agree py days x (PyTime hh mm ss us) \<longleftrightarrow> py_time py x = Inr (hh * 3600 + mm * 60 + ss, us * 1000)"
| "fields_agree py days x (PyDelta d s us) \<longleftrightarrow> py_delta py x = Inr (((d * 86400 + s) * 1000000 + us) * 1000)"
| "fields_agree py days x (PyArrowSeries s) \<longleftrightarrow> py_import py x = Inr (ArrowColumn s)"
| "fields_agree py days x (PyArrowTable df) \<longleftrightarrow> py_import py x = Inr (ArrowFrame df)"
| "fields_agree py days x (PyQOperator op) \<longleftrightarrow> py_operator py x = Inr op"
| "fields_agree py days x (PyQLambda l) \<longleftrightarrow> py_lambda py x = Inr l"
| "fields_agree py days x (PyQValue q) \<longleftrightarrow> py_qvalue py x = Inr q"
| "fields_agree py days x _ \<longleftrightarrow> True"

definition looks_like :: "'o python \<Rightarrow> days \<Rightarrow> 'o \<Rightarrow> py_object \<Rightarrow> bool" where
  "looks_like py days x v \<longleftrightarrow>
     (\<forall>c. py_isinstance py x c \<longleftrightarrow> c \<in> py_classes v) \<and> (py_is_none py x \<longleftrightarrow> v = PyNone)
     \<and> py_has_arrow_stream py x = Inr (is_arrow v) \<and> fields_agree py days x v"

inductive represents :: "'o python \<Rightarrow> days \<Rightarrow> nat set \<Rightarrow> 'o \<Rightarrow> py_object \<Rightarrow> bool" where
  scalar: "looks_like py days x v \<Longrightarrow> (\<And>vs. v \<noteq> PyTuple vs) \<Longrightarrow> (\<And>es. v \<noteq> PyDict es) \<Longrightarrow> represents py days active x v"
| tuple: "looks_like py days x (PyTuple vs) \<Longrightarrow> py_identity py x \<notin> active
    \<Longrightarrow> list_all2 (represents py days (insert (py_identity py x) active)) (py_items py x) vs
    \<Longrightarrow> represents py days active x (PyTuple vs)"
| dict: "looks_like py days x (PyDict es) \<Longrightarrow> py_identity py x \<notin> active
    \<Longrightarrow> list_all2 (\<lambda>p e. py_str py (fst p) = Inr (fst e)
          \<and> represents py days (insert (py_identity py x) active) (snd p) (snd e)) (py_dict_items py x) es
    \<Longrightarrow> represents py days active x (PyDict es)"
monos list_all2_mono

inductive_cases represents_tupleE: "represents py days active x (PyTuple vs)"
inductive_cases represents_dictE: "represents py days active x (PyDict es)"

text \<open>What an object that is not a container converts to.\<close>

definition scalar_k :: "days \<Rightarrow> py_object \<Rightarrow> k presult" where
  "scalar_k days v = (case v of
      PyNone \<Rightarrow> Inr KNull
    | PyBool b \<Rightarrow> Inr (KBoolean b)
    | PyInt i \<Rightarrow> if -9223372036854775808 \<le> i \<and> i \<le> 9223372036854775807 then Inr (KI64 (word_of_int i)) else Inl OverflowError
    | PyFloat f \<Rightarrow> Inr (KF64 f)
    | PyStr s \<Rightarrow> Inr (KSymbol s)
    | PyBytes bs \<Rightarrow> Inr (KCharVector bs)
    | PyDateTime y m d hh mm ss us \<Rightarrow>
        rbind (ok_or (timestamp_nanos_opt (wall_clock days y m d hh mm ss us)) OverflowError) (\<lambda>nanoseconds.
        if nanoseconds < MIN_Q_TIMESTAMP_UNIX_NANOS then Inl OverflowError else Inr (KDateTime (wall_clock days y m d hh mm ss us)))
    | PyDate y m d \<Rightarrow> Inr (KDate (days y m d))
    | PyTime hh mm ss us \<Rightarrow> if us * 1000 mod 1000000 \<noteq> 0 then Inl ValueError else Inr (KTime (hh * 3600 + mm * 60 + ss) (us * 1000))
    | PyDelta d s us \<Rightarrow>
        rbind (ok_or (checked_i64 (((d * 86400 + s) * 1000000 + us) * 1000)) OverflowError) (\<lambda>_.
        Inr (KDuration (((d * 86400 + s) * 1000000 + us) * 1000)))
    | PyArrowSeries s \<Rightarrow> Inr (KSeries s)
    | PyArrowTable df \<Rightarrow> Inr (KDataFrame df)
    | PyQOperator op \<Rightarrow> Inr (KOperator op)
    | PyQLambda l \<Rightarrow> Inr (KLambda l)
    | PyQValue q \<Rightarrow> Inr (KQValue q)
    | _ \<Rightarrow> Inl TypeError)"

lemma scalar_cast:
  assumes "looks_like py days x v" "depth \<le> MAX_CONVERSION_DEPTH" "\<And>vs. v \<noteq> PyTuple vs" "\<And>es. v \<noteq> PyDict es"
  shows "cast_to_k_inner py depth x active = (scalar_k days v, active)"
proof (cases v)
  case (PyTuple vs)
  then show ?thesis using assms(3) by blast
next
  case (PyDict es)
  then show ?thesis using assms(4) by blast
qed (use assms(1,2) in \<open>simp_all add: cast_to_k_inner.simps [of py depth x active] cast_to_k_body_def looks_like_def Let_def
  scalar_k_def is_arrow_def extract_int_def datetime_to_k_def datetime_instant_def time_to_k_def delta_to_k_def\<close>)

function py_exact :: "k \<Rightarrow> bool" where
  "py_exact v \<longleftrightarrow> (case v of
      KBoolean _ \<Rightarrow> True
    | KI64 _ \<Rightarrow> True
    | KF64 _ \<Rightarrow> True
    | KSymbol _ \<Rightarrow> True
    | KCharVector bs \<Rightarrow> \<not> utf8_valid bs
    | KDateTime t \<Rightarrow> MIN_Q_TIMESTAMP_UNIX_NANOS \<le> t \<and> t \<le> 9223372036854775807
    | KDate _ \<Rightarrow> True
    | KTime _ nanosecond \<Rightarrow> nanosecond mod 1000000 = 0
    | KDuration _ \<Rightarrow> True
    | KMixedList vs \<Rightarrow> (\<forall>x\<in>set vs. py_exact x)
    | KSeries _ \<Rightarrow> True
    | KDataFrame _ \<Rightarrow> True
    | KOperator _ \<Rightarrow> True
    | KLambda _ \<Rightarrow> True
    | KQValue _ \<Rightarrow> True
    | KNull \<Rightarrow> True
    | KDict d \<Rightarrow> distinct (map fst d) \<and> (\<forall>p\<in>set d. py_exact (snd p))
    | _ \<Rightarrow> False)"
  by pat_completeness auto
termination
  by (relation "measure size") (use k_size_members in auto)

declare py_exact.simps [simp del]

definition calendar_ok :: "host \<Rightarrow> days \<Rightarrow> bool" where
  "calendar_ok h days \<longleftrightarrow> (\<forall>n y m d. host_civil h n = (y, m, d) \<longrightarrow> 1 \<le> y \<and> y \<le> 9999 \<longrightarrow> days y m d = n)"

lemma hms: "s div 3600 * 3600 + s div 60 mod 60 * 60 + s mod 60 = (s :: nat)"
proof -
  have "s div 3600 = s div 60 div 60" using div_mult2_eq [of s 60 60] by simp
  moreover have "s div 60 div 60 * 60 + s div 60 mod 60 = s div 60" by (rule div_mult_mod_eq)
  moreover have "s div 60 * 60 + s mod 60 = s" by (rule div_mult_mod_eq)
  ultimately show ?thesis by linarith
qed

lemma thousands: "n mod 1000 = 0 \<Longrightarrow> n div 1000 * 1000 = (n :: nat)"
  using div_mult_mod_eq [of n 1000] by simp

lemma nanos_of_day:
  assumes "n mod 1000000000 mod 1000 = 0"
  shows "(n div 1000000000 div 3600 * 3600 + n div 1000000000 div 60 mod 60 * 60 + n div 1000000000 mod 60) * 1000000000
    + n mod 1000000000 div 1000 * 1000 = (n :: nat)"
  unfolding hms thousands [OF assms] by (rule div_mult_mod_eq)

lemma datetime_returns:
  assumes "datetime_to_py h t = Inr v" "calendar_ok h days" "MIN_Q_TIMESTAMP_UNIX_NANOS \<le> t" "t \<le> 9223372036854775807"
  shows "scalar_k days v = Inr (KDateTime t)"
proof -
  let ?n = "nat (t mod NANOS_PER_DAY)"
  obtain y m d where c: "host_civil h (t div NANOS_PER_DAY + 719163) = (y, m, d)" by (metis prod_cases3)
  have v: "1 \<le> y" "y \<le> 9999" "?n mod 1000000000 mod 1000 = 0"
    "v = PyDateTime y m d (?n div 1000000000 div 3600) (?n div 1000000000 div 60 mod 60) (?n div 1000000000 mod 60)
       (?n mod 1000000000 div 1000)"
    using assms(1) c
    by (auto simp: datetime_to_py_def Let_def python_date_parts_def python_microseconds_def rbind_Inr_iff split: if_splits)
  have days: "days y m d = t div NANOS_PER_DAY + 719163" using assms(2) c v(1,2) unfolding calendar_ok_def by blast
  have "int ?n = t mod NANOS_PER_DAY" by (simp add: NANOS_PER_DAY_def)
  then have n: "int (?n div 1000000000 div 3600 * 3600 + ?n div 1000000000 div 60 mod 60 * 60 + ?n div 1000000000 mod 60) * 1000000000
      + int (?n mod 1000000000 div 1000) * 1000 = t mod NANOS_PER_DAY"
    using arg_cong [OF nanos_of_day [OF v(3)], of int] by (simp only: of_nat_add of_nat_mult of_nat_numeral)
  have w: "wall_clock days y m d (?n div 1000000000 div 3600) (?n div 1000000000 div 60 mod 60) (?n div 1000000000 mod 60)
       (?n mod 1000000000 div 1000) = t"
    unfolding wall_clock_def add.assoc [of _ "int _ * 1000000000"] n days by simp
  have "scalar_k days v = rbind (ok_or (timestamp_nanos_opt t) OverflowError) (\<lambda>nanoseconds.
      if nanoseconds < MIN_Q_TIMESTAMP_UNIX_NANOS then Inl OverflowError else Inr (KDateTime t))"
    unfolding v(4) scalar_k_def py_object.case w ..
  then show ?thesis
    using assms(3,4) by (simp add: timestamp_nanos_opt_def checked_i64_def MIN_Q_TIMESTAMP_UNIX_NANOS_def)
qed

lemma duration_returns:
  assumes "duration_to_py t = Inr v"
  shows "scalar_k days v = Inr (KDuration t)"
proof -
  let ?us = "t div 1000"
  let ?d = "?us div MICROSECONDS_PER_DAY" and ?r = "?us mod MICROSECONDS_PER_DAY"
  have t: "checked_i64 t = Some t" "t mod 1000 = 0"
    "v = PyDelta ?d (?r div MICROSECONDS_PER_SECOND) (?r mod MICROSECONDS_PER_SECOND)"
    using assms by (auto simp: duration_to_py_def rbind_Inr_iff Let_def checked_i64_def checked_i32_def split: if_splits)
  have "((?d * 86400 + ?r div MICROSECONDS_PER_SECOND) * 1000000 + ?r mod MICROSECONDS_PER_SECOND) * 1000 = ?us * 1000"
    using div_mult_mod_eq [of ?r MICROSECONDS_PER_SECOND] div_mult_mod_eq [of ?us MICROSECONDS_PER_DAY]
    by (simp add: MICROSECONDS_PER_DAY_def MICROSECONDS_PER_SECOND_def algebra_simps)
  also have "\<dots> = t" using t(2) by (simp add: mod_eq_0_iff_dvd)
  finally show ?thesis using t(1,3) by (simp add: scalar_k_def)
qed

lemma time_returns:
  assumes "time_to_py s n = Inr v" "n mod 1000000 = 0"
  shows "scalar_k days v = Inr (KTime s n)"
proof -
  have "n mod 1000 = 0" "v = PyTime (s div 3600) (s div 60 mod 60) (s mod 60) (n div 1000)"
    using assms(1) by (auto simp: time_to_py_def python_microseconds_def split: if_splits)
  then show ?thesis using assms(2) hms [of s] thousands [of n] by (simp add: scalar_k_def)
qed

lemma list_all2_rmap:
  "rmap f xs = Inr ys \<Longrightarrow> list_all2 (\<lambda>x y. f x = Inr y) xs ys"
  by (induction xs arbitrary: ys) (auto simp: rbind_Inr_iff)

lemma cast_items_all:
  "list_all2 (\<lambda>x v. rec x active = (Inr v, active)) xs vs \<Longrightarrow> cast_items rec xs acc active = (Inr (acc @ vs), active)"
  by (induction arbitrary: acc rule: list_all2_induct) simp_all

lemma cast_entries_all:
  "list_all2 (\<lambda>p e. py_str py (fst p) = Inr (fst e) \<and> rec (snd p) active = (Inr (snd e), active)) ps es
     \<Longrightarrow> distinct (map fst (acc @ es)) \<Longrightarrow> cast_entries py rec ps acc active = (Inr (acc @ es), active)"
proof (induction arbitrary: acc rule: list_all2_induct)
  case (Cons p ps e es)
  then have "index_map_insert (fst e) (snd e) acc = acc @ [e]" by (auto simp: index_map_insert_def)
  then show ?case using Cons by simp
qed simp

lemma container_cast:
  assumes "depth \<le> MAX_CONVERSION_DEPTH" "looks_like py days x v" "py_identity py x \<notin> active"
  shows "v = PyTuple vs \<Longrightarrow> cast_items (cast_to_k_inner py (depth + 1)) (py_items py x) [] (insert (py_identity py x) active)
      = (Inr ks, insert (py_identity py x) active) \<Longrightarrow> cast_to_k_inner py depth x active = (Inr (KMixedList ks), active)"
    and "v = PyDict es \<Longrightarrow> cast_entries py (cast_to_k_inner py (depth + 1)) (py_dict_items py x) [] (insert (py_identity py x) active)
      = (Inr ds, insert (py_identity py x) active) \<Longrightarrow> cast_to_k_inner py depth x active = (Inr (KDict ds), active)"
  using assms
  by (simp_all add: cast_to_k_inner.simps [of py depth x active] cast_to_k_body_def looks_like_def Let_def is_arrow_def guarded_def
    list_to_k_def dict_to_k_def)

lemma represents_scalar:
  "represents py days active x v \<Longrightarrow> (\<And>vs. v \<noteq> PyTuple vs) \<Longrightarrow> (\<And>es. v \<noteq> PyDict es) \<Longrightarrow> looks_like py days x v"
  by (cases rule: represents.cases) auto

lemma scalar_round_trip:
  assumes "cast_k_to_py_inner h v depth = Inr obj" "py_exact v" "calendar_ok h days"
    "\<And>vs. v \<noteq> KMixedList vs" "\<And>d. v \<noteq> KDict d"
  shows "scalar_k days obj = Inr v \<and> (\<forall>vs. obj \<noteq> PyTuple vs) \<and> (\<forall>es. obj \<noteq> PyDict es)"
proof -
  note c = assms(1) [unfolded cast_k_to_py_inner.simps [of h v depth]] and e = assms(2) [unfolded py_exact.simps [of v]]
  show ?thesis
  proof (cases v)
  case (KMixedList vs)
  then show ?thesis using assms(4) by blast
next
  case (KDict d)
  then show ?thesis using assms(5) by blast
next
  case (KDateTime t)
  then have "datetime_to_py h t = Inr obj" "MIN_Q_TIMESTAMP_UNIX_NANOS \<le> t" "t \<le> 9223372036854775807"
    using c e by (auto split: if_splits)
  then show ?thesis using KDateTime datetime_returns [OF _ assms(3)]
    by (auto simp: datetime_to_py_def Let_def rbind_Inr_iff split: prod.splits)
next
  case (KTime secs n)
  then have "time_to_py secs n = Inr obj" "n mod 1000000 = 0"
    using c e by (auto split: if_splits)
  then show ?thesis using KTime time_returns by (auto simp: time_to_py_def rbind_Inr_iff)
next
  case (KDuration t)
  then have "duration_to_py t = Inr obj"
    using c by (auto split: if_splits)
  then show ?thesis using KDuration duration_returns by (auto simp: duration_to_py_def rbind_Inr_iff Let_def split: if_splits)
next
  case (KDate n)
  then obtain y m d where "host_civil h n = (y, m, d)" "1 \<le> y" "y \<le> 9999" "obj = PyDate y m d"
    using c by (auto simp: python_date_parts_def rbind_Inr_iff split: if_splits prod.splits)
  then show ?thesis using KDate assms(3) by (auto simp: scalar_k_def calendar_ok_def)
next
  case (KI64 w)
  then show ?thesis using c sint_lt [of w] sint_ge [of w] by (auto simp: scalar_k_def split: if_splits)
  qed (use c e in \<open>auto simp: scalar_k_def split: if_splits\<close>)
qed

lemma list_all2_chain:
  assumes "list_all2 P xs ys" "list_all2 Q zs ys" "\<And>x y z. x \<in> set xs \<Longrightarrow> P x y \<Longrightarrow> Q z y \<Longrightarrow> R z x"
  shows "list_all2 R zs xs"
  using assms by (auto simp: list_all2_conv_all_nth)

lemma python_round_trip:
  assumes "calendar_ok h days" "cast_k_to_py_inner h v depth = Inr obj" "py_exact v" "represents py days active x obj"
  shows "cast_to_k_inner py depth x active = (Inr v, active)"
  using assms(2-4)
proof (induction "size v" arbitrary: v depth obj active x rule: less_induct)
  case less
  note c = less.prems(1) [unfolded cast_k_to_py_inner.simps [of h v depth]] and e = less.prems(2) [unfolded py_exact.simps [of v]]
  have d: "depth \<le> MAX_CONVERSION_DEPTH" using c by (simp split: if_splits)
  consider (list) vs where "v = KMixedList vs" | (dict) es where "v = KDict es"
    | (scalar) "\<And>vs. v \<noteq> KMixedList vs" "\<And>es. v \<noteq> KDict es" by blast
  then show ?case
  proof cases
    case list
    then obtain objs where o: "rmap (\<lambda>x. cast_k_to_py_inner h x (depth + 1)) vs = Inr objs" "obj = PyTuple objs"
      using c d by (auto simp: rbind_Inr_iff)
    from less.prems(3) obtain l: "looks_like py days x (PyTuple objs)" "py_identity py x \<notin> active"
      "list_all2 (represents py days (insert (py_identity py x) active)) (py_items py x) objs"
      unfolding o(2) by (rule represents_tupleE) auto
    have "list_all2 (\<lambda>y v. cast_to_k_inner py (depth + 1) y (insert (py_identity py x) active)
        = (Inr v, insert (py_identity py x) active)) (py_items py x) vs"
    proof (rule list_all2_chain [OF list_all2_rmap [OF o(1)] l(3)])
      fix w y z assume "w \<in> set vs" "cast_k_to_py_inner h w (depth + 1) = Inr y"
        "represents py days (insert (py_identity py x) active) z y"
      then show "cast_to_k_inner py (depth + 1) z (insert (py_identity py x) active) = (Inr w, insert (py_identity py x) active)"
        using less.hyps [of w] k_size_members(1) [of w vs] e list by simp
    qed
    then show ?thesis using container_cast(1) [OF d l(1,2) refl] cast_items_all list by fastforce
  next
    case dict
    let ?f = "\<lambda>(key, x). rbind (cast_k_to_py_inner h x (depth + 1)) (\<lambda>y. Inr (key, y))"
    obtain objs where o: "rmap ?f es = Inr objs" "obj = PyDict objs" using c d dict by (auto simp: rbind_Inr_iff)
    from less.prems(3) obtain l: "looks_like py days x (PyDict objs)" "py_identity py x \<notin> active"
      "list_all2 (\<lambda>p e. py_str py (fst p) = Inr (fst e)
         \<and> represents py days (insert (py_identity py x) active) (snd p) (snd e)) (py_dict_items py x) objs"
      unfolding o(2) by (rule represents_dictE) auto
    have "list_all2 (\<lambda>p e. py_str py (fst p) = Inr (fst e)
        \<and> cast_to_k_inner py (depth + 1) (snd p) (insert (py_identity py x) active)
          = (Inr (snd e), insert (py_identity py x) active)) (py_dict_items py x) es"
    proof (rule list_all2_chain [OF list_all2_rmap [OF o(1)] l(3)])
      fix w y z assume w: "w \<in> set es" "?f w = Inr y" "py_str py (fst z) = Inr (fst y)
         \<and> represents py days (insert (py_identity py x) active) (snd z) (snd y)"
      then have "fst y = fst w" "cast_k_to_py_inner h (snd w) (depth + 1) = Inr (snd y)"
        by (auto simp: rbind_Inr_iff split: prod.splits)
      then show "py_str py (fst z) = Inr (fst w) \<and> cast_to_k_inner py (depth + 1) (snd z) (insert (py_identity py x) active)
          = (Inr (snd w), insert (py_identity py x) active)"
        using w less.hyps [of "snd w"] k_size_members(2) [of w es] e dict by simp
    qed
    then show ?thesis using container_cast(2) [OF d l(1,2) refl] cast_entries_all [of py _ _ _ es "[]"] e dict by fastforce
  next
    case scalar
    have k: "scalar_k days obj = Inr v" "\<And>vs. obj \<noteq> PyTuple vs" "\<And>es. obj \<noteq> PyDict es"
      using scalar_round_trip [OF less.prems(1,2) assms(1) scalar] by blast+
    show ?thesis using scalar_cast [OF represents_scalar [OF less.prems(3) k(2,3)] d k(2,3)] k(1) by simp
  qed
qed


section \<open>Examples\<close>

text \<open>An interpreter whose object references are the objects; on a path into an object the sizes decrease.\<close>

definition example_python :: "py_object python" where
  "example_python =
     \<lparr>py_isinstance = (\<lambda>x c. c \<in> py_classes x), py_is_none = (\<lambda>x. x = PyNone), py_identity = size,
      py_has_arrow_stream = (\<lambda>x. Inr (is_arrow x)),
      py_import = (\<lambda>x. case x of PyArrowSeries s \<Rightarrow> Inr (ArrowColumn s) | PyArrowTable df \<Rightarrow> Inr (ArrowFrame df) | _ \<Rightarrow> Inl TypeError),
      py_qvalue = (\<lambda>x. case x of PyQValue q \<Rightarrow> Inr q | _ \<Rightarrow> Inl TypeError),
      py_operator = (\<lambda>x. case x of PyQOperator q \<Rightarrow> Inr q | _ \<Rightarrow> Inl TypeError),
      py_lambda = (\<lambda>x. case x of PyQLambda q \<Rightarrow> Inr q | _ \<Rightarrow> Inl TypeError),
      py_bool = (\<lambda>x. case x of PyBool b \<Rightarrow> Inr b | _ \<Rightarrow> Inl TypeError),
      py_int = (\<lambda>x. case x of PyInt i \<Rightarrow> Inr i | _ \<Rightarrow> Inl TypeError),
      py_float = (\<lambda>x. case x of PyFloat f \<Rightarrow> Inr f | _ \<Rightarrow> Inl TypeError),
      py_str = (\<lambda>x. case x of PyStr s \<Rightarrow> Inr s | _ \<Rightarrow> Inl TypeError),
      py_bytes = (\<lambda>x. case x of PyBytes b \<Rightarrow> b | _ \<Rightarrow> []),
      py_bytes_attribute = (\<lambda>_. Inr None), py_nanosecond_attribute = (\<lambda>_. Inr None), py_tzinfo = (\<lambda>_. None),
      py_utcoffset = (\<lambda>_ _. Inl Raised), py_without_tzinfo = (\<lambda>_. Inl Raised), py_astimezone_utc = (\<lambda>_. Inl Raised),
      py_naive_datetime = (\<lambda>_. Inl TypeError), py_utc_datetime = (\<lambda>_. Inl TypeError),
      py_date = (\<lambda>x. case x of PyDate y m d \<Rightarrow> Inr y | _ \<Rightarrow> Inl TypeError),
      py_time = (\<lambda>_. Inl TypeError), py_delta = (\<lambda>_. Inl TypeError),
      py_dict_items = (\<lambda>x. case x of PyDict es \<Rightarrow> map (\<lambda>(key, v). (PyStr key, v)) es | _ \<Rightarrow> []),
      py_items = (\<lambda>x. case x of PyTuple vs \<Rightarrow> vs | _ \<Rightarrow> []),
      py_iter = (\<lambda>_. Inl TypeError), py_to_arrow_inputs = Inr\<rparr>"

lemma example_python_fields:
  "py_isinstance example_python x c \<longleftrightarrow> c \<in> py_classes x" "py_is_none example_python x \<longleftrightarrow> x = PyNone"
  "py_identity example_python x = size x" "py_has_arrow_stream example_python x = Inr (is_arrow x)"
  "py_int example_python (PyInt i) = Inr i" "py_str example_python (PyStr s) = Inr s"
  "py_date example_python (PyDate y m d) = Inr y" "py_items example_python (PyTuple vs) = vs"
  "py_dict_items example_python (PyDict es) = map (\<lambda>(key, v). (PyStr key, v)) es"
  by (simp_all add: example_python_def)

definition example_host :: host where
  "example_host = \<lparr>host_uuid_text = id, host_civil = (\<lambda>n. (n, 1, 1))\<rparr>"


text \<open>An interpreter in which every object is a list that contains itself.\<close>

definition cyclic_python :: "'o python" where
  "cyclic_python =
     \<lparr>py_isinstance = (\<lambda>x c. c = ListClass), py_is_none = (\<lambda>_. False), py_identity = (\<lambda>_. 0),
      py_has_arrow_stream = (\<lambda>_. Inr False), py_import = (\<lambda>_. Inl TypeError), py_qvalue = (\<lambda>_. Inl TypeError),
      py_operator = (\<lambda>_. Inl TypeError), py_lambda = (\<lambda>_. Inl TypeError), py_bool = (\<lambda>_. Inl TypeError),
      py_int = (\<lambda>_. Inl TypeError), py_float = (\<lambda>_. Inl TypeError), py_str = (\<lambda>_. Inl TypeError), py_bytes = (\<lambda>_. []),
      py_bytes_attribute = (\<lambda>_. Inr None), py_nanosecond_attribute = (\<lambda>_. Inr None), py_tzinfo = (\<lambda>_. None),
      py_utcoffset = (\<lambda>_ _. Inl Raised), py_without_tzinfo = (\<lambda>_. Inl Raised), py_astimezone_utc = (\<lambda>_. Inl Raised),
      py_naive_datetime = (\<lambda>_. Inl TypeError), py_utc_datetime = (\<lambda>_. Inl TypeError), py_date = (\<lambda>_. Inl TypeError),
      py_time = (\<lambda>_. Inl TypeError), py_delta = (\<lambda>_. Inl TypeError), py_dict_items = (\<lambda>_. []), py_items = (\<lambda>x. [x]),
      py_iter = (\<lambda>_. Inl TypeError), py_to_arrow_inputs = Inr\<rparr>"

theorem cyclic_containers_refused_witness: "\<exists>e. cast_to_k cyclic_python (1 :: nat) = Inl e"
proof -
  have "(1, 1) \<in> member_rel (cyclic_python :: nat python)"
    by (simp add: member_rel_def members_def is_container_def cyclic_python_def)
  then show ?thesis using cyclic_containers_refused [of 1 1 "cyclic_python :: nat python"] by blast
qed

theorem python_atom_well_formed_witness:
  "\<exists>q. py_atom example_python (PyStr (ascii ''short'')) (PyInt 7) = Inr q \<and> qv_bytes q = (0 - 5) # [7, 0]
     \<and> qv_type_code q = - int (unat (5 :: byte)) \<and> qv_len q = 1"
proof (rule python_atom_well_formed)
  show "parse_atom_kind example_python (PyStr (ascii ''short'')) = Inr 5"
    by (simp add: parse_atom_kind_def example_python_def atom_kind_names_def)
  show "atom_payload example_python 5 (PyInt 7) = Inr [7, 0]"
    by (simp add: atom_payload_def example_python_def extract_int_def le_word_def)
qed simp

text \<open>
  The text of a GUID is read with \<open>u8::from_str_radix\<close>, which takes a plus sign for the sign of a number:
  sixteen pairs of a plus sign and a digit are no UUID, and are accepted.
\<close>

lemma hex_bytes_plus: "hex_bytes (concat (replicate n [43, 49])) = Some (replicate n 1)"
  by (induction n) (simp_all add: from_str_radix_16_def hex_digit_def)

lemma length_concat_replicate: "length (concat (replicate n xs)) = n * length xs"
  by (induction n) simp_all

lemma guid_text_with_plus_signs:
  "atom_payload example_python 2 (PyStr (concat (replicate 16 (ascii ''+1'')))) = Inr (replicate 16 1)"
proof -
  let ?t = "concat (replicate 16 [43, 49 :: byte])"
  have "ascii ''+1'' = [43, 49]" by (simp add: ascii_def)
  moreover have "filter (\<lambda>c. c \<noteq> 45) ?t = ?t" "\<not> list_ex (\<lambda>c. c \<ge> 128) ?t"
    by (auto simp: filter_id_conv list_ex_iff)
  ultimately show ?thesis
    by (simp add: atom_payload_def parse_guid_bytes_def example_python_def Let_def length_concat_replicate hex_bytes_plus)
qed

end
