(* ===== verification/PyConnector.thy ===== *)
theory PyConnector
  imports PyArrow PyConvertCorrect WorkerOptions ConnectorCorrect
begin

text \<open>
  The connector of the Python binding and the functions of its module (\<open>py-xqdb/src/connector.rs\<close>): the
  arguments of the constructor, the methods, each of which holds the lock of the connector for one
  operation of the core, and the readers and writers of messages, values and files.

  The lock makes every method one step of the connector; the abort handle is used without it. What the
  methods are given of Python is the record \<open>python\<close>, with Arrow objects imported by \<open>import_value\<close>.
\<close>

section \<open>Arguments\<close>

definition py_symbol_encoding :: "bytes \<Rightarrow> symbol_encoding presult" where
  "py_symbol_encoding v = ok_or (encoding_from_name v) ValueError"

definition parse_compression :: "bytes \<Rightarrow> compression_policy presult" where
  "parse_compression v =
     (if v = ascii ''auto'' then Inr Auto else if v = ascii ''on'' then Inr On
      else if v = ascii ''off'' then Inr Off else Inl ValueError)"

definition MAX_TIMEOUT_SECONDS :: int where "MAX_TIMEOUT_SECONDS = 86400"

definition parse_timeout :: "f64 \<Rightarrow> duration presult" where
  "parse_timeout seconds =
     (if \<not> f64_is_finite seconds \<or> f64_num seconds < 0 \<or> f64_num seconds > MAX_TIMEOUT_SECONDS * int (f64_den seconds)
      then Inl ValueError
      else let d = duration_from_secs_f64 seconds in Inr (if f64_num seconds > 0 \<and> d = 0 then 1 else d))"

definition parse_optional_timeout :: "f64 option \<Rightarrow> duration option presult" where
  "parse_optional_timeout v =
     (case v of None \<Rightarrow> Inr None | Some seconds \<Rightarrow> rbind (parse_timeout seconds) (\<lambda>d. Inr (Some d)))"

definition parse_pem :: "'o python \<Rightarrow> 'o option \<Rightarrow> bytes option presult" where
  "parse_pem py v =
     (case v of
        None \<Rightarrow> Inr None
      | Some v \<Rightarrow>
          if py_isinstance py v BytesClass then Inr (Some (py_bytes py v))
          else (case py_str py v of Inr text \<Rightarrow> Inr (Some text) | Inl _ \<Rightarrow> Inl TypeError))"

record 'o init_args =
  ia_host :: bytes
  ia_port :: "16 word"
  ia_user :: bytes
  ia_password :: bytes
  ia_enable_tls :: bool
  ia_timeout :: f64
  ia_version :: byte
  ia_lossless :: bool
  ia_compression :: bytes
  ia_compression_threshold :: nat
  ia_connect_timeout :: "f64 option"
  ia_read_timeout :: "f64 option"
  ia_write_timeout :: "f64 option"
  ia_max_message_bytes :: "nat option"
  ia_max_pending_notifications :: nat
  ia_tls_ca :: "'o option"
  ia_tls_cert :: "'o option"
  ia_tls_key :: "'o option"
  ia_tls_server_name :: "bytes option"

definition mode_of :: "bool \<Rightarrow> QTypes.value_mode" where
  "mode_of lossless = (if lossless then Lossless else Native)"

definition init_settings :: "'o python \<Rightarrow> 'o init_args \<Rightarrow> connector_settings presult" where
  "init_settings py a =
     rbind (parse_compression (ia_compression a)) (\<lambda>mode.
     rbind (parse_optional_timeout (ia_connect_timeout a)) (\<lambda>connect_t.
     rbind (parse_optional_timeout (ia_read_timeout a)) (\<lambda>read_t.
     rbind (parse_optional_timeout (ia_write_timeout a)) (\<lambda>write_t.
     rbind (parse_pem py (ia_tls_ca a)) (\<lambda>ca.
     rbind (parse_pem py (ia_tls_cert a)) (\<lambda>cert.
     rbind (parse_pem py (ia_tls_key a)) (\<lambda>key.
     Inr \<lparr>value_mode = mode_of (ia_lossless a), compression = mode, compression_threshold = ia_compression_threshold a,
          connect_timeout = connect_t, read_timeout = read_t, write_timeout = write_t,
          max_message_bytes = ia_max_message_bytes a, max_pending_notifications = ia_max_pending_notifications a,
          tls_ca = ca, tls_cert = cert, tls_key = key, tls_server_name = ia_tls_server_name a\<rparr>)))))))"

definition py_init :: "network \<Rightarrow> 'o python \<Rightarrow> 'o init_args \<Rightarrow> connector presult" where
  "py_init net py a =
     (if ia_compression_threshold a = 0 then Inl ValueError
      else if ia_max_message_bytes a = Some 0 then Inl ValueError
      else if ia_max_pending_notifications a = 0 then Inl ValueError
      else
      rbind (parse_timeout (ia_timeout a)) (\<lambda>t.
      rbind (init_settings py a) (\<lambda>st.
      case configure net st ((connector_new (ia_host a) (ia_port a) (ia_user a) (ia_password a) (ia_enable_tls a) 0 (ia_version a))
             \<lparr>timeout := t\<rparr>) of
        (Inl e, _) \<Rightarrow> Inl (py_error_of e)
      | (Inr _, c) \<Rightarrow> Inr c)))"

section \<open>Methods\<close>

definition py_outcome :: "'a xresult \<times> connector \<Rightarrow> 'a presult \<times> connector" where
  "py_outcome rc = (case rc of (r, c) \<Rightarrow> (py_result r, c))"

definition get_symbol_encoding :: "connector \<Rightarrow> bytes" where
  "get_symbol_encoding c = encoding_name (symbol_encoding c)"

definition set_symbol_encoding :: "bytes \<Rightarrow> connector \<Rightarrow> unit presult \<times> connector" where
  "set_symbol_encoding v c =
     (case py_symbol_encoding v of
        Inl e \<Rightarrow> (Inl e, c)
      | Inr encoding \<Rightarrow> (Inr (), c\<lparr>symbol_encoding := encoding\<rparr>))"

definition py_connect :: "network \<Rightarrow> connector \<Rightarrow> unit presult \<times> connector" where
  "py_connect net c = py_outcome (connect net c)"

definition cancel :: "network \<Rightarrow> connector \<Rightarrow> unit presult \<times> connector" where
  "cancel net c =
     (case handle_abort (net_shutdown net) (abort_world c) of (r, w) \<Rightarrow> (py_result r, c\<lparr>abort_world := w\<rparr>))"

definition py_shutdown :: "network \<Rightarrow> connector \<Rightarrow> unit presult \<times> connector" where
  "py_shutdown net c =
     (case cancel net c of
        (Inl e, c) \<Rightarrow> (Inl e, c)
      | (Inr _, c) \<Rightarrow>
          (case shutdown net c of
             (Inl NotConnectedErr, c) \<Rightarrow> (Inr (), c)
           | (r, c) \<Rightarrow> (py_result r, c)))"

definition py_sync :: "network \<Rightarrow> 'o python \<Rightarrow> host \<Rightarrow> bytes \<Rightarrow> 'o list \<Rightarrow> connector \<Rightarrow> py_object presult \<times> connector" where
  "py_sync net py h expr args c =
     (case cast_to_k_vec py args of
        Inl e \<Rightarrow> (Inl e, c)
      | Inr ks \<Rightarrow>
          (case py_outcome (execute net expr ks c) of
             (Inl e, c') \<Rightarrow> (Inl e, c')
           | (Inr v, c') \<Rightarrow> (cast_k_to_py h v, c')))"

definition py_asyn :: "network \<Rightarrow> 'o python \<Rightarrow> bytes \<Rightarrow> 'o list \<Rightarrow> connector \<Rightarrow> unit presult \<times> connector" where
  "py_asyn net py expr args c =
     (case cast_to_k_vec py args of
        Inl e \<Rightarrow> (Inl e, c)
      | Inr ks \<Rightarrow> py_outcome (execute_async net expr ks c))"

definition py_receive :: "network \<Rightarrow> host \<Rightarrow> connector \<Rightarrow> py_object presult \<times> connector" where
  "py_receive net h c =
     (case py_outcome (receive net c) of
        (Inl e, c') \<Rightarrow> (Inl e, c')
      | (Inr v, c') \<Rightarrow> (cast_k_to_py h v, c'))"

section \<open>Functions of the module\<close>

definition py_read_binary_table ::
  "file_system \<Rightarrow> lz4_codec \<Rightarrow> externals \<Rightarrow> bytes \<Rightarrow> bytes \<Rightarrow> py_object presult" where
  "py_read_binary_table fs lz4 ext filepath encoding =
     rbind (py_symbol_encoding encoding) (\<lambda>enc.
     rbind (py_result (read_j6_binary_table fs lz4 ext filepath enc)) (\<lambda>df. Inr (PyArrowTable df)))"

definition py_deserialize_value6 :: "externals \<Rightarrow> host \<Rightarrow> bytes \<Rightarrow> bytes \<Rightarrow> bool \<Rightarrow> py_object presult" where
  "py_deserialize_value6 ext h body encoding lossless =
     rbind (py_symbol_encoding encoding) (\<lambda>enc.
     rbind (py_result (deserialize_j6 ext body enc (mode_of lossless))) (cast_k_to_py h))"

definition py_deserialize_ipc_bytes6 :: "externals \<Rightarrow> host \<Rightarrow> bytes \<Rightarrow> bytes \<Rightarrow> bool \<Rightarrow> py_object presult" where
  "py_deserialize_ipc_bytes6 ext h frame encoding lossless =
     rbind (py_symbol_encoding encoding) (\<lambda>enc.
     rbind (py_result (deserialize_j6_ipc_msg ext frame enc (mode_of lossless))) (\<lambda>(kind, v).
     rbind (cast_k_to_py h v) (\<lambda>obj. Inr (PyTuple [PyStr (message_type_name kind), obj]))))"

definition py_generate_ipc_msg :: "'o python \<Rightarrow> byte \<Rightarrow> bool \<Rightarrow> 'o \<Rightarrow> py_object presult" where
  "py_generate_ipc_msg py kind enable_compression any =
     rbind (if kind = 0 then Inr Async else if kind = 1 then Inr Sync else if kind = 2 then Inr Response else Inl ValueError) (\<lambda>kind.
     rbind (cast_to_k py any) (\<lambda>v.
     rbind (py_result (generate_j6_ipc_msg kind enable_compression v)) (\<lambda>bs. Inr (PyBytes bs))))"

section \<open>Properties\<close>

text \<open>The connectors Python programs can have: built by the constructor and changed by the methods;
  the references to objects are addresses.\<close>

inductive py_reachable :: "nat \<Rightarrow> connector \<Rightarrow> bool" where
  init: "py_init net (py :: nat python) a = Inr c \<Longrightarrow> py_reachable (ia_max_pending_notifications a) c"
| encoding: "py_reachable m c \<Longrightarrow> set_symbol_encoding v c = (r, c') \<Longrightarrow> py_reachable m c'"
| connecting: "py_reachable m c \<Longrightarrow> py_connect net c = (r, c') \<Longrightarrow> py_reachable m c'"
| cancelling: "py_reachable m c \<Longrightarrow> cancel net c = (r, c') \<Longrightarrow> py_reachable m c'"
| closing: "py_reachable m c \<Longrightarrow> py_shutdown net c = (r, c') \<Longrightarrow> py_reachable m c'"
| calling: "py_reachable m c \<Longrightarrow> py_sync net (py :: nat python) h expr args c = (v, c') \<Longrightarrow> py_reachable m c'"
| notifying: "py_reachable m c \<Longrightarrow> py_asyn net (py :: nat python) expr args c = (r, c') \<Longrightarrow> py_reachable m c'"
| receiving: "py_reachable m c \<Longrightarrow> py_receive net h c = (v, c') \<Longrightarrow> py_reachable m c'"

lemma configure_ok: "configure net st c = (Inr u, c') \<Longrightarrow> c' = c\<lparr>settings := st\<rparr>"
  by (auto simp: configure_def split: if_splits sum.splits)

lemma case_outcome_Inr:
  "(case r of (Inl e, c') \<Rightarrow> Inl (f e) | (Inr u, c') \<Rightarrow> Inr c') = Inr c \<longleftrightarrow> (\<exists>u. r = (Inr u, c))"
  by (auto split: prod.split sum.split)

lemma init_settings_limit: "init_settings py a = Inr st \<Longrightarrow> max_pending_notifications st = ia_max_pending_notifications a"
  by (auto simp: init_settings_def rbind_Inr_iff)

lemma py_init_inv:
  assumes "py_init net py a = Inr c"
  shows "conn_inv (ia_max_pending_notifications a) c"
proof -
  let ?c = "connector_new (ia_host a) (ia_port a) (ia_user a) (ia_password a) (ia_enable_tls a) 0 (ia_version a)"
  obtain t st u where "init_settings py a = Inr st" "configure net st (?c\<lparr>timeout := t\<rparr>) = (Inr u, c)"
    "0 < ia_max_pending_notifications a"
    using assms by (auto simp: py_init_def rbind_Inr_iff case_outcome_Inr split: if_splits)
  then show ?thesis
    using init_settings_limit configure_ok by (fastforce simp: conn_inv_def connector_new_def Let_def)
qed

lemma cancel_inv: "conn_inv m c \<Longrightarrow> cancel net c = (r, c') \<Longrightarrow> conn_inv m c'"
  by (auto simp: cancel_def split: prod.splits)

lemma py_shutdown_inv: "conn_inv m c \<Longrightarrow> py_shutdown net c = (r, c') \<Longrightarrow> conn_inv m c'"
  by (auto simp: py_shutdown_def dest: cancel_inv shutdown_inv split: prod.splits sum.splits xqdb_error.splits)

lemma py_reachable_inv: "py_reachable m c \<Longrightarrow> conn_inv m c"
proof (induction rule: py_reachable.induct)
  case (encoding m c v r c')
  then show ?case by (auto simp: set_symbol_encoding_def conn_inv_def split: sum.splits)
qed (auto simp: py_connect_def py_sync_def py_asyn_def py_receive_def py_outcome_def split: prod.splits sum.splits
  dest: py_init_inv cancel_inv py_shutdown_inv connect_inv execute_inv execute_async_inv receive_inv)

text \<open>
  Whatever a Python program does with a connector, it has a socket exactly when it has a connection,
  never queues more notifications than the constructor allowed, and keeps no buffer above the retention
  limit; a shutdown that reports success leaves it without a connection.
\<close>
theorem python_connector_invariant:
  assumes "py_reachable m c"
  shows "(stream c = None \<longleftrightarrow> tcp_stream c = None) \<and> length (pending_notifications c) \<le> m
    \<and> vcap (receive_buffer c) \<le> MAX_RETAINED_BUFFER_BYTES \<and> vcap (send_buffer c) \<le> MAX_RETAINED_BUFFER_BYTES
    \<and> (fst (py_shutdown net c) = Inr () \<longrightarrow> stream (snd (py_shutdown net c)) = None)"
proof -
  have "fst (py_shutdown net c) = Inr () \<longrightarrow> stream (snd (py_shutdown net c)) = None"
    by (auto simp: py_shutdown_def shutdown_def py_result_def split: prod.splits sum.splits xqdb_error.splits option.splits if_splits)
  then show ?thesis using py_reachable_inv [OF assms] by (simp add: conn_inv_def retained_def)
qed

definition example_args :: "nat init_args" where
  "example_args =
     \<lparr>ia_host = [], ia_port = 5000, ia_user = [], ia_password = [], ia_enable_tls = False, ia_timeout = 0, ia_version = 6,
      ia_lossless = False, ia_compression = ascii ''auto'', ia_compression_threshold = 10000000, ia_connect_timeout = None,
      ia_read_timeout = None, ia_write_timeout = None, ia_max_message_bytes = None, ia_max_pending_notifications = 16,
      ia_tls_ca = None, ia_tls_cert = None, ia_tls_key = None, ia_tls_server_name = None\<rparr>"

theorem python_connector_invariant_witness:
  "\<exists>c. py_init example_network cyclic_python example_args = Inr c \<and> length (pending_notifications c) \<le> 16"
proof -
  have "f64_num 0 = 0" "f64_is_finite 0" by (simp_all add: f64_num_def f64_mantissa_def f64_is_finite_def)
  then obtain d where d: "parse_timeout 0 = Inr d"
    by (auto simp: parse_timeout_def MAX_TIMEOUT_SECONDS_def Let_def)
  obtain c where c: "py_init example_network cyclic_python example_args = Inr c"
    using d by (simp add: py_init_def init_settings_def parse_compression_def parse_optional_timeout_def parse_pem_def
      example_args_def configure_def connector_new_def)
  have "py_reachable 16 c" using py_reachable.init [OF c] by (simp add: example_args_def)
  then show ?thesis using python_connector_invariant c by blast
qed

end
