(* ===== verification/Spec2Isabelle.thy ===== *)
theory Spec2Isabelle
  imports QValueCorrect CompressionCorrect Frame Abort Admission ListScanCorrect KLenCorrect SymbolCache
    PipelineCorrect ConnectorCorrect KValueRoundTrip NativeDtoCorrect WorkerCorrect FileIoCorrect UtilityCorrect
    PyConnector
begin

text \<open>
  \<^bold>\<open>A verification library for xqdb\<close>, a client of kdb+/q: a Rust crate that speaks the q IPC protocol and
  decodes q values to columns, and its bindings to Node and Python.

  \<^bold>\<open>The program.\<close> The core crate (\<open>crates/xqdb/src\<close>) has six parts. A connection (\<open>connector.rs\<close>) opens a
  socket, authenticates, sends requests and receives frames, one operation at a time, any of which
  another thread may abort. A frame has an eight-byte header and a body, possibly compressed
  (\<open>serde6.rs\<close>). A body is read in one of two modes: \<^emph>\<open>lossless\<close>, where a structural parser (\<open>qvalue.rs\<close>)
  checks the bytes and keeps them, and \<^emph>\<open>native\<close>, where the deserializer (\<open>serde6.rs\<close>) makes atoms,
  columns and tables (\<open>types.rs\<close>) of them; a large table is decoded column by column while its frame is
  still arriving (\<open>pipeline.rs\<close>). The serializer goes the other way. Files and messages as bytes use the
  same code (\<open>io.rs\<close>). The Node binding (\<open>bindings/napi-xqdb/src\<close>) gives each connection a worker thread
  that takes commands from bounded slots and answers promises; the Python binding (\<open>py-xqdb/src\<close>) holds
  a lock for each operation. Both convert between the values of their language and q values.

  \<^bold>\<open>Theories.\<close>
  \<^item> \<open>Prelude\<close>, \<open>Errors\<close>: results, slices, machine arithmetic, little-endian numbers; \<open>errors.rs\<close> of the core
    and of the Node binding. \<open>Utf8\<close>, \<open>QTypes\<close>, \<open>Ieee754\<close>: UTF-8 validation and lossy transcoding, operators,
    lambdas and wire sizes, the floating-point operations the serializer uses.
  \<^item> \<open>QValue\<close>, \<open>QValueSpec\<close>, \<open>QValueCorrect\<close>: the lossless parser and constructors, a grammar of value trees,
    and that the parser accepts exactly the encodings of trees within the depth limit.
  \<^item> \<open>Compression\<close>, \<open>CompressionCorrect\<close>: both directions with their hash tables; the round trip, size bounds
    and freedom from panics. \<open>Frame\<close>: headers, limits and the splitting of frames.
  \<^item> \<open>ListScan\<close>, \<open>ListScanCorrect\<close>: the scan for the end of a list that stops where the received bytes end and
    resumes later; it finds what a scan of the complete bytes finds.
  \<^item> \<open>KTypes\<close>, \<open>KLen\<close>, \<open>KSerialize\<close>, \<open>KDeserialize\<close>: native values, the announced size, the serializer and the
    deserializer. \<open>KLenCorrect\<close>: the announced size is what is written. \<open>KRoundTrip\<close>, \<open>KValueRoundTrip\<close>: what q
    can hold exactly is read back. \<open>SymbolCache\<close>: the interner and the lookup of symbol columns are
    transparent.
  \<^item> \<open>NetStream\<close>, \<open>Receive\<close>, \<open>ReceiveCorrect\<close>, \<open>Pipeline\<close>, \<open>PipelineCorrect\<close>: what reading a socket meets, receiving a
    frame in any fragmentation with memory that follows the bytes delivered, and the pipelined decoder,
    which refines the decoder of complete tables for every interleaving of its tasks.
  \<^item> \<open>Abort\<close>, \<open>Connector\<close>, \<open>ConnectorCorrect\<close>: the abort handle and the connection, every operation with its
    aborts and failures; the invariant of the connection, one frame per request, the response that an
    execution returns, and that aborted or broken connections are not used again.
  \<^item> \<open>FileIo\<close>, \<open>FileIoCorrect\<close>: files, the Kxzip container and messages as bytes.
  \<^item> \<open>NativeDto\<close>, \<open>NativeDtoCorrect\<close>, \<open>Utility\<close>, \<open>UtilityCorrect\<close>: values at the JavaScript boundary with their byte
    budget, and the functions of the Node module. \<open>Admission\<close>, \<open>WorkerOptions\<close>, \<open>Worker\<close>, \<open>WorkerInvariant\<close>,
    \<open>WorkerCorrect\<close>: admission control, options, and the steps of the JavaScript thread and the worker thread;
    promises are answered exactly once and in order, and the worker ends when its connector is dropped.
  \<^item> \<open>PyConvert\<close>, \<open>PyConvertCorrect\<close>, \<open>PyArrow\<close>, \<open>PyConnector\<close>: conversions of Python objects, which may share and
    contain each other, Arrow streams, and the methods of the Python connector.
  \<^item> This theory: a lossless value on its way from Python to Node, and what the documentation says
    differently from the code.

  \<^bold>\<open>Conventions.\<close> \<open>usize\<close> and \<open>u64\<close> are natural numbers with every check against \<open>2 ^ 64\<close> written out; \<open>i16\<close>, \<open>i32\<close>,
  \<open>i64\<close>, \<open>f32\<close> and \<open>f64\<close> are words, floats by their bit patterns; bytes and Rust strings are lists of 8-bit
  words. A \<open>Result\<close> is a sum with the error on the left and \<open>rbind\<close> for the question mark; a panic is the
  error \<open>Panicked\<close> (an exception in Python), so that its absence is a theorem where it is claimed. Error
  values carry their numbers and the text of the server, not the other message texts. Allocation is
  taken to succeed: the \<open>try_reserve\<close> branches are left out. Loops are recursive functions, total by a
  measure: the bytes left, the depth left below the limit of 64 (\<open>MAX_VALUE_DEPTH\<close>,
  \<open>MAX_CONVERSION_DEPTH\<close>), or the events a socket still has. The fuel of \<open>parse_value_fuel\<close> is the depth limit,
  and the recursion equation without fuel is proved, so that it is never what ends a parse.

  \<^bold>\<open>Interfaces.\<close> Four contracts are locales, each interpreted on the model. \<open>value_reader\<close>: what the parser
  of a container relies on from the parser of its members. \<open>body_codec\<close>: what framing needs from
  compression. \<open>resumable_scan\<close>: what the reading loop needs from a suspended scan. \<open>io_operation\<close>: what every
  operation of the connection, sending, connecting, receiving and executing, keeps for the guard that
  wraps it.

  \<^bold>\<open>Parameters.\<close> Code outside the repository is an argument: the calendar and the frame library
  (\<open>externals\<close>), sockets, name resolution, clock and TLS (\<open>network\<close>), the scheduler of the decode tasks
  (\<open>schedule\<close>), Node-API, Arrow streams and text formats of the Node binding (\<open>node\<close>, \<open>libraries\<close>), files and
  LZ4 (\<open>file_system\<close>, \<open>lz4_codec\<close>), the category mapping (\<open>category_mapping\<close>), the Python interpreter and the
  Arrow library (\<open>python\<close>, \<open>host\<close>, \<open>arrow_library\<close>, \<open>arrow_calls\<close>). What a theorem needs of them is a hypothesis
  of it, and its witness has an instance.

  \<^bold>\<open>Not modelled.\<close> The construction of a TLS configuration and the texts of errors, of \<open>Display\<close> and of \<open>Debug\<close>;
  hash functions; module registration; the building of exported Arrow streams, which is a sequence of
  library calls; the thread that joins ended workers; memory exhaustion. The TypeScript and Python
  layers above the bindings, the tests and the benchmarks are outside the library.

  \<^bold>\<open>Findings.\<close> A GUID text may contain plus signs (\<open>guid_text_with_plus_signs\<close> in \<open>PyConvertCorrect\<close>). The
  last section of this theory has three places where the documented mapping of types differs from the
  code: infinities inside nested lists, the empty byte list, and lists of datetimes.
\<close>

section \<open>Lossless values across the bindings\<close>

text \<open>
  C32: a value body that Python reads losslessly reaches Node unchanged: the value object holds exactly
  the bytes of the body, an object reference that stands for it can be written as a message of every
  type, compressed or not, Python reads the same object and message type back from the message, and
  Node reads from it a value with the same bytes.
\<close>
theorem lossless_value_crosses_bindings:
  assumes "py_deserialize_value6 ext h bs enc True = Inr obj" "represents py days {} x obj"
    and "length bs + 8 < 1099511627776"
  shows "\<exists>q m n. obj = PyQValue q \<and> qv_bytes q = bs
    \<and> py_generate_ipc_msg py (msg_type_code kind) compressed x = Inr (PyBytes m)
    \<and> py_deserialize_ipc_bytes6 ext h m enc True = Inr (PyTuple [PyStr (message_type_name kind), obj])
    \<and> run_operation env (DeserializeIpc m enc' Lossless) = result_success_with_message (message_type_name kind) n
    \<and> nv_bytes n = Some bs"
proof -
  obtain e q where q: "py_symbol_encoding enc = Inr e" "from_bytes bs = Inr q" "obj = PyQValue q"
    using assms(1)
    by (cases "from_bytes bs") (auto simp: py_deserialize_value6_def mode_of_def deserialize_j6_def py_result_def rbind_Inr_iff
      cast_k_to_py_def cast_k_to_py_inner.simps)
  have small: "length bs < 2 ^ 53" using assms(3) by simp
  note ok = from_bytes_native_ok [OF q(2) small]
  have "looks_like py days x obj" using assms(2) q(3) by (auto elim: represents.cases)
  then have k: "cast_to_k py x = Inr (KQValue q)"
    using scalar_cast [of py days x obj 0 "{}"] q(3) by (simp add: cast_to_k_def scalar_k_def)
  obtain m where m: "generate_j6_ipc_msg kind compressed (KQValue q) = Inr m"
    using generate_qvalue [OF ok(3)] assms(3) ok(2) by fastforce
  note returned = generated_lossless [OF m, unfolded ok(2), OF ok(4) q(2)]
  have "py_generate_ipc_msg py (msg_type_code kind) compressed x = Inr (PyBytes m)"
    using m k by (cases kind) (simp_all add: py_generate_ipc_msg_def py_result_def)
  moreover have "py_deserialize_ipc_bytes6 ext h m enc True = Inr (PyTuple [PyStr (message_type_name kind), obj])"
    using q returned by (simp add: py_deserialize_ipc_bytes6_def mode_of_def py_result_def cast_k_to_py_def cast_k_to_py_inner.simps
      MAX_CONVERSION_DEPTH_def)
  ultimately show ?thesis
    using q ok(2) returned by (auto simp: run_operation_def Let_def from_xqdb_def qvalue_native)
qed

theorem lossless_value_crosses_bindings_witness:
  "\<exists>obj m n. py_deserialize_value6 example_externals example_host [250, 7, 0, 0, 0] (ascii ''strict'') True = Inr obj
    \<and> py_generate_ipc_msg example_python 1 True obj = Inr (PyBytes m)
    \<and> run_operation example_env (DeserializeIpc m Strict Lossless) = result_success_with_message (message_type_name msg_type.Sync) n
    \<and> nv_bytes n = Some [250, 7, 0, 0, 0]"
proof -
  have "admissible (TAtom 6 [7, 0, 0, 0])"
    by (simp add: admissible_def K_TYPE_SIZE_def MAX_VALUE_DEPTH_def)
  then have q: "from_bytes [250, 7, 0, 0, 0] = Inr (value_of (TAtom 6 [7, 0, 0, 0]))"
    by (subst from_bytes_iff) (auto intro!: exI [of _ "TAtom 6 [7, 0, 0, 0]"])
  let ?obj = "PyQValue (value_of (TAtom 6 [7, 0, 0, 0]))"
  have "py_deserialize_value6 example_externals example_host [250, 7, 0, 0, 0] (ascii ''strict'') True = Inr ?obj"
    using q by (simp add: py_deserialize_value6_def py_symbol_encoding_def encoding_from_name_def mode_of_def deserialize_j6_def
      py_result_def cast_k_to_py_def cast_k_to_py_inner.simps MAX_CONVERSION_DEPTH_def)
  moreover have "represents example_python (\<lambda>y m d. y) {} ?obj ?obj"
    by (rule represents.scalar) (simp_all add: looks_like_def is_arrow_def example_python_def)
  ultimately show ?thesis
    using lossless_value_crosses_bindings [where kind = msg_type.Sync and compressed = True and env = example_env and enc' = Strict]
    by fastforce
qed

section \<open>Where the documentation differs\<close>

text \<open>A short infinity is null in a plain list and a number in a nested one.\<close>

lemma nested_infinities_kept:
  "decode_fixed_column 5 [255, 127] = Inr (Int16Col [None])"
  "nested_child 5 [255, 127] [] = Inr (Int16Col [Some 32767])"
  by (simp_all add: decode_fixed_column_def nested_child_def decode_wire_numbers_def wire_chunks.simps of_le_def nulls_def
    finite_i16_def I16_MIN_def I16_MAX_def)

text \<open>An empty byte list becomes a column of texts.\<close>

lemma empty_byte_list_is_text:
  "deserialize_series [0, 0, 0, 0, 0] 4 enc as_column = Inr (named_series 4 (StringCol []))"
  by (simp add: deserialize_series_def take_list_length_def new_empty_series_def K_TYPE_SIZE_def checked_add_def get_range_def usize_of_int_def le_i32_def)

text \<open>A list of datetimes becomes a column of timestamps in nanoseconds.\<close>

lemma datetime_lists_in_nanoseconds:
  "decode_fixed_column 15 payload = Inr c \<Longrightarrow> \<exists>vs. c = DatetimeCol Nanoseconds vs"
  by (auto simp: decode_fixed_column_def rbind_Inr_iff)

end
